(* ===== verification/Prelude.thy ===== *)
theory Prelude
  imports Main "HOL-Library.Word" "HOL-Library.Monad_Syntax"
begin

text \<open>
  Shared ground of the development: the machine types of the server, bounds-checked memory
  (an access out of range is undefined behaviour of C++ and is \<^const>\<open>None\<close> here), the
  little-endian memory images of the integers, the wrap-around of C++ conversions, and the
  generic lemmas and collections of facts that the component theories use.
\<close>

unbundle bit_operations_syntax

type_synonym byte = "8 word"
type_synonym u16 = "16 word"
type_synonym u32 = "32 word"
type_synonym u64 = "64 word"

named_theorems mem_simps \<open>closed forms of bounds-checked memory operations\<close>
named_theorems wire_simps \<open>lengths and inverses of wire and memory images\<close>
named_theorems inv_intros \<open>an operation keeps an invariant\<close>

section \<open>Bounds-checked memory\<close>

definition peek :: "byte list \<Rightarrow> nat \<Rightarrow> byte option" where
  "peek b i = (if i < length b then Some (b ! i) else None)"

definition poke :: "byte list \<Rightarrow> nat \<Rightarrow> byte \<Rightarrow> byte list option" where
  "poke b i v = (if i < length b then Some (b[i := v]) else None)"

text \<open>A run of \<open>n\<close> bytes read from, or overwritten at, an offset.\<close>

definition slice :: "'a list \<Rightarrow> nat \<Rightarrow> nat \<Rightarrow> 'a list" where
  "slice b p n = take n (drop p b)"

definition patch :: "'a list \<Rightarrow> nat \<Rightarrow> 'a list \<Rightarrow> 'a list" where
  "patch b p bs = take p b @ bs @ drop (p + length bs) b"

definition peeks :: "byte list \<Rightarrow> nat \<Rightarrow> nat \<Rightarrow> byte list option" where
  "peeks b p n = (if p + n \<le> length b then Some (slice b p n) else None)"

definition pokes :: "byte list \<Rightarrow> nat \<Rightarrow> byte list \<Rightarrow> byte list option" where
  "pokes b p bs = (if p + length bs \<le> length b then Some (patch b p bs) else None)"

lemma length_slice [simp]: "p + n \<le> length b \<Longrightarrow> length (slice b p n) = n"
  by (simp add: slice_def)

lemma length_patch [simp]: "p + length bs \<le> length b \<Longrightarrow> length (patch b p bs) = length b"
  by (simp add: patch_def)

lemma nth_slice [simp]: "i < n \<Longrightarrow> p + n \<le> length b \<Longrightarrow> slice b p n ! i = b ! (p + i)"
  by (simp add: slice_def)

lemma slice_patch_same: "p \<le> length b \<Longrightarrow> slice (patch b p bs) p (length bs) = bs"
  by (simp add: slice_def patch_def min_absorb2)

lemma slice_patch_before: "q + n \<le> p \<Longrightarrow> p \<le> length b \<Longrightarrow> slice (patch b p bs) q n = slice b q n"
  by (simp add: slice_def patch_def min_absorb2 drop_take)

lemma slice_patch_after:
  "p + length bs \<le> q \<Longrightarrow> p + length bs \<le> length b \<Longrightarrow> slice (patch b p bs) q n = slice b q n"
  by (simp add: slice_def patch_def min_absorb2)

lemma patch_Nil [simp]: "patch b p [] = b"
  by (simp add: patch_def)

lemma patch_Cons:
  assumes "p < length b"
  shows "patch b p (x # xs) = patch (b[p := x]) (Suc p) xs"
proof -
  have "take (Suc p) (b[p := x]) = take p b @ [x]"
    using assms by (simp add: take_Suc_conv_app_nth)
  moreover have "drop (Suc (p + length xs)) (b[p := x]) = drop (Suc (p + length xs)) b"
    by simp
  ultimately show ?thesis by (simp add: patch_def)
qed

lemma pokes_Nil [simp]: "pokes b p [] = (if p \<le> length b then Some b else None)"
  by (simp add: pokes_def)

lemma pokes_Cons: "pokes b p (x # xs) = (poke b p x \<bind> (\<lambda>b. pokes b (Suc p) xs))"
  by (auto simp: pokes_def poke_def patch_Cons)

lemma poke_pokes: "poke b p x = pokes b p [x]"
  by (auto simp: pokes_def poke_def patch_Cons)

lemma patch_patch_adjacent:
  assumes "p + length xs + length ys \<le> length b"
  shows "patch (patch b p xs) (p + length xs) ys = patch b p (xs @ ys)"
  using assms by (simp add: patch_def min_absorb2 ac_simps)

lemma pokes_append: "pokes b p (xs @ ys) = (pokes b p xs \<bind> (\<lambda>b. pokes b (p + length xs) ys))"
  by (auto simp: pokes_def patch_patch_adjacent)

lemma pokes_SomeD: "pokes b p bs = Some b' \<Longrightarrow> p + length bs \<le> length b \<and> length b' = length b"
  by (auto simp: pokes_def split: if_splits)

lemma pokes_extend: "p = length b \<Longrightarrow> n = length bs \<Longrightarrow> pokes (b @ replicate n x) p bs = Some (b @ bs)"
  by (simp add: pokes_def patch_def)

lemma peeks_append [simp]: "peeks (xs @ bs @ ys) (length xs) (length bs) = Some bs"
  by (simp add: peeks_def slice_def)

lemma peeks_add:
  "peeks b p (m + n) = do { x \<leftarrow> peeks b p m; y \<leftarrow> peeks b (p + m) n; Some (x @ y) }"
  by (auto simp: peeks_def slice_def take_add drop_drop add.commute)

lemma peek_peeks: "i < n \<Longrightarrow> peeks b p n = Some s \<Longrightarrow> peek b (p + i) = Some (s ! i)"
  by (auto simp: peeks_def peek_def split: if_splits)

lemma peeks_length: "peeks b p n = Some s \<Longrightarrow> length s = n"
  by (auto simp: peeks_def split: if_splits)

lemma peeks_append_iff:
  "peeks b p (length xs + length ys) = Some (xs @ ys) \<longleftrightarrow>
   peeks b p (length xs) = Some xs \<and> peeks b (p + length xs) (length ys) = Some ys"
proof (cases "peeks b p (length xs)")
  case (Some u)
  then have "length u = length xs" by (rule peeks_length)
  with Some show ?thesis
    by (cases "peeks b (p + length xs) (length ys)") (auto simp: peeks_add)
qed (simp add: peeks_add)

section \<open>Words and their bytes\<close>

lemma word_ff_mask: "(0xff :: 'a::len word) = mask 8"
  by (simp add: mask_eq_exp_minus_1)

lemma ucast_and_ff [simp]: "(ucast (v AND 0xff :: 'a::len word) :: byte) = ucast v"
  unfolding word_ff_mask by (rule bit_word_eqI) (auto simp: bit_simps dest: bit_imp_le_length)

lemma take_bit_join:
  "take_bit m v + push_bit m (take_bit n (drop_bit m v)) = take_bit (m + n) (v :: 'a::len word)"
  by (subst disjunctive_add) (auto simp: bit_simps intro!: bit_word_eqI dest: bit_imp_le_length)

lemma ucast_ucast_take:
  "LENGTH('b) \<le> LENGTH('a) \<Longrightarrow>
   (ucast (ucast (v :: 'a::len word) :: 'b::len word) :: 'a word) = take_bit LENGTH('b) v"
  by (rule bit_word_eqI) (auto simp: bit_simps)

lemmas word_join = ucast_ucast_take take_bit_join take_bit_word_eq_self

text \<open>Two bytes are equal when their eight bits are.\<close>

lemma byte_eqI:
  assumes "bit a 0 = bit b 0" "bit a 1 = bit b 1" "bit a 2 = bit b 2" "bit a 3 = bit b 3"
    "bit a 4 = bit b 4" "bit a 5 = bit b 5" "bit a 6 = bit b 6" "bit a 7 = bit b 7"
  shows "a = (b :: byte)"
proof (rule bit_word_eqI)
  fix n :: nat
  assume "n < LENGTH(8)"
  then have "n = 0 \<or> n = 1 \<or> n = 2 \<or> n = 3 \<or> n = 4 \<or> n = 5 \<or> n = 6 \<or> n = 7" by simp linarith
  then show "bit a n = bit b n" using assms by auto
qed

text \<open>Images of the integers in the memory of the targets, x86-64 and ARMv7, both little-endian.\<close>

definition mem16 :: "u16 \<Rightarrow> byte list" where
  "mem16 v = [ucast v, ucast (drop_bit 8 v)]"

definition mem32 :: "u32 \<Rightarrow> byte list" where
  "mem32 v = [ucast v, ucast (drop_bit 8 v), ucast (drop_bit 16 v), ucast (drop_bit 24 v)]"

definition mem64 :: "u64 \<Rightarrow> byte list" where
  "mem64 v = mem32 (ucast v) @ mem32 (ucast (drop_bit 32 v))"

definition unmem16 :: "byte list \<Rightarrow> u16" where
  "unmem16 b = ucast (b ! 0) + push_bit 8 (ucast (b ! 1))"

definition unmem32 :: "byte list \<Rightarrow> u32" where
  "unmem32 b = ucast (b ! 0) + push_bit 8 (ucast (b ! 1)) + push_bit 16 (ucast (b ! 2))
     + push_bit 24 (ucast (b ! 3))"

definition unmem64 :: "byte list \<Rightarrow> u64" where
  "unmem64 b = ucast (unmem32 (take 4 b)) + push_bit 32 (ucast (unmem32 (drop 4 b)))"

lemma length_mem [simp, wire_simps]:
  "length (mem16 v) = 2" "length (mem32 w) = 4" "length (mem64 x) = 8"
  by (simp_all add: mem16_def mem32_def mem64_def)

lemma unmem_mem [simp, wire_simps]:
  "unmem16 (mem16 v) = v" "unmem32 (mem32 w) = w" "unmem64 (mem64 x) = x"
proof -
  show "unmem16 (mem16 v) = v"
    by (simp add: mem16_def unmem16_def word_join)
  show m32: "unmem32 (mem32 w) = w" for w
    by (simp add: mem32_def unmem32_def word_join)
  show "unmem64 (mem64 x) = x"
    by (simp add: mem64_def unmem64_def m32 word_join)
qed

text \<open>Images in network order, most significant byte first.\<close>

definition be16 :: "u16 \<Rightarrow> byte list" where
  "be16 v = [ucast (drop_bit 8 v), ucast v]"

definition be32 :: "u32 \<Rightarrow> byte list" where
  "be32 v = [ucast (drop_bit 24 v), ucast (drop_bit 16 v), ucast (drop_bit 8 v), ucast v]"

definition be64 :: "u64 \<Rightarrow> byte list" where
  "be64 v = be32 (ucast (drop_bit 32 v)) @ be32 (ucast v)"

lemma be_rev_mem: "be16 v = rev (mem16 v)" "be32 w = rev (mem32 w)" "be64 x = rev (mem64 x)"
  by (simp_all add: be16_def be32_def be64_def mem16_def mem32_def mem64_def)

lemma length_be [simp, wire_simps]: "length (be16 v) = 2" "length (be32 w) = 4" "length (be64 x) = 8"
  by (simp_all add: be16_def be32_def be64_def)

section \<open>Text\<close>

text \<open>The bytes of a string literal, without the terminator.\<close>

definition bytes_of_string :: "string \<Rightarrow> byte list" where
  "bytes_of_string s = map of_char s"

section \<open>C++ integer conversions\<close>

text \<open>The value of an integer after conversion to \<open>int\<close> (32 bits) or to \<open>unsigned int\<close>.\<close>

definition to_int :: "int \<Rightarrow> int" where
  "to_int k = signed_take_bit 31 k"

definition to_uint :: "int \<Rightarrow> int" where
  "to_uint k = take_bit 32 k"

lemma to_int_id: "- (2 ^ 31) \<le> k \<Longrightarrow> k < 2 ^ 31 \<Longrightarrow> to_int k = k"
  unfolding to_int_def by (rule signed_take_bit_int_eq_self) simp_all

lemma to_uint_nonneg [simp]: "0 \<le> to_uint k"
  by (simp add: to_uint_def)

end
