(* ===== verification/Serializer.thy ===== *)
theory Serializer
  imports Prelude
begin

text \<open>
  The serializer and deserializer of \<open>core/serializer_deserializer.hpp\<close>: the scalar codecs
  (one \<open>append\<close> and one \<open>extract\<close> per C++ type), the tuple serializer and deserializer
  built on them, and the \<open>DynamicSerializer\<close> that lays a whole command out in a vector.
  A buffer is a byte list, a pointer into it an offset, and an access out of range is
  \<^const>\<open>None\<close>. A float is its bit pattern.
\<close>

section \<open>Scalar types\<close>

datatype float32 = Float32 (bits32: u32)
datatype float64 = Float64 (bits64: u64)

datatype scalar_t =
    T_uint8 | T_int8 | T_uint16 | T_int16 | T_uint32 | T_int32 | T_uint64 | T_int64
  | T_float | T_double | T_bool

text \<open>A signed integer is the word of its two's complement representation.\<close>

datatype scalar =
    V_uint8 byte | V_int8 byte | V_uint16 u16 | V_int16 u16 | V_uint32 u32 | V_int32 u32
  | V_uint64 u64 | V_int64 u64 | V_float float32 | V_double float64 | V_bool bool

primrec type_of :: "scalar \<Rightarrow> scalar_t" where
  "type_of (V_uint8 _) = T_uint8"
| "type_of (V_int8 _) = T_int8"
| "type_of (V_uint16 _) = T_uint16"
| "type_of (V_int16 _) = T_int16"
| "type_of (V_uint32 _) = T_uint32"
| "type_of (V_int32 _) = T_int32"
| "type_of (V_uint64 _) = T_uint64"
| "type_of (V_int64 _) = T_int64"
| "type_of (V_float _) = T_float"
| "type_of (V_double _) = T_double"
| "type_of (V_bool _) = T_bool"

text \<open>
  \<open>pseudo_cast\<close> copies the common prefix of two memory images over a zero of the target
  type; the arguments are the two sizes and the image of the source.
\<close>

definition pseudo_cast :: "nat \<Rightarrow> nat \<Rightarrow> byte list \<Rightarrow> byte list" where
  "pseudo_cast size_T size_U x =
     (let n = (if size_T < size_U then size_T else size_U)
      in take n x @ drop n (replicate size_T 0))"

section \<open>Scalar codecs\<close>

definition size_of_uint8 :: nat where "size_of_uint8 = 1"
definition size_of_int8 :: nat where "size_of_int8 = 1"
definition size_of_uint16 :: nat where "size_of_uint16 = 2"
definition size_of_int16 :: nat where "size_of_int16 = 2"
definition size_of_uint32 :: nat where "size_of_uint32 = 4"
definition size_of_int32 :: nat where "size_of_int32 = 4"
definition size_of_uint64 :: nat where "size_of_uint64 = 8"
definition size_of_int64 :: nat where "size_of_int64 = 8"
definition size_of_float :: nat where "size_of_float = size_of_uint32"
definition size_of_double :: nat where "size_of_double = size_of_uint64"
definition size_of_bool :: nat where "size_of_bool = 1"

lemmas size_of_defs [simp] =
  size_of_uint8_def size_of_int8_def size_of_uint16_def size_of_int16_def size_of_uint32_def
  size_of_int32_def size_of_uint64_def size_of_int64_def size_of_float_def size_of_double_def
  size_of_bool_def

definition extract_uint8 :: "byte list \<Rightarrow> nat \<Rightarrow> byte option" where
  "extract_uint8 buff p = peek buff p"

definition append_uint8 :: "byte list \<Rightarrow> nat \<Rightarrow> byte \<Rightarrow> byte list option" where
  "append_uint8 buff p v = poke buff p v"

definition extract_int8 :: "byte list \<Rightarrow> nat \<Rightarrow> byte option" where
  "extract_int8 buff p = peek buff p"

definition append_int8 :: "byte list \<Rightarrow> nat \<Rightarrow> byte \<Rightarrow> byte list option" where
  "append_int8 buff p v = poke buff p v"

definition extract_uint16 :: "byte list \<Rightarrow> nat \<Rightarrow> u16 option" where
  "extract_uint16 buff p = do {
     b1 \<leftarrow> peek buff (p + 1);
     b0 \<leftarrow> peek buff p;
     Some (ucast b1 + push_bit 8 (ucast b0))
   }"

definition append_uint16 :: "byte list \<Rightarrow> nat \<Rightarrow> u16 \<Rightarrow> byte list option" where
  "append_uint16 buff p v = do {
     buff \<leftarrow> poke buff p (ucast (drop_bit 8 v AND 0xff));
     poke buff (p + 1) (ucast (v AND 0xff))
   }"

definition extract_int16 :: "byte list \<Rightarrow> nat \<Rightarrow> u16 option" where
  "extract_int16 buff p = extract_uint16 buff p"

definition append_int16 :: "byte list \<Rightarrow> nat \<Rightarrow> u16 \<Rightarrow> byte list option" where
  "append_int16 buff p v = append_uint16 buff p v"

definition extract_uint32 :: "byte list \<Rightarrow> nat \<Rightarrow> u32 option" where
  "extract_uint32 buff p = do {
     b3 \<leftarrow> peek buff (p + 3);
     b2 \<leftarrow> peek buff (p + 2);
     b1 \<leftarrow> peek buff (p + 1);
     b0 \<leftarrow> peek buff p;
     Some (ucast b3 + push_bit 8 (ucast b2) + push_bit 16 (ucast b1) + push_bit 24 (ucast b0))
   }"

definition append_uint32 :: "byte list \<Rightarrow> nat \<Rightarrow> u32 \<Rightarrow> byte list option" where
  "append_uint32 buff p v = do {
     buff \<leftarrow> poke buff p (ucast (drop_bit 24 v AND 0xff));
     buff \<leftarrow> poke buff (p + 1) (ucast (drop_bit 16 v AND 0xff));
     buff \<leftarrow> poke buff (p + 2) (ucast (drop_bit 8 v AND 0xff));
     poke buff (p + 3) (ucast (v AND 0xff))
   }"

definition extract_int32 :: "byte list \<Rightarrow> nat \<Rightarrow> u32 option" where
  "extract_int32 buff p = extract_uint32 buff p"

definition append_int32 :: "byte list \<Rightarrow> nat \<Rightarrow> u32 \<Rightarrow> byte list option" where
  "append_int32 buff p v = append_uint32 buff p v"

definition extract_uint64 :: "byte list \<Rightarrow> nat \<Rightarrow> u64 option" where
  "extract_uint64 buff p = do {
     u1 \<leftarrow> extract_uint32 buff p;
     u2 \<leftarrow> extract_uint32 buff (p + size_of_uint32);
     Some (ucast u2 + push_bit 32 (ucast u1))
   }"

definition append_uint64 :: "byte list \<Rightarrow> nat \<Rightarrow> u64 \<Rightarrow> byte list option" where
  "append_uint64 buff p v = do {
     buff \<leftarrow> append_uint32 buff p (ucast (drop_bit 32 v));
     append_uint32 buff (p + size_of_uint32) (ucast v)
   }"

definition extract_int64 :: "byte list \<Rightarrow> nat \<Rightarrow> u64 option" where
  "extract_int64 buff p = extract_uint64 buff p"

definition append_int64 :: "byte list \<Rightarrow> nat \<Rightarrow> u64 \<Rightarrow> byte list option" where
  "append_int64 buff p v = append_uint64 buff p v"

definition extract_float :: "byte list \<Rightarrow> nat \<Rightarrow> float32 option" where
  "extract_float buff p = do {
     u \<leftarrow> extract_uint32 buff p;
     Some (Float32 (unmem32 (pseudo_cast 4 4 (mem32 u))))
   }"

definition append_float :: "byte list \<Rightarrow> nat \<Rightarrow> float32 \<Rightarrow> byte list option" where
  "append_float buff p v = append_uint32 buff p (unmem32 (pseudo_cast 4 4 (mem32 (bits32 v))))"

definition extract_double :: "byte list \<Rightarrow> nat \<Rightarrow> float64 option" where
  "extract_double buff p = do {
     u \<leftarrow> extract_uint64 buff p;
     Some (Float64 (unmem64 (pseudo_cast 8 8 (mem64 u))))
   }"

definition append_double :: "byte list \<Rightarrow> nat \<Rightarrow> float64 \<Rightarrow> byte list option" where
  "append_double buff p v = append_uint64 buff p (unmem64 (pseudo_cast 8 8 (mem64 (bits64 v))))"

definition extract_bool :: "byte list \<Rightarrow> nat \<Rightarrow> bool option" where
  "extract_bool buff p = do { b \<leftarrow> peek buff p; Some (b = 1) }"

definition append_bool :: "byte list \<Rightarrow> nat \<Rightarrow> bool \<Rightarrow> byte list option" where
  "append_bool buff p v = (if v then poke buff p 1 else poke buff p 0)"

text \<open>The template names \<open>size_of<Tp>\<close>, \<open>extract<Tp>\<close> and \<open>append<Tp>\<close> select by type.\<close>

primrec size_of :: "scalar_t \<Rightarrow> nat" where
  "size_of T_uint8 = size_of_uint8"
| "size_of T_int8 = size_of_int8"
| "size_of T_uint16 = size_of_uint16"
| "size_of T_int16 = size_of_int16"
| "size_of T_uint32 = size_of_uint32"
| "size_of T_int32 = size_of_int32"
| "size_of T_uint64 = size_of_uint64"
| "size_of T_int64 = size_of_int64"
| "size_of T_float = size_of_float"
| "size_of T_double = size_of_double"
| "size_of T_bool = size_of_bool"

definition size_of_array :: "scalar_t \<Rightarrow> nat \<Rightarrow> nat" where
  "size_of_array t N = size_of t * N"

primrec extract_T :: "scalar_t \<Rightarrow> byte list \<Rightarrow> nat \<Rightarrow> scalar option" where
  "extract_T T_uint8 b p = map_option V_uint8 (extract_uint8 b p)"
| "extract_T T_int8 b p = map_option V_int8 (extract_int8 b p)"
| "extract_T T_uint16 b p = map_option V_uint16 (extract_uint16 b p)"
| "extract_T T_int16 b p = map_option V_int16 (extract_int16 b p)"
| "extract_T T_uint32 b p = map_option V_uint32 (extract_uint32 b p)"
| "extract_T T_int32 b p = map_option V_int32 (extract_int32 b p)"
| "extract_T T_uint64 b p = map_option V_uint64 (extract_uint64 b p)"
| "extract_T T_int64 b p = map_option V_int64 (extract_int64 b p)"
| "extract_T T_float b p = map_option V_float (extract_float b p)"
| "extract_T T_double b p = map_option V_double (extract_double b p)"
| "extract_T T_bool b p = map_option V_bool (extract_bool b p)"

primrec append_T :: "byte list \<Rightarrow> nat \<Rightarrow> scalar \<Rightarrow> byte list option" where
  "append_T b p (V_uint8 v) = append_uint8 b p v"
| "append_T b p (V_int8 v) = append_int8 b p v"
| "append_T b p (V_uint16 v) = append_uint16 b p v"
| "append_T b p (V_int16 v) = append_int16 b p v"
| "append_T b p (V_uint32 v) = append_uint32 b p v"
| "append_T b p (V_int32 v) = append_int32 b p v"
| "append_T b p (V_uint64 v) = append_uint64 b p v"
| "append_T b p (V_int64 v) = append_int64 b p v"
| "append_T b p (V_float v) = append_float b p v"
| "append_T b p (V_double v) = append_double b p v"
| "append_T b p (V_bool v) = append_bool b p v"

section \<open>The contract of a scalar codec\<close>

text \<open>
  A codec writes a fixed number of bytes, the image of the value, and nothing else; it reads
  exactly those bytes; and it reads a value back from its image.
\<close>

locale scalar_codec =
  fixes sz :: nat
    and app :: "byte list \<Rightarrow> nat \<Rightarrow> 'a \<Rightarrow> byte list option"
    and ext :: "byte list \<Rightarrow> nat \<Rightarrow> 'a option"
    and img :: "'a \<Rightarrow> byte list"
  assumes img_len: "length (img v) = sz"
    and app_eq: "app b p v = pokes b p (img v)"
    and ext_img: "peeks b p sz = Some (img v) \<Longrightarrow> ext b p = Some v"
    and ext_dom: "ext b p = None \<longleftrightarrow> length b < p + sz"
    and ext_local: "peeks b p sz = peeks c q sz \<Longrightarrow> ext b p = ext c q"
begin

lemma app_dom: "app b p v = None \<longleftrightarrow> length b < p + sz"
  by (auto simp: app_eq pokes_def img_len)

lemma app_length: "app b p v = Some b' \<Longrightarrow> length b' = length b"
  by (auto simp: app_eq pokes_def split: if_splits)

lemma ext_app: "app b p v = Some b' \<Longrightarrow> ext b' p = Some v"
  using img_len [of v]
  by (intro ext_img) (auto simp: app_eq pokes_def peeks_def slice_patch_same split: if_splits)

lemma app_frame:
  assumes "app b p v = Some b'" and "q + n \<le> p \<or> p + sz \<le> q"
  shows "peeks b' q n = peeks b q n"
  using assms img_len [of v]
  by (auto simp: app_eq pokes_def peeks_def slice_patch_before slice_patch_after split: if_splits)

lemma img_inj: "img v = img w \<Longrightarrow> v = w"
  using ext_img [of "img v" 0 v] ext_img [of "img v" 0 w]
  by (simp add: peeks_def slice_def img_len)

end

lemma pseudo_cast_same [simp]: "length x = n \<Longrightarrow> pseudo_cast n n x = x"
  by (simp add: pseudo_cast_def)

lemma extract_uint32_peeks:
  "extract_uint32 b p = map_option (\<lambda>s. unmem32 (rev s)) (peeks b p 4)"
proof (cases "peeks b p 4")
  case None
  then have "length b \<le> p + 3" by (simp add: peeks_def split: if_splits)
  then show ?thesis using None by (simp add: extract_uint32_def peek_def)
next
  case (Some s)
  then have "length s = 4" by (auto simp: peeks_def split: if_splits)
  moreover note peek_peeks [OF _ Some, of 0] peek_peeks [OF _ Some, of 1]
    peek_peeks [OF _ Some, of 2] peek_peeks [OF _ Some, of 3]
  ultimately show ?thesis
    using Some by (simp add: extract_uint32_def unmem32_def rev_nth)
qed

lemma append_uint32_pokes: "append_uint32 b p v = pokes b p (be32 v)"
  by (auto simp: append_uint32_def be32_def pokes_Cons poke_def eval_nat_numeral)

lemma extract_uint64_peeks:
  "extract_uint64 b p = map_option (\<lambda>s. unmem64 (rev s)) (peeks b p 8)"
proof -
  have "extract_uint64 b p = do { x \<leftarrow> peeks b p 4; y \<leftarrow> peeks b (p + 4) 4;
      Some (ucast (unmem32 (rev y)) + push_bit 32 (ucast (unmem32 (rev x)))) }"
    by (cases "peeks b p 4"; cases "peeks b (p + 4) 4")
      (simp_all add: extract_uint64_def extract_uint32_peeks)
  also have "\<dots> = map_option (\<lambda>s. unmem64 (rev s)) (peeks b p 8)"
    using peeks_add [of b p 4 4]
    by (cases "peeks b p 4"; cases "peeks b (p + 4) 4")
      (auto simp: unmem64_def dest: peeks_length)
  finally show ?thesis .
qed

lemma append_uint64_pokes: "append_uint64 b p v = pokes b p (be64 v)"
  by (simp add: append_uint64_def append_uint32_pokes be64_def pokes_append)

lemma extract_uint16_peeks:
  "extract_uint16 b p = map_option (\<lambda>s. unmem16 (rev s)) (peeks b p 2)"
proof (cases "peeks b p 2")
  case None
  then have "length b \<le> p + 1" by (simp add: peeks_def split: if_splits)
  then show ?thesis using None by (simp add: extract_uint16_def peek_def)
next
  case (Some s)
  then have "length s = 2" by (rule peeks_length)
  with peek_peeks [OF _ Some, of 0] peek_peeks [OF _ Some, of 1] show ?thesis
    using Some by (simp add: extract_uint16_def unmem16_def rev_nth)
qed

lemma append_uint16_pokes: "append_uint16 b p v = pokes b p (be16 v)"
  by (auto simp: append_uint16_def be16_def pokes_Cons poke_def)

lemmas codec_closed_forms [mem_simps] =
  extract_uint16_peeks extract_uint32_peeks extract_uint64_peeks
  append_uint16_pokes append_uint32_pokes append_uint64_pokes

lemma extract_uint8_peeks [mem_simps]: "extract_uint8 b p = map_option (\<lambda>s. s ! 0) (peeks b p 1)"
  by (auto simp: extract_uint8_def peek_def peeks_def)

lemma append_uint8_pokes [mem_simps]: "append_uint8 b p v = pokes b p [v]"
  by (simp add: append_uint8_def poke_pokes)

text \<open>Every integer codec is a map of the bytes it reads, so the contract follows from its image.\<close>

lemma codec_by_image:
  assumes "\<And>v. length (img v) = n" and "\<And>b p v. app b p v = pokes b p (img v)"
    and "\<And>b p. ext b p = map_option f (peeks b p n)" and "\<And>v. f (img v) = v"
  shows "scalar_codec n app ext img"
  using assms by unfold_locales (auto simp: peeks_def)

interpretation uint8: scalar_codec size_of_uint8 append_uint8 extract_uint8 "\<lambda>v. [v]"
  by (rule codec_by_image [where f = "\<lambda>s. s ! 0"]) (simp_all add: mem_simps)

interpretation int8: scalar_codec size_of_int8 append_int8 extract_int8 "\<lambda>v. [v]"
  by (rule codec_by_image [where f = "\<lambda>s. s ! 0"])
    (simp_all add: mem_simps append_int8_def extract_int8_def
      flip: append_uint8_def extract_uint8_def)

interpretation uint16: scalar_codec size_of_uint16 append_uint16 extract_uint16 be16
  by (rule codec_by_image [where f = "\<lambda>s. unmem16 (rev s)"]) (simp_all add: mem_simps be_rev_mem)

interpretation int16: scalar_codec size_of_int16 append_int16 extract_int16 be16
  by (rule codec_by_image [where f = "\<lambda>s. unmem16 (rev s)"]) (simp_all add: mem_simps be_rev_mem append_int16_def extract_int16_def)

interpretation uint32: scalar_codec size_of_uint32 append_uint32 extract_uint32 be32
  by (rule codec_by_image [where f = "\<lambda>s. unmem32 (rev s)"]) (simp_all add: mem_simps be_rev_mem)

interpretation int32: scalar_codec size_of_int32 append_int32 extract_int32 be32
  by (rule codec_by_image [where f = "\<lambda>s. unmem32 (rev s)"]) (simp_all add: mem_simps be_rev_mem append_int32_def extract_int32_def)

interpretation uint64: scalar_codec size_of_uint64 append_uint64 extract_uint64 be64
  by (rule codec_by_image [where f = "\<lambda>s. unmem64 (rev s)"]) (simp_all add: mem_simps be_rev_mem)

interpretation int64: scalar_codec size_of_int64 append_int64 extract_int64 be64
  by (rule codec_by_image [where f = "\<lambda>s. unmem64 (rev s)"]) (simp_all add: mem_simps be_rev_mem append_int64_def extract_int64_def)

interpretation float: scalar_codec size_of_float append_float extract_float "\<lambda>v. be32 (bits32 v)"
proof (rule codec_by_image [where f = "\<lambda>s. Float32 (unmem32 (rev s))"])
  show "extract_float b p = map_option (\<lambda>s. Float32 (unmem32 (rev s))) (peeks b p size_of_float)"
    for b p by (cases "peeks b p 4") (simp_all add: extract_float_def mem_simps)
qed (simp_all add: append_float_def mem_simps be_rev_mem)

interpretation double: scalar_codec size_of_double append_double extract_double "\<lambda>v. be64 (bits64 v)"
proof (rule codec_by_image [where f = "\<lambda>s. Float64 (unmem64 (rev s))"])
  show "extract_double b p = map_option (\<lambda>s. Float64 (unmem64 (rev s))) (peeks b p size_of_double)"
    for b p by (cases "peeks b p 8") (simp_all add: extract_double_def mem_simps)
qed (simp_all add: append_double_def mem_simps be_rev_mem)

interpretation bool: scalar_codec size_of_bool append_bool extract_bool
  "\<lambda>v. [if v then 1 else 0]"
proof (rule codec_by_image [where f = "\<lambda>s. s ! 0 = 1"])
  show "extract_bool b p = map_option (\<lambda>s. s ! 0 = 1) (peeks b p size_of_bool)" for b p
    by (auto simp: extract_bool_def peek_def peeks_def)
qed (simp_all add: append_bool_def poke_pokes)

section \<open>Wire and memory images of a scalar\<close>

primrec wire :: "scalar \<Rightarrow> byte list" where
  "wire (V_uint8 v) = [v]"
| "wire (V_int8 v) = [v]"
| "wire (V_uint16 v) = be16 v"
| "wire (V_int16 v) = be16 v"
| "wire (V_uint32 v) = be32 v"
| "wire (V_int32 v) = be32 v"
| "wire (V_uint64 v) = be64 v"
| "wire (V_int64 v) = be64 v"
| "wire (V_float v) = be32 (bits32 v)"
| "wire (V_double v) = be64 (bits64 v)"
| "wire (V_bool v) = [if v then 1 else 0]"

primrec mem_bytes :: "scalar \<Rightarrow> byte list" where
  "mem_bytes (V_uint8 v) = [v]"
| "mem_bytes (V_int8 v) = [v]"
| "mem_bytes (V_uint16 v) = mem16 v"
| "mem_bytes (V_int16 v) = mem16 v"
| "mem_bytes (V_uint32 v) = mem32 v"
| "mem_bytes (V_int32 v) = mem32 v"
| "mem_bytes (V_uint64 v) = mem64 v"
| "mem_bytes (V_int64 v) = mem64 v"
| "mem_bytes (V_float v) = mem32 (bits32 v)"
| "mem_bytes (V_double v) = mem64 (bits64 v)"
| "mem_bytes (V_bool v) = [if v then 1 else 0]"

text \<open>The value of type \<open>t\<close> that a memory image holds (for \<open>bool\<close>, any non-zero byte is true).\<close>

primrec of_mem :: "scalar_t \<Rightarrow> byte list \<Rightarrow> scalar" where
  "of_mem T_uint8 b = V_uint8 (b ! 0)"
| "of_mem T_int8 b = V_int8 (b ! 0)"
| "of_mem T_uint16 b = V_uint16 (unmem16 b)"
| "of_mem T_int16 b = V_int16 (unmem16 b)"
| "of_mem T_uint32 b = V_uint32 (unmem32 b)"
| "of_mem T_int32 b = V_int32 (unmem32 b)"
| "of_mem T_uint64 b = V_uint64 (unmem64 b)"
| "of_mem T_int64 b = V_int64 (unmem64 b)"
| "of_mem T_float b = V_float (Float32 (unmem32 b))"
| "of_mem T_double b = V_double (Float64 (unmem64 b))"
| "of_mem T_bool b = V_bool (b ! 0 \<noteq> 0)"

lemma length_wire [simp, wire_simps]: "length (wire v) = size_of (type_of v)"
  by (cases v) simp_all

lemma length_mem_bytes [simp, wire_simps]: "length (mem_bytes v) = size_of (type_of v)"
  by (cases v) simp_all

lemma of_mem_mem_bytes [simp, wire_simps]: "of_mem (type_of v) (mem_bytes v) = v"
  by (cases v) simp_all

lemma size_of_pos [simp]: "0 < size_of t"
  by (cases t) simp_all

lemma append_T_pokes [mem_simps]: "append_T b p v = pokes b p (wire v)"
  by (cases v)
    (simp_all add: uint8.app_eq int8.app_eq uint16.app_eq int16.app_eq uint32.app_eq int32.app_eq
      uint64.app_eq int64.app_eq float.app_eq double.app_eq bool.app_eq)

lemma extract_T_wire:
  "peeks b p (size_of (type_of v)) = Some (wire v) \<Longrightarrow> extract_T (type_of v) b p = Some v"
  by (cases v)
    (simp_all add: uint8.ext_img int8.ext_img uint16.ext_img int16.ext_img uint32.ext_img
      int32.ext_img uint64.ext_img int64.ext_img float.ext_img double.ext_img
      bool.ext_img [of b p])

lemma extract_T_dom: "extract_T t b p = None \<longleftrightarrow> length b < p + size_of t"
  by (cases t)
    (simp_all add: uint8.ext_dom int8.ext_dom uint16.ext_dom int16.ext_dom uint32.ext_dom
      int32.ext_dom uint64.ext_dom int64.ext_dom float.ext_dom double.ext_dom bool.ext_dom)

section \<open>Tuples\<close>

text \<open>
  A tuple type is the list of its element types, a tuple the list of its elements. The
  template parameter \<open>position\<close> is relative to the pointer \<open>base\<close>.
\<close>

fun detail_deserialize :: "nat \<Rightarrow> scalar_t list \<Rightarrow> byte list \<Rightarrow> nat \<Rightarrow> scalar list option" where
  "detail_deserialize position [] buff base = Some []"
| "detail_deserialize position [t] buff base = do {
     v \<leftarrow> extract_T t buff (base + position);
     Some [v]
   }"
| "detail_deserialize position (t # t' # ts) buff base = do {
     v \<leftarrow> extract_T t buff (base + position);
     vs \<leftarrow> detail_deserialize (position + size_of t) (t' # ts) buff base;
     Some (v # vs)
   }"

fun detail_required_buffer_size :: "scalar_t list \<Rightarrow> nat" where
  "detail_required_buffer_size [] = 0"
| "detail_required_buffer_size [t] = size_of t"
| "detail_required_buffer_size (t # t' # ts) = size_of t + detail_required_buffer_size (t' # ts)"

definition required_buffer_size :: "scalar_t list \<Rightarrow> nat" where
  "required_buffer_size ts = detail_required_buffer_size ts"

definition deserialize :: "nat \<Rightarrow> scalar_t list \<Rightarrow> byte list \<Rightarrow> nat \<Rightarrow> scalar list option" where
  "deserialize position ts buff base = detail_deserialize position ts buff base"

fun detail_serialize :: "nat \<Rightarrow> scalar list \<Rightarrow> byte list \<Rightarrow> byte list option" where
  "detail_serialize buff_pos [] buff = Some buff"
| "detail_serialize buff_pos (v # vs) buff = do {
     buff \<leftarrow> append_T buff buff_pos v;
     detail_serialize (buff_pos + size_of (type_of v)) vs buff
   }"

text \<open>The array \<open>arr\<close> that \<open>serialize\<close> fills is not initialised: its contents are a parameter.\<close>

definition serialize :: "byte list \<Rightarrow> scalar list \<Rightarrow> byte list option" where
  "serialize arr vs = detail_serialize 0 vs arr"

lemma required_buffer_size_sum: "required_buffer_size ts = sum_list (map size_of ts)"
  unfolding required_buffer_size_def by (induction ts rule: detail_required_buffer_size.induct) simp_all

lemma required_buffer_size_simps [simp]:
  "required_buffer_size [] = 0" "required_buffer_size (t # ts) = size_of t + required_buffer_size ts"
  by (simp_all add: required_buffer_size_sum)

definition wires :: "scalar list \<Rightarrow> byte list" where
  "wires vs = concat (map wire vs)"

lemma wires_simps [simp]: "wires [] = []" "wires (v # vs) = wire v @ wires vs"
  by (simp_all add: wires_def)

lemma length_wires [simp, wire_simps]: "length (wires vs) = required_buffer_size (map type_of vs)"
  by (induction vs) simp_all

lemma detail_serialize_pokes [mem_simps]:
  "p \<le> length b \<Longrightarrow> detail_serialize p vs b = pokes b p (wires vs)"
proof (induction vs arbitrary: p b)
  case (Cons v vs)
  then show ?case
    by (cases "pokes b p (wire v)") (auto simp: append_T_pokes pokes_append dest: pokes_SomeD)
qed simp

lemma serialize_wires:
  "length arr = required_buffer_size (map type_of vs) \<Longrightarrow> serialize arr vs = Some (wires vs)"
  by (simp add: serialize_def mem_simps pokes_def patch_def)

lemma detail_deserialize_Cons:
  "detail_deserialize pos (t # ts) b base = do {
     v \<leftarrow> extract_T t b (base + pos);
     vs \<leftarrow> detail_deserialize (pos + size_of t) ts b base;
     Some (v # vs)
   }"
  by (cases ts) simp_all

lemma deserialize_wires:
  assumes "peeks b (base + pos) (required_buffer_size (map type_of vs)) = Some (wires vs)"
  shows "deserialize pos (map type_of vs) b base = Some vs"
  using assms unfolding deserialize_def
proof (induction vs arbitrary: pos)
  case (Cons v vs)
  let ?n = "required_buffer_size (map type_of vs)"
  from Cons.prems obtain x y where
    x: "peeks b (base + pos) (size_of (type_of v)) = Some x" and
    y: "peeks b (base + (pos + size_of (type_of v))) ?n = Some y" and
    eq: "x @ y = wire v @ wires vs"
    by (auto simp: peeks_add add.assoc bind_eq_Some_conv)
  from x y have "length x = length (wire v)" by (simp add: peeks_length)
  with eq have "x = wire v" "y = wires vs" by simp_all
  with x y Cons.IH extract_T_wire show ?case
    by (simp add: detail_deserialize_Cons)
qed simp

lemma deserialize_dom:
  "deserialize pos ts b base = None \<longleftrightarrow> ts \<noteq> [] \<and> length b < base + pos + required_buffer_size ts"
  unfolding deserialize_def
proof (induction ts arbitrary: pos)
  case (Cons t ts)
  show ?case
  proof (cases "extract_T t b (base + pos)")
    case None
    with extract_T_dom [of t b "base + pos"] show ?thesis
      by (simp add: detail_deserialize_Cons)
  next
    case (Some v)
    then have "\<not> length b < base + pos + size_of t"
      using extract_T_dom [of t b "base + pos"] by simp
    with Some Cons.IH [of "pos + size_of t"] show ?thesis
      by (auto simp: detail_deserialize_Cons add.assoc split: option.splits)
  qed
qed simp

section \<open>DynamicSerializer\<close>

text \<open>
  An argument of a command, by the family the type traits of the class put it in: a scalar,
  a dynamic container (\<open>std::vector<T>\<close>, \<open>std::string\<close>), a \<open>std::array\<close> or a C string.
  The elements of a vector or array carry their type. A C string is the memory from the
  pointer on.
\<close>

datatype cmd_arg =
    Scalar scalar
  | Vector scalar_t "scalar list"
  | StdString "byte list"
  | StdArray scalar_t "scalar list"
  | CString "byte list"

text \<open>The bytes \<open>container.data()\<close> points at, and \<open>sizeof(T)\<close> of the elements.\<close>

definition elems_mem :: "scalar list \<Rightarrow> byte list" where
  "elems_mem vs = concat (map mem_bytes vs)"

definition std_string_of_c :: "byte list \<Rightarrow> byte list option" where
  "std_string_of_c m = (if 0 \<in> set m then Some (takeWhile (\<lambda>c. c \<noteq> 0) m) else None)"

record dyn_ser =
  scal_data :: "byte list"
  scal_size :: nat

definition dyn_append :: "dyn_ser \<Rightarrow> scalar \<Rightarrow> dyn_ser option" where
  "dyn_append s t = do {
     d \<leftarrow> append_T (scal_data s) (scal_size s) t;
     Some (s\<lparr>scal_data := d, scal_size := scal_size s + size_of (type_of t)\<rparr>)
   }"

definition dump_scalar_pack :: "dyn_ser \<Rightarrow> byte list \<Rightarrow> (dyn_ser \<times> byte list) option" where
  "dump_scalar_pack s buffer =
     (if scal_size s > 0 then do {
        d \<leftarrow> peeks (scal_data s) 0 (scal_size s);
        Some (s\<lparr>scal_size := 0\<rparr>, buffer @ d)
      }
      else Some (s, buffer))"

text \<open>
  \<open>size\<close> and \<open>bytes\<close> are \<open>container.size() * sizeof(T)\<close> and the bytes at
  \<open>container.data()\<close>; the size is stored in a \<open>uint32_t\<close>, so it wraps.
\<close>

definition dump_container_to_buffer :: "byte list \<Rightarrow> byte list \<Rightarrow> byte list option" where
  "dump_container_to_buffer buffer bytes = do {
     let n_bytes = (word_of_nat (length bytes) :: u32);
     let buffer = buffer @ replicate size_of_uint32 0;
     buffer \<leftarrow> append_uint32 buffer (length buffer - size_of_uint32) n_bytes;
     if n_bytes > 0 then Some (buffer @ take (unat n_bytes) bytes) else Some buffer
   }"

definition dump_array_to_buffer :: "byte list \<Rightarrow> byte list \<Rightarrow> byte list" where
  "dump_array_to_buffer buffer bytes = (if length bytes > 0 then buffer @ bytes else buffer)"

fun command_serializer :: "dyn_ser \<Rightarrow> byte list \<Rightarrow> cmd_arg list \<Rightarrow> (dyn_ser \<times> byte list) option" where
  "command_serializer s buffer [] = Some (s, buffer)"
| "command_serializer s buffer (Scalar v # args) = do {
     s \<leftarrow> dyn_append s v;
     command_serializer s buffer args
   }"
| "command_serializer s buffer (Vector t vs # args) = do {
     (s, buffer) \<leftarrow> dump_scalar_pack s buffer;
     buffer \<leftarrow> dump_container_to_buffer buffer (elems_mem vs);
     command_serializer s buffer args
   }"
| "command_serializer s buffer (StdString cs # args) = do {
     (s, buffer) \<leftarrow> dump_scalar_pack s buffer;
     buffer \<leftarrow> dump_container_to_buffer buffer cs;
     command_serializer s buffer args
   }"
| "command_serializer s buffer (StdArray t vs # args) = do {
     (s, buffer) \<leftarrow> dump_scalar_pack s buffer;
     command_serializer s (dump_array_to_buffer buffer (elems_mem vs)) args
   }"
| "command_serializer s buffer (CString m # args) = do {
     (s, buffer) \<leftarrow> dump_scalar_pack s buffer;
     cs \<leftarrow> std_string_of_c m;
     buffer \<leftarrow> dump_container_to_buffer buffer cs;
     command_serializer s buffer args
   }"

text \<open>
  \<open>std::vector::resize\<close> truncates or pads with zeros; \<open>arr\<close> is the array that
  \<open>serialize\<close> fills for the header.
\<close>

definition resize :: "'a \<Rightarrow> nat \<Rightarrow> 'a list \<Rightarrow> 'a list" where
  "resize z n xs = take n xs @ replicate (n - length xs) z"

lemma length_resize [simp]: "length (resize z n xs) = n"
  by (simp add: resize_def)

definition command_header :: "byte list \<Rightarrow> u16 \<Rightarrow> u16 \<Rightarrow> byte list \<Rightarrow> byte list option" where
  "command_header arr class_id func_id buffer = do {
     header \<leftarrow> serialize arr [V_uint32 0, V_uint16 class_id, V_uint16 func_id];
     pokes (resize 0 (required_buffer_size [T_uint32, T_uint16, T_uint16]) buffer) 0 header
   }"

fun build_command ::
  "byte list \<Rightarrow> u16 \<Rightarrow> u16 \<Rightarrow> dyn_ser \<Rightarrow> byte list \<Rightarrow> cmd_arg list \<Rightarrow> (dyn_ser \<times> byte list) option" where
  "build_command arr class_id func_id s buffer [] = do {
     buffer \<leftarrow> command_header arr class_id func_id buffer;
     Some (s, buffer)
   }"
| "build_command arr class_id func_id s buffer (a # args) = do {
     buffer \<leftarrow> command_header arr class_id func_id buffer;
     let s = s\<lparr>scal_size := 0\<rparr>;
     (s, buffer) \<leftarrow> command_serializer s buffer (a # args);
     dump_scalar_pack s buffer
   }"

text \<open>A returned tuple is unpacked: its elements are the arguments.\<close>

definition build_command_tuple ::
  "byte list \<Rightarrow> u16 \<Rightarrow> u16 \<Rightarrow> dyn_ser \<Rightarrow> byte list \<Rightarrow> cmd_arg list \<Rightarrow> (dyn_ser \<times> byte list) option" where
  "build_command_tuple arr class_id func_id s buffer tup_args =
     build_command arr class_id func_id s buffer tup_args"

subsection \<open>Specification: the layout of a command\<close>

primrec arg_image :: "cmd_arg \<Rightarrow> byte list" where
  "arg_image (Scalar v) = wire v"
| "arg_image (Vector t vs) = be32 (word_of_nat (length (elems_mem vs))) @ elems_mem vs"
| "arg_image (StdString cs) = be32 (word_of_nat (length cs)) @ cs"
| "arg_image (StdArray t vs) = elems_mem vs"
| "arg_image (CString m) =
     (let cs = takeWhile (\<lambda>c. c \<noteq> 0) m in be32 (word_of_nat (length cs)) @ cs)"

definition command_image :: "u16 \<Rightarrow> u16 \<Rightarrow> cmd_arg list \<Rightarrow> byte list" where
  "command_image class_id func_id args =
     replicate 4 0 @ be16 class_id @ be16 func_id @ concat (map arg_image args)"

text \<open>Arguments C++ can hold: a length fits the 32-bit field, a C string has its terminator.\<close>

primrec arg_ok :: "cmd_arg \<Rightarrow> bool" where
  "arg_ok (Scalar v) = True"
| "arg_ok (Vector t vs) = (list_all (\<lambda>v. type_of v = t) vs \<and> length (elems_mem vs) < 2 ^ 32)"
| "arg_ok (StdString cs) = (length cs < 2 ^ 32)"
| "arg_ok (StdArray t vs) = list_all (\<lambda>v. type_of v = t) vs"
| "arg_ok (CString m) = (0 \<in> set m \<and> length m \<le> 2 ^ 32)"

text \<open>
  No run of consecutive scalars exceeds the capacity of the scalar pack: \<open>used\<close> bytes of
  it are taken when the list is reached.
\<close>

fun runs_fit :: "nat \<Rightarrow> nat \<Rightarrow> cmd_arg list \<Rightarrow> bool" where
  "runs_fit cap used [] = True"
| "runs_fit cap used (Scalar v # args) =
     (used + size_of (type_of v) \<le> cap \<and> runs_fit cap (used + size_of (type_of v)) args)"
| "runs_fit cap used (a # args) = runs_fit cap 0 args"

subsection \<open>The serializer implements the layout\<close>

definition pack :: "dyn_ser \<Rightarrow> byte list" where
  "pack s = take (scal_size s) (scal_data s)"

definition dyn_wf :: "dyn_ser \<Rightarrow> bool" where
  "dyn_wf s \<longleftrightarrow> scal_size s \<le> length (scal_data s)"

lemma dump_scalar_pack_eq:
  "dyn_wf s \<Longrightarrow> dump_scalar_pack s buffer = Some (s\<lparr>scal_size := 0\<rparr>, buffer @ pack s)"
  by (cases "scal_size s = 0") (auto simp: dump_scalar_pack_def dyn_wf_def pack_def peeks_def slice_def)

lemma dump_container_eq:
  assumes "length bytes < 2 ^ 32"
  shows "dump_container_to_buffer buffer bytes
    = Some (buffer @ be32 (word_of_nat (length bytes)) @ bytes)"
proof -
  have "unat (word_of_nat (length bytes) :: u32) = length bytes"
    using assms by (simp add: unat_of_nat take_bit_nat_eq_self)
  moreover have "append_uint32 (buffer @ replicate 4 0) (length buffer) v = Some (buffer @ be32 v)" for v
    by (simp add: append_uint32_pokes pokes_extend)
  ultimately show ?thesis
    by (auto simp: dump_container_to_buffer_def word_greater_zero_iff Let_def)
qed

lemma dump_array_eq [simp]: "dump_array_to_buffer buffer bytes = buffer @ bytes"
  by (simp add: dump_array_to_buffer_def)

lemma dyn_append_cases:
  assumes "dyn_wf s"
  obtains (fits) s' where "dyn_append s v = Some s'" "dyn_wf s'"
      "scal_size s + size_of (type_of v) \<le> length (scal_data s)"
      "length (scal_data s') = length (scal_data s)"
      "scal_size s' = scal_size s + size_of (type_of v)" "pack s' = pack s @ wire v"
    | (overflow) "dyn_append s v = None" "length (scal_data s) < scal_size s + size_of (type_of v)"
  using assms that
  by (cases "scal_size s + size_of (type_of v) \<le> length (scal_data s)")
    (auto simp: dyn_append_def append_T_pokes pokes_def dyn_wf_def pack_def patch_def)

lemma std_string_of_c_ok:
  assumes "0 \<in> set m" and "length m \<le> 2 ^ 32"
  shows "std_string_of_c m = Some (takeWhile (\<lambda>c. c \<noteq> 0) m)"
    and "length (takeWhile (\<lambda>c. c \<noteq> 0) m) < 2 ^ 32"
proof -
  have "takeWhile (\<lambda>c. c \<noteq> 0) m \<noteq> m"
    using assms(1) by (auto dest: takeWhile_eq_all_conv [THEN iffD1])
  then have "length (takeWhile (\<lambda>c. c \<noteq> 0) m) < length m"
    by (metis le_neq_implies_less length_takeWhile_le takeWhile_eq_take take_all_iff linorder_le_cases)
  then show "length (takeWhile (\<lambda>c. c \<noteq> 0) m) < 2 ^ 32" using assms(2) by simp
qed (simp add: std_string_of_c_def assms)

lemma command_serializer_image:
  assumes "dyn_wf s" and "list_all arg_ok args"
  shows "map_option snd (command_serializer s buffer args \<bind> (\<lambda>(s, b). dump_scalar_pack s b)) =
    (if runs_fit (length (scal_data s)) (scal_size s) args
     then Some (buffer @ pack s @ concat (map arg_image args)) else None)"
  using assms
proof (induction s buffer args rule: command_serializer.induct)
  case (1 s buffer)
  then show ?case by (simp add: dump_scalar_pack_eq)
next
  case (2 s buffer v args)
  show ?case
    by (cases rule: dyn_append_cases [OF "2.prems"(1), of v]) (use 2 in auto)
next
  case (3 s buffer t vs args)
  then show ?case
    by (simp add: dump_scalar_pack_eq dump_container_eq dyn_wf_def pack_def)
next
  case (4 s buffer cs args)
  then show ?case
    by (simp add: dump_scalar_pack_eq dump_container_eq dyn_wf_def pack_def)
next
  case (5 s buffer t vs args)
  with "5.IH" [OF dump_scalar_pack_eq refl] show ?case
    by (simp add: dump_scalar_pack_eq dyn_wf_def pack_def)
next
  case (6 s buffer m args)
  then have "0 \<in> set m" "length m \<le> 2 ^ 32" by simp_all
  note m = std_string_of_c_ok [OF this]
  from 6 m(1) dump_container_eq [OF m(2)] show ?case
    by (simp add: dump_scalar_pack_eq dyn_wf_def pack_def Let_def)
qed

lemma command_header_image:
  assumes "length arr = 8"
  shows "command_header arr class_id func_id buffer = Some (replicate 4 0 @ be16 class_id @ be16 func_id)"
proof -
  have "serialize arr [V_uint32 0, V_uint16 class_id, V_uint16 func_id]
      = Some (be32 0 @ be16 class_id @ be16 func_id)"
    using assms by (simp add: serialize_wires)
  moreover have "be32 0 = replicate 4 0"
    by (simp add: be32_def eval_nat_numeral)
  ultimately show ?thesis
    by (simp add: command_header_def pokes_def patch_def resize_def)
qed

lemma build_command_eq:
  assumes "length arr = 8" and "list_all arg_ok args"
  shows "map_option snd (build_command arr class_id func_id s buffer args) =
    (if runs_fit (length (scal_data s)) 0 args then Some (command_image class_id func_id args) else None)"
proof (cases args)
  case Nil
  with assms show ?thesis
    by (simp add: command_header_image command_image_def)
next
  case (Cons a as)
  with assms command_serializer_image [of "s\<lparr>scal_size := 0\<rparr>" args] show ?thesis
    by (simp add: command_header_image command_image_def dyn_wf_def pack_def)
qed

text \<open>The scalar pack keeps its capacity.\<close>

lemma dyn_append_length: "dyn_append s v = Some s' \<Longrightarrow> length (scal_data s') = length (scal_data s)"
  by (auto simp: dyn_append_def append_T_pokes pokes_def split: if_splits bind_splits)

lemma dump_scalar_pack_length:
  "dump_scalar_pack s b = Some (s', b') \<Longrightarrow> length (scal_data s') = length (scal_data s)"
  by (auto simp: dump_scalar_pack_def split: if_splits bind_splits)

lemma command_serializer_length:
  "command_serializer s b args = Some (s', b') \<Longrightarrow> length (scal_data s') = length (scal_data s)"
  by (induction s b args arbitrary: s' b' rule: command_serializer.induct)
    (auto dest!: dyn_append_length dump_scalar_pack_length split: bind_splits)

lemma build_command_pack:
  assumes "build_command arr class_id func_id s buffer args = Some (s', b)"
  shows "length (scal_data s') = length (scal_data s)"
  using assms
  by (cases args) (auto dest!: command_serializer_length dump_scalar_pack_length split: bind_splits)

section \<open>Properties\<close>

text \<open>A scalar written by its \<open>append\<close> is read back unchanged by its \<open>extract\<close>, the
  write touches no byte outside the \<open>size_of\<close> bytes of the scalar and keeps the length of the
  buffer, and it is in range exactly when those bytes are inside the buffer.\<close>

theorem append_extract_scalar:
  "(append_T b p v = None \<longleftrightarrow> length b < p + size_of (type_of v)) \<and>
   (append_T b p v = Some b' \<longrightarrow>
      extract_T (type_of v) b' p = Some v \<and> length b' = length b \<and>
      (\<forall>q n. q + n \<le> p \<or> p + size_of (type_of v) \<le> q \<longrightarrow> peeks b' q n = peeks b q n))"
proof -
  have "extract_T (type_of v) b' p = Some v" if "append_T b p v = Some b'"
    using that by (intro extract_T_wire)
      (auto simp: append_T_pokes pokes_def peeks_def slice_patch_same [of p b "wire v", simplified]
        split: if_splits)
  moreover have "peeks b' q n = peeks b q n"
    if "append_T b p v = Some b'" "q + n \<le> p \<or> p + size_of (type_of v) \<le> q" for q n
    using that by (auto simp: append_T_pokes pokes_def peeks_def slice_patch_before
        slice_patch_after split: if_splits)
  ultimately show ?thesis
    by (auto simp: append_T_pokes pokes_def split: if_splits)
qed

theorem append_extract_scalar_witness:
  "append_T [0, 0, 0, 0, 7] 1 (V_int16 0x8001) = Some [0, 0x80, 1, 0, 7] \<and>
   extract_T T_int16 [0, 0x80, 1, 0, 7] 1 = Some (V_int16 0x8001) \<and>
   peeks [0, 0x80, 1, 0, 7] 3 2 = peeks [0, 0, 0, 0, 7] 3 2"
proof -
  have a: "append_T [0, 0, 0, 0, 7] 1 (V_int16 0x8001) = Some [0, 0x80, 1, 0, 7]"
    by (simp add: append_int16_def append_uint16_def poke_def)
  with append_extract_scalar [of "[0, 0, 0, 0, 7]" 1 "V_int16 0x8001" "[0, 0x80, 1, 0, 7]"]
  show ?thesis by simp
qed

text \<open>C2: \<open>serialize\<close> of a tuple never writes out of range, fills exactly
  \<open>required_buffer_size\<close> bytes whatever the array held before, and \<open>deserialize\<close> with the
  same types returns the tuple from any buffer that holds those bytes at any offset.\<close>

theorem serialize_deserialize_roundtrip:
  assumes "length arr = required_buffer_size (map type_of vs)"
  shows "\<exists>bytes. serialize arr vs = Some bytes
    \<and> length bytes = required_buffer_size (map type_of vs)
    \<and> (\<forall>pre post. deserialize 0 (map type_of vs) (pre @ bytes @ post) (length pre) = Some vs)"
proof (intro exI conjI allI)
  show "serialize arr vs = Some (wires vs)"
    using assms by (rule serialize_wires)
  show "deserialize 0 (map type_of vs) (pre @ wires vs @ post) (length pre) = Some vs" for pre post
    using peeks_append [of pre "wires vs" post] by (intro deserialize_wires) simp
qed simp

theorem serialize_deserialize_roundtrip_witness:
  "\<exists>bytes. serialize [9, 9, 9] [V_bool True, V_int16 0xFFFE] = Some bytes
    \<and> deserialize 0 [T_bool, T_int16] ([5, 6] @ bytes @ [7]) 2 = Some [V_bool True, V_int16 0xFFFE]"
proof -
  have "length [9, 9, 9 :: byte] = required_buffer_size (map type_of [V_bool True, V_int16 0xFFFE])"
    by simp
  from serialize_deserialize_roundtrip [OF this] obtain bytes where
    s: "serialize [9, 9, 9] [V_bool True, V_int16 0xFFFE] = Some bytes" and
    d: "\<forall>pre post. deserialize 0 (map type_of [V_bool True, V_int16 0xFFFE]) (pre @ bytes @ post)
       (length pre) = Some [V_bool True, V_int16 0xFFFE]"
    by blast
  from d have "deserialize 0 (map type_of [V_bool True, V_int16 0xFFFE]) ([5, 6] @ bytes @ [7])
      (length [5, 6 :: byte]) = Some [V_bool True, V_int16 0xFFFE]" by blast
  with s show ?thesis by (intro exI [of _ bytes]) (simp add: numeral_2_eq_2)
qed

text \<open>C1: \<open>build_command\<close> lays out the reserved word, the class and function identifiers and
  the images of the arguments in order, whatever the vector and the scalar pack held before;
  it stays inside the scalar pack exactly when no run of consecutive scalars is longer than it.\<close>

theorem build_command_refines_layout:
  assumes "length arr = 8" and "list_all arg_ok args"
  shows "map_option snd (build_command arr class_id func_id s buffer args) =
    (if runs_fit (length (scal_data s)) 0 args
     then Some (command_image class_id func_id args) else None)"
  using assms by (rule build_command_eq)

theorem build_command_refines_layout_witness:
  "map_option snd (build_command [1,2,3,4,5,6,7,8] 1 5
      \<lparr>scal_data = replicate 1024 3, scal_size = 7\<rparr> [42]
      [Scalar (V_uint16 0x0102), Vector T_uint16 [V_uint16 0x0304], CString [72, 105, 0, 99], Scalar (V_bool True)])
   = Some ([0,0,0,0, 0,1, 0,5, 1,2, 0,0,0,2, 4,3, 0,0,0,2, 72,105, 1])"
proof -
  let ?args = "[Scalar (V_uint16 0x0102), Vector T_uint16 [V_uint16 0x0304],
    CString [72, 105, 0, 99], Scalar (V_bool True)]"
  have ok: "list_all arg_ok ?args" by (simp add: elems_mem_def)
  have img: "command_image 1 5 ?args
      = [0,0,0,0, 0,1, 0,5, 1,2, 0,0,0,2, 4,3, 0,0,0,2, 72,105, 1]"
    by code_simp
  have "length [1,2,3,4,5,6,7,8 :: byte] = 8" by simp
  from build_command_refines_layout [OF this ok, of 1 5 "\<lparr>scal_data = replicate 1024 3, scal_size = 7\<rparr>" "[42]"]
  show ?thesis unfolding img by simp
qed

end
