(* ===== verification/Commands.thy ===== *)
theory Commands
  imports Serializer
begin

text \<open>
  The static definitions of \<open>core/kserver_defs.hpp\<close> and \<open>core/socket_interface_defs.hpp\<close>
  that the components use, and the \<open>Buffer\<close> and \<open>Command\<close> of \<open>core/commands.hpp\<close>: a
  fixed array with a read position, and a command with its header and payload buffers.
\<close>

section \<open>Static definitions\<close>

definition CMD_PAYLOAD_BUFFER_LEN :: nat where "CMD_PAYLOAD_BUFFER_LEN = 16384 * 8"
definition KSERVER_READ_STR_LEN :: nat where "KSERVER_READ_STR_LEN = 16384"
definition KSERVER_RECV_DATA_BUFF_LEN :: nat where "KSERVER_RECV_DATA_BUFF_LEN = 16384 * 2 * 4"
definition WEBSOCK_READ_STR_LEN :: nat where "WEBSOCK_READ_STR_LEN = KSERVER_RECV_DATA_BUFF_LEN"
definition WEBSOCK_SEND_BUF_LEN :: nat where "WEBSOCK_SEND_BUF_LEN = 16384 * 2 * 4"

lemmas buffer_lengths =
  CMD_PAYLOAD_BUFFER_LEN_def KSERVER_READ_STR_LEN_def KSERVER_RECV_DATA_BUFF_LEN_def
  WEBSOCK_READ_STR_LEN_def WEBSOCK_SEND_BUF_LEN_def

datatype SockType = NONE | TCP | WEBSOCK | UNIX

type_synonym SessID = int
type_synonym device_id = nat

section \<open>Buffer\<close>

record buffer =
  buf_data :: "byte list"
  position :: nat

definition Buffer :: "byte list \<Rightarrow> nat \<Rightarrow> buffer" where
  "Buffer garbage pos = \<lparr>buf_data = garbage, position = pos\<rparr>"

definition buf_size :: "buffer \<Rightarrow> nat" where
  "buf_size b = length (buf_data b)"

definition buf_set :: "buffer \<Rightarrow> buffer" where
  "buf_set b = b\<lparr>buf_data := replicate (buf_size b) 0\<rparr>"

text \<open>
  \<open>begin()\<close> is the offset \<open>position\<close>. The static assertion compares the size of the
  tuple with the whole buffer, not with what is left of it after the position.
\<close>

definition buf_deserialize :: "scalar_t list \<Rightarrow> buffer \<Rightarrow> (scalar list \<times> buffer) option" where
  "buf_deserialize ts b = do {
     tup \<leftarrow> deserialize 0 ts (buf_data b) (position b);
     Some (tup, b\<lparr>position := position b + required_buffer_size ts\<rparr>)
   }"

text \<open>The elements that a run of memory holds when it is read as \<open>T[n]\<close>.\<close>

primrec elems_of_mem :: "scalar_t \<Rightarrow> nat \<Rightarrow> byte list \<Rightarrow> scalar list" where
  "elems_of_mem t 0 m = []"
| "elems_of_mem t (Suc n) m = of_mem t (take (size_of t) m) # elems_of_mem t n (drop (size_of t) m)"

definition buf_extract_array :: "scalar_t \<Rightarrow> nat \<Rightarrow> buffer \<Rightarrow> (scalar list \<times> buffer) option" where
  "buf_extract_array t N b = do {
     m \<leftarrow> peeks (buf_data b) (position b) (size_of_array t N);
     Some (elems_of_mem t N m, b\<lparr>position := position b + size_of_array t N\<rparr>)
   }"

definition buf_to_vector :: "scalar_t \<Rightarrow> nat \<Rightarrow> buffer \<Rightarrow> (scalar list \<times> buffer) option" where
  "buf_to_vector t len b = do {
     m \<leftarrow> peeks (buf_data b) (position b) (len * size_of t);
     Some (elems_of_mem t len m, b\<lparr>position := position b + len * size_of t\<rparr>)
   }"

definition buf_to_string :: "nat \<Rightarrow> buffer \<Rightarrow> (byte list \<times> buffer) option" where
  "buf_to_string len b = do {
     m \<leftarrow> peeks (buf_data b) (position b) len;
     Some (m, b\<lparr>position := position b + len\<rparr>)
   }"

section \<open>Command\<close>

text \<open>
  \<open>sess\<close> points to the session that received the command: the identifier of that session,
  or \<^const>\<open>None\<close> before it is set.
\<close>

definition HEADER_SIZE :: nat where "HEADER_SIZE = 8"
definition HEADER_START :: nat where "HEADER_START = 4"

record command =
  sess_id :: SessID
  sess :: "SessID option"
  device :: device_id
  operation :: int
  header :: buffer
  payload :: buffer

definition Command :: "byte list \<Rightarrow> byte list \<Rightarrow> command" where
  "Command header_garbage payload_garbage =
     \<lparr>sess_id = -1, sess = None, device = 0, operation = -1,
      header = Buffer header_garbage HEADER_START, payload = Buffer payload_garbage 0\<rparr>"

text \<open>\<open>HEADER_TYPE_LIST\<close>: the device and the operation, read as \<open>uint16_t\<close>.\<close>

definition decode_header :: "SessID \<Rightarrow> command \<Rightarrow> command option" where
  "decode_header sid cmd = do {
     (tup, h) \<leftarrow> buf_deserialize [T_uint16, T_uint16] (header cmd);
     (case tup of
        [V_uint16 dev, V_uint16 op] \<Rightarrow>
          Some (cmd\<lparr>header := h, sess_id := sid, sess := Some sid, device := unat dev,
                    operation := uint op\<rparr>)
      | _ \<Rightarrow> None)
   }"

text \<open>The buffers of a command have their static sizes.\<close>

definition command_wf :: "command \<Rightarrow> bool" where
  "command_wf c \<longleftrightarrow> length (buf_data (header c)) = HEADER_SIZE
     \<and> length (buf_data (payload c)) = CMD_PAYLOAD_BUFFER_LEN"

lemma length_elems_mem:
  "list_all (\<lambda>v. type_of v = t) vs \<Longrightarrow> length (elems_mem vs) = length vs * size_of t"
  by (induction vs) (auto simp: elems_mem_def)

lemma elems_of_mem_elems_mem:
  "list_all (\<lambda>v. type_of v = t) vs \<Longrightarrow> elems_of_mem t (length vs) (elems_mem vs @ rest) = vs"
proof (induction vs)
  case (Cons v vs)
  then have "length (mem_bytes v) = size_of t" "type_of v = t" by simp_all
  with Cons of_mem_mem_bytes [of v] show ?case by (simp add: elems_mem_def)
qed (simp add: elems_mem_def)

lemma length_elems_of_mem [simp]: "length (elems_of_mem t n m) = n"
  by (induction n arbitrary: m) simp_all

text \<open>
  Where a run of bytes stands at the position of a buffer, each reader consumes exactly its
  part of it.
\<close>

definition at_position :: "buffer \<Rightarrow> byte list \<Rightarrow> bool" where
  "at_position b bs \<longleftrightarrow> peeks (buf_data b) (position b) (length bs) = Some bs"

lemma at_position_append:
  "at_position b (xs @ ys) \<longleftrightarrow>
     at_position b xs \<and> at_position (b\<lparr>position := position b + length xs\<rparr>) ys"
  by (simp add: at_position_def peeks_append_iff)

lemma at_position_skip:
  "at_position b bs \<Longrightarrow> position b + length bs \<le> length (buf_data b)"
  by (auto simp: at_position_def peeks_def split: if_splits)

lemma buf_deserialize_at:
  "at_position b (wires vs) \<Longrightarrow>
   buf_deserialize (map type_of vs) b
     = Some (vs, b\<lparr>position := position b + required_buffer_size (map type_of vs)\<rparr>)"
  using deserialize_wires [of "buf_data b" "position b" 0 vs]
  by (simp add: buf_deserialize_def at_position_def)

lemma buf_to_string_at:
  "at_position b cs \<Longrightarrow> buf_to_string (length cs) b = Some (cs, b\<lparr>position := position b + length cs\<rparr>)"
  by (simp add: buf_to_string_def at_position_def)

lemma buf_to_vector_at:
  assumes "at_position b (elems_mem vs)" and "list_all (\<lambda>v. type_of v = t) vs"
  shows "buf_to_vector t (length vs) b
    = Some (vs, b\<lparr>position := position b + length (elems_mem vs)\<rparr>)"
  using assms elems_of_mem_elems_mem [of t vs "[]"]
  by (simp add: buf_to_vector_def at_position_def length_elems_mem)

lemma buf_extract_array_at:
  assumes "at_position b (elems_mem vs)" and "list_all (\<lambda>v. type_of v = t) vs"
  shows "buf_extract_array t (length vs) b
    = Some (vs, b\<lparr>position := position b + length (elems_mem vs)\<rparr>)"
  using assms elems_of_mem_elems_mem [of t vs "[]"]
  by (simp add: buf_extract_array_def at_position_def length_elems_mem size_of_array_def mult.commute)

lemma decode_header_bytes:
  assumes "header cmd = \<lparr>buf_data = reserved @ be16 dev @ be16 op, position = HEADER_START\<rparr>"
    and "length reserved = 4"
  shows "decode_header sid cmd = Some (cmd\<lparr>header := (header cmd)\<lparr>position := 8\<rparr>, sess_id := sid,
    sess := Some sid, device := unat dev, operation := uint op\<rparr>)"
proof -
  have "at_position (header cmd) (wires [V_uint16 dev, V_uint16 op])"
    using assms by (simp add: at_position_def peeks_def slice_def HEADER_START_def)
  from buf_deserialize_at [OF this]
  have "buf_deserialize [T_uint16, T_uint16] (header cmd)
      = Some ([V_uint16 dev, V_uint16 op], (header cmd)\<lparr>position := 8\<rparr>)"
    using assms by (simp add: HEADER_START_def)
  then show ?thesis by (simp add: decode_header_def)
qed

end
