(* ===== verification/Posix.thy ===== *)
theory Posix
  imports Prelude
begin

text \<open>
  The environment of the server: what a call can do besides returning a value, and the stream
  sockets of the operating system as the scripts of what their next calls return. A script
  lists every behaviour that \<open>read(2)\<close> and \<open>write(2)\<close> document: data in chunks of any
  size, end of file, an error that a later call may not meet (\<open>RxErr\<close>) or that every later call
  meets (\<open>RxFail\<close>), a partial write. A call that finds its script empty waits.
\<close>

section \<open>Results of a call\<close>

text \<open>A value, undefined behaviour, a call that waits for its peer, a C++ exception.\<close>

datatype 'a res = Ret 'a | Undef | Wait | Throw

primrec bind_res :: "'a res \<Rightarrow> ('a \<Rightarrow> 'b res) \<Rightarrow> 'b res" where
  "bind_res (Ret x) f = f x"
| "bind_res Undef f = Undef"
| "bind_res Wait f = Wait"
| "bind_res Throw f = Throw"

definition of_ub :: "'a option \<Rightarrow> 'a res" where
  "of_ub m = (case m of None \<Rightarrow> Undef | Some x \<Rightarrow> Ret x)"

definition of_wait :: "'a option \<Rightarrow> 'a res" where
  "of_wait m = (case m of None \<Rightarrow> Wait | Some x \<Rightarrow> Ret x)"

lemma of_res_simps [simp]:
  "of_ub None = Undef" "of_ub (Some x) = Ret x" "of_wait None = Wait" "of_wait (Some y) = Ret y"
  by (simp_all add: of_ub_def of_wait_def)

lemma bind_res_Ret_iff: "bind_res m f = Ret y \<longleftrightarrow> (\<exists>x. m = Ret x \<and> f x = Ret y)"
  by (cases m) auto

lemma bind_res_assoc: "bind_res (bind_res m f) g = bind_res m (\<lambda>x. bind_res (f x) g)"
  by (cases m) auto

text \<open>
  A call is safe for a postcondition: it returns a value with it or waits, and is neither
  undefined nor ends with an exception.
\<close>

definition safe_res :: "('a \<Rightarrow> bool) \<Rightarrow> 'a res \<Rightarrow> bool" where
  "safe_res Q m \<longleftrightarrow> (case m of Ret x \<Rightarrow> Q x | Wait \<Rightarrow> True | _ \<Rightarrow> False)"

lemma safe_res_simps [simp]:
  "safe_res Q (Ret x) = Q x" "safe_res Q Wait" "\<not> safe_res Q Undef" "\<not> safe_res Q Throw"
  by (simp_all add: safe_res_def)

lemma safe_res_bind: "safe_res Q m \<Longrightarrow> (\<And>x. Q x \<Longrightarrow> safe_res R (f x)) \<Longrightarrow> safe_res R (bind_res m f)"
  by (cases m) auto

lemma safe_res_mono: "safe_res Q m \<Longrightarrow> (\<And>x. Q x \<Longrightarrow> R x) \<Longrightarrow> safe_res R m"
  by (cases m) auto

lemma safe_res_of_wait: "(\<And>x. m = Some x \<Longrightarrow> Q x) \<Longrightarrow> safe_res Q (of_wait m)"
  by (cases m) auto

lemma safe_resD: "safe_res Q (Ret x) \<Longrightarrow> Q x"
  by simp

text \<open>A call that may never return: \<^const>\<open>None\<close>.\<close>

definition bind_ro :: "'a res option \<Rightarrow> ('a \<Rightarrow> 'b res option) \<Rightarrow> 'b res option" where
  "bind_ro m f = (case m of None \<Rightarrow> None | Some r \<Rightarrow>
     (case r of Ret x \<Rightarrow> f x | Undef \<Rightarrow> Some Undef | Wait \<Rightarrow> Some Wait | Throw \<Rightarrow> Some Throw))"

lemma bind_ro_simps [simp]:
  "bind_ro (Some (Ret x)) f = f x" "bind_ro None f = None" "bind_ro (Some Undef) f = Some Undef"
  "bind_ro (Some Wait) f = Some Wait" "bind_ro (Some Throw) f = Some Throw"
  by (simp_all add: bind_ro_def)

lemma bind_ro_mono [partial_function_mono]:
  assumes "monotone orda option_ord m" and "\<And>y. monotone orda option_ord (\<lambda>f. c f y)"
  shows "monotone orda option_ord (\<lambda>f. bind_ro (m f) (c f))"
proof (rule monotoneI)
  fix f g assume le: "orda f g"
  have 1: "option_ord (m f) (m g)" and 2: "\<And>y. option_ord (c f y) (c g y)"
    using monotoneD [OF assms(1) le] monotoneD [OF assms(2) le] by auto
  then show "option_ord (bind_ro (m f) (c f)) (bind_ro (m g) (c g))"
    by (cases "m f") (auto simp: flat_ord_def bind_ro_def split: option.splits res.splits)
qed

section \<open>Stream sockets\<close>

datatype rx_event = RxData "byte list" | RxEof | RxErr | RxFail
datatype tx_event = TxAccept nat | TxErr

text \<open>\<open>read\<close> and \<open>write\<close> transfer at most \<open>0x7ffff000\<close> bytes.\<close>

definition IO_MAX :: nat where "IO_MAX = 0x7ffff000"

fun sock_read :: "nat \<Rightarrow> rx_event list \<Rightarrow> (int \<times> byte list \<times> rx_event list) option" where
  "sock_read n [] = (if n = 0 then Some (0, [], []) else None)"
| "sock_read n (RxData bs # es) =
     (if n = 0 then Some (0, [], RxData bs # es)
      else if bs = [] then sock_read n es
      else let k = min (min n IO_MAX) (length bs)
           in Some (int k, take k bs, if k = length bs then es else RxData (drop k bs) # es))"
| "sock_read n (RxEof # es) = Some (0, [], RxEof # es)"
| "sock_read n (RxErr # es) = (if n = 0 then Some (0, [], RxErr # es) else Some (-1, [], es))"
| "sock_read n (RxFail # es) = (if n = 0 then Some (0, [], RxFail # es) else Some (-1, [], RxFail # es))"

fun sock_write :: "byte list \<Rightarrow> tx_event list \<Rightarrow> (int \<times> byte list \<times> tx_event list) option" where
  "sock_write bs [] = (if bs = [] then Some (0, [], []) else None)"
| "sock_write bs (TxAccept k # es) =
     (let k = min (min k IO_MAX) (length bs) in Some (int k, take k bs, es))"
| "sock_write bs (TxErr # es) = Some (-1, [], es)"

text \<open>What is left to receive, what the next writes return, what has been sent.\<close>

record sock =
  rx :: "rx_event list"
  tx :: "tx_event list"
  sent :: "byte list"

text \<open>The bytes that arrive before the stream ends or fails, and what comes after them.\<close>

fun rx_bytes :: "rx_event list \<Rightarrow> byte list" where
  "rx_bytes (RxData bs # es) = bs @ rx_bytes es"
| "rx_bytes es = []"

fun rx_after :: "rx_event list \<Rightarrow> rx_event list" where
  "rx_after (RxData bs # es) = rx_after es"
| "rx_after es = es"

lemma rx_after_not_data: "rx_after es \<noteq> RxData bs # es'"
  by (induction es rule: rx_after.induct) simp_all

lemma sock_read_pos:
  "sock_read n es = Some (r, bs, es') \<Longrightarrow> 0 < r \<Longrightarrow>
   bs \<noteq> [] \<and> length bs \<le> n \<and> r = int (length bs) \<and>
   rx_bytes es = bs @ rx_bytes es' \<and> rx_after es' = rx_after es"
  by (induction n es rule: sock_read.induct)
    (auto simp: Let_def IO_MAX_def min_def split: if_splits)

lemma sock_read_nonpos:
  "sock_read n es = Some (r, bs, es') \<Longrightarrow> r \<le> 0 \<Longrightarrow> 0 < n \<Longrightarrow> rx_bytes es = [] \<and> bs = []"
  by (induction n es rule: sock_read.induct)
    (auto simp: Let_def IO_MAX_def min_def split: if_splits)

text \<open>How a receive that has taken \<open>got\<close> and needs more ends: it waits, fails or meets the end.\<close>

definition stream_end :: "rx_event list \<Rightarrow> byte list \<Rightarrow> (int \<times> byte list \<times> rx_event list) option" where
  "stream_end es got = (case rx_after es of [] \<Rightarrow> None
     | RxErr # es' \<Rightarrow> Some (-1, got, es') | RxFail # es' \<Rightarrow> Some (-1, got, RxFail # es')
     | es' \<Rightarrow> Some (0, got, es'))"

lemma stream_end_cong: "rx_after es = rx_after es' \<Longrightarrow> stream_end es got = stream_end es' got"
  by (simp add: stream_end_def)

lemma sock_read_no_data: "rx_bytes es = [] \<Longrightarrow> 0 < n \<Longrightarrow> sock_read n es = stream_end es []"
  by (induction n es rule: sock_read.induct) (auto simp: stream_end_def)

lemma sock_read_data:
  assumes "rx_bytes es \<noteq> []" and "0 < n"
  obtains bs es' where "sock_read n es = Some (int (length bs), bs, es')" and "bs \<noteq> []"
    and "length bs \<le> n" and "rx_bytes es = bs @ rx_bytes es'" and "rx_after es' = rx_after es"
proof -
  have "\<exists>r bs es'. sock_read n es = Some (r, bs, es') \<and> 0 < r"
    using assms by (induction n es rule: sock_read.induct) (auto simp: Let_def IO_MAX_def)
  then obtain r bs es' where r: "sock_read n es = Some (r, bs, es')" and "0 < r" by blast
  from sock_read_pos [OF this] r that show thesis by simp
qed

end
