(* ===== verification/Transport.thy ===== *)
theory Transport
  imports Commands Posix
begin

text \<open>
  How the arguments of an operation are received: \<open>scripts/devgen.py\<close> groups them into packs
  and generates, for each pack, one call of \<open>deserialize\<close> or \<open>recv\<close> of the session. The
  contract of those calls is the locale \<open>session_transport\<close>, which the TCP, Unix and WebSocket
  sessions provide, and reception of a whole argument list is proved correct once, from it.
\<close>

section \<open>Argument packs\<close>

datatype arg_t = ScalarArg scalar_t | VectorArg scalar_t | StringArg | ArrayArg scalar_t nat

datatype arg_pack =
    ScalarPack "scalar_t list"
  | VectorPack scalar_t
  | StringPack
  | ArrayPack scalar_t nat

text \<open>The scalars collected in \<open>args_list\<close>, as a pack when there are some.\<close>

definition flush_scalars :: "scalar_t list \<Rightarrow> arg_pack list" where
  "flush_scalars args_list = (if args_list = [] then [] else [ScalarPack args_list])"

fun build_packs :: "arg_pack list \<Rightarrow> scalar_t list \<Rightarrow> bool \<Rightarrow> arg_t list \<Rightarrow> arg_pack list \<times> bool" where
  "build_packs packs args_list has_vector [] = (packs @ flush_scalars args_list, has_vector)"
| "build_packs packs args_list has_vector (ArrayArg t n # as) =
     build_packs (packs @ flush_scalars args_list @ [ArrayPack t n]) [] has_vector as"
| "build_packs packs args_list has_vector (VectorArg t # as) =
     build_packs (packs @ flush_scalars args_list @ [VectorPack t]) [] True as"
| "build_packs packs args_list has_vector (StringArg # as) =
     build_packs (packs @ flush_scalars args_list @ [StringPack]) [] True as"
| "build_packs packs args_list has_vector (ScalarArg t # as) =
     build_packs packs (args_list @ [t]) has_vector as"

definition build_args_packs :: "arg_t list \<Rightarrow> arg_pack list \<times> bool" where
  "build_args_packs arguments = build_packs [] [] False arguments"

section \<open>The generated parser\<close>

text \<open>
  The calls of a session. \<open>recv\<close> gets the container of the argument structure with what it
  held before: the structure is a member of the device and lives between commands.
\<close>

record 's transport_ops =
  op_deserialize :: "scalar_t list \<Rightarrow> 's \<Rightarrow> (int \<times> scalar list \<times> 's) res"
  op_recv_array :: "scalar_t \<Rightarrow> nat \<Rightarrow> 's \<Rightarrow> (int \<times> scalar list \<times> 's) res"
  op_recv_vector :: "scalar_t \<Rightarrow> scalar list \<Rightarrow> 's \<Rightarrow> (int \<times> scalar list \<times> 's) res"
  op_recv_string :: "byte list \<Rightarrow> 's \<Rightarrow> (int \<times> byte list \<times> 's) res"

definition parse_pack :: "'s transport_ops \<Rightarrow> scalar list \<Rightarrow> byte list \<Rightarrow> arg_pack \<Rightarrow> 's
    \<Rightarrow> (int \<times> cmd_arg list \<times> 's) res" where
  "parse_pack ops vec str p s = (case p of
     ScalarPack ts \<Rightarrow> bind_res (op_deserialize ops ts s) (\<lambda>(err, vs, s).
       if err < 0 then Ret (-1, [], s) else Ret (0, map Scalar vs, s))
   | VectorPack t \<Rightarrow> bind_res (op_recv_vector ops t vec s) (\<lambda>(err, vs, s).
       if err < 0 then Ret (-1, [], s) else Ret (0, [Vector t vs], s))
   | StringPack \<Rightarrow> bind_res (op_recv_string ops str s) (\<lambda>(err, cs, s).
       if err < 0 then Ret (-1, [], s) else Ret (0, [StdString cs], s))
   | ArrayPack t n \<Rightarrow> bind_res (op_recv_array ops t n s) (\<lambda>(err, vs, s).
       if err < 0 then Ret (-1, [], s) else Ret (0, [StdArray t vs], s)))"

text \<open>\<open>old\<close> gives what the containers of the \<open>k\<close>-th pack held before.\<close>

fun parse_packs :: "'s transport_ops \<Rightarrow> (nat \<Rightarrow> scalar_t \<Rightarrow> scalar list) \<Rightarrow> (nat \<Rightarrow> byte list) \<Rightarrow> nat
    \<Rightarrow> arg_pack list \<Rightarrow> 's \<Rightarrow> (int \<times> cmd_arg list \<times> 's) res" where
  "parse_packs ops old_vec old_str k [] s = Ret (0, [], s)"
| "parse_packs ops old_vec old_str k (p # ps) s =
     bind_res (parse_pack ops (case p of VectorPack t \<Rightarrow> old_vec k t | _ \<Rightarrow> []) (old_str k) p s)
       (\<lambda>(err, args, s).
         if err < 0 then Ret (-1, args, s)
         else bind_res (parse_packs ops old_vec old_str (Suc k) ps s)
           (\<lambda>(err, args', s). Ret (err, args @ args', s)))"

definition parse_arguments :: "'s transport_ops \<Rightarrow> (nat \<Rightarrow> scalar_t \<Rightarrow> scalar list) \<Rightarrow> (nat \<Rightarrow> byte list)
    \<Rightarrow> arg_t list \<Rightarrow> 's \<Rightarrow> (int \<times> cmd_arg list \<times> 's) res" where
  "parse_arguments ops old_vec old_str arguments s =
     parse_packs ops old_vec old_str 0 (fst (build_args_packs arguments)) s"

section \<open>Types of arguments\<close>

fun arg_type :: "cmd_arg \<Rightarrow> arg_t" where
  "arg_type (Scalar v) = ScalarArg (type_of v)"
| "arg_type (Vector t vs) = VectorArg t"
| "arg_type (StdString cs) = StringArg"
| "arg_type (StdArray t vs) = ArrayArg t (length vs)"
| "arg_type (CString m) = StringArg"

text \<open>An argument as the server receives it: well-typed, and not a C string.\<close>

primrec arg_rcv_ok :: "cmd_arg \<Rightarrow> bool" where
  "arg_rcv_ok (Scalar v) = True"
| "arg_rcv_ok (Vector t vs) = list_all (\<lambda>v. type_of v = t) vs"
| "arg_rcv_ok (StdString cs) = True"
| "arg_rcv_ok (StdArray t vs) = list_all (\<lambda>v. type_of v = t) vs"
| "arg_rcv_ok (CString m) = False"

text \<open>What the containers held before is well-typed, as C++ types are.\<close>

definition old_ok :: "(nat \<Rightarrow> scalar_t \<Rightarrow> scalar list) \<Rightarrow> bool" where
  "old_ok old_vec \<longleftrightarrow> (\<forall>k t. list_all (\<lambda>v. type_of v = t) (old_vec k t))"

text \<open>The packs without the accumulator of the loop.\<close>

fun split_packs :: "scalar_t list \<Rightarrow> arg_t list \<Rightarrow> arg_pack list" where
  "split_packs al [] = flush_scalars al"
| "split_packs al (ArrayArg t n # as) = flush_scalars al @ ArrayPack t n # split_packs [] as"
| "split_packs al (VectorArg t # as) = flush_scalars al @ VectorPack t # split_packs [] as"
| "split_packs al (StringArg # as) = flush_scalars al @ StringPack # split_packs [] as"
| "split_packs al (ScalarArg t # as) = split_packs (al @ [t]) as"

lemma build_packs_split: "fst (build_packs packs al hv as) = packs @ split_packs al as"
  by (induction packs al hv as rule: build_packs.induct) simp_all

lemma has_vector_iff:
  "snd (build_packs packs al hv as) \<longleftrightarrow> hv \<or> StringArg \<in> set as \<or> (\<exists>t. VectorArg t \<in> set as)"
  by (induction packs al hv as rule: build_packs.induct) auto

text \<open>The pack of an argument that is not a scalar.\<close>

fun container_pack :: "cmd_arg \<Rightarrow> arg_pack option" where
  "container_pack (Vector t vs) = Some (VectorPack t)"
| "container_pack (StdString cs) = Some StringPack"
| "container_pack (StdArray t vs) = Some (ArrayPack t (length vs))"
| "container_pack _ = None"

lemma split_packs_container:
  "container_pack a = Some p \<Longrightarrow>
   split_packs al (arg_type a # as) = flush_scalars al @ p # split_packs [] as"
  by (cases a rule: container_pack.cases) auto

lemma bind_res_append_Nil: "bind_res m (\<lambda>(err, args, s). Ret (err, [] @ args, s)) = m"
  by (cases m) auto

section \<open>The contract of a session\<close>

text \<open>
  \<open>pending s\<close> is what the session has not consumed yet. Each call takes exactly the image of
  its argument from it.
\<close>

locale session_transport =
  fixes ops :: "'s transport_ops"
    and pending :: "'s \<Rightarrow> byte list"
    and inv :: "'s \<Rightarrow> bool"
  assumes deserialize_law:
    "inv s \<Longrightarrow> pending s = wires vs @ rest \<Longrightarrow> length (wires vs) < 2 ^ 31 \<Longrightarrow>
     \<exists>err s'. op_deserialize ops (map type_of vs) s = Ret (err, vs, s') \<and> 0 \<le> err
       \<and> inv s' \<and> pending s' = rest"
    and array_law:
    "inv s \<Longrightarrow> pending s = elems_mem es @ rest \<Longrightarrow> length (elems_mem es) < 2 ^ 31 \<Longrightarrow>
     list_all (\<lambda>v. type_of v = t) es \<Longrightarrow>
     \<exists>err s'. op_recv_array ops t (length es) s = Ret (err, es, s') \<and> 0 \<le> err
       \<and> inv s' \<and> pending s' = rest"
    and vector_law:
    "inv s \<Longrightarrow> pending s = be32 (word_of_nat (length (elems_mem es))) @ elems_mem es @ rest \<Longrightarrow>
     length (elems_mem es) < 2 ^ 31 \<Longrightarrow> list_all (\<lambda>v. type_of v = t) es \<Longrightarrow>
     list_all (\<lambda>v. type_of v = t) old \<Longrightarrow>
     \<exists>err s'. op_recv_vector ops t old s = Ret (err, es, s') \<and> 0 \<le> err
       \<and> inv s' \<and> pending s' = rest"
    and string_law:
    "inv s \<Longrightarrow> pending s = be32 (word_of_nat (length cs)) @ cs @ rest \<Longrightarrow> length cs < 2 ^ 31 \<Longrightarrow>
     \<exists>err s'. op_recv_string ops str s = Ret (err, cs, s') \<and> 0 \<le> err
       \<and> inv s' \<and> pending s' = rest"
begin

lemma flush_received:
  assumes "inv s" and "pending s = wires vs @ rest" and "length (wires vs) < 2 ^ 31"
  obtains s' k' where "parse_packs ops ov os k (flush_scalars (map type_of vs) @ ps) s =
      bind_res (parse_packs ops ov os k' ps s') (\<lambda>(err, args, s). Ret (err, map Scalar vs @ args, s))"
    and "inv s'" and "pending s' = rest"
proof (cases "vs = []")
  case True
  with assms that [of k s] show thesis by (simp add: flush_scalars_def bind_res_append_Nil [simplified])
next
  case False
  obtain err s' where "op_deserialize ops (map type_of vs) s = Ret (err, vs, s')" "0 \<le> err"
    "inv s'" "pending s' = rest"
    using deserialize_law [OF assms] by blast
  with False that [of "Suc k" s'] show thesis by (simp add: flush_scalars_def parse_pack_def)
qed

lemma container_received:
  assumes "inv s" and "pending s = arg_image a @ rest" and "length (arg_image a) < 2 ^ 31"
    and "arg_rcv_ok a" and "container_pack a = Some p" and "\<And>t. list_all (\<lambda>v. type_of v = t) (vec t)"
  obtains s' where "parse_pack ops (case p of VectorPack t \<Rightarrow> vec t | _ \<Rightarrow> []) str p s = Ret (0, [a], s')"
    and "inv s'" and "pending s' = rest"
proof (cases a)
  case (Vector t vs)
  with assms vector_law [of s vs rest t "vec t"] that show thesis by (auto simp: parse_pack_def)
next
  case (StdString cs)
  with assms string_law [of s cs rest str] that show thesis by (auto simp: parse_pack_def)
next
  case (StdArray t vs)
  with assms array_law [of s vs rest t] that show thesis by (auto simp: parse_pack_def)
qed (use assms in simp_all)

lemma packs_received:
  "inv s \<Longrightarrow> pending s = wires vs @ concat (map arg_image args) @ rest \<Longrightarrow>
   length (wires vs @ concat (map arg_image args)) < 2 ^ 31 \<Longrightarrow> list_all arg_rcv_ok args \<Longrightarrow>
   old_ok ov \<Longrightarrow>
   \<exists>s'. parse_packs ops ov os k (split_packs (map type_of vs) (map arg_type args)) s
       = Ret (0, map Scalar vs @ args, s') \<and> inv s' \<and> pending s' = rest"
proof (induction args arbitrary: vs s k)
  case Nil
  from Nil.prems obtain s' k' where "parse_packs ops ov os k (flush_scalars (map type_of vs) @ []) s =
      bind_res (parse_packs ops ov os k' [] s') (\<lambda>(err, args, s). Ret (err, map Scalar vs @ args, s))"
    "inv s'" "pending s' = rest"
    using flush_received [of s vs rest ov os k "[]"] by auto
  then show ?case by simp
next
  case (Cons a args)
  show ?case
  proof (cases "container_pack a")
    case None
    with Cons.prems obtain v where a: "a = Scalar v" by (cases a) auto
    have "\<exists>s'. parse_packs ops ov os k (split_packs (map type_of (vs @ [v])) (map arg_type args)) s
       = Ret (0, map Scalar (vs @ [v]) @ args, s') \<and> inv s' \<and> pending s' = rest"
      by (rule Cons.IH) (use Cons.prems a in \<open>auto simp: wires_def\<close>)
    with a show ?thesis by simp
  next
    case (Some p)
    let ?qs = "p # split_packs [] (map arg_type args)"
    obtain s1 k' where 1: "parse_packs ops ov os k (flush_scalars (map type_of vs) @ ?qs) s =
        bind_res (parse_packs ops ov os k' ?qs s1) (\<lambda>(err, args, s). Ret (err, map Scalar vs @ args, s))"
      and s1: "inv s1" "pending s1 = arg_image a @ concat (map arg_image args) @ rest"
      by (rule flush_received [of s vs "arg_image a @ concat (map arg_image args) @ rest" ov os k ?qs])
        (use Cons.prems in auto)
    obtain s2 where 2: "parse_pack ops (case p of VectorPack t \<Rightarrow> ov k' t | _ \<Rightarrow> []) (os k') p s1 = Ret (0, [a], s2)"
      and s2: "inv s2" "pending s2 = concat (map arg_image args) @ rest"
      by (rule container_received [OF s1 _ _ Some, of "ov k'" "os k'"])
        (use Cons.prems in \<open>auto simp: old_ok_def\<close>)
    have "\<exists>s'. parse_packs ops ov os (Suc k') (split_packs (map type_of []) (map arg_type args)) s2
       = Ret (0, map Scalar [] @ args, s') \<and> inv s' \<and> pending s' = rest"
      by (rule Cons.IH) (use Cons.prems s2 in \<open>auto simp: wires_def\<close>)
    with 1 2 Some show ?thesis by (auto simp: split_packs_container)
  qed
qed

text \<open>The arguments of a command, received one pack after the other.\<close>

lemma arguments_received:
  assumes "inv s" and "pending s = concat (map arg_image args) @ rest"
    and "length (concat (map arg_image args)) < 2 ^ 31" and "list_all arg_rcv_ok args" and "old_ok ov"
  shows "\<exists>s'. parse_arguments ops ov os (map arg_type args) s = Ret (0, args, s')
    \<and> inv s' \<and> pending s' = rest"
  using packs_received [of s "[]" args rest ov os 0] assms
  by (simp add: parse_arguments_def build_args_packs_def build_packs_split)

end

end
