(* ===== verification/TcpSession.thy ===== *)
theory TcpSession
  imports Transport
begin

text \<open>
  The TCP (and Unix socket) specialisation of the session, from \<open>core/kserver_session.cpp\<close>
  and \<open>core/kserver_session.hpp\<close>: receiving exactly \<open>n\<close> bytes from a stream, reading a
  command header, receiving arrays, vectors, strings and tuples, and writing a message.
  The memory a buffer holds before it is filled is the parameter \<open>garbage\<close>.
  The platform is x86-64: \<open>size_t\<close> has 64 bits.
\<close>

section \<open>Receiving\<close>

function rcv_loop :: "nat \<Rightarrow> byte list \<Rightarrow> rx_event list \<Rightarrow> (int \<times> byte list \<times> rx_event list) option" where
  "rcv_loop n_bytes got es =
     (if length got < n_bytes then
        (case sock_read (n_bytes - length got) es of
           None \<Rightarrow> None
         | Some (bytes_rcv, bs, es') \<Rightarrow>
             if bytes_rcv = 0 then Some (0, got, es')
             else if bytes_rcv < 0 then Some (-1, got, es')
             else rcv_loop n_bytes (got @ bs) es')
      else Some (to_int (int (length got)), got, es))"
  by pat_completeness auto
termination
  by (relation "measure (\<lambda>(n, got, es). n - length got)")
    (auto dest!: sock_read_pos intro!: diff_less_mono2 simp flip: length_greater_0_conv)

declare rcv_loop.simps [simp del]

text \<open>The value returned, the bytes stored from the start of the buffer on, the rest of the stream.\<close>

definition rcv_n_bytes :: "nat \<Rightarrow> rx_event list \<Rightarrow> (int \<times> byte list \<times> rx_event list) option" where
  "rcv_n_bytes n_bytes es = rcv_loop n_bytes [] es"

text \<open>What a loop that has \<open>got\<close> some bytes finds in the stream.\<close>

lemma rcv_loop_complete:
  "length got \<le> n \<Longrightarrow> n - length got \<le> length (rx_bytes es) \<Longrightarrow>
   \<exists>es'. rcv_loop n got es = Some (to_int (int n), got @ take (n - length got) (rx_bytes es), es')
     \<and> rx_bytes es' = drop (n - length got) (rx_bytes es) \<and> rx_after es' = rx_after es"
proof (induction n got es rule: rcv_loop.induct)
  case (1 n got es)
  show ?case
  proof (cases "length got < n")
    case True
    with "1.prems" have "rx_bytes es \<noteq> []" "0 < n - length got" by auto
    then obtain bs es' where rd: "sock_read (n - length got) es = Some (int (length bs), bs, es')"
      and bs: "bs \<noteq> []" "length bs \<le> n - length got" "rx_bytes es = bs @ rx_bytes es'"
        "rx_after es' = rx_after es"
      by (rule sock_read_data)
    have "n - length (got @ bs) \<le> length (rx_bytes es')" "length (got @ bs) \<le> n"
      using bs "1.prems" True by auto
    with "1.IH" [OF True rd refl refl] bs(1) obtain es'' where
      "rcv_loop n (got @ bs) es' = Some (to_int (int n),
         (got @ bs) @ take (n - length (got @ bs)) (rx_bytes es'), es'')"
      "rx_bytes es'' = drop (n - length (got @ bs)) (rx_bytes es')" "rx_after es'' = rx_after es'"
      by auto
    with True rd bs show ?thesis
      by (simp add: rcv_loop.simps [of n got es])
  qed (use "1.prems" in \<open>simp add: rcv_loop.simps [of n got es]\<close>)
qed

lemma rcv_loop_short:
  "length (rx_bytes es) < n - length got \<Longrightarrow> rcv_loop n got es = stream_end es (got @ rx_bytes es)"
proof (induction n got es rule: rcv_loop.induct)
  case (1 n got es)
  then have lt: "length got < n" by simp
  show ?case
  proof (cases "rx_bytes es = []")
    case True
    with lt show ?thesis
      by (simp add: rcv_loop.simps [of n got es] sock_read_no_data stream_end_def
          split: list.split rx_event.split)
  next
    case False
    then obtain bs es' where rd: "sock_read (n - length got) es = Some (int (length bs), bs, es')"
      and bs: "bs \<noteq> []" "rx_bytes es = bs @ rx_bytes es'" "rx_after es' = rx_after es"
      using lt by (auto elim: sock_read_data [of es "n - length got"])
    have "length (rx_bytes es') < n - length (got @ bs)"
      using bs "1.prems" by simp
    with "1.IH" [OF lt rd refl refl] bs stream_end_cong [OF bs(3)] have
      "rcv_loop n (got @ bs) es' = stream_end es ((got @ bs) @ rx_bytes es')"
      by simp
    with lt rd bs show ?thesis
      by (simp add: rcv_loop.simps [of n got es])
  qed
qed

lemma rcv_n_bytes_complete:
  assumes "n \<le> length (rx_bytes es)"
  obtains es' where "rcv_n_bytes n es = Some (to_int (int n), take n (rx_bytes es), es')"
    and "rx_bytes es' = drop n (rx_bytes es)" and "rx_after es' = rx_after es"
  using rcv_loop_complete [of "[]" n es] assms by (auto simp: rcv_n_bytes_def)

lemma rcv_n_bytes_short:
  "length (rx_bytes es) < n \<Longrightarrow> rcv_n_bytes n es = stream_end es (rx_bytes es)"
  by (simp add: rcv_n_bytes_def rcv_loop_short)

section \<open>Commands and arguments\<close>

definition tcp_read_command :: "SessID \<Rightarrow> command \<Rightarrow> sock \<Rightarrow> (int \<times> command \<times> sock) res" where
  "tcp_read_command sid cmd s =
     bind_res (of_wait (rcv_n_bytes HEADER_SIZE (rx s))) (\<lambda>(header_bytes, got, es).
     bind_res (of_ub (pokes (buf_data (header cmd)) 0 got)) (\<lambda>d.
       let s = s\<lparr>rx := es\<rparr>; cmd = cmd\<lparr>header := (header cmd)\<lparr>buf_data := d\<rparr>\<rparr> in
       if header_bytes = 0 then Ret (header_bytes, cmd, s)
       else if header_bytes < 0 then Ret (header_bytes, cmd, s)
       else bind_res (of_ub (decode_header sid cmd)) (\<lambda>cmd. Ret (header_bytes, cmd, s))))"

text \<open>\<open>rcv_n_bytes\<close> into the memory \<open>mem\<close> of a variable.\<close>

definition rcv_into :: "byte list \<Rightarrow> nat \<Rightarrow> sock \<Rightarrow> (int \<times> byte list \<times> sock) res" where
  "rcv_into mem n s =
     bind_res (of_wait (rcv_n_bytes n (rx s))) (\<lambda>(err, got, es).
     bind_res (of_ub (pokes mem 0 got)) (\<lambda>mem. Ret (err, mem, s\<lparr>rx := es\<rparr>)))"

definition tcp_recv_array :: "scalar_t \<Rightarrow> nat \<Rightarrow> byte list \<Rightarrow> sock \<Rightarrow> (int \<times> scalar list \<times> sock) res" where
  "tcp_recv_array t N garbage s =
     bind_res (rcv_into garbage (size_of_array t N) s) (\<lambda>(err, mem, s).
     Ret (err, elems_of_mem t N mem, s))"

text \<open>The length arrives in a \<open>Buffer<sizeof(uint64_t)>\<close>, of which four bytes are filled.\<close>

definition get_pack_length :: "byte list \<Rightarrow> sock \<Rightarrow> (int \<times> sock) res" where
  "get_pack_length garbage s =
     bind_res (rcv_into garbage size_of_uint32 s) (\<lambda>(err, mem, s).
       if err < 0 then Ret (-1, s)
       else bind_res (of_ub (buf_deserialize [T_uint32] (Buffer mem 0))) (\<lambda>(tup, _).
         case tup of [V_uint32 len] \<Rightarrow> Ret (uint len, s) | _ \<Rightarrow> Undef))"

text \<open>
  \<open>const auto length = get_pack_length() / sizeof(T)\<close> divides an \<open>int64_t\<close> by a
  \<open>size_t\<close>: both are converted to 64-bit unsigned, and \<open>length < 0\<close> is never true.
  \<open>resize\<close> beyond \<open>max_size()\<close> throws \<open>std::length_error\<close>.
\<close>

definition vector_max_size :: "scalar_t \<Rightarrow> nat" where
  "vector_max_size t = (2 ^ 63 - 1) div size_of t"

definition zero_of :: "scalar_t \<Rightarrow> scalar" where
  "zero_of t = of_mem t (replicate (size_of t) 0)"

definition tcp_recv_vector ::
  "scalar_t \<Rightarrow> byte list \<Rightarrow> scalar list \<Rightarrow> sock \<Rightarrow> (int \<times> scalar list \<times> sock) res" where
  "tcp_recv_vector t garbage vec s =
     bind_res (get_pack_length garbage s) (\<lambda>(pack_len, s).
       let len = unat ((word_of_int pack_len :: u64) div word_of_nat (size_of t)) in
       if len > vector_max_size t then Throw
       else bind_res (rcv_into (elems_mem (resize (zero_of t) len vec)) (len * size_of t) s)
         (\<lambda>(err, mem, s). Ret (err, elems_of_mem t len mem, s)))"

definition tcp_recv_string :: "byte list \<Rightarrow> byte list \<Rightarrow> sock \<Rightarrow> (int \<times> byte list \<times> sock) res" where
  "tcp_recv_string garbage str s =
     bind_res (get_pack_length garbage s) (\<lambda>(len, s).
       if len < 0 then Ret (-1, str, s)
       else rcv_into (resize 0 (nat len) str) (nat len) s)"

text \<open>An empty tuple is the \<open>std::false_type\<close> overload.\<close>

definition tcp_deserialize :: "scalar_t list \<Rightarrow> byte list \<Rightarrow> sock \<Rightarrow> (int \<times> scalar list \<times> sock) res" where
  "tcp_deserialize ts garbage s =
     (if ts = [] then Ret (0, [], s)
      else bind_res (rcv_into garbage (required_buffer_size ts) s) (\<lambda>(err, mem, s).
        bind_res (of_ub (buf_deserialize ts (Buffer mem 0))) (\<lambda>(tup, _). Ret (err, tup, s))))"

text \<open>
  \<open>write\<close> of a byte vector: its length goes through \<open>unsigned int\<close> and \<open>int\<close>; a negative
  \<open>int\<close> becomes a huge count for \<open>write(2)\<close>, which then reads past the vector.
\<close>

definition tcp_write :: "byte list \<Rightarrow> sock \<Rightarrow> (int \<times> sock) res" where
  "tcp_write data s =
     (let bytes_send = to_int (to_uint (int (length data))) in
      if bytes_send < 0 then Undef
      else bind_res (of_wait (sock_write (take (nat bytes_send) data) (tx s))) (\<lambda>(n_bytes_send, out, es).
        let s = s\<lparr>tx := es, sent := sent s @ out\<rparr> in
        if n_bytes_send = 0 then Ret (0, s)
        else if n_bytes_send < 0 then Ret (-1, s)
        else if n_bytes_send \<noteq> bytes_send then Ret (-1, s)
        else Ret (bytes_send, s)))"

section \<open>Correctness of reception\<close>

text \<open>From one state of a socket to another only bytes of the stream were taken.\<close>

definition received_from :: "sock \<Rightarrow> sock \<Rightarrow> bool" where
  "received_from s s' \<longleftrightarrow> tx s' = tx s \<and> sent s' = sent s \<and> rx_after (rx s') = rx_after (rx s)"

lemma received_from_refl [simp]: "received_from s s"
  by (simp add: received_from_def)

lemma received_from_rx [simp]: "received_from s (s\<lparr>rx := es\<rparr>) \<longleftrightarrow> rx_after es = rx_after (rx s)"
  by (simp add: received_from_def)

lemma received_from_trans: "received_from a b \<Longrightarrow> received_from b c \<Longrightarrow> received_from a c"
  by (simp add: received_from_def)

lemma rcv_into_prefix:
  assumes "rx_bytes (rx s) = bs @ rest" and "length bs = n" and "n \<le> length mem" and "n < 2 ^ 31"
  obtains es' where "rcv_into mem n s = Ret (int n, bs @ drop n mem, s\<lparr>rx := es'\<rparr>)"
    and "rx_bytes es' = rest" and "rx_after es' = rx_after (rx s)"
proof -
  have "n \<le> length (rx_bytes (rx s))" using assms by simp
  then obtain es' where es': "rcv_n_bytes n (rx s) = Some (to_int (int n), take n (rx_bytes (rx s)), es')"
    and es'_rest: "rx_bytes es' = drop n (rx_bytes (rx s))" "rx_after es' = rx_after (rx s)"
    by (rule rcv_n_bytes_complete)
  have "to_int (int n) = int n" using assms(4) by (intro to_int_id) simp_all
  with assms es' have "rcv_into mem n s = Ret (int n, bs @ drop n mem, s\<lparr>rx := es'\<rparr>)"
    by (simp add: rcv_into_def pokes_def patch_def)
  moreover from assms es'_rest have "rx_bytes es' = rest" by simp
  ultimately show thesis using es'_rest(2) by (rule that)
qed

lemma rcv_into_exact:
  assumes "rx_bytes (rx s) = bs @ rest" and "length bs = n" and "length mem = n" and "n < 2 ^ 31"
  obtains es' where "rcv_into mem n s = Ret (int n, bs, s\<lparr>rx := es'\<rparr>)"
    and "rx_bytes es' = rest" and "rx_after es' = rx_after (rx s)"
  using rcv_into_prefix [OF assms(1,2) _ assms(4), of mem] assms(3) by auto

lemma get_pack_length_exact:
  assumes "rx_bytes (rx s) = be32 len @ rest" and "length garbage = 8"
  obtains es' where "get_pack_length garbage s = Ret (uint len, s\<lparr>rx := es'\<rparr>)"
    and "rx_bytes es' = rest" and "rx_after es' = rx_after (rx s)"
proof -
  let ?b = "Buffer (be32 len @ drop 4 garbage) 0"
  obtain es' where es': "rcv_into garbage 4 s = Ret (int 4, be32 len @ drop 4 garbage, s\<lparr>rx := es'\<rparr>)"
    and rest: "rx_bytes es' = rest" "rx_after es' = rx_after (rx s)"
    by (rule rcv_into_prefix [OF assms(1), of 4 garbage]) (simp_all add: assms)
  have "buf_deserialize (map type_of [V_uint32 len]) ?b
      = Some ([V_uint32 len], ?b\<lparr>position := 4\<rparr>)"
    by (subst buf_deserialize_at) (simp_all add: at_position_def Buffer_def peeks_def slice_def)
  with es' have "get_pack_length garbage s = Ret (uint len, s\<lparr>rx := es'\<rparr>)"
    by (simp add: get_pack_length_def)
  then show thesis using rest by (rule that)
qed

lemma tcp_deserialize_exact:
  assumes "rx_bytes (rx s) = wires vs @ rest" and "length garbage = required_buffer_size (map type_of vs)"
    and "required_buffer_size (map type_of vs) < 2 ^ 31"
  obtains err s' where "tcp_deserialize (map type_of vs) garbage s = Ret (err, vs, s')"
    and "0 \<le> err" and "rx_bytes (rx s') = rest" and "received_from s s'"
proof (cases "vs = []")
  case True
  with that [of 0 s] assms(1) show thesis by (simp add: tcp_deserialize_def)
next
  case False
  let ?n = "required_buffer_size (map type_of vs)"
  obtain es' where es': "rcv_into garbage ?n s = Ret (int ?n, wires vs, s\<lparr>rx := es'\<rparr>)"
    and rest: "rx_bytes es' = rest" "rx_after es' = rx_after (rx s)"
    by (rule rcv_into_exact [OF assms(1), of ?n garbage]) (use assms(2,3) in simp_all)
  have "buf_deserialize (map type_of vs) (Buffer (wires vs) 0) = Some (vs, Buffer (wires vs) ?n)"
    by (subst buf_deserialize_at) (simp_all add: at_position_def Buffer_def peeks_def slice_def)
  with False es' have "tcp_deserialize (map type_of vs) garbage s = Ret (int ?n, vs, s\<lparr>rx := es'\<rparr>)"
    by (simp add: tcp_deserialize_def)
  from that [OF this] rest show thesis by simp
qed

lemma tcp_recv_array_exact:
  assumes "rx_bytes (rx s) = elems_mem vs @ rest" and "list_all (\<lambda>v. type_of v = t) vs"
    and "length garbage = length (elems_mem vs)" and "length (elems_mem vs) < 2 ^ 31"
  obtains err s' where "tcp_recv_array t (length vs) garbage s = Ret (err, vs, s')"
    and "0 \<le> err" and "rx_bytes (rx s') = rest" and "received_from s s'"
proof -
  obtain es' where es': "rcv_into garbage (length (elems_mem vs)) s
      = Ret (int (length (elems_mem vs)), elems_mem vs, s\<lparr>rx := es'\<rparr>)"
    and rest: "rx_bytes es' = rest" "rx_after es' = rx_after (rx s)"
    by (rule rcv_into_exact [OF assms(1) refl assms(3,4)])
  have "size_of_array t (length vs) = length (elems_mem vs)"
    using assms(2) by (simp add: size_of_array_def length_elems_mem)
  with es' elems_of_mem_elems_mem [OF assms(2), of "[]"]
  have "tcp_recv_array t (length vs) garbage s
      = Ret (int (length (elems_mem vs)), vs, s\<lparr>rx := es'\<rparr>)"
    by (simp add: tcp_recv_array_def)
  from that [OF this] rest show thesis by simp
qed

lemma tcp_recv_string_exact:
  assumes "rx_bytes (rx s) = be32 (word_of_nat (length cs)) @ cs @ rest"
    and "length garbage = 8" and "length cs < 2 ^ 31"
  obtains err s' where "tcp_recv_string garbage str s = Ret (err, cs, s')"
    and "0 \<le> err" and "rx_bytes (rx s') = rest" and "received_from s s'"
proof -
  let ?len = "word_of_nat (length cs) :: u32"
  have len: "uint ?len = int (length cs)"
    using assms(3) by (simp add: unsigned_of_nat take_bit_nat_eq_self)
  obtain es1 where es1: "get_pack_length garbage s = Ret (uint ?len, s\<lparr>rx := es1\<rparr>)"
    and r1: "rx_bytes es1 = cs @ rest" "rx_after es1 = rx_after (rx s)"
    by (rule get_pack_length_exact [OF assms(1,2)])
  obtain es2 where es2: "rcv_into (resize 0 (length cs) str) (length cs) (s\<lparr>rx := es1\<rparr>)
      = Ret (int (length cs), cs, s\<lparr>rx := es1\<rparr>\<lparr>rx := es2\<rparr>)"
    and r2: "rx_bytes es2 = rest" "rx_after es2 = rx_after es1"
    by (rule rcv_into_exact [of "s\<lparr>rx := es1\<rparr>" cs rest "length cs" "resize 0 (length cs) str"])
      (use r1 assms(3) in \<open>simp_all add: resize_def\<close>)
  have "tcp_recv_string garbage str s = Ret (int (length cs), cs, s\<lparr>rx := es2\<rparr>)"
    using es1 es2 len by (simp add: tcp_recv_string_def)
  from that [OF this] r1 r2 show thesis by simp
qed

lemma type_of_of_mem [simp]: "type_of (of_mem t m) = t"
  by (cases t) simp_all

lemma word_div_of_nat_u64:
  "n < 2 ^ 64 \<Longrightarrow> k < 2 ^ 64 \<Longrightarrow> unat ((word_of_nat n :: u64) div word_of_nat k) = n div k"
  by (simp add: unat_div unat_of_nat take_bit_nat_eq_self)

lemma size_of_le_8: "size_of t \<le> 8"
  by (cases t) simp_all

lemma tcp_recv_vector_exact:
  assumes "rx_bytes (rx s) = be32 (word_of_nat (length (elems_mem vs))) @ elems_mem vs @ rest"
    and "list_all (\<lambda>v. type_of v = t) vs" and "list_all (\<lambda>v. type_of v = t) vec"
    and "length garbage = 8" and "length (elems_mem vs) < 2 ^ 31"
  obtains err s' where "tcp_recv_vector t garbage vec s = Ret (err, vs, s')"
    and "0 \<le> err" and "rx_bytes (rx s') = rest" and "received_from s s'"
proof -
  let ?n = "length (elems_mem vs)"
  let ?len = "word_of_nat ?n :: u32"
  let ?mem = "elems_mem (resize (zero_of t) (length vs) vec)"
  have n: "?n = length vs * size_of t" using assms(2) by (rule length_elems_mem)
  have len: "uint ?len = int ?n"
    using assms(5) by (simp add: unsigned_of_nat take_bit_nat_eq_self)
  have div: "unat ((word_of_int (uint ?len) :: u64) div word_of_nat (size_of t)) = length vs"
    using assms(5) size_of_le_8 [of t] unfolding len of_int_of_nat_eq
    by (subst word_div_of_nat_u64) (simp_all add: n)
  have ub: "\<not> length vs > vector_max_size t"
    using assms(5) n by (simp add: vector_max_size_def not_less less_eq_div_iff_mult_less_eq)
  have "list_all (\<lambda>v. type_of v = t) (resize (zero_of t) (length vs) vec)"
    using assms(3) by (auto simp: resize_def list_all_iff zero_of_def dest: in_set_takeD)
  then have mem: "length ?mem = ?n"
    by (simp add: length_elems_mem n)
  obtain es1 where es1: "get_pack_length garbage s = Ret (uint ?len, s\<lparr>rx := es1\<rparr>)"
    and r1: "rx_bytes es1 = elems_mem vs @ rest" "rx_after es1 = rx_after (rx s)"
    by (rule get_pack_length_exact [OF assms(1,4)])
  obtain es2 where es2: "rcv_into ?mem ?n (s\<lparr>rx := es1\<rparr>)
      = Ret (int ?n, elems_mem vs, s\<lparr>rx := es1\<rparr>\<lparr>rx := es2\<rparr>)"
    and r2: "rx_bytes es2 = rest" "rx_after es2 = rx_after es1"
    by (rule rcv_into_exact [of "s\<lparr>rx := es1\<rparr>" "elems_mem vs" rest ?n ?mem])
      (use r1 mem assms(5) in simp_all)
  have "tcp_recv_vector t garbage vec s = Ret (int ?n, vs, s\<lparr>rx := es2\<rparr>)"
    using es1 es2 div ub elems_of_mem_elems_mem [OF assms(2), of "[]"]
    by (simp add: tcp_recv_vector_def Let_def n)
  from that [OF this] r1 r2 show thesis by simp
qed

lemma tcp_read_command_exact:
  assumes "rx_bytes (rx s) = reserved @ be16 dev @ be16 op @ rest" and "length reserved = 4"
    and "length header_garbage = HEADER_SIZE"
  shows "\<exists>cmd s'. tcp_read_command sid (Command header_garbage payload_garbage) s = Ret (8, cmd, s')
    \<and> device cmd = unat dev \<and> operation cmd = uint op \<and> sess_id cmd = sid \<and> sess cmd = Some sid
    \<and> payload cmd = Buffer payload_garbage 0
    \<and> rx_bytes (rx s') = rest \<and> rx_after (rx s') = rx_after (rx s)
    \<and> tx s' = tx s \<and> sent s' = sent s"
proof -
  let ?h = "reserved @ be16 dev @ be16 op"
  let ?cmd = "(Command header_garbage payload_garbage)\<lparr>header := \<lparr>buf_data = ?h, position = HEADER_START\<rparr>\<rparr>"
  have "8 \<le> length (rx_bytes (rx s))" using assms by simp
  then obtain es' where es': "rcv_n_bytes 8 (rx s) = Some (to_int (int 8), take 8 (rx_bytes (rx s)), es')"
    "rx_bytes es' = drop 8 (rx_bytes (rx s))" "rx_after es' = rx_after (rx s)"
    by (rule rcv_n_bytes_complete)
  with assms have rd: "rcv_n_bytes 8 (rx s) = Some (8, ?h, es')" and rest: "rx_bytes es' = rest"
    by (simp_all add: to_int_id)
  have "decode_header sid ?cmd = Some (?cmd\<lparr>header := (header ?cmd)\<lparr>position := 8\<rparr>, sess_id := sid,
      sess := Some sid, device := unat dev, operation := uint op\<rparr>)"
    by (rule decode_header_bytes [OF _ assms(2)]) simp
  with rd rest es'(3) assms show ?thesis
    by (simp add: tcp_read_command_def Command_def Buffer_def HEADER_SIZE_def pokes_def patch_def Let_def)
qed

section \<open>The TCP session provides the contract\<close>

text \<open>Uninitialised memory of a given size.\<close>

definition uninit :: "(nat \<Rightarrow> byte) \<Rightarrow> nat \<Rightarrow> byte list" where
  "uninit g n = map g [0..<n]"

lemma length_uninit [simp]: "length (uninit g n) = n"
  by (simp add: uninit_def)

definition tcp_ops :: "(nat \<Rightarrow> byte) \<Rightarrow> sock transport_ops" where
  "tcp_ops g =
     \<lparr>op_deserialize = (\<lambda>ts. tcp_deserialize ts (uninit g (required_buffer_size ts))),
      op_recv_array = (\<lambda>t n. tcp_recv_array t n (uninit g (size_of_array t n))),
      op_recv_vector = (\<lambda>t. tcp_recv_vector t (uninit g 8)),
      op_recv_string = tcp_recv_string (uninit g 8)\<rparr>"

interpretation tcp: session_transport "tcp_ops g" "\<lambda>s. rx_bytes (rx s)" "received_from s0" for g s0
proof
  fix s :: sock and vs rest
  assume "received_from s0 s" "rx_bytes (rx s) = wires vs @ rest" "length (wires vs) < 2 ^ 31"
  then show "\<exists>err s'. op_deserialize (tcp_ops g) (map type_of vs) s = Ret (err, vs, s') \<and> 0 \<le> err
      \<and> received_from s0 s' \<and> rx_bytes (rx s') = rest"
    by (auto elim!: tcp_deserialize_exact [of s vs rest "uninit g (required_buffer_size (map type_of vs))"]
        intro: received_from_trans simp: tcp_ops_def)
next
  fix s :: sock and es rest t
  assume *: "received_from s0 s" "rx_bytes (rx s) = elems_mem es @ rest" "length (elems_mem es) < 2 ^ 31"
    "list_all (\<lambda>v. type_of v = t) es"
  then have "size_of_array t (length es) = length (elems_mem es)"
    by (simp add: size_of_array_def length_elems_mem)
  with * show "\<exists>err s'. op_recv_array (tcp_ops g) t (length es) s = Ret (err, es, s') \<and> 0 \<le> err
      \<and> received_from s0 s' \<and> rx_bytes (rx s') = rest"
    by (auto elim!: tcp_recv_array_exact [of s es rest t "uninit g (length (elems_mem es))"]
        intro: received_from_trans simp: tcp_ops_def)
next
  fix s :: sock and es rest t old
  assume "received_from s0 s" "rx_bytes (rx s) = be32 (word_of_nat (length (elems_mem es))) @ elems_mem es @ rest"
    "length (elems_mem es) < 2 ^ 31" "list_all (\<lambda>v. type_of v = t) es" "list_all (\<lambda>v. type_of v = t) old"
  then show "\<exists>err s'. op_recv_vector (tcp_ops g) t old s = Ret (err, es, s') \<and> 0 \<le> err
      \<and> received_from s0 s' \<and> rx_bytes (rx s') = rest"
    by (auto elim!: tcp_recv_vector_exact [of s es rest t old "uninit g 8"] intro: received_from_trans simp: tcp_ops_def)
next
  fix s :: sock and cs rest str
  assume "received_from s0 s" "rx_bytes (rx s) = be32 (word_of_nat (length cs)) @ cs @ rest" "length cs < 2 ^ 31"
  then show "\<exists>err s'. op_recv_string (tcp_ops g) str s = Ret (err, cs, s') \<and> 0 \<le> err
      \<and> received_from s0 s' \<and> rx_bytes (rx s') = rest"
    by (auto elim!: tcp_recv_string_exact [of s cs rest "uninit g 8" str] intro: received_from_trans simp: tcp_ops_def)
qed

section \<open>Properties\<close>

text \<open>C10: \<open>rcv_n_bytes\<close> returns for every request and every way the stream is cut into
  chunks: when \<open>n\<close> bytes arrive it returns \<open>n\<close> (as an \<open>int\<close>) with exactly the first \<open>n\<close>
  bytes and leaves the rest in the stream; otherwise it stores what arrived and returns 0 at
  the end of the stream, -1 on a read error, and waits only if neither comes.\<close>

theorem rcv_n_bytes_stream:
  "if n \<le> length (rx_bytes es)
   then \<exists>es'. rcv_n_bytes n es = Some (to_int (int n), take n (rx_bytes es), es')
     \<and> rx_bytes es' = drop n (rx_bytes es) \<and> rx_after es' = rx_after es
   else rcv_n_bytes n es = (case rx_after es of [] \<Rightarrow> None
     | RxErr # es' \<Rightarrow> Some (-1, rx_bytes es, es')
     | RxFail # es' \<Rightarrow> Some (-1, rx_bytes es, RxFail # es') | es' \<Rightarrow> Some (0, rx_bytes es, es'))"
proof (cases "n \<le> length (rx_bytes es)")
  case True
  then show ?thesis by (auto elim: rcv_n_bytes_complete)
next
  case False
  with rcv_n_bytes_short [of es n] show ?thesis by (simp add: stream_end_def)
qed

text \<open>From a stream that starts with a command header, four reserved bytes, the device and
  the operation in network order, \<open>read_command\<close> consumes exactly the eight bytes, returns 8
  and fills the command with that device, that operation and the session's identifier.\<close>

theorem tcp_read_command_decodes:
  assumes "rx_bytes (rx s) = reserved @ be16 dev @ be16 op @ rest" and "length reserved = 4"
    and "length header_garbage = HEADER_SIZE"
  shows "\<exists>cmd s'. tcp_read_command sid (Command header_garbage payload_garbage) s = Ret (8, cmd, s')
    \<and> device cmd = unat dev \<and> operation cmd = uint op \<and> sess_id cmd = sid \<and> sess cmd = Some sid
    \<and> payload cmd = Buffer payload_garbage 0
    \<and> rx_bytes (rx s') = rest \<and> rx_after (rx s') = rx_after (rx s)
    \<and> tx s' = tx s \<and> sent s' = sent s"
  by (rule tcp_read_command_exact [OF assms])

theorem tcp_read_command_decodes_witness:
  "\<exists>cmd s'. tcp_read_command 3 (Command (replicate 8 1) [])
       \<lparr>rx = [RxData [0,0,0], RxData [0,0,2,0], RxData [7,99]], tx = [], sent = []\<rparr> = Ret (8, cmd, s')
    \<and> device cmd = 2 \<and> operation cmd = 7 \<and> rx_bytes (rx s') = [99]"
proof -
  let ?s = "\<lparr>rx = [RxData [0,0,0], RxData [0,0,2,0], RxData [7,99]], tx = [], sent = []\<rparr>"
  have "rx_bytes (rx ?s) = [0,0,0,0] @ be16 2 @ be16 7 @ [99]"
    by (simp add: be16_def)
  from tcp_read_command_decodes [OF this, of "replicate 8 1" 3 "[]"] show ?thesis
    by (auto simp: HEADER_SIZE_def)
qed

text \<open>When reading the length of a vector fails, \<open>get_pack_length\<close> returns -1, but the
  division by \<open>sizeof(T)\<close> makes it a huge unsigned number: the error return of
  \<open>recv(std::vector<T>&)\<close> is never taken and \<open>resize\<close> throws.\<close>

theorem tcp_recv_vector_error_throws:
  assumes "rx_bytes (rx s) = bs" and "length bs < 4" and "rx_after (rx s) = RxErr # es"
    and "length garbage = 8"
  shows "tcp_recv_vector t garbage vec s = Throw"
proof -
  have "rcv_n_bytes 4 (rx s) = Some (-1, bs, es)"
    using rcv_n_bytes_short [of "rx s" 4] assms by (simp add: stream_end_def)
  then have gpl: "get_pack_length garbage s = Ret (-1, s\<lparr>rx := es\<rparr>)"
    using assms by (simp add: get_pack_length_def rcv_into_def pokes_def)
  have "unat ((word_of_int (-1) :: u64) div word_of_nat (size_of t)) > vector_max_size t"
    by (cases t) (simp_all add: vector_max_size_def unat_div unsigned_minus_1_eq_mask mask_eq_exp_minus_1)
  with gpl show ?thesis by (simp add: tcp_recv_vector_def Let_def)
qed

theorem tcp_recv_vector_error_throws_witness:
  "tcp_recv_vector T_uint32 (replicate 8 0) [] \<lparr>rx = [RxData [0,0], RxErr], tx = [], sent = []\<rparr> = Throw"
  by (rule tcp_recv_vector_error_throws [where bs = "[0,0]" and es = "[]"]) simp_all

text \<open>A string cut short by the client is not an error: \<open>recv(std::string&)\<close> returns 0,
  and the caller, which tests for a negative value, goes on with the announced length, the
  missing bytes being what \<open>resize\<close> left there.\<close>

theorem tcp_recv_string_truncated:
  assumes "rx_bytes (rx s) = be32 len @ cs" and "length cs < unat len"
    and "rx_after (rx s) = RxEof # es" and "length garbage = 8"
  shows "tcp_recv_string garbage str s
    = Ret (0, cs @ drop (length cs) (resize 0 (unat len) str), s\<lparr>rx := RxEof # es\<rparr>)"
proof -
  obtain es1 where es1: "get_pack_length garbage s = Ret (uint len, s\<lparr>rx := es1\<rparr>)"
    and r1: "rx_bytes es1 = cs" "rx_after es1 = rx_after (rx s)"
    by (rule get_pack_length_exact [OF assms(1,4)])
  have "rcv_n_bytes (unat len) es1 = Some (0, cs, RxEof # es)"
    using rcv_n_bytes_short [of es1 "unat len"] r1 assms(2,3) by (simp add: stream_end_def)
  then have "rcv_into (resize 0 (unat len) str) (unat len) (s\<lparr>rx := es1\<rparr>)
      = Ret (0, cs @ drop (length cs) (resize 0 (unat len) str), s\<lparr>rx := RxEof # es\<rparr>)"
    using assms(2) by (simp add: rcv_into_def pokes_def patch_def)
  with es1 show ?thesis by (simp add: tcp_recv_string_def)
qed

theorem tcp_recv_string_truncated_witness:
  "tcp_recv_string (replicate 8 9) [] \<lparr>rx = [RxData [0,0,0,3,72], RxEof], tx = [], sent = []\<rparr>
   = Ret (0, [72,0,0], \<lparr>rx = [RxEof], tx = [], sent = []\<rparr>)"
  using tcp_recv_string_truncated
    [where s = "\<lparr>rx = [RxData [0,0,0,3,72], RxEof], tx = [], sent = []\<rparr>" and len = 3
      and cs = "[72]" and es = "[]" and garbage = "replicate 8 9" and str = "[]"]
  by (simp add: be32_def resize_def) (simp add: numeral_2_eq_2)

end
