(* ===== verification/WebSocket.thy ===== *)
theory WebSocket
  imports Commands Posix
begin

text \<open>
  The WebSocket layer of \<open>core/websocket.cpp\<close> and \<open>core/websocket.hpp\<close>: the reading
  and unmasking of client frames and the framing of what the server sends, over the socket
  scripts of the environment (the opening handshake is in theory \<open>Handshake\<close>). The loop of \<open>read_n_bytes\<close> may run
  forever, so its result is \<^const>\<open>None\<close> when it never returns.
\<close>

section \<open>State\<close>

record ws_header =
  header_size :: nat
  mask_offset :: nat
  payload_size :: int
  fin :: bool
  masked :: bool
  opcode :: byte

text \<open>\<open>ws_payload\<close> is the offset in \<open>read_str\<close> that the pointer \<open>payload\<close> points to.\<close>

record websocket =
  read_str_len :: nat
  read_str :: "byte list"
  ws_payload :: nat
  sha_str :: "byte list"
  send_buf :: "byte list"
  http_packet :: "byte list"
  ws_header :: ws_header
  connection_closed :: bool

text \<open>The constructor; what it does not initialise is a parameter.\<close>

definition WebSocket :: "byte list \<Rightarrow> nat \<Rightarrow> ws_header \<Rightarrow> websocket" where
  "WebSocket send_garbage payload_garbage header_garbage =
     \<lparr>read_str_len = 0, read_str = replicate WEBSOCK_READ_STR_LEN 0, ws_payload = payload_garbage,
      sha_str = replicate 21 0, send_buf = send_garbage, http_packet = [],
      ws_header = header_garbage, connection_closed = False\<rparr>"

definition CONTINUATION_FRAME :: nat where "CONTINUATION_FRAME = 0x0"
definition TEXT_FRAME :: nat where "TEXT_FRAME = 0x1"
definition BINARY_FRAME :: nat where "BINARY_FRAME = 0x2"
definition CONNECTION_CLOSE :: nat where "CONNECTION_CLOSE = 0x8"
definition PING :: nat where "PING = 0x9"
definition PONG :: nat where "PONG = 0xA"

definition SMALL_STREAM :: nat where "SMALL_STREAM = 125"
definition MEDIUM_STREAM :: nat where "MEDIUM_STREAM = 126"
definition BIG_STREAM :: nat where "BIG_STREAM = 127"

definition SMALL_HEADER :: nat where "SMALL_HEADER = 6"
definition MEDIUM_HEADER :: nat where "MEDIUM_HEADER = 8"
definition BIG_HEADER :: nat where "BIG_HEADER = 14"

definition SMALL_OFFSET :: nat where "SMALL_OFFSET = 2"
definition MEDIUM_OFFSET :: nat where "MEDIUM_OFFSET = 4"
definition BIG_OFFSET :: nat where "BIG_OFFSET = 10"

lemmas opcodes = CONTINUATION_FRAME_def TEXT_FRAME_def BINARY_FRAME_def CONNECTION_CLOSE_def
  PING_def PONG_def

lemmas stream_sizes = SMALL_STREAM_def MEDIUM_STREAM_def BIG_STREAM_def SMALL_HEADER_def
  MEDIUM_HEADER_def BIG_HEADER_def SMALL_OFFSET_def MEDIUM_OFFSET_def BIG_OFFSET_def

definition reset_read_buff :: "websocket \<Rightarrow> websocket" where
  "reset_read_buff ws = ws\<lparr>read_str := patch (read_str ws) 0 (replicate (read_str_len ws) 0),
     read_str_len := 0\<rparr>"

section \<open>Sending\<close>

text \<open>
  The loop of \<open>send_request\<close>: its branch for a write of 0 bytes is dead, since the loop stops
  when \<open>write\<close> does not return a positive count. What is returned is the last count.
\<close>

function send_loop :: "int \<Rightarrow> byte list \<Rightarrow> sock \<Rightarrow> (int \<times> sock) res" where
  "send_loop bytes_send bits s =
     (if bits \<noteq> [] then
        (case sock_write bits (tx s) of
           None \<Rightarrow> Wait
         | Some (n, out, es) \<Rightarrow>
             if n > 0 then send_loop n (drop (nat n) bits) (s\<lparr>tx := es, sent := sent s @ out\<rparr>)
             else Ret (n, s\<lparr>tx := es, sent := sent s @ out\<rparr>))
      else Ret (bytes_send, s))"
  by pat_completeness auto
termination
  by (relation "measure (\<lambda>(_, bits, _). length bits)") auto

declare send_loop.simps [simp del]

definition send_request :: "byte list \<Rightarrow> websocket \<Rightarrow> sock \<Rightarrow> (int \<times> websocket \<times> sock) res" where
  "send_request bits ws s =
     (if connection_closed ws then Ret (0, ws, s)
      else bind_res (send_loop 0 bits s) (\<lambda>(bytes_send, s).
        if bytes_send < 0 then Ret (-1, ws\<lparr>connection_closed := True\<rparr>, s)
        else Ret (bytes_send, ws, s)))"

definition byte_of :: "nat \<Rightarrow> nat \<Rightarrow> byte" where
  "byte_of data_len shift = ucast (drop_bit shift (word_of_nat data_len :: u64) AND 0xFF)"

text \<open>The bytes assigned from \<open>bits[0]\<close> on, after the buffer has been cleared.\<close>

definition set_send_header :: "byte list \<Rightarrow> nat \<Rightarrow> nat \<Rightarrow> (nat \<times> byte list) option" where
  "set_send_header bits data_len format = do {
     bits \<leftarrow> pokes bits 0 (replicate (10 + data_len) 0);
     bits \<leftarrow> poke bits 0 (word_of_nat format);
     (if data_len \<le> SMALL_STREAM then do {
        bits \<leftarrow> poke bits 1 (word_of_nat data_len);
        Some (SMALL_OFFSET, bits)
      } else if data_len \<le> 0xFFFF then do {
        bits \<leftarrow> pokes bits 1 [word_of_nat MEDIUM_STREAM, byte_of data_len 8, byte_of data_len 0];
        Some (MEDIUM_OFFSET, bits)
      } else do {
        bits \<leftarrow> pokes bits 1 [word_of_nat BIG_STREAM, byte_of data_len 56, byte_of data_len 48,
          byte_of data_len 40, byte_of data_len 32, byte_of data_len 24, byte_of data_len 16,
          byte_of data_len 8, byte_of data_len 0];
        Some (BIG_OFFSET, bits)
      })
   }"

definition ws_send :: "byte list \<Rightarrow> websocket \<Rightarrow> sock \<Rightarrow> (int \<times> websocket \<times> sock) res" where
  "ws_send data ws s =
     (if connection_closed ws then Ret (0, ws, s)
      else if length data + 10 > WEBSOCK_SEND_BUF_LEN then Ret (-1, ws, s)
      else bind_res (of_ub (do {
          (mask_offset, buf) \<leftarrow> set_send_header (send_buf ws) (length data) (128 + BINARY_FRAME);
          buf \<leftarrow> pokes buf mask_offset data;
          Some (mask_offset, buf)
        })) (\<lambda>(mask_offset, buf).
        send_request (take (mask_offset + length data) buf) (ws\<lparr>send_buf := buf\<rparr>) s))"

definition ws_exit :: "websocket \<Rightarrow> sock \<Rightarrow> (int \<times> websocket \<times> sock) res" where
  "ws_exit ws s =
     bind_res (of_ub (set_send_header (send_buf ws) 0 (128 + CONNECTION_CLOSE))) (\<lambda>(n, buf).
       send_request (take n buf) (ws\<lparr>send_buf := buf\<rparr>) s)"

section \<open>Reading\<close>

text \<open>
  The inner loop of \<open>read_n_bytes\<close>. Its test for a negative count is dead: the loop stops
  when \<open>read\<close> does not return a positive count.
\<close>

function read_inner :: "int \<Rightarrow> int \<Rightarrow> int \<Rightarrow> websocket \<Rightarrow> sock
    \<Rightarrow> (int \<times> int \<times> int \<times> websocket \<times> sock) res" where
  "read_inner remaining expected bytes_read ws s =
     (if remaining > 0 then
        (case sock_read (nat remaining) (rx s) of
           None \<Rightarrow> Wait
         | Some (n, bs, es) \<Rightarrow>
             if n > 0 then
               (case pokes (read_str ws) (read_str_len ws) bs of
                  None \<Rightarrow> Undef
                | Some d \<Rightarrow>
                    read_inner (remaining - n) (if expected - n < 0 then 0 else expected - n) n
                      (ws\<lparr>read_str := d, read_str_len := read_str_len ws + nat n\<rparr>) (s\<lparr>rx := es\<rparr>))
             else Ret (remaining, expected, n, ws, s\<lparr>rx := es\<rparr>))
      else Ret (remaining, expected, bytes_read, ws, s))"
  by pat_completeness auto
termination
  by (relation "measure (\<lambda>(remaining, _). nat remaining)") auto

declare read_inner.simps [simp del]

partial_function (option) read_outer :: "int \<Rightarrow> int \<Rightarrow> int \<Rightarrow> websocket \<Rightarrow> sock
    \<Rightarrow> (int \<times> websocket \<times> sock) res option" where
  "read_outer remaining expected bytes_read ws s =
     (if expected > 0 then
        (case read_inner remaining expected bytes_read ws s of
           Ret (remaining, expected, bytes_read, ws, s) \<Rightarrow>
             if bytes_read = 0 then Some (Ret (1, ws\<lparr>connection_closed := True\<rparr>, s))
             else if read_str_len ws = KSERVER_READ_STR_LEN then Some (Ret (-1, ws, s))
             else read_outer remaining expected bytes_read ws s
         | Undef \<Rightarrow> Some Undef | Wait \<Rightarrow> Some Wait | Throw \<Rightarrow> Some Throw)
      else Some (Ret (0, ws, s)))"

definition read_n_bytes :: "int \<Rightarrow> int \<Rightarrow> websocket \<Rightarrow> sock \<Rightarrow> (int \<times> websocket \<times> sock) res option" where
  "read_n_bytes bytes expected ws s = read_outer bytes expected (-1) ws s"

definition check_opcode :: "nat \<Rightarrow> int" where
  "check_opcode opc =
     (if opc = CONTINUATION_FRAME then -1
      else if opc = TEXT_FRAME then 0
      else if opc = BINARY_FRAME then 0
      else if opc = CONNECTION_CLOSE then 1
      else if opc = PING then -1
      else if opc = PONG then -1
      else -1)"

text \<open>\<open>ntohs\<close> and \<open>be64toh\<close> of the bytes copied from the buffer.\<close>

definition ntohs :: "byte list \<Rightarrow> u16" where
  "ntohs b = unmem16 (rev b)"

definition be64toh :: "byte list \<Rightarrow> u64" where
  "be64toh b = unmem64 (rev b)"

text \<open>The test of the payload size at the end of \<open>read_header\<close>.\<close>

definition check_payload_size :: "websocket \<Rightarrow> sock \<Rightarrow> (int \<times> websocket \<times> sock) res option" where
  "check_payload_size ws s =
     (if payload_size (ws_header ws) > int WEBSOCK_READ_STR_LEN - 56 then Some (Ret (-1, ws, s))
      else Some (Ret (0, ws, s)))"

text \<open>The branches of \<open>read_header\<close> on \<open>stream_size\<close>.\<close>

definition read_stream_size :: "nat \<Rightarrow> websocket \<Rightarrow> sock \<Rightarrow> (int \<times> websocket \<times> sock) res option" where
  "read_stream_size stream_size ws s =
     (if stream_size \<le> SMALL_STREAM then
        check_payload_size (ws\<lparr>ws_header := (ws_header ws)
          \<lparr>header_size := SMALL_HEADER, payload_size := int stream_size,
           mask_offset := SMALL_OFFSET\<rparr>\<rparr>) s
      else if stream_size = MEDIUM_STREAM then
        bind_ro (read_n_bytes 2 2 ws s) (\<lambda>(err, ws, s).
          if err < 0 then Some (Ret (-1, ws, s))
          else if connection_closed ws then Some (Ret (0, ws, s))
          else bind_ro (Some (of_ub (peeks (read_str ws) 2 2))) (\<lambda>b.
            check_payload_size (ws\<lparr>ws_header := (ws_header ws)
              \<lparr>header_size := MEDIUM_HEADER, payload_size := uint (ntohs b),
               mask_offset := MEDIUM_OFFSET\<rparr>\<rparr>) s))
      else if stream_size = BIG_STREAM then
        bind_ro (read_n_bytes 8 8 ws s) (\<lambda>(err, ws, s).
          if err < 0 then Some (Ret (-1, ws, s))
          else if connection_closed ws then Some (Ret (0, ws, s))
          else bind_ro (Some (of_ub (peeks (read_str ws) 2 8))) (\<lambda>b.
            check_payload_size (ws\<lparr>ws_header := (ws_header ws)
              \<lparr>header_size := BIG_HEADER, payload_size := sint (be64toh b),
               mask_offset := BIG_OFFSET\<rparr>\<rparr>) s))
      else Some (Ret (-1, ws, s)))"

definition read_header :: "websocket \<Rightarrow> sock \<Rightarrow> (int \<times> websocket \<times> sock) res option" where
  "read_header ws s =
     bind_ro (read_n_bytes 6 6 ws s) (\<lambda>(err, ws, s).
       if err < 0 then Some (Ret (-1, ws, s))
       else if connection_closed ws then Some (Ret (0, ws, s))
       else bind_ro (Some (of_ub (peeks (read_str ws) 0 2))) (\<lambda>b.
         let stream_size = unat (b ! 1 AND 0x7F);
             ws = ws\<lparr>ws_header := (ws_header ws)\<lparr>fin := (b ! 0 AND 0x80 \<noteq> 0),
               masked := (b ! 1 AND 0x80 \<noteq> 0), opcode := b ! 0 AND 0x0F\<rparr>\<rparr>;
             opcode_err = check_opcode (unat (opcode (ws_header ws)))
         in if opcode_err < 0 then Some (Ret (-1, ws, s))
            else if opcode_err = 1
            then Some (Ret (opcode_err, ws\<lparr>connection_closed := True\<rparr>, s))
            else read_stream_size stream_size ws s))"

definition read_stream :: "websocket \<Rightarrow> sock \<Rightarrow> (int \<times> websocket \<times> sock) res option" where
  "read_stream ws s =
     bind_ro (read_header (reset_read_buff ws) s) (\<lambda>(read_head_err, ws, s).
       if read_head_err < 0 then Some (Ret (-1, ws, s))
       else if read_head_err = 1 then Some (Ret (read_head_err, ws, s))
       else bind_ro (read_n_bytes (payload_size (ws_header ws)) (payload_size (ws_header ws)) ws s)
         (\<lambda>(err, ws, s). if err < 0 then Some (Ret (-1, ws, s)) else Some (Ret (err, ws, s))))"

section \<open>Unmasking\<close>

definition unmask_at :: "byte list \<Rightarrow> nat \<Rightarrow> nat \<Rightarrow> byte option" where
  "unmask_at rs mo i = do {
     p \<leftarrow> peek rs (mo + 4 + i);
     m \<leftarrow> peek rs (mo + i mod 4);
     Some (p XOR m)
   }"

text \<open>The loops over \<open>i\<close> that copy \<open>n\<close> unmasked bytes to \<open>dst[i - base]\<close>.\<close>

primrec copy_unmasked :: "nat \<Rightarrow> byte list \<Rightarrow> nat \<Rightarrow> nat \<Rightarrow> nat \<Rightarrow> byte list \<Rightarrow> byte list option" where
  "copy_unmasked 0 rs mo base i dst = Some dst"
| "copy_unmasked (Suc n) rs mo base i dst = do {
     x \<leftarrow> unmask_at rs mo i;
     dst \<leftarrow> poke dst (i - base) x;
     copy_unmasked n rs mo base (Suc i) dst
   }"

definition decode_raw_stream_cmd :: "command \<Rightarrow> websocket \<Rightarrow> (int \<times> command) option" where
  "decode_raw_stream_cmd cmd ws =
     (let h = ws_header ws in
      if read_str_len ws < header_size h + 1 then Some (-1, cmd)
      else do {
        hd \<leftarrow> copy_unmasked HEADER_SIZE (read_str ws) (mask_offset h) 0 0 (buf_data (header cmd));
        pl \<leftarrow> copy_unmasked (nat (payload_size h) - HEADER_SIZE) (read_str ws) (mask_offset h)
          HEADER_SIZE HEADER_SIZE (buf_data (payload cmd));
        Some (0, cmd\<lparr>header := (header cmd)\<lparr>buf_data := hd\<rparr>,
                     payload := (payload cmd)\<lparr>buf_data := pl\<rparr>\<rparr>)
      })"

primrec unmask_in_place :: "nat \<Rightarrow> nat \<Rightarrow> nat \<Rightarrow> byte list \<Rightarrow> byte list option" where
  "unmask_in_place 0 mo i rs = Some rs"
| "unmask_in_place (Suc n) mo i rs = do {
     x \<leftarrow> unmask_at rs mo i;
     rs \<leftarrow> poke rs (mo + 4 + i) x;
     unmask_in_place n mo (Suc i) rs
   }"

definition decode_raw_stream :: "websocket \<Rightarrow> (int \<times> websocket) option" where
  "decode_raw_stream ws =
     (let h = ws_header ws in
      if read_str_len ws < header_size h + 1 then Some (-1, ws)
      else do {
        rs \<leftarrow> unmask_in_place (nat (payload_size h)) (mask_offset h) 0 (read_str ws);
        Some (0, ws\<lparr>read_str := rs, ws_payload := mask_offset h + 4\<rparr>)
      })"

definition receive_cmd ::
  "command \<Rightarrow> websocket \<Rightarrow> sock \<Rightarrow> (int \<times> command \<times> websocket \<times> sock) res option" where
  "receive_cmd cmd ws s =
     (if connection_closed ws then Some (Ret (0, cmd, ws, s))
      else bind_ro (read_stream ws s) (\<lambda>(err, ws, s).
        if err < 0 then Some (Ret (-1, cmd, ws, s))
        else if err = 1 then Some (Ret (0, cmd, ws, s))
        else bind_ro (Some (of_ub (decode_raw_stream_cmd cmd ws))) (\<lambda>(err, cmd).
          if err < 0 then Some (Ret (-1, cmd, ws, s))
          else Some (Ret (to_int (payload_size (ws_header ws)), cmd, ws, s)))))"

definition receive :: "websocket \<Rightarrow> sock \<Rightarrow> (int \<times> websocket \<times> sock) res option" where
  "receive ws s =
     (if connection_closed ws then Some (Ret (0, ws, s))
      else bind_ro (read_stream ws s) (\<lambda>(err, ws, s).
        if err < 0 then Some (Ret (-1, ws, s))
        else if err = 1 then Some (Ret (0, ws, s))
        else bind_ro (Some (of_ub (decode_raw_stream ws))) (\<lambda>(err, ws).
          if err < 0 then Some (Ret (-1, ws, s))
          else Some (Ret (to_int (payload_size (ws_header ws)), ws, s)))))"

section \<open>Frames of RFC 6455\<close>

text \<open>The length field, the masking of a payload, and the frames of either side.\<close>

definition frame_length :: "nat \<Rightarrow> byte \<Rightarrow> byte list" where
  "frame_length n mask_bit =
     (if n \<le> 125 then [mask_bit + word_of_nat n]
      else if n < 2 ^ 16 then (mask_bit + 126) # be16 (word_of_nat n)
      else (mask_bit + 127) # be64 (word_of_nat n))"

definition server_frame :: "byte \<Rightarrow> byte list \<Rightarrow> byte list" where
  "server_frame b0 data = b0 # frame_length (length data) 0 @ data"

definition mask_payload :: "byte list \<Rightarrow> byte list \<Rightarrow> byte list" where
  "mask_payload key data = map (\<lambda>i. data ! i XOR key ! (i mod 4)) [0..<length data]"

definition client_frame :: "byte \<Rightarrow> byte list \<Rightarrow> byte list \<Rightarrow> byte list" where
  "client_frame b0 key data = b0 # frame_length (length data) 0x80 @ key @ mask_payload key data"

section \<open>Sending a frame\<close>

text \<open>The socket takes everything that is written to it, in pieces of any size.\<close>

fun tx_accepts :: "nat \<Rightarrow> tx_event list \<Rightarrow> bool" where
  "tx_accepts n [] = (n = 0)"
| "tx_accepts n (TxAccept k # es) = (n = 0 \<or> k > 0 \<and> tx_accepts (n - min (min k IO_MAX) n) es)"
| "tx_accepts n (TxErr # es) = (n = 0)"

lemma tx_accepts_write:
  assumes "tx_accepts (length bits) ts" and "bits \<noteq> []"
  obtains m ts' where "sock_write bits ts = Some (int m, take m bits, ts')" and "0 < m"
    and "m \<le> length bits" and "tx_accepts (length (drop m bits)) ts'"
  using assms by (cases "(length bits, ts)" rule: tx_accepts.cases) (auto simp: Let_def IO_MAX_def)

lemma send_loop_accepts:
  "tx_accepts (length bits) (tx s) \<Longrightarrow>
   \<exists>n es. send_loop r bits s = Ret (n, s\<lparr>tx := es, sent := sent s @ bits\<rparr>)
     \<and> (if bits = [] then n = r else 0 < n)"
proof (induction r bits s rule: send_loop.induct)
  case (1 r bits s)
  show ?case
  proof (cases "bits = []")
    case True
    then show ?thesis by (auto simp: send_loop.simps intro: exI [of _ "tx s"])
  next
    case False
    with "1.prems" obtain m ts where w: "sock_write bits (tx s) = Some (int m, take m bits, ts)"
      and m: "0 < m" "m \<le> length bits" "tx_accepts (length (drop m bits)) ts"
      by (rule tx_accepts_write)
    let ?s = "s\<lparr>tx := ts, sent := sent s @ take m bits\<rparr>"
    have "\<exists>n es. send_loop (int m) (drop m bits) ?s = Ret (n, ?s\<lparr>tx := es,
        sent := sent ?s @ drop m bits\<rparr>) \<and> (if drop m bits = [] then n = int m else 0 < n)"
      using "1.IH" [OF False w refl refl] m by simp
    with m w False show ?thesis
      by (subst send_loop.simps) (auto split: if_splits)
  qed
qed

lemma send_request_accepts:
  assumes "tx_accepts (length bits) (tx s)" and "\<not> connection_closed ws" and "bits \<noteq> []"
  obtains n es where "send_request bits ws s = Ret (n, ws, s\<lparr>tx := es, sent := sent s @ bits\<rparr>)"
    and "0 < n"
  using send_loop_accepts [OF assms(1), of 0] assms(2,3) that by (auto simp: send_request_def)

lemma pokes_prefix:
  "length xs \<le> length b \<Longrightarrow> pokes b 0 xs = Some (xs @ drop (length xs) b)"
  by (simp add: pokes_def patch_def)

lemma byte_of_be16: "[byte_of n 8, byte_of n 0] = be16 (word_of_nat n)"
  unfolding byte_of_def be16_def ucast_and_ff
  by (auto intro!: bit_word_eqI simp: bit_simps)

lemma byte_of_be64:
  "[byte_of n 56, byte_of n 48, byte_of n 40, byte_of n 32, byte_of n 24, byte_of n 16,
    byte_of n 8, byte_of n 0] = be64 (word_of_nat n)"
  unfolding byte_of_def be64_def be32_def ucast_and_ff
  by (auto intro!: bit_word_eqI simp: bit_simps)

lemma set_send_header_pokes:
  "set_send_header buf n fmt = do {
     buf \<leftarrow> pokes buf 0 (replicate (10 + n) 0);
     buf \<leftarrow> pokes buf 0 (word_of_nat fmt # frame_length n 0);
     Some (if n \<le> 125 then 2 else if n < 2 ^ 16 then 4 else 10, buf)
   }"
proof -
  have "word_of_nat MEDIUM_STREAM = (126 :: byte)" "word_of_nat BIG_STREAM = (127 :: byte)"
    by (simp_all add: stream_sizes)
  moreover have "n \<le> 0xFFFF \<longleftrightarrow> n < 2 ^ 16" by auto
  ultimately show ?thesis
    unfolding set_send_header_def byte_of_be64 unfolding byte_of_be16 frame_length_def
    by (simp add: pokes_Cons [of _ 0] flip: poke_pokes) (simp add: stream_sizes)
qed

lemma set_send_header_frame:
  assumes "n + 10 \<le> length buf"
  obtains buf' where "set_send_header buf n fmt =
      Some (length (word_of_nat fmt # frame_length n 0), word_of_nat fmt # frame_length n 0 @ buf')"
    and "length (word_of_nat fmt # frame_length n 0 @ buf') = length buf"
    and "length (word_of_nat fmt # frame_length n 0) \<le> 10"
proof -
  let ?h = "(word_of_nat fmt :: byte) # frame_length n 0"
  let ?b = "replicate (10 + n) 0 @ drop (10 + n) buf"
  have len: "length ?h = (if n \<le> 125 then 2 else if n < 2 ^ 16 then 4 else 10)"
    by (simp add: frame_length_def)
  then have "length ?h \<le> 10" by simp
  have "pokes buf 0 (replicate (10 + n) 0) = Some ?b"
    using assms pokes_prefix [of "replicate (10 + n) 0" buf] by simp
  moreover have "pokes ?b 0 ?h = Some (?h @ drop (length ?h) ?b)"
    using \<open>length ?h \<le> 10\<close> assms by (intro pokes_prefix) simp
  ultimately have "set_send_header buf n fmt = Some (length ?h, ?h @ drop (length ?h) ?b)"
    unfolding set_send_header_pokes len by simp
  moreover have "length (?h @ drop (length ?h) ?b) = length buf"
    using \<open>length ?h \<le> 10\<close> assms by simp
  ultimately show thesis using that \<open>length ?h \<le> 10\<close> by auto
qed

lemma ws_send_frame:
  assumes "length (send_buf ws) = WEBSOCK_SEND_BUF_LEN" and "\<not> connection_closed ws"
    and "length data + 10 \<le> WEBSOCK_SEND_BUF_LEN"
    and "tx_accepts (length (server_frame 0x82 data)) (tx s)"
  obtains n buf es where "ws_send data ws s =
      Ret (n, ws\<lparr>send_buf := buf\<rparr>, s\<lparr>tx := es, sent := sent s @ server_frame 0x82 data\<rparr>)"
    and "0 < n" and "length buf = WEBSOCK_SEND_BUF_LEN"
proof -
  let ?h = "(0x82 :: byte) # frame_length (length data) 0"
  have fmt: "word_of_nat (128 + BINARY_FRAME) = (0x82 :: byte)" by (simp add: opcodes)
  obtain b where hdr: "set_send_header (send_buf ws) (length data) (128 + BINARY_FRAME)
      = Some (length ?h, ?h @ b)"
    and len: "length (?h @ b) = WEBSOCK_SEND_BUF_LEN" "length ?h \<le> 10"
    by (rule set_send_header_frame [of "length data" "send_buf ws" "128 + BINARY_FRAME", unfolded fmt])
      (use assms(1,3) in auto)
  define buf where "buf = ?h @ data @ drop (length data) b"
  have "length data \<le> length b" using len assms(3) by simp
  then have pk: "pokes (?h @ b) (length ?h) data = Some buf"
    by (simp add: pokes_def patch_def buf_def)
  have len_buf: "length buf = WEBSOCK_SEND_BUF_LEN"
    using len \<open>length data \<le> length b\<close> by (simp add: buf_def)
  have tk: "take (length ?h + length data) buf = server_frame 0x82 data"
    by (simp add: buf_def server_frame_def)
  have "server_frame 0x82 data \<noteq> []" "\<not> connection_closed (ws\<lparr>send_buf := buf\<rparr>)"
    using assms(2) by (simp_all add: server_frame_def)
  then obtain n es where "send_request (server_frame 0x82 data) (ws\<lparr>send_buf := buf\<rparr>) s
      = Ret (n, ws\<lparr>send_buf := buf\<rparr>, s\<lparr>tx := es, sent := sent s @ server_frame 0x82 data\<rparr>)" "0 < n"
    using send_request_accepts [OF assms(4)] by metis
  moreover have "ws_send data ws s = send_request (server_frame 0x82 data) (ws\<lparr>send_buf := buf\<rparr>) s"
    using assms(2,3) hdr pk tk by (simp add: ws_send_def)
  ultimately show thesis using that len_buf by metis
qed

section \<open>Reading from the stream\<close>

text \<open>What the buffer is after the bytes \<open>bs\<close> have been read.\<close>

definition ws_got :: "byte list \<Rightarrow> websocket \<Rightarrow> websocket" where
  "ws_got bs ws = ws\<lparr>read_str := patch (read_str ws) (read_str_len ws) bs,
     read_str_len := read_str_len ws + length bs\<rparr>"

lemma ws_got_Nil [simp]: "ws_got [] ws = ws"
  by (simp add: ws_got_def)

lemma ws_got_append:
  "read_str_len ws + length xs + length ys \<le> length (read_str ws) \<Longrightarrow>
   ws_got ys (ws_got xs ws) = ws_got (xs @ ys) ws"
  by (simp add: ws_got_def patch_patch_adjacent add.assoc)

lemma ws_got_simps [simp]:
  "read_str_len (ws_got bs ws) = read_str_len ws + length bs"
  "connection_closed (ws_got bs ws) = connection_closed ws"
  "ws_header (ws_got bs ws) = ws_header ws"
  "send_buf (ws_got bs ws) = send_buf ws"
  "read_str_len ws + length bs \<le> length (read_str ws) \<Longrightarrow>
   length (read_str (ws_got bs ws)) = length (read_str ws)"
  by (simp_all add: ws_got_def)

lemma read_inner_chunk:
  assumes "sock_read (nat r) (rx s) = Some (int (length cs), cs, es)" and "cs \<noteq> []" and "0 < r"
    and "read_str_len ws + length cs \<le> length (read_str ws)" and "int (length cs) \<le> e"
  shows "read_inner r e b ws s
    = read_inner (r - int (length cs)) (e - int (length cs)) (int (length cs)) (ws_got cs ws) (s\<lparr>rx := es\<rparr>)"
  using assms by (subst read_inner.simps) (simp add: pokes_def ws_got_def)

lemma read_inner_complete:
  "rx_bytes (rx s) = bs @ rest \<Longrightarrow> r = int (length bs) \<Longrightarrow>
   read_str_len ws + length bs \<le> length (read_str ws) \<Longrightarrow> r \<le> e \<Longrightarrow>
   \<exists>es' b'. read_inner r e b ws s = Ret (0, e - r, b', ws_got bs ws, s\<lparr>rx := es'\<rparr>)
     \<and> rx_bytes es' = rest \<and> rx_after es' = rx_after (rx s) \<and> (if bs = [] then b' = b else 0 < b')"
proof (induction "length bs" arbitrary: r e b ws s bs rule: less_induct)
  case less
  show ?case
  proof (cases "bs = []")
    case True
    with less.prems show ?thesis
      by (subst read_inner.simps) (auto intro: exI [of _ "rx s"])
  next
    case False
    then have "rx_bytes (rx s) \<noteq> []" "0 < nat r" "0 < r" using less.prems by auto
    from sock_read_data [OF this(1,2)] obtain cs es where
      rd: "sock_read (nat r) (rx s) = Some (int (length cs), cs, es)" and cs: "cs \<noteq> []"
      and le: "length cs \<le> nat r" and split: "rx_bytes (rx s) = cs @ rx_bytes es"
      and aft: "rx_after es = rx_after (rx s)" .
    define bs' where "bs' = drop (length cs) bs"
    have le': "length cs \<le> length bs" using le less.prems(2) by simp
    have "take (length cs) (bs @ rest) = cs" "drop (length cs) (bs @ rest) = rx_bytes es"
      using split less.prems(1) by simp_all
    then have "take (length cs) bs = cs" and rest: "rx_bytes es = bs' @ rest"
      using le' by (simp_all add: bs'_def)
    then have bs: "bs = cs @ bs'" unfolding bs'_def by (metis append_take_drop_id)
    have lt: "length bs' < length bs" using bs cs by simp
    have p: "rx_bytes (rx (s\<lparr>rx := es\<rparr>)) = bs' @ rest" "r - int (length cs) = int (length bs')"
      "read_str_len (ws_got cs ws) + length bs' \<le> length (read_str (ws_got cs ws))"
      "r - int (length cs) \<le> e - int (length cs)"
      using less.prems bs rest by simp_all
    have er: "e - int (length cs) - (r - int (length cs)) = e - r" by simp
    from less.hyps [OF lt p, of "int (length cs)"] obtain es' b' where
      "read_inner (r - int (length cs)) (e - int (length cs)) (int (length cs))
        (ws_got cs ws) (s\<lparr>rx := es\<rparr>) = Ret (0, e - r, b', ws_got bs' (ws_got cs ws), s\<lparr>rx := es'\<rparr>)"
      "rx_bytes es' = rest" "rx_after es' = rx_after es" "0 < b'"
      unfolding er using cs by (auto split: if_splits)
    moreover have "read_inner r e b ws s = read_inner (r - int (length cs)) (e - int (length cs))
        (int (length cs)) (ws_got cs ws) (s\<lparr>rx := es\<rparr>)"
      using less.prems bs by (intro read_inner_chunk [OF rd cs \<open>0 < r\<close>]) simp_all
    moreover have "ws_got bs' (ws_got cs ws) = ws_got bs ws"
      using less.prems(3) bs by (simp add: ws_got_append)
    ultimately show ?thesis using False aft by auto
  qed
qed

lemma read_n_bytes_exact:
  assumes "rx_bytes (rx s) = bs @ rest" and "length bs = n" and "0 < n"
    and "read_str_len ws + n \<le> length (read_str ws)"
  obtains es' where
    "read_n_bytes (int n) (int n) ws s = Some (Ret (if read_str_len ws + n = KSERVER_READ_STR_LEN
       then -1 else 0, ws_got bs ws, s\<lparr>rx := es'\<rparr>))"
    and "rx_bytes es' = rest" and "rx_after es' = rx_after (rx s)"
proof -
  obtain es' b' where inner: "read_inner (int n) (int n) (-1) ws s
      = Ret (0, 0, b', ws_got bs ws, s\<lparr>rx := es'\<rparr>)" and rest: "rx_bytes es' = rest"
    "rx_after es' = rx_after (rx s)" and "0 < b'"
    using read_inner_complete [of s bs rest "int n" ws "int n" "-1"] assms by auto
  have "read_outer 0 0 b' w x = Some (Ret (0, w, x))" for w x
    by (subst read_outer.simps) simp
  then have "read_n_bytes (int n) (int n) ws s = Some (Ret (if read_str_len ws + n = KSERVER_READ_STR_LEN
       then -1 else 0, ws_got bs ws, s\<lparr>rx := es'\<rparr>))"
    using inner assms(2,3) \<open>0 < b'\<close> unfolding read_n_bytes_def
    by (subst read_outer.simps) simp
  from that [OF this rest] show thesis .
qed

section \<open>Reading a frame\<close>

definition ws_wf :: "websocket \<Rightarrow> bool" where
  "ws_wf ws \<longleftrightarrow> length (read_str ws) = WEBSOCK_READ_STR_LEN
     \<and> length (send_buf ws) = WEBSOCK_SEND_BUF_LEN \<and> read_str_len ws \<le> WEBSOCK_READ_STR_LEN"

definition frame_header :: "byte \<Rightarrow> byte list \<Rightarrow> nat \<Rightarrow> byte list" where
  "frame_header b0 key n = b0 # frame_length n 0x80 @ key"

lemma client_frame_split: "client_frame b0 key data = frame_header b0 key (length data) @ mask_payload key data"
  by (simp add: client_frame_def frame_header_def)

lemma length_frame_header:
  "length key = 4 \<Longrightarrow>
   length (frame_header b0 key n) = (if n \<le> 125 then 6 else if n < 2 ^ 16 then 8 else 14)"
  by (simp add: frame_header_def frame_length_def)

lemma read_str_got: "read_str_len ws = 0 \<Longrightarrow> read_str (ws_got bs ws) = bs @ drop (length bs) (read_str ws)"
  by (simp add: ws_got_def patch_def)

lemma stream_size_byte:
  assumes n: "n < 128"
  shows "unat ((0x80 + word_of_nat n) AND 0x7F :: byte) = n"
    and "(0x80 + word_of_nat n) AND 0x80 \<noteq> (0 :: byte)"
proof -
  have "(0x80 + word_of_nat n :: byte) AND 0x7F = take_bit 7 (0x80 + word_of_nat n)"
    by (simp add: take_bit_eq_mask mask_eq_exp_minus_1)
  also have "\<dots> = word_of_nat (take_bit 7 (128 + n))"
    by (metis of_nat_add of_nat_numeral take_bit_of_nat)
  also have "take_bit 7 (128 + n) = n" using n by (simp add: take_bit_eq_mod)
  finally show "unat ((0x80 + word_of_nat n) AND 0x7F :: byte) = n"
    using n by (simp add: unat_of_nat take_bit_nat_eq_self)
  have "(128 + n) div 128 = 1" using n by simp
  then have "bit (128 + n) 7" by (simp add: bit_iff_odd)
  then have "bit (word_of_nat (128 + n) :: byte) 7" by (simp only: bit_simps) simp
  then have "bit (0x80 + word_of_nat n :: byte) 7" by simp
  then show "(0x80 + word_of_nat n) AND 0x80 \<noteq> (0 :: byte)"
    using and_exp_eq_0_iff_not_bit [of "0x80 + word_of_nat n :: byte" 7] by simp
qed

lemma ntohs_be16: "ntohs (be16 v) = v"
  by (simp add: ntohs_def be_rev_mem)

lemma be64toh_be64: "be64toh (be64 v) = v"
  by (simp add: be64toh_def be_rev_mem)

lemma check_opcode_data: "check_opcode (unat (b0 AND 0x0F :: byte)) = 0 \<longleftrightarrow> unat (b0 AND 0x0F) \<in> {TEXT_FRAME, BINARY_FRAME}"
  by (auto simp: check_opcode_def opcodes)

text \<open>The header that \<open>read_header\<close> fills from a frame.\<close>

definition header_of :: "byte \<Rightarrow> byte list \<Rightarrow> nat \<Rightarrow> ws_header \<Rightarrow> ws_header" where
  "header_of b0 key n h = h\<lparr>fin := (b0 AND 0x80 \<noteq> 0), masked := True, opcode := b0 AND 0x0F,
     header_size := length (frame_header b0 key n), payload_size := int n,
     mask_offset := length (frame_header b0 key n) - 4\<rparr>"

lemma ws_got_header: "ws_got bs (ws\<lparr>ws_header := h\<rparr>) = (ws_got bs ws)\<lparr>ws_header := h\<rparr>"
  by (simp add: ws_got_def)

text \<open>The bytes of a header that are read after the first six.\<close>

lemma read_header_rest:
  assumes ws: "read_str_len ws = 0" "length (read_str ws) = WEBSOCK_READ_STR_LEN"
    and hdr: "length hdr = 6 + m" "0 < m" "m \<le> 8"
    and rx: "rx_bytes (rx s) = drop 6 hdr @ rest"
  obtains es where "read_n_bytes (int m) (int m) ((ws_got (take 6 hdr) ws)\<lparr>ws_header := h\<rparr>) s
      = Some (Ret (0, (ws_got hdr ws)\<lparr>ws_header := h\<rparr>, s\<lparr>rx := es\<rparr>))"
    and "rx_bytes es = rest" and "rx_after es = rx_after (rx s)"
proof -
  have "length (drop 6 hdr) = m" using hdr by simp
  moreover have "read_str_len ((ws_got (take 6 hdr) ws)\<lparr>ws_header := h\<rparr>) + m
      \<le> length (read_str ((ws_got (take 6 hdr) ws)\<lparr>ws_header := h\<rparr>))"
    using ws hdr by (simp add: buffer_lengths)
  ultimately obtain es where es: "read_n_bytes (int m) (int m) ((ws_got (take 6 hdr) ws)\<lparr>ws_header := h\<rparr>) s
      = Some (Ret (if read_str_len ((ws_got (take 6 hdr) ws)\<lparr>ws_header := h\<rparr>) + m = KSERVER_READ_STR_LEN
         then -1 else 0, ws_got (drop 6 hdr) ((ws_got (take 6 hdr) ws)\<lparr>ws_header := h\<rparr>), s\<lparr>rx := es\<rparr>))"
    "rx_bytes es = rest" "rx_after es = rx_after (rx s)"
    by (rule read_n_bytes_exact [OF rx _ hdr(2)])
  moreover have "ws_got (drop 6 hdr) ((ws_got (take 6 hdr) ws)\<lparr>ws_header := h\<rparr>) = (ws_got hdr ws)\<lparr>ws_header := h\<rparr>"
    using ws hdr by (simp add: ws_got_header ws_got_append buffer_lengths)
  ultimately show thesis using that ws hdr by (simp add: KSERVER_READ_STR_LEN_def)
qed

lemma read_stream_size_frame:
  assumes ws: "read_str_len ws = 0" "length (read_str ws) = WEBSOCK_READ_STR_LEN" "\<not> connection_closed ws"
    and key: "length key = 4" and n: "n \<le> WEBSOCK_READ_STR_LEN - 56"
    and rx: "rx_bytes (rx s) = drop 6 (frame_header b0 key n) @ rest"
    and k: "k = (if n \<le> 125 then n else if n < 2 ^ 16 then 126 else 127)"
  shows "\<exists>es. read_stream_size k ((ws_got (take 6 (frame_header b0 key n)) ws)\<lparr>ws_header := h\<rparr>) s =
    Some (Ret (0, (ws_got (frame_header b0 key n) ws)\<lparr>ws_header := h\<lparr>
      header_size := length (frame_header b0 key n), payload_size := int n,
      mask_offset := length (frame_header b0 key n) - 4\<rparr>\<rparr>, s\<lparr>rx := es\<rparr>))
    \<and> rx_bytes es = rest \<and> rx_after es = rx_after (rx s)"
proof -
  let ?hdr = "frame_header b0 key n"
  note len = length_frame_header [OF key, of b0 n]
  have ok: "check_payload_size (w\<lparr>ws_header := g\<rparr>) s = Some (Ret (0, w\<lparr>ws_header := g\<rparr>, s))"
    if "payload_size g = int n" for w g s
    using that n by (simp add: check_payload_size_def buffer_lengths)
  have small: "n \<le> 125 \<Longrightarrow> ?thesis"
    using rx len k by (auto simp: read_stream_size_def stream_sizes ok intro!: exI [of _ "rx s"])
  have medium: ?thesis if c: "\<not> n \<le> 125" "n < 2 ^ 16"
  proof -
    obtain es where "read_n_bytes 2 2 ((ws_got (take 6 ?hdr) ws)\<lparr>ws_header := h\<rparr>) s
        = Some (Ret (0, (ws_got ?hdr ws)\<lparr>ws_header := h\<rparr>, s\<lparr>rx := es\<rparr>))"
      "rx_bytes es = rest" "rx_after es = rx_after (rx s)"
      using read_header_rest [OF ws(1,2) _ _ _ rx, of 2] len c by auto
    moreover have "peeks (read_str (ws_got ?hdr ws)) 2 2 = Some (be16 (word_of_nat n))"
      using c ws by (simp add: peeks_def slice_def read_str_got frame_header_def frame_length_def buffer_lengths)
    moreover have "uint (word_of_nat n :: u16) = int n"
      using c by (simp add: unsigned_of_nat take_bit_nat_eq_self)
    ultimately show ?thesis
      using c k ws len by (auto simp: read_stream_size_def stream_sizes ntohs_be16 ok)
  qed
  have big: ?thesis if c: "\<not> n < 2 ^ 16"
  proof -
    obtain es where "read_n_bytes 8 8 ((ws_got (take 6 ?hdr) ws)\<lparr>ws_header := h\<rparr>) s
        = Some (Ret (0, (ws_got ?hdr ws)\<lparr>ws_header := h\<rparr>, s\<lparr>rx := es\<rparr>))"
      "rx_bytes es = rest" "rx_after es = rx_after (rx s)"
      using read_header_rest [OF ws(1,2) _ _ _ rx, of 8] len c by auto
    moreover have "peeks (read_str (ws_got ?hdr ws)) 2 8 = Some (be64 (word_of_nat n))"
      using c ws by (simp add: peeks_def slice_def read_str_got frame_header_def frame_length_def buffer_lengths)
    moreover have "sint (word_of_nat n :: u64) = int n"
      using n by (simp add: signed_of_nat buffer_lengths signed_take_bit_int_eq_self)
    ultimately show ?thesis
      using c k ws len by (auto simp: read_stream_size_def stream_sizes be64toh_be64 ok)
  qed
  from small medium big show ?thesis by blast
qed

lemma read_header_frame:
  assumes ws: "read_str_len ws = 0" "length (read_str ws) = WEBSOCK_READ_STR_LEN" "\<not> connection_closed ws"
    and key: "length key = 4" and opc: "check_opcode (unat (b0 AND 0x0F)) = 0"
    and n: "n \<le> WEBSOCK_READ_STR_LEN - 56"
    and rx: "rx_bytes (rx s) = frame_header b0 key n @ rest"
  obtains es where "read_header ws s = Some (Ret (0, (ws_got (frame_header b0 key n) ws)
      \<lparr>ws_header := header_of b0 key n (ws_header ws)\<rparr>, s\<lparr>rx := es\<rparr>))"
    and "rx_bytes es = rest" and "rx_after es = rx_after (rx s)"
proof -
  let ?hdr = "frame_header b0 key n"
  let ?h = "(ws_header ws)\<lparr>fin := (b0 AND 0x80 \<noteq> 0), masked := True, opcode := b0 AND 0x0F\<rparr>"
  let ?ws1 = "(ws_got (take 6 ?hdr) ws)\<lparr>ws_header := ?h\<rparr>"
  define k where "k = (if n \<le> 125 then n else if n < 2 ^ 16 then 126 else 127)"
  have k: "k < 128" by (simp add: k_def)
  note len = length_frame_header [OF key, of b0 n]
  have hdr2: "take 2 ?hdr = [b0, 0x80 + word_of_nat k]"
    by (simp add: frame_header_def frame_length_def k_def)
  have "rx_bytes (rx s) = take 6 ?hdr @ drop 6 ?hdr @ rest" using rx by simp
  then obtain es1 where rd: "read_n_bytes 6 6 ws s = Some (Ret (0, ws_got (take 6 ?hdr) ws, s\<lparr>rx := es1\<rparr>))"
    and es1: "rx_bytes es1 = drop 6 ?hdr @ rest" "rx_after es1 = rx_after (rx s)"
    using read_n_bytes_exact [of s "take 6 ?hdr" "drop 6 ?hdr @ rest" 6 ws] ws len
    by (auto simp: buffer_lengths)
  have "peeks (read_str (ws_got (take 6 ?hdr) ws)) 0 2 = Some (take 2 ?hdr)"
    using ws len by (simp add: peeks_def slice_def read_str_got buffer_lengths)
  then have hd: "read_header ws s = read_stream_size k ?ws1 (s\<lparr>rx := es1\<rparr>)"
    using rd hdr2 stream_size_byte [OF k] opc ws(3) by (simp add: read_header_def Let_def)
  have rx1: "rx_bytes (rx (s\<lparr>rx := es1\<rparr>)) = drop 6 ?hdr @ rest" using es1 by simp
  have "?h\<lparr>header_size := length ?hdr, payload_size := int n, mask_offset := length ?hdr - 4\<rparr>
      = header_of b0 key n (ws_header ws)"
    by (simp add: header_of_def)
  with read_stream_size_frame [OF ws key n rx1 k_def, of ?h] hd es1(2)
  have "\<exists>es. read_header ws s = Some (Ret (0, (ws_got ?hdr ws)
      \<lparr>ws_header := header_of b0 key n (ws_header ws)\<rparr>, s\<lparr>rx := es\<rparr>))
    \<and> rx_bytes es = rest \<and> rx_after es = rx_after (rx s)" by simp
  with that show thesis by blast
qed

lemma reset_read_buff_simps [simp]:
  "read_str_len (reset_read_buff ws) = 0"
  "connection_closed (reset_read_buff ws) = connection_closed ws"
  "send_buf (reset_read_buff ws) = send_buf ws"
  "ws_header (reset_read_buff ws) = ws_header ws"
  "read_str_len ws \<le> length (read_str ws) \<Longrightarrow>
   length (read_str (reset_read_buff ws)) = length (read_str ws)"
  by (simp_all add: reset_read_buff_def)

lemma length_mask_payload [simp]: "length (mask_payload key data) = length data"
  by (simp add: mask_payload_def)

text \<open>The state in which a frame has been read into the buffer.\<close>

definition ws_frame :: "byte \<Rightarrow> byte list \<Rightarrow> byte list \<Rightarrow> websocket \<Rightarrow> websocket" where
  "ws_frame b0 key data ws = (ws_got (client_frame b0 key data) (reset_read_buff ws))
     \<lparr>ws_header := header_of b0 key (length data) (ws_header ws)\<rparr>"

lemma ws_frame_simps [simp]:
  "ws_header (ws_frame b0 key data ws) = header_of b0 key (length data) (ws_header ws)"
  "read_str_len (ws_frame b0 key data ws) = length (client_frame b0 key data)"
  "connection_closed (ws_frame b0 key data ws) = connection_closed ws"
  "send_buf (ws_frame b0 key data ws) = send_buf ws"
  by (simp_all add: ws_frame_def ws_got_def)

lemma header_of_simps [simp]:
  "payload_size (header_of b0 key n h) = int n"
  "header_size (header_of b0 key n h) = length (frame_header b0 key n)"
  "mask_offset (header_of b0 key n h) = length (frame_header b0 key n) - 4"
  by (simp_all add: header_of_def)

lemma read_stream_frame:
  assumes ws: "ws_wf ws" "\<not> connection_closed ws"
    and key: "length key = 4" and opc: "check_opcode (unat (b0 AND 0x0F)) = 0"
    and n: "length data \<le> WEBSOCK_READ_STR_LEN - 56"
    and rx: "rx_bytes (rx s) = client_frame b0 key data @ rest"
  obtains es where "read_stream ws s = Some (Ret
      (if length (client_frame b0 key data) = KSERVER_READ_STR_LEN then -1 else 0,
       ws_frame b0 key data ws, s\<lparr>rx := es\<rparr>))"
    and "rx_bytes es = rest" and "rx_after es = rx_after (rx s)"
proof -
  let ?n = "length data" and ?ws0 = "reset_read_buff ws"
  let ?hdr = "frame_header b0 key (length data)"
  let ?ws1 = "(ws_got ?hdr ?ws0)\<lparr>ws_header := header_of b0 key ?n (ws_header ws)\<rparr>"
  have ws0: "read_str_len ?ws0 = 0" "length (read_str ?ws0) = WEBSOCK_READ_STR_LEN"
    "\<not> connection_closed ?ws0" using ws by (simp_all add: ws_wf_def)
  note len = length_frame_header [OF key, of b0 ?n]
  have "rx_bytes (rx s) = ?hdr @ mask_payload key data @ rest"
    using rx by (simp add: client_frame_split)
  then obtain es where hd: "read_header ?ws0 s = Some (Ret (0, ?ws1, s\<lparr>rx := es\<rparr>))"
    and es: "rx_bytes es = mask_payload key data @ rest" "rx_after es = rx_after (rx s)"
    using read_header_frame [OF ws0 key opc n] by auto
  have fit: "length ?hdr + ?n \<le> WEBSOCK_READ_STR_LEN" using n len by (simp add: buffer_lengths)
  have ws_f: "ws_got (mask_payload key data) ?ws1 = ws_frame b0 key data ws"
    using ws0 fit by (simp add: ws_frame_def client_frame_split ws_got_header ws_got_append)
  show thesis
  proof (cases "data = []")
    case True
    have "read_n_bytes 0 0 w x = Some (Ret (0, w, x))" for w x
      by (simp add: read_n_bytes_def read_outer.simps)
    moreover have "?ws1 = ws_frame b0 key data ws"
      using True by (simp add: ws_frame_def client_frame_split mask_payload_def)
    ultimately have "read_stream ws s = Some (Ret (0, ws_frame b0 key data ws, s\<lparr>rx := es\<rparr>))"
      using hd True by (simp add: read_stream_def)
    moreover have "length (client_frame b0 key data) \<noteq> KSERVER_READ_STR_LEN"
      using True len by (simp add: client_frame_split mask_payload_def buffer_lengths)
    ultimately show thesis using that es True by (simp add: mask_payload_def)
  next
    case False
    have "rx_bytes (rx (s\<lparr>rx := es\<rparr>)) = mask_payload key data @ rest" using es by simp
    then obtain es' where "read_n_bytes (int ?n) (int ?n) ?ws1 (s\<lparr>rx := es\<rparr>)
        = Some (Ret (if read_str_len ?ws1 + ?n = KSERVER_READ_STR_LEN then -1 else 0,
          ws_frame b0 key data ws, (s\<lparr>rx := es\<rparr>)\<lparr>rx := es'\<rparr>))"
      "rx_bytes es' = rest" "rx_after es' = rx_after es"
      using read_n_bytes_exact [of "s\<lparr>rx := es\<rparr>" "mask_payload key data" rest ?n ?ws1] False fit ws0 ws_f
      by auto
    moreover have "read_str_len ?ws1 + ?n = length (client_frame b0 key data)"
      by (simp add: client_frame_split)
    ultimately show thesis
      using that [of es'] hd es(2) by (simp add: read_stream_def)
  qed
qed

lemma copy_unmasked_map:
  "(\<And>j. j < n \<Longrightarrow> unmask_at rs mo (i + j) = Some (f (i + j))) \<Longrightarrow> base \<le> i \<Longrightarrow>
   i - base + n \<le> length dst \<Longrightarrow>
   copy_unmasked n rs mo base i dst = Some (patch dst (i - base) (map f [i..<i + n]))"
proof (induction n arbitrary: i dst)
  case (Suc n)
  have x: "unmask_at rs mo i = Some (f i)" using Suc.prems(1) [of 0] by simp
  have "copy_unmasked n rs mo base (Suc i) (dst[i - base := f i])
      = Some (patch (dst[i - base := f i]) (Suc i - base) (map f [Suc i..<Suc i + n]))"
    using Suc.prems Suc.prems(1) [of "Suc j" for j] by (intro Suc.IH) auto
  moreover have "[i..<i + Suc n] = i # [Suc i..<Suc i + n]" by (simp add: upt_rec)
  ultimately show ?case
    using Suc.prems x by (simp add: poke_def patch_Cons Suc_diff_le)
qed simp

lemma xor_twice: "(x XOR y) XOR y = (x :: 'a::len word)"
  by (simp add: xor.assoc)

lemma unmask_frame:
  assumes ws: "ws_wf ws" and key: "length key = 4"
    and n: "length data \<le> WEBSOCK_READ_STR_LEN - 56" and i: "i < length data"
  shows "unmask_at (read_str (ws_frame b0 key data ws)) (length (frame_header b0 key (length data)) - 4) i
    = Some (data ! i)"
proof -
  let ?p = "b0 # frame_length (length data) 0x80"
  have mo: "length (frame_header b0 key (length data)) - 4 = length ?p"
    using key by (simp add: frame_header_def)
  have rs: "read_str (ws_frame b0 key data ws) = ?p @ key @ mask_payload key data
      @ drop (length (client_frame b0 key data)) (read_str (reset_read_buff ws))"
    by (simp add: ws_frame_def read_str_got client_frame_def)
  have "peek (?p @ key @ mask_payload key data @ r) (length ?p + 4 + i) = Some (data ! i XOR key ! (i mod 4))" for r
    using i key by (simp add: peek_def nth_append mask_payload_def)
  moreover have "peek (?p @ key @ mask_payload key data @ r) (length ?p + i mod 4) = Some (key ! (i mod 4))" for r
    using key by (simp add: peek_def nth_append)
  ultimately show ?thesis
    unfolding mo rs unmask_at_def by (simp add: xor_twice del: append_Cons)
qed

lemma map_nth_range: "n \<le> length xs \<Longrightarrow> map ((!) xs) [i..<n] = drop i (take n xs)"
  by (rule nth_equalityI) auto

lemma decode_cmd_frame:
  assumes ws: "ws_wf ws" and key: "length key = 4"
    and n: "length data \<le> WEBSOCK_READ_STR_LEN - 56" "HEADER_SIZE \<le> length data"
    and cmd: "command_wf cmd"
  shows "decode_raw_stream_cmd cmd (ws_frame b0 key data ws) = Some (0, cmd
    \<lparr>header := (header cmd)\<lparr>buf_data := take HEADER_SIZE data\<rparr>,
     payload := (payload cmd)\<lparr>buf_data := patch (buf_data (payload cmd)) 0 (drop HEADER_SIZE data)\<rparr>\<rparr>)"
proof -
  let ?rs = "read_str (ws_frame b0 key data ws)"
  let ?mo = "length (frame_header b0 key (length data)) - 4"
  note un = unmask_frame [OF ws key n(1)]
  have "copy_unmasked HEADER_SIZE ?rs ?mo 0 0 (buf_data (header cmd)) = Some (take HEADER_SIZE data)"
    using un n cmd copy_unmasked_map [of HEADER_SIZE ?rs ?mo 0 "(!) data" 0 "buf_data (header cmd)"]
    by (simp add: command_wf_def map_nth_range patch_def)
  moreover have "copy_unmasked (length data - HEADER_SIZE) ?rs ?mo HEADER_SIZE HEADER_SIZE (buf_data (payload cmd))
      = Some (patch (buf_data (payload cmd)) 0 (drop HEADER_SIZE data))"
    using un n cmd copy_unmasked_map [of "length data - HEADER_SIZE" ?rs ?mo HEADER_SIZE "(!) data" HEADER_SIZE "buf_data (payload cmd)"]
    by (simp add: command_wf_def map_nth_range buffer_lengths)
  moreover have "\<not> length (client_frame b0 key data) < length (frame_header b0 key (length data)) + 1"
    using n(2) by (auto simp: client_frame_split HEADER_SIZE_def)
  ultimately show ?thesis by (simp add: decode_raw_stream_cmd_def Let_def)
qed

lemma ws_frame_wf:
  assumes "ws_wf ws" and "length key = 4" and "length data \<le> WEBSOCK_READ_STR_LEN - 56"
  shows "ws_wf (ws_frame b0 key data ws)"
proof -
  have "length (client_frame b0 key data) \<le> WEBSOCK_READ_STR_LEN"
    using assms(3) length_frame_header [OF assms(2), of b0 "length data"]
    by (simp add: client_frame_split buffer_lengths)
  with assms(1) show ?thesis
    by (simp add: ws_wf_def ws_frame_def)
qed

lemma receive_cmd_frame:
  assumes ws: "ws_wf ws" "\<not> connection_closed ws" and cmd: "command_wf cmd"
    and key: "length key = 4" and opc: "unat (b0 AND 0x0F) \<in> {TEXT_FRAME, BINARY_FRAME}"
    and n: "length data \<le> WEBSOCK_READ_STR_LEN - 56" "HEADER_SIZE \<le> length data"
    and rx: "rx_bytes (rx s) = client_frame b0 key data @ rest"
    and len: "length (client_frame b0 key data) \<noteq> KSERVER_READ_STR_LEN"
  obtains es where "receive_cmd cmd ws s = Some (Ret (int (length data), cmd
      \<lparr>header := (header cmd)\<lparr>buf_data := take HEADER_SIZE data\<rparr>,
       payload := (payload cmd)\<lparr>buf_data := patch (buf_data (payload cmd)) 0 (drop HEADER_SIZE data)\<rparr>\<rparr>,
      ws_frame b0 key data ws, s\<lparr>rx := es\<rparr>))"
    and "rx_bytes es = rest" and "rx_after es = rx_after (rx s)"
proof -
  obtain es where rd: "read_stream ws s = Some (Ret (0, ws_frame b0 key data ws, s\<lparr>rx := es\<rparr>))"
    and es: "rx_bytes es = rest" "rx_after es = rx_after (rx s)"
    using read_stream_frame [OF ws key _ n(1) rx] opc len by (auto simp: check_opcode_data)
  have "to_int (int (length data)) = int (length data)"
    using n(1) by (intro to_int_id) (simp_all add: buffer_lengths)
  with rd decode_cmd_frame [OF ws(1) key n cmd, of b0] ws(2) that es show thesis
    by (simp add: receive_cmd_def)
qed

section \<open>Failures of the stream\<close>

lemma read_inner_short:
  "rx_bytes (rx s) = bs \<Longrightarrow> int (length bs) < r \<Longrightarrow> r \<le> e \<Longrightarrow>
   read_str_len ws + length bs \<le> length (read_str ws) \<Longrightarrow>
   read_inner r e b ws s = (case stream_end (rx s) bs of None \<Rightarrow> Wait | Some (k, _, es) \<Rightarrow>
     Ret (r - int (length bs), e - int (length bs), k, ws_got bs ws, s\<lparr>rx := es\<rparr>))"
proof (induction "length bs" arbitrary: r e b ws s bs rule: less_induct)
  case less
  show ?case
  proof (cases "bs = []")
    case True
    with less.prems have "sock_read (nat r) (rx s) = stream_end (rx s) []"
      by (intro sock_read_no_data) auto
    with True less.prems show ?thesis
      by (subst read_inner.simps)
        (auto simp: stream_end_def split: list.splits rx_event.splits)
  next
    case False
    then have "rx_bytes (rx s) \<noteq> []" "0 < nat r" "0 < r" using less.prems by auto
    from sock_read_data [OF this(1,2)] obtain cs es where
      rd: "sock_read (nat r) (rx s) = Some (int (length cs), cs, es)" and cs: "cs \<noteq> []"
      and split: "rx_bytes (rx s) = cs @ rx_bytes es" and aft: "rx_after es = rx_after (rx s)" .
    then have bs: "bs = cs @ rx_bytes es" using less.prems by simp
    then have lt: "length (rx_bytes es) < length bs" using cs by simp
    have p: "rx_bytes (rx (s\<lparr>rx := es\<rparr>)) = rx_bytes es"
      "int (length (rx_bytes es)) < r - int (length cs)" "r - int (length cs) \<le> e - int (length cs)"
      "read_str_len (ws_got cs ws) + length (rx_bytes es) \<le> length (read_str (ws_got cs ws))"
      using less.prems bs by simp_all
    have "read_inner r e b ws s = read_inner (r - int (length cs)) (e - int (length cs))
        (int (length cs)) (ws_got cs ws) (s\<lparr>rx := es\<rparr>)"
      using less.prems bs by (intro read_inner_chunk [OF rd cs \<open>0 < r\<close>]) simp_all
    moreover have "ws_got (rx_bytes es) (ws_got cs ws) = ws_got bs ws"
      using less.prems(4) bs by (simp add: ws_got_append)
    ultimately show ?thesis
      using less.hyps [OF lt p] bs aft
      by (auto simp: stream_end_def split: list.splits rx_event.splits)
  qed
qed

text \<open>A read that fails for good: the outer loop never ends.\<close>

lemma read_outer_fails:
  "read_outer r e b ws s = Some y \<Longrightarrow> rx s = RxFail # es \<Longrightarrow> 0 < r \<Longrightarrow> 0 < e \<Longrightarrow>
   read_str_len ws \<noteq> KSERVER_READ_STR_LEN \<Longrightarrow> False"
proof (induction r e b ws s y rule: read_outer.raw_induct [rotated 1, consumes 1, case_names step])
  case (step f r e b ws s y)
  have "s\<lparr>rx := RxFail # es\<rparr> = s" using step.prems by (metis sock.surjective sock.update_convs(1))
  then have "read_inner r e b ws s = Ret (r, e, -1, ws, s)"
    using step.prems by (subst read_inner.simps) simp
  with step show ?case by (auto split: if_splits)
qed

text \<open>The errors that a script still holds.\<close>

definition n_errors :: "rx_event list \<Rightarrow> nat" where
  "n_errors es = length (filter (\<lambda>e. e = RxErr) es)"

lemma sock_read_errors:
  "sock_read n es = Some (k, bs, es') \<Longrightarrow> RxFail \<notin> set es \<Longrightarrow>
   RxFail \<notin> set es' \<and> n_errors es' \<le> n_errors es \<and> (k < 0 \<longrightarrow> n_errors es' < n_errors es)"
  by (induction n es rule: sock_read.induct) (auto simp: n_errors_def Let_def split: if_splits)

lemma read_inner_errors:
  "read_inner r e b ws s = Ret (r', e', b', ws', s') \<Longrightarrow> e = r \<Longrightarrow> RxFail \<notin> set (rx s) \<Longrightarrow>
   e' = r' \<and> RxFail \<notin> set (rx s') \<and> n_errors (rx s') \<le> n_errors (rx s)
   \<and> (r' \<le> 0 \<or> b' = 0 \<or> n_errors (rx s') < n_errors (rx s))"
proof (induction r e b ws s rule: read_inner.induct)
  case (1 r e b ws s)
  show ?case
  proof (cases "r > 0")
    case False
    with "1.prems" show ?thesis by (subst (asm) read_inner.simps) auto
  next
    case True
    with "1.prems" obtain k bs es where rd: "sock_read (nat r) (rx s) = Some (k, bs, es)"
      by (subst (asm) read_inner.simps) (auto split: option.splits)
    note er = sock_read_errors [OF rd "1.prems"(3)]
    show ?thesis
    proof (cases "k > 0")
      case k: True
      with rd True "1.prems" obtain d where d: "pokes (read_str ws) (read_str_len ws) bs = Some d"
        by (subst (asm) read_inner.simps) (auto split: option.splits)
      have le: "k \<le> r" using sock_read_pos [OF rd k] True by auto
      from rd d k True le "1.prems"(1,2)
      have "read_inner (r - k) (if e - k < 0 then 0 else e - k) k
          (ws\<lparr>read_str := d, read_str_len := read_str_len ws + nat k\<rparr>) (s\<lparr>rx := es\<rparr>) = Ret (r', e', b', ws', s')"
        by (subst (asm) read_inner.simps) simp
      from "1.IH" [OF True rd refl refl k d this] le "1.prems"(2) er show ?thesis by auto
    next
      case False
      with rd True "1.prems" er show ?thesis by (subst (asm) read_inner.simps) auto
    qed
  qed
qed

lemma read_outer_returns:
  "RxFail \<notin> set (rx s) \<Longrightarrow> \<exists>y. read_outer r r b ws s = Some y"
proof (induction "n_errors (rx s)" arbitrary: r b ws s rule: less_induct)
  case less
  show ?case
  proof (cases "read_inner r r b ws s")
    case (Ret x)
    obtain r' e' b' ws' s' where x: "x = (r', e', b', ws', s')" by (cases x)
    note inner = read_inner_errors [OF Ret [unfolded x] refl less.prems]
    have "\<exists>y. read_outer r' e' b' ws' s' = Some y" if "b' \<noteq> 0"
      using inner less.hyps [of s' r' b' ws'] that
      by (cases "r' \<le> 0") (auto simp: read_outer.simps [of r' r'])
    with Ret x show ?thesis by (subst read_outer.simps) auto
  qed (subst read_outer.simps, simp)+
qed

section \<open>Memory safety\<close>

lemma read_inner_bounds:
  assumes "read_inner r e b ws s = x" and "e = r" and "read_str_len ws + nat r \<le> length (read_str ws)"
  shows "x \<noteq> Undef \<and> (\<forall>r' e' b' ws' s'. x = Ret (r', e', b', ws', s') \<longrightarrow>
    (\<exists>bs. ws' = ws_got bs ws \<and> length bs \<le> nat r \<and> r' = r - int (length bs) \<and> e' = r'))"
  using assms
proof (induction r e b ws s rule: read_inner.induct)
  case (1 r e b ws s)
  have stop: "\<exists>bs. ws = ws_got bs ws \<and> length bs \<le> nat r \<and> r = r - int (length bs) \<and> e = r"
    using "1.prems" by (intro exI [of _ "[]"]) simp
  show ?case
  proof (cases "r > 0 \<and> (\<exists>k bs es. sock_read (nat r) (rx s) = Some (k, bs, es) \<and> k > 0)")
    case True
    then obtain k bs es where r: "r > 0" and rd: "sock_read (nat r) (rx s) = Some (k, bs, es)"
      and k: "k > 0" by blast
    note pos = sock_read_pos [OF rd k]
    have fits: "read_str_len ws + length bs \<le> length (read_str ws)" "k \<le> r"
      using pos "1.prems"(3) r by auto
    then have d: "pokes (read_str ws) (read_str_len ws) bs = Some (read_str (ws_got bs ws))"
      by (simp add: pokes_def ws_got_def)
    let ?ws = "ws\<lparr>read_str := read_str (ws_got bs ws), read_str_len := read_str_len ws + nat k\<rparr>"
    have ws: "?ws = ws_got bs ws" using pos by (simp add: ws_got_def)
    have "read_inner (r - k) (if e - k < 0 then 0 else e - k) k ?ws (s\<lparr>rx := es\<rparr>) = x"
      using "1.prems"(1) r rd k d by (subst (asm) read_inner.simps) simp
    note IH = "1.IH" [OF r rd refl refl k d this]
    have x: "x \<noteq> Undef \<and> (\<forall>r' e' b' ws' s'. x = Ret (r', e', b', ws', s') \<longrightarrow>
      (\<exists>cs. ws' = ws_got cs (ws_got bs ws) \<and> length cs \<le> nat (r - k)
        \<and> r' = r - k - int (length cs) \<and> e' = r'))"
      using IH fits pos "1.prems"(2,3) unfolding ws by simp
    have app: "ws_got cs (ws_got bs ws) = ws_got (bs @ cs) ws" if "length cs \<le> nat (r - k)" for cs
      using that fits pos "1.prems"(3) by (intro ws_got_append) linarith
    show ?thesis
    proof (intro conjI allI impI)
      fix r' e' b' ws' s' assume "x = Ret (r', e', b', ws', s')"
      with x obtain cs where "ws' = ws_got cs (ws_got bs ws)" "length cs \<le> nat (r - k)"
        "r' = r - k - int (length cs)" "e' = r'" by blast
      with app pos fits(2) show "\<exists>bs. ws' = ws_got bs ws \<and> length bs \<le> nat r
          \<and> r' = r - int (length bs) \<and> e' = r'"
        by (intro exI [of _ "bs @ cs"]) auto
    qed (use x in simp)
  next
    case False
    with "1.prems" stop show ?thesis
      by (subst (asm) read_inner.simps) (auto split: option.splits if_splits)
  qed
qed

lemma read_outer_bounds:
  "read_outer r e b ws s = Some x \<Longrightarrow> e = r \<Longrightarrow> read_str_len ws + nat r \<le> length (read_str ws) \<Longrightarrow>
   x \<noteq> Undef \<and> (\<forall>k ws' s'. x = Ret (k, ws', s') \<longrightarrow> (\<exists>bs. length bs \<le> nat r
     \<and> ws' = (ws_got bs ws)\<lparr>connection_closed := connection_closed ws'\<rparr>
     \<and> (k = 0 \<longrightarrow> connection_closed ws' = connection_closed ws \<and> length bs = nat r)))"
proof (induction r e b ws s x rule: read_outer.raw_induct [rotated 1, consumes 1, case_names step])
  case (step f r e b ws s x)
  show ?case
  proof (cases "e > 0")
    case False
    with step.hyps step.prems show ?thesis by (auto intro!: exI [of _ "[]"])
  next
    case True
    note b = read_inner_bounds [OF refl step.prems, of b s]
    show ?thesis
    proof (cases "read_inner r e b ws s")
      case (Ret y)
      obtain r' e' b' ws' s' where y: "y = (r', e', b', ws', s')" by (cases y)
      with b Ret obtain bs where bs: "ws' = ws_got bs ws" "length bs \<le> nat r"
        "r' = r - int (length bs)" "e' = r'" by auto
      have fit: "read_str_len ws' + nat r' \<le> length (read_str ws')"
        using bs step.prems by simp
      show ?thesis
      proof (cases "b' = 0 \<or> read_str_len ws' = KSERVER_READ_STR_LEN")
        case stop: True
        with step.hyps Ret y True bs show ?thesis by (auto intro!: exI [of _ bs] split: if_splits)
      next
        case False
        then have "f r' e' b' ws' s' = Some x" using step.hyps Ret y True by simp
        note IH = step.IH [OF this bs(4) fit]
        have app: "ws_got cs ws' = ws_got (bs @ cs) ws" if "length cs \<le> nat r'" for cs
          using that bs step.prems unfolding bs(1) by (intro ws_got_append) linarith
        have "length (bs @ cs) \<le> nat r \<and> (length cs = nat r' \<longrightarrow> length (bs @ cs) = nat r)"
          if "length cs \<le> nat r'" for cs using that bs by auto
        note len = this
        show ?thesis
        proof (intro conjI allI impI)
          fix k ws2 s2 assume "x = Ret (k, ws2, s2)"
          with IH obtain cs where "length cs \<le> nat r'"
            "ws2 = (ws_got cs ws')\<lparr>connection_closed := connection_closed ws2\<rparr>"
            "k = 0 \<longrightarrow> connection_closed ws2 = connection_closed ws' \<and> length cs = nat r'" by blast
          with app len bs(1) show "\<exists>bs. length bs \<le> nat r
              \<and> ws2 = (ws_got bs ws)\<lparr>connection_closed := connection_closed ws2\<rparr>
              \<and> (k = 0 \<longrightarrow> connection_closed ws2 = connection_closed ws \<and> length bs = nat r)"
            by (intro exI [of _ "bs @ cs"]) auto
        qed (use IH in simp)
      qed
    qed (use step.hyps step.prems True b in auto)
  qed
qed

text \<open>A call that does not run into undefined behaviour, and what holds when it returns.\<close>

definition safe_ro :: "('a \<Rightarrow> bool) \<Rightarrow> 'a res option \<Rightarrow> bool" where
  "safe_ro Q m \<longleftrightarrow> m \<noteq> Some Undef \<and> (\<forall>x. m = Some (Ret x) \<longrightarrow> Q x)"

lemma safe_ro_bind [inv_intros]:
  "safe_ro Q m \<Longrightarrow> (\<And>x. Q x \<Longrightarrow> safe_ro R (f x)) \<Longrightarrow> safe_ro R (bind_ro m f)"
  by (cases m rule: option.exhaust; cases "the m") (auto simp: safe_ro_def)

lemma safe_ro_simps [simp]:
  "safe_ro Q (Some (Ret x)) = Q x" "safe_ro Q None" "\<not> safe_ro Q (Some Undef)"
  "safe_ro Q (Some Wait)" "safe_ro Q (Some Throw)"
  by (simp_all add: safe_ro_def)

lemma safe_ro_mono: "safe_ro Q m \<Longrightarrow> (\<And>x. Q x \<Longrightarrow> R x) \<Longrightarrow> safe_ro R m"
  by (auto simp: safe_ro_def)

lemma safe_ro_of_ub: "safe_ro Q (Some (of_ub m)) \<longleftrightarrow> (\<exists>x. m = Some x \<and> Q x)"
  by (cases m) simp_all

definition buf_ok :: "nat \<Rightarrow> websocket \<Rightarrow> bool" where
  "buf_ok n ws \<longleftrightarrow> length (read_str ws) = WEBSOCK_READ_STR_LEN
     \<and> length (send_buf ws) = WEBSOCK_SEND_BUF_LEN \<and> read_str_len ws \<le> n"

lemma buf_ok_mono: "buf_ok m ws \<Longrightarrow> m \<le> n \<Longrightarrow> buf_ok n ws"
  by (simp add: buf_ok_def)

definition size_ok :: "ws_header \<Rightarrow> bool" where
  "size_ok h \<longleftrightarrow> payload_size h \<le> int WEBSOCK_READ_STR_LEN - 56"

definition ws_safe :: "websocket \<Rightarrow> bool" where
  "ws_safe ws \<longleftrightarrow> ws_wf ws \<and> mask_offset (ws_header ws) \<le> BIG_OFFSET \<and> size_ok (ws_header ws)"

lemma buf_ok_update [simp]:
  "buf_ok n (ws\<lparr>ws_header := h\<rparr>) = buf_ok n ws" "buf_ok n (ws\<lparr>connection_closed := c\<rparr>) = buf_ok n ws"
  by (simp_all add: buf_ok_def)

lemma size_ok_update [simp]:
  "size_ok (h\<lparr>fin := a\<rparr>) = size_ok h" "size_ok (h\<lparr>masked := a\<rparr>) = size_ok h"
  "size_ok (h\<lparr>opcode := b\<rparr>) = size_ok h"
  by (simp_all add: size_ok_def)

lemma peeks_safe:
  "buf_ok n ws \<Longrightarrow> p + k \<le> WEBSOCK_READ_STR_LEN \<Longrightarrow>
   safe_ro (\<lambda>_. True) (Some (of_ub (peeks (read_str ws) p k)))"
  by (simp add: peeks_def buf_ok_def)

lemma read_n_bytes_safe:
  assumes "buf_ok m ws" and "m + nat r \<le> WEBSOCK_READ_STR_LEN"
  shows "safe_ro (\<lambda>(k, ws', s'). buf_ok (m + nat r) ws' \<and> ws_header ws' = ws_header ws)
    (read_n_bytes r r ws s)"
proof (cases "read_n_bytes r r ws s")
  case (Some x)
  have fit: "read_str_len ws + nat r \<le> length (read_str ws)" using assms by (simp add: buf_ok_def)
  note b = read_outer_bounds [OF Some [unfolded read_n_bytes_def] refl fit]
  have "buf_ok (m + nat r) ws' \<and> ws_header ws' = ws_header ws" if x: "x = Ret (k, ws', s')" for k ws' s'
  proof -
    from b x obtain bs where "length bs \<le> nat r"
      and ws': "ws' = (ws_got bs ws)\<lparr>connection_closed := connection_closed ws'\<rparr>" by blast
    then have "buf_ok (m + nat r) ((ws_got bs ws)\<lparr>connection_closed := c\<rparr>)" for c
      using assms fit by (simp add: buf_ok_def)
    with ws' show ?thesis by (metis ws_got_simps(3) websocket.select_convs(7) websocket.surjective
          websocket.update_convs(8))
  qed
  with b Some show ?thesis by (auto simp: safe_ro_def)
qed simp

lemma read_stream_size_safe:
  assumes "buf_ok 6 ws" and "mask_offset (ws_header ws) \<le> BIG_OFFSET" and "size_ok (ws_header ws)"
  shows "safe_ro (\<lambda>(k, ws', s'). buf_ok 14 ws' \<and> mask_offset (ws_header ws') \<le> BIG_OFFSET
      \<and> (0 \<le> k \<longrightarrow> size_ok (ws_header ws')))
    (read_stream_size n ws s)"
proof -
  have rd: "safe_ro (\<lambda>(k, ws', s'). buf_ok 14 ws' \<and> ws_header ws' = ws_header ws) (read_n_bytes r r ws s)"
    if "nat r \<le> 8" for r
  proof -
    have "6 + nat r \<le> WEBSOCK_READ_STR_LEN" using that by (simp add: buffer_lengths)
    from read_n_bytes_safe [OF assms(1) this] show ?thesis
      by (rule safe_ro_mono) (use that in \<open>auto elim: buf_ok_mono\<close>)
  qed
  have le: "buf_ok 14 ws" using assms(1) by (rule buf_ok_mono) simp
  have fit: "2 + 2 \<le> WEBSOCK_READ_STR_LEN" "2 + 8 \<le> WEBSOCK_READ_STR_LEN"
    by (simp_all add: buffer_lengths)
  show ?thesis
    unfolding read_stream_size_def check_payload_size_def
    using assms le
    by (auto intro!: safe_ro_bind [OF rd] safe_ro_bind [OF peeks_safe [OF _ fit(1)]]
        safe_ro_bind [OF peeks_safe [OF _ fit(2)]] simp: stream_sizes simp: size_ok_def)
qed

lemma reset_buf_ok: "ws_wf ws \<Longrightarrow> buf_ok 0 (reset_read_buff ws)"
  by (simp add: ws_wf_def buf_ok_def)

lemma read_header_safe:
  assumes "buf_ok 0 ws" and "mask_offset (ws_header ws) \<le> BIG_OFFSET" and "size_ok (ws_header ws)"
  shows "safe_ro (\<lambda>(k, ws', s'). buf_ok 14 ws' \<and> mask_offset (ws_header ws') \<le> BIG_OFFSET
      \<and> (0 \<le> k \<longrightarrow> size_ok (ws_header ws'))) (read_header ws s)"
proof -
  have "0 + nat 6 \<le> WEBSOCK_READ_STR_LEN" by (simp add: buffer_lengths)
  from read_n_bytes_safe [OF assms(1) this]
  have rd: "safe_ro (\<lambda>(k, ws', s'). buf_ok 6 ws' \<and> ws_header ws' = ws_header ws) (read_n_bytes 6 6 ws s)"
    by simp
  have fit: "0 + 2 \<le> WEBSOCK_READ_STR_LEN" by (simp add: buffer_lengths)
  have le: "buf_ok 14 ws'" if "buf_ok 6 ws'" for ws' using that by (rule buf_ok_mono) simp
  show ?thesis
    unfolding read_header_def
    by (rule safe_ro_bind [OF rd])
      (use assms in \<open>auto intro!: safe_ro_bind [OF peeks_safe [OF _ fit]] read_stream_size_safe
         simp: Let_def le\<close>)
qed

lemma read_stream_safe:
  assumes "ws_safe ws"
  shows "safe_ro (\<lambda>(k, ws', s'). buf_ok WEBSOCK_READ_STR_LEN ws' \<and> mask_offset (ws_header ws') \<le> BIG_OFFSET
      \<and> (0 \<le> k \<longrightarrow> size_ok (ws_header ws'))) (read_stream ws s)"
proof -
  have hd: "safe_ro (\<lambda>(k, ws', s'). buf_ok 14 ws' \<and> mask_offset (ws_header ws') \<le> BIG_OFFSET
      \<and> (0 \<le> k \<longrightarrow> size_ok (ws_header ws'))) (read_header (reset_read_buff ws) s)"
    using assms by (intro read_header_safe reset_buf_ok) (simp_all add: ws_safe_def)
  have pl: "safe_ro (\<lambda>(k, ws'', s''). buf_ok WEBSOCK_READ_STR_LEN ws'' \<and> ws_header ws'' = ws_header ws')
      (read_n_bytes (payload_size (ws_header ws')) (payload_size (ws_header ws')) ws' s')"
    if "buf_ok 14 ws'" "size_ok (ws_header ws')" for ws' s'
  proof -
    have "14 + nat (payload_size (ws_header ws')) \<le> WEBSOCK_READ_STR_LEN"
      using that(2) by (simp add: size_ok_def buffer_lengths)
    then show ?thesis
      by (intro safe_ro_mono [OF read_n_bytes_safe [OF that(1)]]) (auto elim: buf_ok_mono)
  qed
  have le: "14 \<le> WEBSOCK_READ_STR_LEN" by (simp add: buffer_lengths)
  show ?thesis
    unfolding read_stream_def
    by (rule safe_ro_bind [OF hd])
      (auto intro!: safe_ro_bind [OF pl] elim: buf_ok_mono [OF _ le])
qed

lemma copy_unmasked_safe:
  "mo + 4 + i + n \<le> length rs \<Longrightarrow> base \<le> i \<Longrightarrow> i - base + n \<le> length dst \<Longrightarrow>
   \<exists>dst'. copy_unmasked n rs mo base i dst = Some dst' \<and> length dst' = length dst"
proof (induction n arbitrary: i dst)
  case (Suc n)
  have "i mod 4 \<le> i" by simp
  then have "mo + i mod 4 < length rs" using Suc.prems(1) by linarith
  with Suc.prems have "\<exists>x. unmask_at rs mo i = Some x" by (simp add: unmask_at_def peek_def)
  moreover have "\<exists>dst'. copy_unmasked n rs mo base (Suc i) (dst[i - base := x]) = Some dst'
      \<and> length dst' = length (dst[i - base := x])" for x
    using Suc.prems by (intro Suc.IH) auto
  ultimately show ?case using Suc.prems by (auto simp: poke_def)
qed simp

lemma decode_cmd_safe:
  assumes "buf_ok WEBSOCK_READ_STR_LEN ws" and "mask_offset (ws_header ws) \<le> BIG_OFFSET"
    and "size_ok (ws_header ws)" and "command_wf cmd"
  shows "\<exists>k cmd'. decode_raw_stream_cmd cmd ws = Some (k, cmd') \<and> command_wf cmd'"
proof -
  let ?h = "ws_header ws"
  have "\<exists>d. copy_unmasked HEADER_SIZE (read_str ws) (mask_offset ?h) 0 0 (buf_data (header cmd)) = Some d
      \<and> length d = length (buf_data (header cmd))"
    using assms by (intro copy_unmasked_safe)
      (auto simp: buf_ok_def command_wf_def HEADER_SIZE_def BIG_OFFSET_def buffer_lengths)
  moreover have "\<exists>d. copy_unmasked (nat (payload_size ?h) - HEADER_SIZE) (read_str ws) (mask_offset ?h)
      HEADER_SIZE HEADER_SIZE (buf_data (payload cmd)) = Some d \<and> length d = length (buf_data (payload cmd))"
    using assms by (intro copy_unmasked_safe)
      (auto simp: buf_ok_def command_wf_def size_ok_def HEADER_SIZE_def BIG_OFFSET_def buffer_lengths)
  ultimately show ?thesis
    using assms(4) by (auto simp: decode_raw_stream_cmd_def Let_def command_wf_def)
qed

section \<open>Properties\<close>

text \<open>A command that a client sends as one masked text or binary frame, of any payload from
  the eight header bytes to the largest the buffer takes and with any key, is received unmasked:
  its first eight bytes in the header buffer, the rest at the start of the payload buffer, the
  stream left after the frame and the socket ready for the next one, however the stream is cut.
  The one exception is a frame of exactly 16384 bytes.\<close>

theorem receive_cmd_decodes_frame:
  assumes "ws_wf ws" and "\<not> connection_closed ws" and "command_wf cmd" and "length key = 4"
    and "unat (b0 AND 0x0F) \<in> {TEXT_FRAME, BINARY_FRAME}"
    and "HEADER_SIZE \<le> length data" and "length data \<le> WEBSOCK_READ_STR_LEN - 56"
    and "rx_bytes (rx s) = client_frame b0 key data @ rest"
    and "length (client_frame b0 key data) \<noteq> KSERVER_READ_STR_LEN"
  shows "\<exists>cmd' ws' s'. receive_cmd cmd ws s = Some (Ret (int (length data), cmd', ws', s'))
    \<and> buf_data (header cmd') = take HEADER_SIZE data
    \<and> take (length data - HEADER_SIZE) (buf_data (payload cmd')) = drop HEADER_SIZE data
    \<and> position (header cmd') = position (header cmd) \<and> position (payload cmd') = position (payload cmd)
    \<and> command_wf cmd' \<and> ws_wf ws' \<and> \<not> connection_closed ws'
    \<and> payload_size (ws_header ws') = int (length data)
    \<and> rx_bytes (rx s') = rest \<and> rx_after (rx s') = rx_after (rx s)"
proof -
  obtain es where "receive_cmd cmd ws s = Some (Ret (int (length data), cmd
      \<lparr>header := (header cmd)\<lparr>buf_data := take HEADER_SIZE data\<rparr>,
       payload := (payload cmd)\<lparr>buf_data := patch (buf_data (payload cmd)) 0 (drop HEADER_SIZE data)\<rparr>\<rparr>,
      ws_frame b0 key data ws, s\<lparr>rx := es\<rparr>))"
    "rx_bytes es = rest" "rx_after es = rx_after (rx s)"
    by (rule receive_cmd_frame [OF assms(1-5,7,6,8,9)])
  moreover have "ws_wf (ws_frame b0 key data ws)" using assms by (intro ws_frame_wf)
  ultimately show ?thesis
    using assms by (auto simp: patch_def command_wf_def buffer_lengths HEADER_SIZE_def)
qed

definition zero_header :: ws_header where
  "zero_header = \<lparr>header_size = 0, mask_offset = 0, payload_size = 0, fin = False, masked = False,
     opcode = 0\<rparr>"

lemma ws_wf_new: "length g = WEBSOCK_SEND_BUF_LEN \<Longrightarrow> ws_wf (WebSocket g p h)"
  by (simp add: ws_wf_def WebSocket_def)

lemma ws_safe_new: "length g = WEBSOCK_SEND_BUF_LEN \<Longrightarrow> ws_safe (WebSocket g p zero_header)"
  by (simp add: ws_safe_def ws_wf_new) (simp add: WebSocket_def zero_header_def size_ok_def buffer_lengths)

lemma command_wf_new:
  "length h = HEADER_SIZE \<Longrightarrow> length p = CMD_PAYLOAD_BUFFER_LEN \<Longrightarrow> command_wf (Command h p)"
  by (simp add: command_wf_def Command_def Buffer_def)

theorem receive_cmd_decodes_frame_witness:
  "\<exists>cmd' ws' s'. receive_cmd (Command (replicate HEADER_SIZE 1) (replicate CMD_PAYLOAD_BUFFER_LEN 2))
      (WebSocket (replicate WEBSOCK_SEND_BUF_LEN 3) 0 zero_header)
      \<lparr>rx = [RxData (client_frame 0x82 [1,2,3,4] [0,0,0,0,0,2,0,7,42]), RxErr], tx = [], sent = []\<rparr>
      = Some (Ret (9, cmd', ws', s'))
    \<and> buf_data (header cmd') = [0,0,0,0,0,2,0,7] \<and> take 1 (buf_data (payload cmd')) = [42]"
proof -
  let ?cmd = "Command (replicate HEADER_SIZE 1) (replicate CMD_PAYLOAD_BUFFER_LEN 2)"
  let ?ws = "WebSocket (replicate WEBSOCK_SEND_BUF_LEN 3) 0 zero_header"
  let ?d = "[0,0,0,0,0,2,0,7,42] :: byte list"
  have "ws_wf ?ws" by (rule ws_wf_new) simp
  moreover have "\<not> connection_closed ?ws" by (simp add: WebSocket_def)
  moreover have "command_wf ?cmd" by (rule command_wf_new) simp_all
  moreover have "unat (0x82 AND 0x0F :: byte) \<in> {TEXT_FRAME, BINARY_FRAME}" by (simp add: opcodes)
  moreover have "length (client_frame 0x82 [1,2,3,4] ?d) \<noteq> KSERVER_READ_STR_LEN"
    by (simp add: client_frame_def frame_length_def KSERVER_READ_STR_LEN_def)
  ultimately show ?thesis
    using receive_cmd_decodes_frame [where ws = ?ws and cmd = ?cmd and key = "[1,2,3,4]" and ?b0.0 = "0x82"
      and data = ?d and rest = "[]" and s = "\<lparr>rx = [RxData (client_frame 0x82 [1,2,3,4] ?d), RxErr], tx = [], sent = []\<rparr>"]
    by (auto simp: HEADER_SIZE_def buffer_lengths)
qed

text \<open>A frame whose bytes are exactly \<open>KSERVER_READ_STR_LEN\<close> is refused as a buffer
  overflow, although the buffer it is read into is eight times larger: \<open>read_n_bytes\<close> compares
  the bytes read with the size of another buffer.\<close>

theorem receive_cmd_refuses_16384:
  assumes "ws_wf ws" and "\<not> connection_closed ws" and "length key = 4"
    and "unat (b0 AND 0x0F) \<in> {TEXT_FRAME, BINARY_FRAME}"
    and "rx_bytes (rx s) = client_frame b0 key data @ rest"
    and "length (client_frame b0 key data) = KSERVER_READ_STR_LEN"
  shows "\<exists>ws' s'. receive_cmd cmd ws s = Some (Ret (-1, cmd, ws', s'))"
proof -
  have "length data \<le> WEBSOCK_READ_STR_LEN - 56"
    using assms(6) by (simp add: client_frame_split buffer_lengths)
  then obtain es where "read_stream ws s = Some (Ret (-1, ws_frame b0 key data ws, s\<lparr>rx := es\<rparr>))"
    using read_stream_frame [OF assms(1,2,3) _ _ assms(5)] assms(4,6) by (auto simp: check_opcode_data)
  then show ?thesis using assms(2) by (simp add: receive_cmd_def)
qed

theorem receive_cmd_refuses_16384_witness:
  "\<exists>ws' s'. receive_cmd (Command [] []) (WebSocket (replicate WEBSOCK_SEND_BUF_LEN 3) 0 zero_header)
      \<lparr>rx = [RxData (client_frame 0x82 [1,2,3,4] (replicate 16376 0))], tx = [], sent = []\<rparr>
    = Some (Ret (-1, Command [] [], ws', s'))"
  by (rule receive_cmd_refuses_16384 [where key = "[1,2,3,4]" and ?b0.0 = "0x82"
      and data = "replicate 16376 0" and rest = "[]"])
    (simp add: ws_wf_new,
      simp_all add: WebSocket_def opcodes client_frame_split length_frame_header KSERVER_READ_STR_LEN_def)



text \<open>C38: \<open>send\<close> writes the data as one unmasked binary frame of RFC 6455, with the length in
  the 7-bit, 16-bit or 64-bit form its size asks for, however the socket takes it in pieces, and
  returns a positive number; data that does not fit in the send buffer is refused with -1 and
  nothing is written, and a closed connection sends nothing.\<close>

theorem ws_send_writes_frame:
  assumes "ws_wf ws" and "tx_accepts (length (server_frame 0x82 data)) (tx s)"
  shows "if connection_closed ws then ws_send data ws s = Ret (0, ws, s)
    else if length data + 10 > WEBSOCK_SEND_BUF_LEN then ws_send data ws s = Ret (-1, ws, s)
    else \<exists>n buf es. ws_send data ws s = Ret (n, ws\<lparr>send_buf := buf\<rparr>,
        s\<lparr>tx := es, sent := sent s @ server_frame 0x82 data\<rparr>) \<and> 0 < n \<and> ws_wf (ws\<lparr>send_buf := buf\<rparr>)"
proof -
  have "\<exists>n buf es. ws_send data ws s = Ret (n, ws\<lparr>send_buf := buf\<rparr>,
      s\<lparr>tx := es, sent := sent s @ server_frame 0x82 data\<rparr>) \<and> 0 < n \<and> ws_wf (ws\<lparr>send_buf := buf\<rparr>)"
    if c: "\<not> connection_closed ws" "\<not> length data + 10 > WEBSOCK_SEND_BUF_LEN"
  proof -
    obtain n buf es where "ws_send data ws s = Ret (n, ws\<lparr>send_buf := buf\<rparr>,
        s\<lparr>tx := es, sent := sent s @ server_frame 0x82 data\<rparr>)"
      "0 < n" "length buf = WEBSOCK_SEND_BUF_LEN"
      by (rule ws_send_frame [OF _ c(1) _ assms(2)]) (use assms(1) c in \<open>auto simp: ws_wf_def\<close>)
    with assms(1) show ?thesis by (auto simp: ws_wf_def)
  qed
  then show ?thesis by (simp add: ws_send_def)
qed

theorem ws_send_writes_frame_witness:
  "\<exists>n buf es. ws_send [7,8] (WebSocket (replicate WEBSOCK_SEND_BUF_LEN 0) 0 zero_header)
      \<lparr>rx = [], tx = [TxAccept 1, TxAccept 9], sent = [5]\<rparr>
    = Ret (n, (WebSocket (replicate WEBSOCK_SEND_BUF_LEN 0) 0 zero_header)\<lparr>send_buf := buf\<rparr>,
        \<lparr>rx = [], tx = es, sent = [5, 0x82, 2, 7, 8]\<rparr>) \<and> 0 < n"
proof -
  let ?ws = "WebSocket (replicate WEBSOCK_SEND_BUF_LEN 0) 0 zero_header"
  have "server_frame 0x82 [7,8] = [0x82, 2, 7, 8]"
    by (simp add: server_frame_def frame_length_def)
  moreover have "ws_wf ?ws" "\<not> connection_closed ?ws"
    by (simp add: ws_wf_new) (simp add: WebSocket_def)
  ultimately show ?thesis
    using ws_send_writes_frame [of ?ws "[7,8]" "\<lparr>rx = [], tx = [TxAccept 1, TxAccept 9], sent = [5]\<rparr>"]
    by (auto simp: IO_MAX_def WEBSOCK_SEND_BUF_LEN_def)
qed

text \<open>The loop of \<open>read_n_bytes\<close> ends for every request and every stream whose errors do
  not repeat for ever: each error is retried, never reported.\<close>

theorem read_n_bytes_terminates:
  assumes "RxFail \<notin> set (rx s)"
  shows "\<exists>y. read_n_bytes n n ws s = Some y"
  using read_outer_returns [OF assms] by (simp add: read_n_bytes_def)

theorem read_n_bytes_terminates_witness:
  "\<exists>y. read_n_bytes 6 6 (WebSocket [] 0 zero_header)
     \<lparr>rx = [RxErr, RxData [1,2,3], RxErr, RxEof], tx = [], sent = []\<rparr> = Some y"
  by (rule read_n_bytes_terminates) simp

text \<open>C39: when the descriptor fails for good before the bytes have arrived, \<open>read_n_bytes\<close>
  never returns: the error leaves the inner loop, whose test for it is never reached, and the
  outer loop starts it again.\<close>

theorem read_n_bytes_spins:
  assumes "rx_bytes (rx s) = bs" and "rx_after (rx s) = RxFail # es" and "int (length bs) < n"
    and "read_str_len ws + length bs \<le> length (read_str ws)"
    and "read_str_len ws + length bs \<noteq> KSERVER_READ_STR_LEN"
  shows "read_n_bytes n n ws s = None"
proof -
  let ?r = "n - int (length bs)" and ?s = "s\<lparr>rx := RxFail # es\<rparr>"
  have "read_inner n n (-1) ws s = Ret (?r, ?r, -1, ws_got bs ws, ?s)"
    using read_inner_short [OF assms(1,3) order_refl assms(4), of "-1"] assms(2)
    by (simp add: stream_end_def)
  then have "read_outer n n (-1) ws s = read_outer ?r ?r (-1) (ws_got bs ws) ?s"
    using assms(3,5) by (subst read_outer.simps) simp
  moreover have "read_outer ?r ?r (-1) (ws_got bs ws) ?s \<noteq> Some y" for y
    using read_outer_fails [of ?r ?r "-1" "ws_got bs ws" ?s y es] assms(3,5) by auto
  ultimately show ?thesis by (cases "read_outer n n (-1) ws s") (auto simp: read_n_bytes_def)
qed

theorem read_n_bytes_spins_witness:
  "read_n_bytes 6 6 (WebSocket [] 0 zero_header) \<lparr>rx = [RxData [1,2,3], RxFail], tx = [], sent = []\<rparr> = None"
  by (rule read_n_bytes_spins [where bs = "[1,2,3]" and es = "[]"])
    (simp_all add: WebSocket_def buffer_lengths)

end
