(* ===== verification/WsSession.thy ===== *)
theory WsSession
  imports WebSocket Transport
begin

text \<open>
  The WebSocket specialisation of the session, from \<open>core/kserver_session.cpp\<close> and
  \<open>core/kserver_session.hpp\<close>: a command is one frame, and its arguments are read from the
  payload buffer of the command.
\<close>

section \<open>The code\<close>

definition ws_read_command ::
  "SessID \<Rightarrow> command \<Rightarrow> websocket \<Rightarrow> sock \<Rightarrow> (int \<times> command \<times> websocket \<times> sock) res option" where
  "ws_read_command sid cmd ws s =
     bind_ro (receive_cmd cmd ws s) (\<lambda>(err, cmd, ws, s).
       if err < 0 then Some (Ret (-1, cmd, ws, s))
       else if connection_closed ws then Some (Ret (0, cmd, ws, s))
       else if payload_size (ws_header ws) < int HEADER_SIZE then Some (Ret (-1, cmd, ws, s))
       else bind_ro (Some (of_ub (decode_header sid cmd))) (\<lambda>cmd.
         Some (Ret (int HEADER_SIZE, cmd, ws, s))))"

definition with_payload :: "command \<Rightarrow> ('a \<times> buffer) \<Rightarrow> 'a \<times> command" where
  "with_payload cmd = (\<lambda>(x, b). (x, cmd\<lparr>payload := b\<rparr>))"

definition ws_recv_array :: "scalar_t \<Rightarrow> nat \<Rightarrow> command \<Rightarrow> (int \<times> scalar list \<times> command) res" where
  "ws_recv_array t N cmd =
     bind_res (of_ub (map_option (with_payload cmd) (buf_extract_array t N (payload cmd))))
       (\<lambda>(arr, cmd). Ret (0, arr, cmd))"

text \<open>The length field that precedes a vector or a string.\<close>

definition ws_length :: "command \<Rightarrow> (nat \<times> command) res" where
  "ws_length cmd =
     bind_res (of_ub (map_option (with_payload cmd) (buf_deserialize [T_uint32] (payload cmd))))
       (\<lambda>(tup, cmd). case tup of [V_uint32 len] \<Rightarrow> Ret (unat len, cmd) | _ \<Rightarrow> Undef)"

definition ws_recv_vector :: "scalar_t \<Rightarrow> scalar list \<Rightarrow> command \<Rightarrow> (int \<times> scalar list \<times> command) res" where
  "ws_recv_vector t vec cmd =
     bind_res (ws_length cmd) (\<lambda>(len, cmd).
       if len > CMD_PAYLOAD_BUFFER_LEN then Ret (-1, vec, cmd)
       else bind_res (of_ub (map_option (with_payload cmd) (buf_to_vector t (len div size_of t) (payload cmd))))
         (\<lambda>(vec, cmd). Ret (0, vec, cmd)))"

definition ws_recv_string :: "byte list \<Rightarrow> command \<Rightarrow> (int \<times> byte list \<times> command) res" where
  "ws_recv_string str cmd =
     bind_res (ws_length cmd) (\<lambda>(len, cmd).
       if len > CMD_PAYLOAD_BUFFER_LEN then Ret (-1, str, cmd)
       else bind_res (of_ub (map_option (with_payload cmd) (buf_to_string len (payload cmd))))
         (\<lambda>(str, cmd). Ret (0, str, cmd)))"

text \<open>An empty tuple is the \<open>std::false_type\<close> overload.\<close>

definition ws_deserialize :: "scalar_t list \<Rightarrow> command \<Rightarrow> (int \<times> scalar list \<times> command) res" where
  "ws_deserialize ts cmd =
     (if ts = [] then Ret (0, [], cmd)
      else bind_res (of_ub (map_option (with_payload cmd) (buf_deserialize ts (payload cmd))))
        (\<lambda>(tup, cmd). Ret (0, tup, cmd)))"

section \<open>The WebSocket session provides the contract\<close>

definition ws_ops :: "command transport_ops" where
  "ws_ops = \<lparr>op_deserialize = ws_deserialize, op_recv_array = ws_recv_array,
     op_recv_vector = ws_recv_vector, op_recv_string = ws_recv_string\<rparr>"

definition ws_pending :: "command \<Rightarrow> byte list" where
  "ws_pending cmd = drop (position (payload cmd)) (buf_data (payload cmd))"

definition payload_wf :: "command \<Rightarrow> bool" where
  "payload_wf cmd \<longleftrightarrow> length (buf_data (payload cmd)) = CMD_PAYLOAD_BUFFER_LEN
     \<and> position (payload cmd) \<le> CMD_PAYLOAD_BUFFER_LEN"

lemma pending_at:
  assumes "payload_wf cmd" and "ws_pending cmd = bs @ rest"
  shows "at_position (payload cmd) bs"
proof -
  have "length (bs @ rest) = CMD_PAYLOAD_BUFFER_LEN - position (payload cmd)"
    using assms(1,2) by (metis length_drop payload_wf_def ws_pending_def)
  with assms show ?thesis
    by (auto simp: at_position_def peeks_def slice_def ws_pending_def payload_wf_def)
qed

text \<open>The command after \<open>n\<close> bytes of its payload have been consumed.\<close>

definition skip :: "nat \<Rightarrow> command \<Rightarrow> command" where
  "skip n cmd = cmd\<lparr>payload := (payload cmd)\<lparr>position := position (payload cmd) + n\<rparr>\<rparr>"

lemma pending_skip:
  assumes "payload_wf cmd" and "ws_pending cmd = bs @ rest"
  shows "payload_wf (skip (length bs) cmd)" and "ws_pending (skip (length bs) cmd) = rest"
  using at_position_skip [OF pending_at [OF assms]] assms
  by (simp_all add: ws_pending_def payload_wf_def skip_def add.commute flip: drop_drop)

lemma ws_length_pending:
  assumes "payload_wf cmd" and "ws_pending cmd = be32 (word_of_nat n) @ rest" and "n < 2 ^ 31"
  shows "ws_length cmd = Ret (n, skip 4 cmd)"
proof -
  have "buf_deserialize (map type_of [V_uint32 (word_of_nat n)]) (payload cmd) =
      Some ([V_uint32 (word_of_nat n)], (payload cmd)\<lparr>position := position (payload cmd) + 4\<rparr>)"
    using pending_at [OF assms(1,2)] by (subst buf_deserialize_at) simp_all
  moreover have "unat (word_of_nat n :: u32) = n"
    using assms(3) by (simp add: unat_of_nat take_bit_nat_eq_self)
  ultimately show ?thesis by (simp add: ws_length_def with_payload_def skip_def)
qed

text \<open>A container that is pending is no longer than the buffer.\<close>

lemma pending_le:
  "payload_wf cmd \<Longrightarrow> ws_pending cmd = bs @ rest \<Longrightarrow> length bs \<le> CMD_PAYLOAD_BUFFER_LEN"
  using at_position_skip [OF pending_at] by (fastforce simp: payload_wf_def)

lemma pending_container:
  assumes "payload_wf cmd" and "ws_pending cmd = be32 (word_of_nat (length bs)) @ bs @ rest"
  shows "payload_wf (skip 4 cmd)" and "ws_pending (skip 4 cmd) = bs @ rest"
    and "at_position (payload (skip 4 cmd)) bs" and "length bs \<le> CMD_PAYLOAD_BUFFER_LEN"
proof -
  from pending_skip [OF assms] show *: "payload_wf (skip 4 cmd)" "ws_pending (skip 4 cmd) = bs @ rest"
    by simp_all
  from pending_at [OF *] pending_le [OF *]
  show "at_position (payload (skip 4 cmd)) bs" "length bs \<le> CMD_PAYLOAD_BUFFER_LEN" by simp_all
qed

text \<open>Reading the payload changes nothing else of the command.\<close>

definition payload_of :: "command \<Rightarrow> command \<Rightarrow> bool" where
  "payload_of cmd cmd' \<longleftrightarrow> payload_wf cmd' \<and> (\<exists>b. cmd' = cmd\<lparr>payload := b\<rparr>)"

lemma payload_of_refl: "payload_wf cmd \<Longrightarrow> payload_of cmd cmd"
  by (auto simp: payload_of_def intro: exI [of _ "payload cmd"])

lemma payload_of_skip: "payload_of cmd0 cmd \<Longrightarrow> payload_wf (skip n cmd) \<Longrightarrow> payload_of cmd0 (skip n cmd)"
  by (auto simp: payload_of_def skip_def)

interpretation ws: session_transport ws_ops ws_pending "payload_of cmd0" for cmd0
proof
  fix cmd vs rest
  assume of: "payload_of cmd0 cmd" and pend: "ws_pending cmd = wires vs @ rest"
  note * = of [unfolded payload_of_def, THEN conjunct1] pend
  from buf_deserialize_at [OF pending_at [OF *]] pending_skip [OF *] payload_of_skip [OF of pending_skip(1) [OF *]] of pend
  show "\<exists>err s'. op_deserialize ws_ops (map type_of vs) cmd = Ret (err, vs, s') \<and> 0 \<le> err
      \<and> payload_of cmd0 s' \<and> ws_pending s' = rest"
    by (auto simp: ws_ops_def ws_deserialize_def with_payload_def skip_def)
next
  fix cmd es rest t
  assume of: "payload_of cmd0 cmd" and pend: "ws_pending cmd = elems_mem es @ rest" and t: "list_all (\<lambda>v. type_of v = t) es"
  note * = of [unfolded payload_of_def, THEN conjunct1] pend
  from buf_extract_array_at [OF pending_at [OF *] t] pending_skip [OF *] payload_of_skip [OF of pending_skip(1) [OF *]]
  show "\<exists>err s'. op_recv_array ws_ops t (length es) cmd = Ret (err, es, s') \<and> 0 \<le> err
      \<and> payload_of cmd0 s' \<and> ws_pending s' = rest"
    by (auto simp: ws_ops_def ws_recv_array_def with_payload_def skip_def)
next
  fix cmd es rest t old
  assume of: "payload_of cmd0 cmd"
    and pend: "ws_pending cmd = be32 (word_of_nat (length (elems_mem es))) @ elems_mem es @ rest"
    and small: "length (elems_mem es) < 2 ^ 31" and t: "list_all (\<lambda>v. type_of v = t) es"
  note * = of [unfolded payload_of_def, THEN conjunct1] pend
  note c = pending_container [OF *]
  have "length (elems_mem es) div size_of t = length es"
    using t by (simp add: length_elems_mem)
  with buf_to_vector_at [OF c(3) t] pending_skip [OF c(1,2)] c(4) ws_length_pending [OF * small]
    payload_of_skip [OF payload_of_skip [OF of c(1)] pending_skip(1) [OF c(1,2)]]
  show "\<exists>err s'. op_recv_vector ws_ops t old cmd = Ret (err, es, s') \<and> 0 \<le> err
      \<and> payload_of cmd0 s' \<and> ws_pending s' = rest"
    by (auto simp: ws_ops_def ws_recv_vector_def with_payload_def skip_def)
next
  fix cmd cs rest str
  assume of: "payload_of cmd0 cmd" and pend: "ws_pending cmd = be32 (word_of_nat (length cs)) @ cs @ rest"
    and small: "length cs < 2 ^ 31"
  note * = of [unfolded payload_of_def, THEN conjunct1] pend
  note c = pending_container [OF *]
  from buf_to_string_at [OF c(3)] pending_skip [OF c(1,2)] c(4) ws_length_pending [OF * small]
    payload_of_skip [OF payload_of_skip [OF of c(1)] pending_skip(1) [OF c(1,2)]]
  show "\<exists>err s'. op_recv_string ws_ops str cmd = Ret (err, cs, s') \<and> 0 \<le> err
      \<and> payload_of cmd0 s' \<and> ws_pending s' = rest"
    by (auto simp: ws_ops_def ws_recv_string_def with_payload_def skip_def)
qed

end
