(* ===== verification/Session.thy ===== *)
theory Session
  imports TcpSession WsSession
begin

text \<open>
  The session of \<open>core/kserver_session.hpp\<close> above its transports: the switch on the kind of
  socket that \<open>SessionAbstract\<close> makes, reception of arguments, sending of replies and the loop
  that reads and executes commands until the client leaves.
\<close>

section \<open>State\<close>

text \<open>
  \<open>PeerInfo\<close> of \<open>core/peer_info.hpp\<close>. What \<open>getpeername\<close> answers, the family, the two bytes of
  \<open>sin_port\<close> and the text \<open>inet_ntop\<close> makes of the address, comes with the connection.
\<close>

record peer_info =
  ip_family :: u16
  ip_str :: "byte list"
  port :: int

definition fill_up :: "(u16 \<times> byte list \<times> byte list) option \<Rightarrow> peer_info \<Rightarrow> peer_info" where
  "fill_up peername p = (case peername of None \<Rightarrow> p
     | Some (family, sin_port, text) \<Rightarrow>
         p\<lparr>ip_family := family, port := uint (ntohs sin_port), ip_str := text\<rparr>)"

definition PeerInfo :: "SockType \<Rightarrow> (u16 \<times> byte list \<times> byte list) option \<Rightarrow> peer_info" where
  "PeerInfo sock_type peername =
     (let p = \<lparr>ip_family = 0, ip_str = [], port = 0\<rparr> in
      if sock_type = WEBSOCK \<or> sock_type = TCP then fill_up peername p else p)"

text \<open>
  The members of \<open>Session\<close>; a TCP or Unix session has no WebSocket and does not use the field.
  \<open>status\<close> is \<open>OPENED\<close> or \<open>CLOSED\<close>. \<open>conn\<close> is the script of the socket behind \<open>comm_fd\<close>.
\<close>

datatype session_status = CLOSED | OPENED

record session =
  kind :: SockType
  comm_fd :: int
  session_id :: SessID
  peer :: peer_info
  conn :: sock
  websock :: websocket
  requests_num :: u32
  errors_num :: u32
  start_time :: int
  send_buffer :: "byte list"
  dyn_serializer :: dyn_ser
  status :: session_status

definition SCALAR_PACK_LEN :: nat where "SCALAR_PACK_LEN = 1024"

text \<open>
  A connection the listener accepted: its descriptor, the answer of \<open>getpeername\<close>, the script of
  its socket, and the memory the session object is built in.
\<close>

record connection =
  conn_fd :: int
  peername :: "(u16 \<times> byte list \<times> byte list) option"
  script :: sock
  ws_memory :: websocket
  scal_memory :: "byte list"

text \<open>\<open>Session<UNIX>\<close> derives from \<open>Session<TCP>\<close> and is built by its constructor, so that its
  \<open>kind\<close> is \<open>TCP\<close>.\<close>

definition session_kind :: "SockType \<Rightarrow> SockType" where
  "session_kind sock_type = (if sock_type = UNIX then TCP else sock_type)"

definition Session :: "SockType \<Rightarrow> connection \<Rightarrow> SessID \<Rightarrow> session" where
  "Session sock_type c i =
     \<lparr>kind = session_kind sock_type, comm_fd = conn_fd c, session_id = i,
      peer = PeerInfo (session_kind sock_type) (peername c), conn = script c, 
      websock = WebSocket (send_buf (ws_memory c)) (ws_payload (ws_memory c)) (ws_header (ws_memory c)),
      requests_num = 0, errors_num = 0, start_time = 0, send_buffer = [],
      dyn_serializer = \<lparr>scal_data = scal_memory c, scal_size = 0\<rparr>, status = OPENED\<rparr>"

text \<open>A connection with a given script, for the examples.\<close>

definition connection_of :: "sock \<Rightarrow> connection" where
  "connection_of s = \<lparr>conn_fd = 9, peername = None, script = s,
     ws_memory = WebSocket (replicate WEBSOCK_SEND_BUF_LEN 0) 0 zero_header,
     scal_memory = replicate SCALAR_PACK_LEN 7\<rparr>"

lemma WebSocket_again [simp]:
  "WebSocket (send_buf (WebSocket g p h)) (ws_payload (WebSocket g p h)) (ws_header (WebSocket g p h)) = WebSocket g p h"
  by (simp add: WebSocket_def)

lemmas session_new = Session_def session_kind_def connection_of_def

section \<open>Receiving\<close>

text \<open>\<open>SWITCH_SOCK_TYPE\<close>: each call is the one of the session's kind, and -1 for no kind.\<close>

definition on_conn :: "session \<times> command \<Rightarrow> (int \<times> 'a \<times> sock) res \<Rightarrow> (int \<times> 'a \<times> session \<times> command) res" where
  "on_conn st m = bind_res m (\<lambda>(err, x, c). Ret (err, x, (fst st)\<lparr>conn := c\<rparr>, snd st))"

definition on_cmd :: "session \<times> command \<Rightarrow> (int \<times> 'a \<times> command) res \<Rightarrow> (int \<times> 'a \<times> session \<times> command) res" where
  "on_cmd st m = bind_res m (\<lambda>(err, x, cmd). Ret (err, x, fst st, cmd))"

definition switch_sock_type :: "session \<times> command \<Rightarrow> 'a \<Rightarrow> (sock \<Rightarrow> (int \<times> 'a \<times> sock) res)
    \<Rightarrow> (command \<Rightarrow> (int \<times> 'a \<times> command) res) \<Rightarrow> (int \<times> 'a \<times> session \<times> command) res" where
  "switch_sock_type st dflt on_tcp on_websock = (case kind (fst st) of
     TCP \<Rightarrow> on_conn st (on_tcp (conn (fst st)))
   | UNIX \<Rightarrow> on_conn st (on_tcp (conn (fst st)))
   | WEBSOCK \<Rightarrow> on_cmd st (on_websock (snd st))
   | NONE \<Rightarrow> Ret (-1, dflt, st))"

definition session_ops :: "(nat \<Rightarrow> byte) \<Rightarrow> (session \<times> command) transport_ops" where
  "session_ops g =
     \<lparr>op_deserialize = (\<lambda>ts st. switch_sock_type st (map zero_of ts)
        (op_deserialize (tcp_ops g) ts) (op_deserialize ws_ops ts)),
      op_recv_array = (\<lambda>t n st. switch_sock_type st (replicate n (zero_of t))
        (op_recv_array (tcp_ops g) t n) (op_recv_array ws_ops t n)),
      op_recv_vector = (\<lambda>t vec st. switch_sock_type st vec
        (op_recv_vector (tcp_ops g) t vec) (op_recv_vector ws_ops t vec)),
      op_recv_string = (\<lambda>str st. switch_sock_type st str
        (op_recv_string (tcp_ops g) str) (op_recv_string ws_ops str))\<rparr>"

text \<open>What a session has not consumed of its current command, and when its buffers are sound.\<close>

definition session_pending :: "session \<times> command \<Rightarrow> byte list" where
  "session_pending st = (if kind (fst st) = WEBSOCK then ws_pending (snd st) else rx_bytes (rx (conn (fst st))))"

definition session_inv :: "session \<times> command \<Rightarrow> bool" where
  "session_inv st \<longleftrightarrow> kind (fst st) \<noteq> NONE \<and> (kind (fst st) = WEBSOCK \<longrightarrow> payload_wf (snd st))"

text \<open>The states a session goes through while it takes arguments from \<open>st\<close>: of the session only the
  input stream has changed, of the command only the payload buffer.\<close>

definition arguments_of :: "session \<times> command \<Rightarrow> session \<times> command \<Rightarrow> bool" where
  "arguments_of st st' \<longleftrightarrow> session_inv st'
     \<and> (\<exists>c. fst st' = (fst st)\<lparr>conn := c\<rparr> \<and> received_from (conn (fst st)) c)
     \<and> (\<exists>b. snd st' = (snd st)\<lparr>payload := b\<rparr>)"

lemma arguments_of_refl: "session_inv st \<Longrightarrow> arguments_of st st"
  unfolding arguments_of_def by (auto intro: exI [of _ "conn (fst st)"] exI [of _ "payload (snd st)"])

lemma arguments_of_inv: "arguments_of st st' \<Longrightarrow> session_inv st'"
  by (simp add: arguments_of_def)

lemma arguments_of_conn:
  "arguments_of st0 st \<Longrightarrow> kind (fst st) \<noteq> WEBSOCK \<Longrightarrow> received_from (conn (fst st)) c \<Longrightarrow>
   arguments_of st0 ((fst st)\<lparr>conn := c\<rparr>, snd st)"
  unfolding arguments_of_def by (auto simp: session_inv_def intro!: exI [of _ c] intro: received_from_trans)

lemma arguments_of_payload:
  "arguments_of st0 st \<Longrightarrow> payload_of (snd st) cmd \<Longrightarrow> arguments_of st0 (fst st, cmd)"
  by (auto simp: arguments_of_def session_inv_def payload_of_def)

lemma switch_law:
  assumes of: "arguments_of st0 st" and pend: "session_pending st = img @ rest"
    and tcp: "rx_bytes (rx (conn (fst st))) = img @ rest \<Longrightarrow>
      \<exists>err c. on_tcp (conn (fst st)) = Ret (err, x, c) \<and> 0 \<le> err \<and> received_from (conn (fst st)) c \<and> rx_bytes (rx c) = rest"
    and ws: "payload_of (snd st) (snd st) \<Longrightarrow> ws_pending (snd st) = img @ rest \<Longrightarrow>
      \<exists>err cmd. on_ws (snd st) = Ret (err, x, cmd) \<and> 0 \<le> err \<and> payload_of (snd st) cmd \<and> ws_pending cmd = rest"
  shows "\<exists>err st'. switch_sock_type st dflt on_tcp on_ws = Ret (err, x, st') \<and> 0 \<le> err
    \<and> arguments_of st0 st' \<and> session_pending st' = rest"
proof (cases "kind (fst st) = WEBSOCK")
  case True
  with arguments_of_inv [OF of] have "payload_of (snd st) (snd st)" by (simp add: session_inv_def payload_of_refl)
  with True pend ws obtain err cmd where cmd: "on_ws (snd st) = Ret (err, x, cmd)" "0 \<le> err"
    "payload_of (snd st) cmd" "ws_pending cmd = rest" by (auto simp: session_pending_def)
  with True arguments_of_payload [OF of cmd(3)] show ?thesis
    by (intro exI [of _ err] exI [of _ "(fst st, cmd)"])
      (simp add: switch_sock_type_def session_pending_def on_cmd_def)
next
  case False
  with pend tcp obtain err c where c: "on_tcp (conn (fst st)) = Ret (err, x, c)" "0 \<le> err"
    "received_from (conn (fst st)) c" "rx_bytes (rx c) = rest" by (auto simp: session_pending_def)
  with False arguments_of_conn [OF of False c(3)] arguments_of_inv [OF of] show ?thesis
    by (intro exI [of _ err] exI [of _ "((fst st)\<lparr>conn := c\<rparr>, snd st)"], cases "kind (fst st)")
      (auto simp: switch_sock_type_def session_inv_def session_pending_def on_conn_def)
qed

interpretation session: session_transport "session_ops g" session_pending "arguments_of st0" for g st0
proof
  fix st vs rest
  assume "arguments_of st0 st" "session_pending st = wires vs @ rest" "length (wires vs) < 2 ^ 31"
  with tcp.deserialize_law ws.deserialize_law
  show "\<exists>err s'. op_deserialize (session_ops g) (map type_of vs) st = Ret (err, vs, s') \<and> 0 \<le> err
      \<and> arguments_of st0 s' \<and> session_pending s' = rest"
    unfolding session_ops_def transport_ops.simps by (intro switch_law [where img = "wires vs"]) auto
next
  fix st es rest t
  assume "arguments_of st0 st" "session_pending st = elems_mem es @ rest" "length (elems_mem es) < 2 ^ 31"
    "list_all (\<lambda>v. type_of v = t) es"
  with tcp.array_law ws.array_law
  show "\<exists>err s'. op_recv_array (session_ops g) t (length es) st = Ret (err, es, s') \<and> 0 \<le> err
      \<and> arguments_of st0 s' \<and> session_pending s' = rest"
    unfolding session_ops_def transport_ops.simps by (intro switch_law [where img = "elems_mem es"]) auto
next
  fix st es rest t old
  assume "arguments_of st0 st"
    "session_pending st = be32 (word_of_nat (length (elems_mem es))) @ elems_mem es @ rest"
    "length (elems_mem es) < 2 ^ 31" "list_all (\<lambda>v. type_of v = t) es" "list_all (\<lambda>v. type_of v = t) old"
  with tcp.vector_law ws.vector_law
  show "\<exists>err s'. op_recv_vector (session_ops g) t old st = Ret (err, es, s') \<and> 0 \<le> err
      \<and> arguments_of st0 s' \<and> session_pending s' = rest"
    unfolding session_ops_def transport_ops.simps
    by (intro switch_law [where img = "be32 (word_of_nat (length (elems_mem es))) @ elems_mem es"]) auto
next
  fix st cs rest str
  assume "arguments_of st0 st" "session_pending st = be32 (word_of_nat (length cs)) @ cs @ rest" "length cs < 2 ^ 31"
  with tcp.string_law ws.string_law
  show "\<exists>err s'. op_recv_string (session_ops g) str st = Ret (err, cs, s') \<and> 0 \<le> err
      \<and> arguments_of st0 s' \<and> session_pending s' = rest"
    unfolding session_ops_def transport_ops.simps
    by (intro switch_law [where img = "be32 (word_of_nat (length cs)) @ cs"]) auto
qed

text \<open>The arguments of a command on any transport.\<close>

lemma session_arguments_received:
  assumes "session_inv st" and "session_pending st = concat (map arg_image args) @ rest"
    and "length (concat (map arg_image args)) < 2 ^ 31" and "list_all arg_rcv_ok args" and "old_ok ov"
  shows "\<exists>st'. parse_arguments (session_ops g) ov os (map arg_type args) st = Ret (0, args, st')
    \<and> arguments_of st st' \<and> session_pending st' = rest"
  by (rule session.arguments_received [OF arguments_of_refl [OF assms(1)] assms(2-5)])

definition session_read_command ::
  "command \<Rightarrow> session \<Rightarrow> (int \<times> command \<times> session) res option" where
  "session_read_command cmd se = (case kind se of
     WEBSOCK \<Rightarrow> bind_ro (ws_read_command (session_id se) cmd (websock se) (conn se))
       (\<lambda>(n, cmd, w, c). Some (Ret (n, cmd, se\<lparr>websock := w, conn := c\<rparr>)))
   | _ \<Rightarrow> Some (bind_res (tcp_read_command (session_id se) cmd (conn se))
       (\<lambda>(n, cmd, c). Ret (n, cmd, se\<lparr>conn := c\<rparr>))))"

section \<open>Sending\<close>

definition session_write :: "byte list \<Rightarrow> session \<Rightarrow> (int \<times> session) res" where
  "session_write data se = (case kind se of
     WEBSOCK \<Rightarrow> bind_res (ws_send data (websock se) (conn se))
       (\<lambda>(n, w, c). Ret (n, se\<lparr>websock := w, conn := c\<rparr>))
   | _ \<Rightarrow> bind_res (tcp_write data (conn se)) (\<lambda>(n, c). Ret (n, se\<lparr>conn := c\<rparr>)))"

text \<open>\<open>arr\<close> is the uninitialised array in which the header is serialised.\<close>

definition session_send :: "byte list \<Rightarrow> u16 \<Rightarrow> u16 \<Rightarrow> cmd_arg list \<Rightarrow> session \<Rightarrow> (int \<times> session) res" where
  "session_send arr class_id func_id args se =
     (if kind se = NONE then Ret (-1, se)
      else bind_res (of_ub (build_command arr class_id func_id (dyn_serializer se) (send_buffer se) args))
        (\<lambda>(ser, buf).
          let se = se\<lparr>dyn_serializer := ser, send_buffer := buf\<rparr> in
          bind_res (session_write buf se) (\<lambda>(bytes_send, se).
            Ret (bytes_send, if bytes_send = 0 then se\<lparr>status := CLOSED\<rparr> else se))))"

section \<open>Properties\<close>

lemma build_command_bytes:
  assumes "length arr = 8" and "list_all arg_ok args"
    and "build_command arr dev op ser buf args = Some (ser', bytes)"
  shows "bytes = command_image dev op args"
  using build_command_eq [OF assms(1,2), of dev op ser buf] assms(3) by (auto split: if_splits)

lemma command_image_split:
  "command_image dev op args = replicate 4 0 @ be16 dev @ be16 op @ concat (map arg_image args)"
  by (simp add: command_image_def)

text \<open>C34: a command that \<open>build_command\<close> made, with any arguments, is received over TCP or a
  Unix socket: \<open>read_command\<close> finds its device and operation, the calls that devgen generates
  for the argument types return the same arguments whatever the stream's chunks, the memory
  of the buffers and the old contents of the containers are, and the session is left at the
  byte after the command.\<close>

theorem tcp_command_roundtrip:
  assumes "kind se \<in> {TCP, UNIX}" and "build_command arr dev op ser buf args = Some (ser', bytes)"
    and "length arr = 8" and "list_all arg_ok args" and "list_all arg_rcv_ok args"
    and "length bytes < 2 ^ 31" and "rx_bytes (rx (conn se)) = bytes @ rest"
    and "length hg = HEADER_SIZE" and "old_ok old_vec"
  shows "\<exists>cmd se' st. session_read_command (Command hg pg) se = Some (Ret (8, cmd, se'))
    \<and> device cmd = unat dev \<and> operation cmd = uint op
    \<and> parse_arguments (session_ops g) old_vec old_str (map arg_type args) (se', cmd) = Ret (0, args, st)
    \<and> session_inv st \<and> session_pending st = rest"
proof -
  let ?img = "concat (map arg_image args)"
  have bytes: "bytes = replicate 4 0 @ be16 dev @ be16 op @ ?img"
    using build_command_bytes [OF assms(3,4,2)] by (simp add: command_image_split)
  then have "rx_bytes (rx (conn se)) = replicate 4 0 @ be16 dev @ be16 op @ ?img @ rest"
    using assms(7) by simp
  from tcp_read_command_exact [OF this _ assms(8), of "session_id se" pg] obtain cmd c where
    rd: "tcp_read_command (session_id se) (Command hg pg) (conn se) = Ret (8, cmd, c)"
      "device cmd = unat dev" "operation cmd = uint op" and c: "rx_bytes (rx c) = ?img @ rest"
    by auto
  let ?se = "se\<lparr>conn := c\<rparr>"
  have "session_inv (?se, cmd)" "session_pending (?se, cmd) = ?img @ rest"
    using assms(1) c by (auto simp: session_inv_def session_pending_def)
  moreover have "length ?img < 2 ^ 31" using assms(6) bytes by simp
  ultimately obtain st where
    "parse_arguments (session_ops g) old_vec old_str (map arg_type args) (?se, cmd) = Ret (0, args, st)"
    "session_inv st" "session_pending st = rest"
    using session_arguments_received [OF _ _ _ assms(5,9)] arguments_of_inv by blast
  moreover have "session_read_command (Command hg pg) se = Some (Ret (8, cmd, ?se))"
    using assms(1) rd by (auto simp: session_read_command_def)
  ultimately show ?thesis using rd by blast
qed

definition sample_args :: "cmd_arg list" where
  "sample_args = [Scalar (V_uint32 7), Vector T_uint16 [V_uint16 1, V_uint16 2], StdString [72, 105]]"

lemma sample_args_ok: "list_all arg_ok sample_args" "list_all arg_rcv_ok sample_args"
  "runs_fit 16 0 sample_args" "length (command_image 2 5 sample_args) = 26"
  by (simp_all add: sample_args_def elems_mem_def command_image_def)

lemma sample_build:
  obtains ser' where "build_command (replicate 8 0) 2 5 \<lparr>scal_data = replicate 16 0, scal_size = 0\<rparr> [] sample_args
    = Some (ser', command_image 2 5 sample_args)"
  using build_command_eq [of "replicate 8 0" sample_args 2 5 "\<lparr>scal_data = replicate 16 0, scal_size = 0\<rparr>" "[]"]
    sample_args_ok by auto

theorem tcp_command_roundtrip_witness:
  "\<exists>cmd se' st. session_read_command (Command (replicate HEADER_SIZE 1) [])
      (Session TCP (connection_of \<lparr>rx = [RxData (command_image 2 5 sample_args @ [9])], tx = [], sent = []\<rparr>) 3)
      = Some (Ret (8, cmd, se'))
    \<and> device cmd = 2 \<and> operation cmd = 5
    \<and> parse_arguments (session_ops (\<lambda>_. 255)) (\<lambda>_ _. []) (\<lambda>_. [1, 2]) (map arg_type sample_args) (se', cmd)
        = Ret (0, sample_args, st)
    \<and> session_pending st = [9]"
proof -
  obtain ser' where b: "build_command (replicate 8 0) 2 5 \<lparr>scal_data = replicate 16 0, scal_size = 0\<rparr> [] sample_args
    = Some (ser', command_image 2 5 sample_args)" by (rule sample_build)
  show ?thesis
    using tcp_command_roundtrip [OF _ b, of "Session TCP (connection_of
        \<lparr>rx = [RxData (command_image 2 5 sample_args @ [9])], tx = [], sent = []\<rparr>) 3" "[9]" "replicate HEADER_SIZE 1" "\<lambda>_ _. []" "[]"
        "\<lambda>_. 255" "\<lambda>_. [1, 2]"] sample_args_ok
    by (auto simp: session_new old_ok_def)
qed

text \<open>C35: the same command sent as one masked WebSocket frame with any key: \<open>read_command\<close>
  finds its device and operation, the generated calls return the same arguments from the payload
  of the command, and the connection is left at the byte after the frame.\<close>

theorem ws_command_roundtrip:
  assumes "kind se = WEBSOCK" and "ws_wf (websock se)" and "\<not> connection_closed (websock se)"
    and "build_command arr dev op ser buf args = Some (ser', bytes)"
    and "length arr = 8" and "list_all arg_ok args" and "list_all arg_rcv_ok args"
    and "length bytes \<le> WEBSOCK_READ_STR_LEN - 56" and "length key = 4"
    and "unat (b0 AND 0x0F) \<in> {TEXT_FRAME, BINARY_FRAME}"
    and "length (client_frame b0 key bytes) \<noteq> KSERVER_READ_STR_LEN"
    and "rx_bytes (rx (conn se)) = client_frame b0 key bytes @ rest"
    and "length hg = HEADER_SIZE" and "length pg = CMD_PAYLOAD_BUFFER_LEN" and "old_ok old_vec"
  shows "\<exists>cmd se' st. session_read_command (Command hg pg) se = Some (Ret (8, cmd, se'))
    \<and> device cmd = unat dev \<and> operation cmd = uint op
    \<and> parse_arguments (session_ops g) old_vec old_str (map arg_type args) (se', cmd) = Ret (0, args, st)
    \<and> session_inv st \<and> rx_bytes (rx (conn se')) = rest"
proof -
  let ?img = "concat (map arg_image args)"
  have bytes: "bytes = replicate 4 0 @ be16 dev @ be16 op @ ?img"
    using build_command_bytes [OF assms(5,6,4)] by (simp add: command_image_split)
  then have split: "take HEADER_SIZE bytes = replicate 4 0 @ be16 dev @ be16 op"
    "drop HEADER_SIZE bytes = ?img" "HEADER_SIZE \<le> length bytes" by (simp_all add: HEADER_SIZE_def)
  let ?cmd = "(Command hg pg)\<lparr>header := (header (Command hg pg))\<lparr>buf_data := take HEADER_SIZE bytes\<rparr>,
    payload := (payload (Command hg pg))\<lparr>buf_data := patch pg 0 ?img\<rparr>\<rparr>"
  let ?cmd' = "?cmd\<lparr>header := (header ?cmd)\<lparr>position := 8\<rparr>, sess_id := session_id se,
    sess := Some (session_id se), device := unat dev, operation := uint op\<rparr>"
  obtain es where rcv: "receive_cmd (Command hg pg) (websock se) (conn se) = Some (Ret (int (length bytes),
      ?cmd, ws_frame b0 key bytes (websock se), (conn se)\<lparr>rx := es\<rparr>))" and es: "rx_bytes es = rest"
    by (rule receive_cmd_frame [OF assms(2,3) command_wf_new [OF assms(13,14)] assms(9,10,8) split(3)
          assms(12,11), unfolded split(2)]) (simp add: Command_def Buffer_def)
  have "decode_header (session_id se) ?cmd = Some ?cmd'"
    by (rule decode_header_bytes [of _ "replicate 4 0"]) (simp_all add: split(1) Command_def Buffer_def)
  then have rd: "session_read_command (Command hg pg) se = Some (Ret (8, ?cmd',
      se\<lparr>websock := ws_frame b0 key bytes (websock se), conn := (conn se)\<lparr>rx := es\<rparr>\<rparr>))"
    using rcv assms(1,3) split(3)
    by (simp add: session_read_command_def ws_read_command_def HEADER_SIZE_def)
  let ?se = "se\<lparr>websock := ws_frame b0 key bytes (websock se), conn := (conn se)\<lparr>rx := es\<rparr>\<rparr>"
  have len: "length ?img \<le> CMD_PAYLOAD_BUFFER_LEN" "length ?img < 2 ^ 31"
    using assms(8) bytes by (simp_all add: buffer_lengths)
  then have "session_inv (?se, ?cmd')" "session_pending (?se, ?cmd') = ?img @ drop (length ?img) pg"
    using assms(1,14) by (simp_all add: session_inv_def session_pending_def payload_wf_def
        ws_pending_def Command_def Buffer_def patch_def)
  from session_arguments_received [OF this len(2) assms(7,15)] rd es show ?thesis by (fastforce dest: arguments_of_inv)
qed

theorem ws_command_roundtrip_witness:
  "\<exists>cmd se' st. session_read_command (Command (replicate HEADER_SIZE 1) (replicate CMD_PAYLOAD_BUFFER_LEN 1))
      (Session WEBSOCK (connection_of
         \<lparr>rx = [RxData (client_frame 0x82 [1,2,3,4] (command_image 2 5 sample_args))], tx = [], sent = []\<rparr>) 3)
      = Some (Ret (8, cmd, se'))
    \<and> device cmd = 2 \<and> operation cmd = 5
    \<and> parse_arguments (session_ops (\<lambda>_. 255)) (\<lambda>_ _. []) (\<lambda>_. []) (map arg_type sample_args) (se', cmd)
        = Ret (0, sample_args, st)"
proof -
  let ?ws = "WebSocket (replicate WEBSOCK_SEND_BUF_LEN 0) 0 zero_header"
  let ?f = "client_frame 0x82 [1,2,3,4] (command_image 2 5 sample_args)"
  obtain ser' where b: "build_command (replicate 8 0) 2 5 \<lparr>scal_data = replicate 16 0, scal_size = 0\<rparr> [] sample_args
    = Some (ser', command_image 2 5 sample_args)" by (rule sample_build)
  have "ws_wf ?ws" "\<not> connection_closed ?ws" by (simp add: ws_wf_new) (simp add: WebSocket_def)
  moreover have "length ?f \<noteq> KSERVER_READ_STR_LEN" "unat (0x82 AND 0x0F :: byte) \<in> {TEXT_FRAME, BINARY_FRAME}"
    using sample_args_ok(4) by (simp_all add: client_frame_split length_frame_header KSERVER_READ_STR_LEN_def opcodes)
  ultimately show ?thesis
    using ws_command_roundtrip [OF _ _ _ b, of "Session WEBSOCK (connection_of \<lparr>rx = [RxData ?f], tx = [], sent = []\<rparr>) 3"
        "[1,2,3,4]" "0x82" "[]" "replicate HEADER_SIZE 1" "replicate CMD_PAYLOAD_BUFFER_LEN 1" "\<lambda>_ _. []"
        "\<lambda>_. 255" "\<lambda>_. []"] sample_args_ok
    by (auto simp: session_new old_ok_def buffer_lengths)
qed

lemma tcp_write_all:
  assumes "data \<noteq> []" and "length data < 2 ^ 31" and "tx s = TxAccept k # es"
    and "length data \<le> min k IO_MAX"
  shows "tcp_write data s = Ret (int (length data), s\<lparr>tx := es, sent := sent s @ data\<rparr>)"
proof -
  have "to_int (to_uint (int (length data))) = int (length data)"
    using assms(2) by (simp add: to_uint_def take_bit_int_eq_self to_int_id)
  with assms show ?thesis by (simp add: tcp_write_def Let_def)
qed

text \<open>The socket of a session takes a message: over TCP in one write, which is all the code
  makes, over a WebSocket as one frame in any number of writes.\<close>

definition takes_message :: "session \<Rightarrow> byte list \<Rightarrow> bool" where
  "takes_message se msg \<longleftrightarrow> (if kind se = WEBSOCK
     then ws_wf (websock se) \<and> \<not> connection_closed (websock se) \<and> length msg + 10 \<le> WEBSOCK_SEND_BUF_LEN
       \<and> tx_accepts (length (server_frame 0x82 msg)) (tx (conn se))
     else \<exists>k es. tx (conn se) = TxAccept k # es \<and> length msg \<le> min k IO_MAX)"

lemma takes_message_buffers [simp]:
  "takes_message (se\<lparr>dyn_serializer := ser, send_buffer := buf\<rparr>) msg = takes_message se msg"
  unfolding takes_message_def by (simp del: min_less_iff_conj min.bounded_iff)

lemma session_write_takes:
  assumes "takes_message se msg" and "msg \<noteq> []" and "length msg < 2 ^ 31" and "kind se \<noteq> NONE"
  obtains n se' where "session_write msg se = Ret (n, se')" and "0 < n"
    and "sent (conn se') = sent (conn se) @ (if kind se = WEBSOCK then server_frame 0x82 msg else msg)"
    and "status se' = status se"
proof (cases "kind se = WEBSOCK")
  case True
  with assms(1) have w: "ws_wf (websock se)" "\<not> connection_closed (websock se)"
    "length msg + 10 \<le> WEBSOCK_SEND_BUF_LEN" "tx_accepts (length (server_frame 0x82 msg)) (tx (conn se))"
    by (simp_all add: takes_message_def)
  obtain n buf es where "ws_send msg (websock se) (conn se) = Ret (n, (websock se)\<lparr>send_buf := buf\<rparr>,
      (conn se)\<lparr>tx := es, sent := sent (conn se) @ server_frame 0x82 msg\<rparr>)" "0 < n"
    by (rule ws_send_frame [OF _ w(2-4)]) (use w(1) in \<open>auto simp: ws_wf_def\<close>)
  with True that show thesis by (simp add: session_write_def)
next
  case False
  with assms obtain k es where "tx (conn se) = TxAccept k # es" "length msg \<le> min k IO_MAX"
    by (auto simp: takes_message_def)
  moreover from False assms(4) have "kind se = TCP \<or> kind se = UNIX" by (cases "kind se") simp_all
  ultimately show thesis
    using tcp_write_all [OF assms(2,3)] assms(2) that by (auto simp: session_write_def)
qed

section \<open>Sending is safe\<close>

text \<open>The buffers a session owns have the sizes of its class.\<close>

definition session_wf :: "session \<Rightarrow> bool" where
  "session_wf se \<longleftrightarrow> kind se \<noteq> NONE \<and> ws_wf (websock se)
     \<and> length (scal_data (dyn_serializer se)) = SCALAR_PACK_LEN"

text \<open>What sending leaves as it is.\<close>

definition same_session :: "session \<Rightarrow> session \<Rightarrow> bool" where
  "same_session se se' \<longleftrightarrow> kind se' = kind se \<and> comm_fd se' = comm_fd se \<and> session_id se' = session_id se
     \<and> peer se' = peer se \<and> requests_num se' = requests_num se \<and> errors_num se' = errors_num se
     \<and> start_time se' = start_time se \<and> rx (conn se') = rx (conn se)"

lemma same_session_refl [simp]: "same_session se se"
  by (simp add: same_session_def)

lemma same_session_trans: "same_session a b \<Longrightarrow> same_session b c \<Longrightarrow> same_session a c"
  by (simp add: same_session_def)

lemma send_loop_safe: "safe_res (\<lambda>(n, s'). rx s' = rx s) (send_loop k bits s)"
proof (induction k bits s rule: send_loop.induct)
  case (1 k bits s)
  show ?case
  proof (cases "bits = []")
    case False
    then show ?thesis
      using 1 by (subst send_loop.simps) (auto split: option.split)
  qed (subst send_loop.simps, simp)
qed

lemma send_request_safe:
  "safe_res (\<lambda>(n, ws', s'). rx s' = rx s \<and> (\<exists>c. ws' = ws\<lparr>connection_closed := c\<rparr>)) (send_request bits ws s)"
proof (cases "connection_closed ws")
  case True
  then show ?thesis by (simp add: send_request_def) (metis websocket.surjective websocket.update_convs(8))
next
  case False
  have "\<exists>c. ws = ws\<lparr>connection_closed := c\<rparr>" by (metis websocket.surjective websocket.update_convs(8))
  with False show ?thesis
    unfolding send_request_def
    by (auto intro!: safe_res_bind [OF send_loop_safe])
qed

lemma ws_send_safe:
  assumes "ws_wf ws"
  shows "safe_res (\<lambda>(n, ws', s'). ws_wf ws' \<and> rx s' = rx s) (ws_send data ws s)"
proof (cases "connection_closed ws \<or> length data + 10 > WEBSOCK_SEND_BUF_LEN")
  case False
  from assms have len: "length (send_buf ws) = WEBSOCK_SEND_BUF_LEN" by (simp add: ws_wf_def)
  obtain m buf where h: "set_send_header (send_buf ws) (length data) (128 + BINARY_FRAME) = Some (m, buf)"
    "length buf = WEBSOCK_SEND_BUF_LEN" "m \<le> 10"
    by (rule set_send_header_frame [of "length data" "send_buf ws" "128 + BINARY_FRAME"]) (use False len in auto)
  with False obtain buf' where p: "pokes buf m data = Some buf'" "length buf' = WEBSOCK_SEND_BUF_LEN"
    by (auto simp: pokes_def)
  have "safe_res (\<lambda>(n, ws', s'). ws_wf ws' \<and> rx s' = rx s)
      (send_request (take (m + length data) buf') (ws\<lparr>send_buf := buf'\<rparr>) s)"
    by (rule safe_res_mono [OF send_request_safe]) (use assms p(2) in \<open>auto simp: ws_wf_def\<close>)
  with False h(1) p(1) show ?thesis by (simp add: ws_send_def)
qed (use assms in \<open>auto simp: ws_send_def\<close>)

lemma tcp_write_safe: "length data < 2 ^ 31 \<Longrightarrow> safe_res (\<lambda>(n, s'). rx s' = rx s) (tcp_write data s)"
proof -
  assume "length data < 2 ^ 31"
  then have "to_int (to_uint (int (length data))) = int (length data)"
    by (simp add: to_uint_def take_bit_int_eq_self to_int_id)
  then show ?thesis
    by (auto simp: tcp_write_def Let_def intro!: safe_res_bind [where Q = "\<lambda>_. True"] safe_res_of_wait)
qed

lemma session_write_safe:
  assumes "session_wf se" and "length data < 2 ^ 31"
  shows "safe_res (\<lambda>(n, se'). session_wf se' \<and> same_session se se') (session_write data se)"
proof (cases "kind se = WEBSOCK")
  case True
  then show ?thesis
    unfolding session_write_def
    by (simp, intro safe_res_bind [OF ws_send_safe [of "websock se" "conn se" data]])
      (use assms in \<open>auto simp: session_wf_def same_session_def\<close>)
next
  case False
  then have "session_write data se = bind_res (tcp_write data (conn se)) (\<lambda>(n, c). Ret (n, se\<lparr>conn := c\<rparr>))"
    by (cases "kind se") (simp_all add: session_write_def)
  then show ?thesis
    by (simp, intro safe_res_bind [OF tcp_write_safe [OF assms(2), of "conn se"]])
      (use assms(1) in \<open>auto simp: session_wf_def same_session_def\<close>)
qed

text \<open>Arguments that a reply can carry: representable, and their scalars fit the pack.\<close>

definition reply_ok :: "cmd_arg list \<Rightarrow> bool" where
  "reply_ok args \<longleftrightarrow> list_all arg_ok args \<and> runs_fit SCALAR_PACK_LEN 0 args
     \<and> (\<forall>c f. length (command_image c f args) < 2 ^ 31)"

lemma session_send_safe:
  assumes "session_wf se" and "length arr = 8" and "reply_ok args"
  shows "safe_res (\<lambda>(n, se'). session_wf se' \<and> same_session se se') (session_send arr class_id func_id args se)"
proof -
  let ?img = "command_image class_id func_id args"
  from assms obtain ser where
    b: "build_command arr class_id func_id (dyn_serializer se) (send_buffer se) args = Some (ser, ?img)"
    using build_command_eq [of arr args class_id func_id "dyn_serializer se" "send_buffer se"]
    by (auto simp: reply_ok_def session_wf_def)
  then have len: "length (scal_data ser) = SCALAR_PACK_LEN"
    using build_command_pack [OF b] assms(1) by (simp add: session_wf_def)
  let ?se = "se\<lparr>dyn_serializer := ser, send_buffer := ?img\<rparr>"
  have wf: "session_wf ?se" "same_session se ?se"
    using assms(1) len by (simp_all add: session_wf_def same_session_def)
  have "length ?img < 2 ^ 31" using assms(3) by (simp add: reply_ok_def)
  from session_write_safe [OF wf(1) this] have
    "safe_res (\<lambda>(n, se'). session_wf se' \<and> same_session ?se se') (session_write ?img ?se)" .
  then have "safe_res (\<lambda>(n, se'). session_wf se' \<and> same_session se se')
      (bind_res (session_write ?img ?se) (\<lambda>(n, se). Ret (n, if n = 0 then se\<lparr>status := CLOSED\<rparr> else se)))"
    by (rule safe_res_bind) (use wf(2) in \<open>auto simp: session_wf_def same_session_def\<close>)
  with b assms(1) show ?thesis by (simp add: session_send_def session_wf_def)
qed

lemma session_send_image:
  assumes "kind se \<noteq> NONE" and "length arr = 8" and "list_all arg_ok args"
    and "runs_fit (length (scal_data (dyn_serializer se))) 0 args"
    and "length (command_image class_id func_id args) < 2 ^ 31"
    and "takes_message se (command_image class_id func_id args)"
  shows "\<exists>n se'. session_send arr class_id func_id args se = Ret (n, se') \<and> 0 < n
    \<and> status se' = status se \<and> sent (conn se') = sent (conn se)
      @ (if kind se = WEBSOCK then server_frame 0x82 (command_image class_id func_id args)
         else command_image class_id func_id args)"
proof -
  let ?img = "command_image class_id func_id args"
  obtain ser where b: "build_command arr class_id func_id (dyn_serializer se) (send_buffer se) args = Some (ser, ?img)"
    using build_command_eq [OF assms(2,3), of class_id func_id "dyn_serializer se" "send_buffer se"] assms(4)
    by auto
  let ?se = "se\<lparr>dyn_serializer := ser, send_buffer := ?img\<rparr>"
  have "takes_message ?se ?img" using assms(6) by simp
  moreover have "?img \<noteq> []" by (simp add: command_image_def)
  moreover have "kind ?se \<noteq> NONE" using assms(1) by simp
  ultimately obtain n se' where "session_write ?img ?se = Ret (n, se')" "0 < n"
    "sent (conn se') = sent (conn ?se) @ (if kind ?se = WEBSOCK then server_frame 0x82 ?img else ?img)"
    "status se' = status ?se"
    by (rule session_write_takes [OF _ _ assms(5)])
  with b assms(1) show ?thesis by (simp add: session_send_def Let_def)
qed

text \<open>C36: a reply that fits the scalar pack and that the socket takes goes out as the image of
  the command, header and arguments, over TCP as it is and over a WebSocket as the payload of
  one binary frame; \<open>send\<close> returns a positive number and the session stays open.\<close>

theorem session_send_delivers:
  assumes "kind se \<noteq> NONE" and "length arr = 8" and "list_all arg_ok args"
    and "runs_fit (length (scal_data (dyn_serializer se))) 0 args"
    and "length (command_image class_id func_id args) < 2 ^ 31"
    and "takes_message se (command_image class_id func_id args)"
  shows "\<exists>n se'. session_send arr class_id func_id args se = Ret (n, se') \<and> 0 < n
    \<and> status se' = status se \<and> sent (conn se') = sent (conn se)
      @ (if kind se = WEBSOCK then server_frame 0x82 (command_image class_id func_id args)
         else command_image class_id func_id args)"
  using assms by (rule session_send_image)

theorem session_send_delivers_witness:
  "\<exists>n se'. session_send (replicate 8 0) 2 5 sample_args
      (Session TCP (connection_of \<lparr>rx = [], tx = [TxAccept 100], sent = []\<rparr>) 3)
      = Ret (n, se') \<and> 0 < n \<and> sent (conn se') = command_image 2 5 sample_args"
proof -
  let ?se = "Session TCP (connection_of \<lparr>rx = [], tx = [TxAccept 100], sent = []\<rparr>) 3"
  have "kind ?se = TCP" "sent (conn ?se) = []" by (simp_all add: session_new)
  moreover have "runs_fit (length (scal_data (dyn_serializer ?se))) 0 sample_args"
    by (simp add: session_new SCALAR_PACK_LEN_def sample_args_def)
  moreover have "takes_message ?se (command_image 2 5 sample_args)"
    using sample_args_ok(4) by (simp add: takes_message_def session_new IO_MAX_def)
  ultimately show ?thesis
    using session_send_delivers [of ?se "replicate 8 0" sample_args 2 5] sample_args_ok by auto
qed

end
