(* ===== verification/Config.thy ===== *)
theory Config
  imports Prelude
begin

text \<open>The configuration of \<open>core/config.hpp\<close>.\<close>

section \<open>State\<close>

definition UNIX_SOCKET_PATH_LEN :: nat where "UNIX_SOCKET_PATH_LEN = 108"

record kserver_config =
  verbose :: bool
  tcp_nodelay :: bool
  use_syslog :: bool
  daemon :: bool
  notify_systemd :: bool
  notify_socket :: "byte list"
  tcp_port :: u32
  tcp_worker_connections :: u32
  websock_port :: u32
  websock_worker_connections :: u32
  unixsock_path :: "byte list"
  unixsock_worker_connections :: u32

text \<open>\<open>strcpy\<close> into a member array of \<open>UNIX_SOCKET_PATH_LEN\<close> bytes: the text and its terminator.\<close>

definition strcpy :: "byte list \<Rightarrow> byte list \<Rightarrow> byte list option" where
  "strcpy dest text = pokes dest 0 (text @ [0])"

definition c_string :: "byte list \<Rightarrow> byte list" where
  "c_string arr = takeWhile (\<lambda>c. c \<noteq> 0) arr"

definition path_array :: "string \<Rightarrow> byte list" where
  "path_array text = (let t = bytes_of_string text in t @ replicate (UNIX_SOCKET_PATH_LEN - length t) 0)"

definition KServerConfig :: kserver_config where
  "KServerConfig = \<lparr>verbose = False, tcp_nodelay = False, use_syslog = False, daemon = True,
     notify_systemd = False, notify_socket = path_array ''/run/systemd/notify'',
     tcp_port = 36000, tcp_worker_connections = 10, websock_port = 8080, websock_worker_connections = 10,
     unixsock_path = path_array ''/var/run/kserver.sock'', unixsock_worker_connections = 10\<rparr>"

end
