(* ===== verification/PubSub.thy ===== *)
theory PubSub
  imports Prelude "HOL-Library.Multiset"
begin

text \<open>
  The subscriptions of \<open>core/pubsub.hpp\<close>: for each broadcast channel the vector of the sessions
  that subscribed to it. A vector holds no session twice, so that it stands for a set; the
  operations are those of the sets, and the removal, which swaps with the last element, keeps
  the order only up to permutation. The broadcast itself is in the theory \<open>SysLog\<close>.
\<close>

section \<open>Channels and events\<close>

definition SERVER_CHANNEL :: nat where "SERVER_CHANNEL = 0"
definition SYSLOG_CHANNEL :: nat where "SYSLOG_CHANNEL = 1"
definition DEVICES_CHANNEL :: nat where "DEVICES_CHANNEL = 2"
definition channels_count :: nat where "channels_count = 3"

definition PUBSUB_PING_EVENT :: nat where "PUBSUB_PING_EVENT = 0"
definition PUBSUB_PING_TEXT_EVENT :: nat where "PUBSUB_PING_TEXT_EVENT = 1"

lemmas channels = SERVER_CHANNEL_def SYSLOG_CHANNEL_def DEVICES_CHANNEL_def channels_count_def

section \<open>Subscribers\<close>

type_synonym subscribers = "int list list"

definition Subscribers :: subscribers where
  "Subscribers = replicate channels_count []"

definition subscribe :: "u16 \<Rightarrow> int \<Rightarrow> subscribers \<Rightarrow> int \<times> subscribers" where
  "subscribe channel sid subs =
     (if unat channel \<ge> channels_count then (-1, subs)
      else let s = subs ! unat channel in
        (0, if sid \<in> set s then subs else subs[unat channel := s @ [sid]]))"

text \<open>\<open>std::find\<close>, the swap with \<open>back()\<close> and \<open>pop_back()\<close>.\<close>

fun find_index :: "'a \<Rightarrow> 'a list \<Rightarrow> nat option" where
  "find_index x [] = None"
| "find_index x (y # ys) = (if y = x then Some 0 else map_option Suc (find_index x ys))"

definition swap_pop :: "int \<Rightarrow> int list \<Rightarrow> int list" where
  "swap_pop sid s = (case find_index sid s of None \<Rightarrow> s
     | Some i \<Rightarrow> butlast (s[i := last s, length s - 1 := s ! i]))"

definition unsubscribe :: "int \<Rightarrow> subscribers \<Rightarrow> subscribers" where
  "unsubscribe sid subs = map (swap_pop sid) subs"

section \<open>Well-formed vectors\<close>

definition subs_wf :: "subscribers \<Rightarrow> bool" where
  "subs_wf subs \<longleftrightarrow> length subs = channels_count \<and> list_all distinct subs"

definition members :: "subscribers \<Rightarrow> nat \<Rightarrow> int set" where
  "members subs c = set (subs ! c)"

lemma find_index_iff: "find_index x xs = None \<longleftrightarrow> x \<notin> set xs"
  by (induction xs) auto

lemma find_index_Some: "find_index x xs = Some i \<Longrightarrow> i < length xs \<and> xs ! i = x"
  by (induction xs arbitrary: i) (auto split: if_splits)

lemma butlast_swap:
  assumes "i < length xs"
  shows "mset (butlast (xs[i := last xs, length xs - 1 := xs ! i])) = mset xs - {#xs ! i#}"
proof -
  let ?ys = "xs[i := last xs, length xs - 1 := xs ! i]"
  have "?ys \<noteq> []" using assms by auto
  then have "mset ?ys = mset (butlast ?ys) + {#last ?ys#}"
    by (metis append_butlast_last_id mset.simps mset_append)
  moreover have "last ?ys = xs ! i"
    using assms \<open>?ys \<noteq> []\<close> by (subst last_conv_nth) auto
  moreover have "mset ?ys = mset xs"
  proof -
    have "xs \<noteq> []" "length xs - 1 < length xs" using assms by auto
    with assms mset_swap [of "length xs - 1" xs i] show ?thesis by (simp add: last_conv_nth)
  qed
  ultimately show ?thesis by (metis add_diff_cancel_right')
qed

lemma swap_pop_mset: "mset (swap_pop x xs) = mset xs - {#x#}"
proof (cases "find_index x xs")
  case None
  moreover from None have "x \<notin># mset xs" by (simp add: find_index_iff)
  ultimately show ?thesis by (simp add: swap_pop_def diff_single_trivial)
next
  case (Some i)
  with find_index_Some [OF Some] butlast_swap [of i xs] show ?thesis by (simp add: swap_pop_def)
qed

lemma swap_pop_set: "distinct xs \<Longrightarrow> set (swap_pop x xs) = set xs - {x}"
  by (metis distinct_remove1 mset_remove1 set_remove1_eq swap_pop_mset mset_eq_setD)

lemma swap_pop_distinct: "distinct xs \<Longrightarrow> distinct (swap_pop x xs)"
  by (metis distinct_remove1 mset_remove1 swap_pop_mset mset_eq_imp_distinct_iff)

lemma subs_wf_init [inv_intros]: "subs_wf Subscribers"
  by (simp add: subs_wf_def Subscribers_def list_all_iff)

lemma subs_wf_subscribe [inv_intros]: "subs_wf s \<Longrightarrow> subs_wf (snd (subscribe c sid s))"
  by (auto simp: subs_wf_def subscribe_def Let_def list_all_iff dest!: subsetD [OF set_update_subset_insert])

lemma subs_wf_unsubscribe [inv_intros]: "subs_wf s \<Longrightarrow> subs_wf (unsubscribe sid s)"
  by (auto simp: subs_wf_def unsubscribe_def list_all_iff swap_pop_distinct)

section \<open>The contract of a set of subscribers per channel\<close>

locale channel_sets =
  fixes sub :: "u16 \<Rightarrow> int \<Rightarrow> 's \<Rightarrow> int \<times> 's" and unsub :: "int \<Rightarrow> 's \<Rightarrow> 's"
    and mem :: "'s \<Rightarrow> nat \<Rightarrow> int set" and wf :: "'s \<Rightarrow> bool" and n :: nat
  assumes sub_wf: "wf s \<Longrightarrow> wf (snd (sub c sid s))"
    and unsub_wf: "wf s \<Longrightarrow> wf (unsub sid s)"
    and sub_result: "fst (sub c sid s) = (if unat c < n then 0 else -1)"
    and sub_mem: "wf s \<Longrightarrow> d < n \<Longrightarrow> mem (snd (sub c sid s)) d = mem s d \<union> {x. x = sid \<and> d = unat c}"
    and unsub_mem: "wf s \<Longrightarrow> d < n \<Longrightarrow> mem (unsub sid s) d = mem s d - {sid}"
begin

text \<open>Every subscriber is one of the sessions \<open>live\<close>.\<close>

lemma within_sub:
  "wf s \<Longrightarrow> (\<forall>d < n. mem s d \<subseteq> live) \<Longrightarrow> sid \<in> live \<Longrightarrow> \<forall>d < n. mem (snd (sub c sid s)) d \<subseteq> live"
  by (auto simp: sub_mem)

lemma within_unsub:
  "wf s \<Longrightarrow> (\<forall>d < n. mem s d \<subseteq> live) \<Longrightarrow> \<forall>d < n. mem (unsub sid s) d \<subseteq> live - {sid}"
  by (auto simp: unsub_mem)

lemma unsub_sub: "wf s \<Longrightarrow> d < n \<Longrightarrow> mem (unsub sid (snd (sub c sid s))) d = mem (unsub sid s) d"
  by (auto simp: sub_mem unsub_mem sub_wf)

end

interpretation subs: channel_sets subscribe unsubscribe members subs_wf channels_count
proof
  show "members (snd (subscribe c sid s)) d = members s d \<union> {x. x = sid \<and> d = unat c}"
    if "subs_wf s" "d < channels_count" for c sid s d
    using that by (auto simp: subs_wf_def members_def subscribe_def Let_def nth_list_update)
  show "members (unsubscribe sid s) d = members s d - {sid}" if "subs_wf s" "d < channels_count" for sid s d
    using that by (simp add: subs_wf_def members_def unsubscribe_def list_all_length swap_pop_set)
qed (simp_all add: inv_intros, simp add: subscribe_def Let_def)

definition subs_within :: "int set \<Rightarrow> subscribers \<Rightarrow> bool" where
  "subs_within live s \<longleftrightarrow> (\<forall>d < channels_count. members s d \<subseteq> live)"

lemma subs_within_init: "subs_within live Subscribers"
  by (simp add: subs_within_def members_def Subscribers_def)

lemma subs_within_subscribe:
  "subs_wf s \<Longrightarrow> subs_within live s \<Longrightarrow> sid \<in> live \<Longrightarrow> subs_within live (snd (subscribe c sid s))"
  unfolding subs_within_def by (rule subs.within_sub)

lemma subs_within_unsubscribe:
  "subs_wf s \<Longrightarrow> subs_within live s \<Longrightarrow> subs_within (live - {sid}) (unsubscribe sid s)"
  unfolding subs_within_def by (rule subs.within_unsub)

lemma subs_within_mono: "subs_within live s \<Longrightarrow> live \<subseteq> live' \<Longrightarrow> subs_within live' s"
  by (auto simp: subs_within_def)

section \<open>Properties\<close>

text \<open>C30: the vectors of subscribers implement one set of sessions per channel. On well-formed
  vectors, where no session is listed twice, subscribing adds the session to the set of its
  channel and to no other, answers 0 for a channel that exists and -1 otherwise, unsubscribing
  removes the session from every channel, and both keep the vectors well formed.\<close>

theorem subscribers_refine_sets:
  assumes "subs_wf s"
  shows "subs_wf (snd (subscribe c sid s)) \<and> subs_wf (unsubscribe sid s)
    \<and> fst (subscribe c sid s) = (if unat c < channels_count then 0 else -1)
    \<and> (\<forall>d < channels_count. members (snd (subscribe c sid s)) d
          = (if d = unat c then insert sid (members s d) else members s d)
        \<and> members (unsubscribe sid s) d = members s d - {sid})"
  using assms by (auto simp: subs.sub_mem subs.unsub_mem subs.sub_result inv_intros)

theorem subscribers_refine_sets_witness:
  "subs_wf (snd (subscribe 1 7 [[4], [5, 7], []])) \<and> members (unsubscribe 5 [[4], [5, 7], []]) 1 = {7}"
proof -
  have "subs_wf [[4], [5, 7], []]" by (simp add: subs_wf_def channels_count_def)
  from subscribers_refine_sets [OF this, of 1 7] subscribers_refine_sets [OF this, of 1 5]
  show ?thesis by (simp add: channels_count_def members_def)
qed

end
