(* ===== verification/StdMap.thy ===== *)
theory StdMap
  imports Main
begin

text \<open>
  The ordered containers of the C++ library that the session manager uses: \<open>std::map\<close> as the
  list of its entries in increasing order of the keys, with the operations the server calls.
  The locale \<open>std_map\<close> is the contract of the container; its client lemmas count the entries.
\<close>

section \<open>The container\<close>

type_synonym ('k, 'v) std_map = "('k \<times> 'v) list"

text \<open>\<open>insert\<close> leaves an existing entry as it is; \<open>at\<close> is the library's lookup.\<close>

fun map_insert :: "'k::linorder \<Rightarrow> 'v \<Rightarrow> ('k, 'v) std_map \<Rightarrow> ('k, 'v) std_map" where
  "map_insert k v [] = [(k, v)]"
| "map_insert k v ((k', v') # m) =
     (if k < k' then (k, v) # (k', v') # m
      else if k = k' then (k', v') # m
      else (k', v') # map_insert k v m)"

text \<open>The entry of a key written through a reference to it.\<close>

definition map_assign :: "'k \<Rightarrow> 'v \<Rightarrow> ('k, 'v) std_map \<Rightarrow> ('k, 'v) std_map" where
  "map_assign k v m = map (\<lambda>(k', v'). (k', if k' = k then v else v')) m"

definition map_erase :: "'k \<Rightarrow> ('k, 'v) std_map \<Rightarrow> ('k, 'v) std_map" where
  "map_erase k m = filter (\<lambda>(k', v'). k' \<noteq> k) m"

definition map_at :: "('k, 'v) std_map \<Rightarrow> 'k \<Rightarrow> 'v option" where
  "map_at m k = map_of m k"

definition map_keys :: "('k, 'v) std_map \<Rightarrow> 'k list" where
  "map_keys m = map fst m"

definition map_sorted :: "('k::linorder, 'v) std_map \<Rightarrow> bool" where
  "map_sorted m \<longleftrightarrow> sorted (map_keys m) \<and> distinct (map_keys m)"

section \<open>The contract\<close>

locale std_map =
  fixes emp :: "'m" and ins :: "'k::linorder \<Rightarrow> 'v \<Rightarrow> 'm \<Rightarrow> 'm" and upd :: "'k \<Rightarrow> 'v \<Rightarrow> 'm \<Rightarrow> 'm"
    and del :: "'k \<Rightarrow> 'm \<Rightarrow> 'm" and at :: "'m \<Rightarrow> 'k \<Rightarrow> 'v option" and ids :: "'m \<Rightarrow> 'k list"
    and invar :: "'m \<Rightarrow> bool"
  assumes invar_emp: "invar emp" and at_emp: "at emp k = None"
    and invar_ins: "invar m \<Longrightarrow> invar (ins k v m)"
    and invar_upd: "invar m \<Longrightarrow> invar (upd k v m)"
    and invar_del: "invar m \<Longrightarrow> invar (del k m)"
    and at_ins: "invar m \<Longrightarrow> at m k = None \<Longrightarrow> at (ins k v m) k' = (if k' = k then Some v else at m k')"
    and at_upd: "at m k \<noteq> None \<Longrightarrow> at (upd k v m) k' = (if k' = k then Some v else at m k')"
    and at_del: "at (del k m) k' = (if k' = k then None else at m k')"
    and ids_at: "set (ids m) = {k. at m k \<noteq> None}"
    and ids_sorted: "invar m \<Longrightarrow> sorted (ids m) \<and> distinct (ids m)"
begin

lemma ids_emp [simp]: "ids emp = []"
proof -
  have "set (ids emp) = {}" by (simp only: ids_at at_emp) simp
  then show ?thesis by simp
qed

lemma set_ids_ins: "invar m \<Longrightarrow> k \<notin> set (ids m) \<Longrightarrow> set (ids (ins k v m)) = insert k (set (ids m))"
  by (auto simp: ids_at at_ins split: if_splits)

lemma set_ids_del: "set (ids (del k m)) = set (ids m) - {k}"
  by (auto simp: ids_at at_del split: if_splits)

lemma ids_determined:
  assumes "invar m" and "invar m'" and "set (ids m) = set (ids m')"
  shows "ids m = ids m'"
  using assms ids_sorted by (blast intro: sorted_distinct_set_unique)

lemma ids_upd: "invar m \<Longrightarrow> at m k \<noteq> None \<Longrightarrow> ids (upd k v m) = ids m"
  by (rule ids_determined) (auto simp: invar_upd ids_at at_upd split: if_splits)

lemma count_ids: "invar m \<Longrightarrow> length (ids m) = card (set (ids m))"
  using ids_sorted by (simp add: distinct_card)

lemma count_ins: "invar m \<Longrightarrow> k \<notin> set (ids m) \<Longrightarrow> length (ids (ins k v m)) = Suc (length (ids m))"
  using count_ids [of m] count_ids [OF invar_ins, of m k v] by (simp add: set_ids_ins)

lemma count_del: "invar m \<Longrightarrow> k \<in> set (ids m) \<Longrightarrow> Suc (length (ids (del k m))) = length (ids m)"
  using count_ids [of m] count_ids [OF invar_del, of m k]
  by (simp add: set_ids_del card_Diff_singleton card_gt_0_iff)
    (use card_gt_0_iff [of "set (ids m)"] in auto)

end

section \<open>The list of entries keeps the contract\<close>

lemma keys_insert: "set (map_keys (map_insert k v m)) = insert k (set (map_keys m))"
  by (induction k v m rule: map_insert.induct) (auto simp: map_keys_def)

lemma keys_assign [simp]: "map_keys (map_assign k v m) = map_keys m"
  by (auto simp: map_keys_def map_assign_def)

lemma keys_erase: "map_keys (map_erase k m) = filter (\<lambda>k'. k' \<noteq> k) (map_keys m)"
  by (induction m) (auto simp: map_keys_def map_erase_def)

lemma sorted_insert: "map_sorted m \<Longrightarrow> map_sorted (map_insert k v m)"
proof (induction k v m rule: map_insert.induct)
  case (2 k v k' v' m)
  then have m: "map_sorted m" and b: "\<forall>x \<in> set (map_keys m). k' < x"
    by (auto simp: map_sorted_def map_keys_def order_less_le)
  show ?case
  proof (cases "k' < k")
    case True
    with 2 m have "map_sorted (map_insert k v m)" by (auto simp: not_less_iff_gr_or_eq)
    with True b show ?thesis
      using keys_insert [of k v m] by (auto simp: map_sorted_def map_keys_def order_less_le)
  next
    case False
    with 2 b show ?thesis by (auto simp: map_sorted_def map_keys_def)
  qed
qed (simp add: map_sorted_def map_keys_def)

lemma at_insert: "map_at m k = None \<Longrightarrow> map_at (map_insert k v m) k' = (if k' = k then Some v else map_at m k')"
  by (induction k v m rule: map_insert.induct) (auto simp: map_at_def split: if_splits)

lemma at_assign: "map_at m k \<noteq> None \<Longrightarrow> map_at (map_assign k v m) k' = (if k' = k then Some v else map_at m k')"
proof -
  have "map_at (map_assign k v m) k' = (if k' = k then map_option (\<lambda>_. v) (map_at m k) else map_at m k')"
    by (induction m) (auto simp: map_at_def map_assign_def)
  then show "map_at m k \<noteq> None \<Longrightarrow> map_at (map_assign k v m) k' = (if k' = k then Some v else map_at m k')"
    by auto
qed

lemma at_erase: "map_at (map_erase k m) k' = (if k' = k then None else map_at m k')"
  by (induction m) (auto simp: map_at_def map_erase_def)

lemma keys_at: "set (map_keys m) = {k. map_at m k \<noteq> None}"
  by (auto simp: map_keys_def map_at_def map_of_eq_None_iff)

interpretation entries: std_map "[]" map_insert map_assign map_erase map_at map_keys map_sorted
proof
  show "map_sorted (map_erase k m)" if "map_sorted m" for k :: 'a and m :: "('a, 'b) std_map"
    using that by (simp add: map_sorted_def keys_erase sorted_wrt_filter)
  show "sorted (map_keys m) \<and> distinct (map_keys m)" if "map_sorted m" for m :: "('a, 'b) std_map"
    using that by (simp add: map_sorted_def)
  show "map_sorted (map_assign k v m)" if "map_sorted m" for k :: 'a and v :: 'b and m
    using that by (simp add: map_sorted_def)
qed (simp_all add: sorted_insert at_insert at_assign at_erase keys_at, simp_all add: map_sorted_def map_keys_def map_at_def)

lemma assign_assign [simp]: "map_assign k v (map_assign k u m) = map_assign k v m"
  by (induction m) (auto simp: map_assign_def)

lemma assign_same: "map_sorted m \<Longrightarrow> map_at m k = Some v \<Longrightarrow> map_assign k v m = m"
  unfolding map_assign_def
  by (intro map_idI) (auto simp: map_sorted_def map_keys_def map_at_def split: prod.splits dest: eq_key_imp_eq_value)

lemma map_at_mem: "map_at m k = Some v \<Longrightarrow> (k, v) \<in> set m"
  by (simp add: map_at_def map_of_SomeD)

lemma length_keys [simp]: "length (map_keys m) = length m"
  by (simp add: map_keys_def)

end
