(* ===== verification/ServerState.thy ===== *)
theory ServerState
  imports Session Config PubSub StdMap
begin

text \<open>
  The state of the server: the members of \<open>KServer\<close>, \<open>SessionManager\<close>, \<open>DeviceManager\<close>,
  \<open>DevicesContainer\<close>, \<open>ListeningChannel\<close> and \<open>PubSub\<close> in one record, the trace of what the
  server tells its environment besides the bytes on its sockets, and the formatting of numbers
  in its messages.
\<close>

section \<open>Formatting\<close>

fun digits :: "nat \<Rightarrow> byte list" where
  "digits n = (if n < 10 then [48 + word_of_nat n] else digits (n div 10) @ [48 + word_of_nat (n mod 10)])"

declare digits.simps [simp del]

text \<open>The conversions \<open>%u\<close>, \<open>%lu\<close>, \<open>%d\<close> and \<open>%li\<close>.\<close>

definition fmt_u :: "int \<Rightarrow> byte list" where
  "fmt_u k = digits (nat (to_uint k))"

definition fmt_lu :: "int \<Rightarrow> byte list" where
  "fmt_lu k = digits (nat (take_bit 64 k))"

definition fmt_d :: "int \<Rightarrow> byte list" where
  "fmt_d k = (if k < 0 then 45 # digits (nat (- k)) else digits (nat k))"

abbreviation lit :: "string \<Rightarrow> byte list" where
  "lit s \<equiv> bytes_of_string s"

abbreviation nl :: "byte list" where
  "nl \<equiv> [10]"

section \<open>The record\<close>

datatype trace_event =
    ToStderr "byte list"
  | ToStdout "byte list"
  | ToSyslog nat "byte list"
  | ShutdownFd int
  | CloseFd int
  | SockOpt int string int
  | BindPort int u16
  | BindPath int "byte list"
  | Unlink "byte list"
  | ListenFd int int
  | SendMsg int "byte list" "byte list"
  | CloseLog

text \<open>A listening channel and its statistics.\<close>

record listener =
  listen_fd :: int
  num_threads :: int
  is_ready :: bool
  opened_sessions_num :: int
  total_sessions_num :: int
  total_requests_num :: int

definition ListeningChannel :: listener where
  "ListeningChannel = \<lparr>listen_fd = -1, num_threads = -1, is_ready = False,
     opened_sessions_num = 0, total_sessions_num = 0, total_requests_num = 0\<rparr>"

text \<open>
  \<open>DevicesContainer\<close> and \<open>DeviceManager\<close>: entry \<open>d - 2\<close> of each array is the one of device \<open>d\<close>.
  \<open>devtup\<close> and \<open>device_list\<close> hold unique pointers: whether they are set.
\<close>

record dev_manager =
  cont_is_started :: "bool list"
  cont_is_starting :: "bool list"
  devtup :: "bool list"
  device_list :: "bool list"
  dm_is_started :: "bool list"

definition DeviceManager :: "nat \<Rightarrow> dev_manager" where
  "DeviceManager device_num = (let none = replicate (device_num - 2) False in
     \<lparr>cont_is_started = none, cont_is_starting = none, devtup = none, device_list = none, dm_is_started = none\<rparr>)"

text \<open>
  \<open>devices\<close> is the state of the device objects, which are not part of the server: a type
  parameter. \<open>shutdown_ret\<close> is what \<open>shutdown(2)\<close> returns for a descriptor.
\<close>

record 'w kserver =
  config :: kserver_config
  s_interrupted :: bool
  exit_comm :: bool
  exit_all :: bool
  tcp_listener :: listener
  websock_listener :: listener
  unix_listener :: listener
  dev_manager :: dev_manager
  session_pool :: "(SessID, session) std_map"
  reusable_ids :: "SessID list"
  num_sess :: u32
  subscribers :: subscribers
  server_start_time :: int
  devices :: 'w
  shutdown_ret :: "int \<Rightarrow> int"
  trace :: "trace_event list"

definition put :: "trace_event \<Rightarrow> 'w kserver \<Rightarrow> 'w kserver" where
  "put ev ks = ks\<lparr>trace := trace ks @ [ev]\<rparr>"

section \<open>Sessions of the pool\<close>

text \<open>\<open>get_session\<close>: \<open>session_pool.at(id)\<close> throws when there is no such session. What is done to
  the session is done through the reference it returns.\<close>

definition get_session :: "SessID \<Rightarrow> 'w kserver \<Rightarrow> session res" where
  "get_session sid ks = (case map_at (session_pool ks) sid of None \<Rightarrow> Throw | Some se \<Rightarrow> Ret se)"

definition put_session :: "SessID \<Rightarrow> session \<Rightarrow> 'w kserver \<Rightarrow> 'w kserver" where
  "put_session sid se ks = ks\<lparr>session_pool := map_assign sid se (session_pool ks)\<rparr>"

text \<open>\<open>get_session(sid).send<class_id, func_id>(args...)\<close>. The header array of the serialiser is
  uninitialised memory that is overwritten whole.\<close>

definition send_to :: "SessID \<Rightarrow> nat \<Rightarrow> nat \<Rightarrow> cmd_arg list \<Rightarrow> 'w kserver \<Rightarrow> (int \<times> 'w kserver) res" where
  "send_to sid class_id func_id args ks =
     bind_res (get_session sid ks) (\<lambda>se.
     bind_res (session_send (replicate 8 0) (word_of_nat class_id) (word_of_nat func_id) args se) (\<lambda>(n, se).
     Ret (n, put_session sid se ks)))"

section \<open>Sending to the sessions of the pool\<close>

definition pool_wf :: "(SessID, session) std_map \<Rightarrow> bool" where
  "pool_wf m \<longleftrightarrow> map_sorted m \<and> (\<forall>i se. map_at m i = Some se \<longrightarrow> session_wf se \<and> session_id se = i)"

text \<open>From one state to the next the server only wrote to sessions and to its logs.\<close>

definition only_sends :: "'w kserver \<Rightarrow> 'w kserver \<Rightarrow> bool" where
  "only_sends ks ks' \<longleftrightarrow> ks' = ks\<lparr>session_pool := session_pool ks', trace := trace ks'\<rparr>
     \<and> map_keys (session_pool ks') = map_keys (session_pool ks)
     \<and> (\<forall>i se se'. map_at (session_pool ks) i = Some se \<longrightarrow> map_at (session_pool ks') i = Some se'
          \<longrightarrow> same_session se se')"

lemma only_sends_refl [simp]: "only_sends ks ks"
  by (auto simp: only_sends_def)

lemma only_sends_frame:
  assumes "only_sends ks ks'"
  shows "subscribers ks' = subscribers ks" "num_sess ks' = num_sess ks" "reusable_ids ks' = reusable_ids ks"
    "config ks' = config ks" "dev_manager ks' = dev_manager ks" "exit_all ks' = exit_all ks"
    "exit_comm ks' = exit_comm ks" "s_interrupted ks' = s_interrupted ks" "devices ks' = devices ks"
    "map_keys (session_pool ks') = map_keys (session_pool ks)" "shutdown_ret ks' = shutdown_ret ks"
    "tcp_listener ks' = tcp_listener ks" "websock_listener ks' = websock_listener ks"
    "unix_listener ks' = unix_listener ks" "server_start_time ks' = server_start_time ks"
proof -
  from assms have "ks' = ks\<lparr>session_pool := session_pool ks', trace := trace ks'\<rparr>"
    and k: "map_keys (session_pool ks') = map_keys (session_pool ks)"
    by (simp_all add: only_sends_def)
  then obtain m t where "ks' = ks\<lparr>session_pool := m, trace := t\<rparr>" by blast
  then show "subscribers ks' = subscribers ks" "num_sess ks' = num_sess ks" "reusable_ids ks' = reusable_ids ks"
    "config ks' = config ks" "dev_manager ks' = dev_manager ks" "exit_all ks' = exit_all ks"
    "exit_comm ks' = exit_comm ks" "s_interrupted ks' = s_interrupted ks" "devices ks' = devices ks"
    "shutdown_ret ks' = shutdown_ret ks"
    "tcp_listener ks' = tcp_listener ks" "websock_listener ks' = websock_listener ks"
    "unix_listener ks' = unix_listener ks" "server_start_time ks' = server_start_time ks"
    by simp_all
  show "map_keys (session_pool ks') = map_keys (session_pool ks)" by (rule k)
qed

lemma keys_in_pool: "i \<in> set (map_keys m) \<longleftrightarrow> (\<exists>se. map_at m i = Some se)"
  by (auto simp: keys_at)

lemma only_sends_trans:
  assumes "only_sends a b" and "only_sends b c"
  shows "only_sends a c"
proof -
  have "b = a\<lparr>session_pool := session_pool b, trace := trace b\<rparr>"
    "c = b\<lparr>session_pool := session_pool c, trace := trace c\<rparr>"
    using assms by (simp_all add: only_sends_def)
  then have "c = a\<lparr>session_pool := session_pool c, trace := trace c\<rparr>"
    by (metis (no_types, lifting) kserver.surjective kserver.update_convs(9,16))
  moreover have "same_session se se'"
    if "map_at (session_pool a) i = Some se" "map_at (session_pool c) i = Some se'" for i se se'
  proof -
    have "i \<in> set (map_keys (session_pool b))"
      using assms(1) that(1) by (auto simp: only_sends_def keys_in_pool)
    then obtain sb where "map_at (session_pool b) i = Some sb" by (auto simp: keys_in_pool)
    with that assms show ?thesis unfolding only_sends_def by (blast intro: same_session_trans)
  qed
  ultimately show ?thesis using assms by (simp add: only_sends_def)
qed

lemma only_sends_trace [simp]: "only_sends ks (put ev ks)"
  by (auto simp: only_sends_def put_def)

lemma put_session_only_sends:
  assumes "map_at (session_pool ks) i = Some se" and "same_session se se'"
  shows "only_sends ks (put_session i se' ks)"
proof -
  have "same_session s s'" if "map_at (session_pool ks) j = Some s"
    "map_at (session_pool (put_session i se' ks)) j = Some s'" for j s s'
    using that assms by (auto simp: put_session_def at_assign split: if_splits)
  then show ?thesis by (auto simp: only_sends_def put_session_def)
qed

lemma put_session_pool_wf:
  assumes "pool_wf (session_pool ks)" and "map_at (session_pool ks) i = Some se" and "session_wf se'"
    and "session_id se' = i"
  shows "pool_wf (session_pool (put_session i se' ks))"
  using assms entries.invar_upd by (auto simp: pool_wf_def put_session_def at_assign split: if_splits)

text \<open>The states reached by sending from a state whose pool is well formed.\<close>

definition sends :: "'w kserver \<Rightarrow> 'w kserver \<Rightarrow> bool" where
  "sends ks ks' \<longleftrightarrow> only_sends ks ks' \<and> pool_wf (session_pool ks')"

lemma sends_refl: "pool_wf (session_pool ks) \<Longrightarrow> sends ks ks"
  by (simp add: sends_def)

lemma sends_trans: "sends a b \<Longrightarrow> sends b c \<Longrightarrow> sends a c"
  by (auto simp: sends_def intro: only_sends_trans)

lemma sends_put [simp]: "sends ks (put ev ks') = sends ks ks'"
proof
  have "only_sends (put ev ks') ks'" by (auto simp: only_sends_def put_def)
  then show "sends ks (put ev ks') \<Longrightarrow> sends ks ks'"
    by (auto simp: sends_def put_def intro: only_sends_trans)
  show "sends ks ks' \<Longrightarrow> sends ks (put ev ks')"
    using only_sends_trans [OF _ only_sends_trace] by (auto simp: sends_def) (simp add: put_def)
qed

lemma send_to_safe:
  assumes "pool_wf (session_pool ks)" and "i \<in> set (map_keys (session_pool ks))" and "reply_ok args"
  shows "safe_res (\<lambda>(n, ks'). sends ks ks') (send_to i c f args ks)"
proof -
  from assms(2) obtain se where se: "map_at (session_pool ks) i = Some se" by (auto simp: keys_in_pool)
  with assms(1) have wf: "session_wf se" "session_id se = i" by (auto simp: pool_wf_def)
  have "safe_res (\<lambda>(n, ks'). sends ks ks') (bind_res (session_send (replicate 8 0) (word_of_nat c) (word_of_nat f) args se)
      (\<lambda>(n, se). Ret (n, put_session i se ks)))"
    by (rule safe_res_bind [OF session_send_safe [OF wf(1) _ assms(3)]])
      (use se wf assms(1) in \<open>auto simp: sends_def same_session_def
        intro: put_session_only_sends [unfolded same_session_def] put_session_pool_wf\<close>)
  with se show ?thesis by (simp add: send_to_def get_session_def)
qed

end
