(* ===== verification/SysLog.thy ===== *)
theory SysLog
  imports ServerState
begin

text \<open>
  The log of \<open>core/syslog.hpp\<close> and the broadcast of \<open>core/pubsub.tpp\<close>: a message goes to the
  standard streams, to the system log and, as an event of the syslog channel, to the sessions
  that subscribed. A broadcast sends the same event once to each subscriber of a channel.
  A message is given as the text its format string and arguments make.
\<close>

section \<open>Broadcast\<close>

definition FMT_BUFF_LEN :: nat where "FMT_BUFF_LEN = 1024"

text \<open>The loop over the subscribers; \<open>err\<close> is the last negative result.\<close>

fun emit_loop :: "nat \<Rightarrow> nat \<Rightarrow> cmd_arg list \<Rightarrow> SessID list \<Rightarrow> int \<Rightarrow> 'w kserver \<Rightarrow> (int \<times> 'w kserver) res" where
  "emit_loop channel event args [] err ks = Ret (err, ks)"
| "emit_loop channel event args (sid # sids) err ks =
     bind_res (send_to sid channel event args ks) (\<lambda>(r, ks).
       emit_loop channel event args sids (if r < 0 then r else err) ks)"

definition emit :: "nat \<Rightarrow> nat \<Rightarrow> cmd_arg list \<Rightarrow> 'w kserver \<Rightarrow> (int \<times> 'w kserver) res" where
  "emit channel event args ks =
     (if s_interrupted ks then Ret (0, ks)
      else emit_loop channel event args (subscribers ks ! channel) 0 ks)"

text \<open>The overload for a format string: \<open>snprintf\<close> returns the length of the whole text.\<close>

definition emit_str :: "nat \<Rightarrow> nat \<Rightarrow> byte list \<Rightarrow> 'w kserver \<Rightarrow> (int \<times> 'w kserver) res" where
  "emit_str channel event text ks =
     (if s_interrupted ks then Ret (0, ks)
      else if length text \<ge> FMT_BUFF_LEN then
        Ret (-1, put (ToStderr (lit ''emit_error: Buffer fmt_buffer overflow'' @ nl)) ks)
      else if length (subscribers ks ! channel) > 0 then
        emit_loop channel event [CString (text @ [0])] (subscribers ks ! channel) 0 ks
      else Ret (0, ks))"

section \<open>Log\<close>

datatype severity = PANIC | CRITICAL | ERROR | WARNING | INFO | DEBUG

primrec severity_num :: "severity \<Rightarrow> nat" where
  "severity_num PANIC = 0"
| "severity_num CRITICAL = 1"
| "severity_num ERROR = 2"
| "severity_num WARNING = 3"
| "severity_num INFO = 4"
| "severity_num DEBUG = 5"

instantiation severity :: linorder
begin

definition less_eq_severity :: "severity \<Rightarrow> severity \<Rightarrow> bool" where
  "less_eq_severity a b \<longleftrightarrow> severity_num a \<le> severity_num b"

definition less_severity :: "severity \<Rightarrow> severity \<Rightarrow> bool" where
  "less_severity a b \<longleftrightarrow> severity_num a < severity_num b"

lemma severity_num_inj: "severity_num a = severity_num b \<Longrightarrow> a = b"
  by (cases a; cases b) simp_all

instance
  by standard (auto simp: less_eq_severity_def less_severity_def intro: severity_num_inj)

end

text \<open>\<open>log_array\<close>: the priority and the name of a severity.\<close>

primrec to_priority :: "severity \<Rightarrow> nat" where
  "to_priority PANIC = 1"
| "to_priority CRITICAL = 2"
| "to_priority ERROR = 3"
| "to_priority WARNING = 4"
| "to_priority INFO = 5"
| "to_priority DEBUG = 7"

primrec severity_msg :: "severity \<Rightarrow> string" where
  "severity_msg PANIC = ''KSERVER PANIC''"
| "severity_msg CRITICAL = ''KSERVER CRITICAL''"
| "severity_msg ERROR = ''KSERVER ERROR''"
| "severity_msg WARNING = ''KSERVER WARNING''"
| "severity_msg INFO = ''KSERVER INFO''"
| "severity_msg DEBUG = ''KSERVER DEBUG''"

definition print_msg :: "severity \<Rightarrow> byte list \<Rightarrow> 'w kserver \<Rightarrow> 'w kserver" where
  "print_msg sev text ks =
     (if sev \<le> WARNING then put (ToStderr (lit (severity_msg sev) @ lit '': '' @ text)) ks
      else if verbose (config ks) then put (ToStdout text) ks
      else ks)"

definition call_syslog :: "severity \<Rightarrow> byte list \<Rightarrow> 'w kserver \<Rightarrow> 'w kserver" where
  "call_syslog sev text ks =
     (if sev \<le> INFO \<and> use_syslog (config ks) then put (ToSyslog (to_priority sev) text) ks else ks)"

definition emit_error :: "severity \<Rightarrow> byte list \<Rightarrow> 'w kserver \<Rightarrow> (int \<times> 'w kserver) res" where
  "emit_error sev text ks =
     (if sev \<le> INFO then emit_str SYSLOG_CHANNEL (severity_num sev) text ks else Ret (0, ks))"

definition print :: "severity \<Rightarrow> byte list \<Rightarrow> 'w kserver \<Rightarrow> 'w kserver res" where
  "print sev text ks =
     bind_res (emit_error sev text (call_syslog sev text (print_msg sev text ks))) (\<lambda>(r, ks). Ret ks)"

definition syslog_close :: "'w kserver \<Rightarrow> 'w kserver res" where
  "syslog_close ks =
     (if use_syslog (config ks) then
        bind_res (print INFO (lit ''Close syslog ...'' @ nl) ks) (\<lambda>ks. Ret (put CloseLog ks))
      else Ret ks)"

section \<open>Safety\<close>

text \<open>The state of sessions and subscriptions in which a broadcast finds every session it needs.\<close>

definition comm_inv :: "'w kserver \<Rightarrow> bool" where
  "comm_inv ks \<longleftrightarrow> pool_wf (session_pool ks) \<and> subs_wf (subscribers ks)
     \<and> subs_within (set (map_keys (session_pool ks))) (subscribers ks)"

lemma comm_inv_sends: "comm_inv ks \<Longrightarrow> sends ks ks' \<Longrightarrow> comm_inv ks'"
  using only_sends_frame(1,10) [of ks ks'] by (simp add: comm_inv_def sends_def)

lemma comm_inv_subscriber:
  "comm_inv ks \<Longrightarrow> c < channels_count \<Longrightarrow> sid \<in> set (subscribers ks ! c) \<Longrightarrow> sid \<in> set (map_keys (session_pool ks))"
  by (auto simp: comm_inv_def subs_within_def members_def)

lemma reply_ok_text: "length text < FMT_BUFF_LEN \<Longrightarrow> reply_ok [CString (text @ [0])]"
proof -
  assume "length text < FMT_BUFF_LEN"
  moreover have "length (takeWhile (\<lambda>c. c \<noteq> 0) (text @ [0])) \<le> length (text @ [0])"
    by (rule length_takeWhile_le)
  ultimately show ?thesis
    by (auto simp: reply_ok_def FMT_BUFF_LEN_def command_image_def Let_def)
qed

lemma emit_loop_safe:
  assumes "pool_wf (session_pool ks)" and "set sids \<subseteq> set (map_keys (session_pool ks))" and "reply_ok args"
  shows "safe_res (\<lambda>(r, ks'). sends ks ks') (emit_loop c e args sids err ks)"
  using assms(1,2)
proof (induction sids arbitrary: err ks)
  case (Cons sid sids)
  have a: "safe_res (\<lambda>(r, ks'). sends ks ks') (send_to sid c e args ks)"
    using Cons.prems assms(3) by (intro send_to_safe) auto
  have b: "safe_res (\<lambda>(r, ks'). sends ks ks') (emit_loop c e args sids err1 ks1)" if s: "sends ks ks1" for err1 ks1
  proof -
    have "pool_wf (session_pool ks1)" "set sids \<subseteq> set (map_keys (session_pool ks1))"
      using Cons.prems(2) s only_sends_frame(10) [of ks ks1] by (auto simp: sends_def)
    from Cons.IH [OF this, of err1] show ?thesis
      by (rule safe_res_mono) (use s sends_trans in blast)
  qed
  show ?case
    unfolding emit_loop.simps by (rule safe_res_bind [OF a]) (use b in auto)
qed (simp add: sends_refl)

lemma emit_safe:
  assumes "comm_inv ks" and "c < channels_count" and "reply_ok args"
  shows "safe_res (\<lambda>(r, ks'). sends ks ks') (emit c e args ks)"
  using assms comm_inv_subscriber [OF assms(1,2)]
  by (auto simp: emit_def comm_inv_def intro!: emit_loop_safe sends_refl)

lemma emit_str_safe:
  assumes "comm_inv ks" and "c < channels_count"
  shows "safe_res (\<lambda>(r, ks'). sends ks ks') (emit_str c e text ks)"
proof -
  have "pool_wf (session_pool ks)" using assms(1) by (simp add: comm_inv_def)
  moreover have "set (subscribers ks ! c) \<subseteq> set (map_keys (session_pool ks))"
    using comm_inv_subscriber [OF assms] by blast
  ultimately show ?thesis
    by (auto simp: emit_str_def sends_refl not_le intro!: emit_loop_safe reply_ok_text)
qed

lemma comm_inv_put [simp]: "comm_inv (put ev ks) = comm_inv ks"
  by (simp add: comm_inv_def put_def)

lemma print_safe: "comm_inv ks \<Longrightarrow> safe_res (sends ks) (print sev text ks)"
proof -
  assume inv: "comm_inv ks"
  let ?ks = "call_syslog sev text (print_msg sev text ks)"
  have s: "sends ks ?ks"
    using inv by (simp add: call_syslog_def print_msg_def comm_inv_def sends_refl)
  with inv have "comm_inv ?ks" by (rule comm_inv_sends)
  then have "safe_res (\<lambda>(r, ks'). sends ?ks ks') (emit_error sev text ?ks)"
    by (auto simp: emit_error_def comm_inv_def sends_refl channels
        intro!: emit_str_safe [unfolded comm_inv_def channels])
  then show ?thesis
    unfolding print_def by (rule safe_res_bind) (use s sends_trans in auto)
qed

lemma print_inv: "comm_inv ks \<Longrightarrow> safe_res comm_inv (print sev text ks)"
  by (rule safe_res_mono [OF print_safe]) (auto intro: comm_inv_sends)

section \<open>Delivery\<close>

text \<open>The bytes a session puts on its socket for a message.\<close>

definition on_wire :: "session \<Rightarrow> byte list \<Rightarrow> byte list" where
  "on_wire se msg = (if kind se = WEBSOCK then server_frame 0x82 msg else msg)"

text \<open>What every session of the pool has sent, after the sessions \<open>to\<close> got one message.\<close>

definition delivered :: "byte list \<Rightarrow> SessID set \<Rightarrow> 'w kserver \<Rightarrow> 'w kserver \<Rightarrow> bool" where
  "delivered msg to ks ks' \<longleftrightarrow> (\<forall>i se. map_at (session_pool ks) i = Some se \<longrightarrow>
     (\<exists>se'. map_at (session_pool ks') i = Some se' \<and> kind se' = kind se
       \<and> (if i \<in> to then sent (conn se') = sent (conn se) @ on_wire se msg else se' = se)))"

lemma send_to_delivers:
  assumes "pool_wf (session_pool ks)" and "map_at (session_pool ks) i = Some se" and "reply_ok args"
    and "takes_message se (command_image (word_of_nat c) (word_of_nat e) args)"
  obtains n ks' where "send_to i c e args ks = Ret (n, ks')" and "0 < n" and "sends ks ks'"
    and "delivered (command_image (word_of_nat c) (word_of_nat e) args) {i} ks ks'"
proof -
  let ?img = "command_image (word_of_nat c) (word_of_nat e) args"
  have wf: "session_wf se" "session_id se = i" using assms(1,2) by (auto simp: pool_wf_def)
  have "\<exists>n se'. session_send (replicate 8 0) (word_of_nat c) (word_of_nat e) args se = Ret (n, se') \<and> 0 < n
      \<and> status se' = status se \<and> sent (conn se') = sent (conn se) @ (if kind se = WEBSOCK then server_frame 0x82 ?img else ?img)"
    by (rule session_send_image) (use wf assms(3,4) in \<open>auto simp: session_wf_def reply_ok_def\<close>)
  then obtain n se' where snd: "session_send (replicate 8 0) (word_of_nat c) (word_of_nat e) args se = Ret (n, se')" "0 < n"
    "sent (conn se') = sent (conn se) @ on_wire se ?img" by (auto simp: on_wire_def)
  have same: "session_wf se' \<and> same_session se se'"
    using session_send_safe [OF wf(1) _ assms(3), of "replicate 8 0" "word_of_nat c" "word_of_nat e"] snd(1) by simp
  let ?ks = "put_session i se' ks"
  have "send_to i c e args ks = Ret (n, ?ks)" using snd(1) assms(2) by (simp add: send_to_def get_session_def)
  moreover have "sends ks ?ks"
    unfolding sends_def
    using same put_session_only_sends [OF assms(2)] put_session_pool_wf [OF assms(1,2)] wf(2)
    by (simp add: same_session_def)
  moreover have "delivered ?img {i} ks ?ks"
    using assms(2) same snd(3) by (auto simp: delivered_def put_session_def at_assign same_session_def)
  ultimately show thesis using snd(2) that by blast
qed

lemma delivered_trans:
  assumes "delivered msg A a b" and "delivered msg B b c" and "A \<inter> B = {}"
  shows "delivered msg (A \<union> B) a c"
  unfolding delivered_def
proof (intro allI impI)
  fix i se assume "map_at (session_pool a) i = Some se"
  with assms(1) obtain sb where b: "map_at (session_pool b) i = Some sb" "kind sb = kind se"
    "if i \<in> A then sent (conn sb) = sent (conn se) @ on_wire se msg else sb = se"
    by (auto simp: delivered_def)
  from b(1) assms(2) obtain sc where c: "map_at (session_pool c) i = Some sc" "kind sc = kind sb"
    "if i \<in> B then sent (conn sc) = sent (conn sb) @ on_wire sb msg else sc = sb"
    by (auto simp: delivered_def)
  show "\<exists>se'. map_at (session_pool c) i = Some se' \<and> kind se' = kind se
      \<and> (if i \<in> A \<union> B then sent (conn se') = sent (conn se) @ on_wire se msg else se' = se)"
    using b c assms(3) by (intro exI [of _ sc]) (auto simp: on_wire_def split: if_splits)
qed

lemma emit_loop_delivers:
  assumes "pool_wf (session_pool ks)" and "set sids \<subseteq> set (map_keys (session_pool ks))" and "distinct sids"
    and "reply_ok args"
    and "\<And>i se. i \<in> set sids \<Longrightarrow> map_at (session_pool ks) i = Some se
      \<Longrightarrow> takes_message se (command_image (word_of_nat c) (word_of_nat e) args)"
  shows "\<exists>ks'. emit_loop c e args sids err ks = Ret (err, ks') \<and> sends ks ks'
    \<and> delivered (command_image (word_of_nat c) (word_of_nat e) args) (set sids) ks ks'"
  using assms(1,2,3,5)
proof (induction sids arbitrary: ks)
  case Nil
  then show ?case by (simp add: sends_refl delivered_def)
next
  case (Cons sid sids)
  let ?img = "command_image (word_of_nat c) (word_of_nat e) args"
  from Cons.prems(2) obtain se where se: "map_at (session_pool ks) sid = Some se" by (auto simp: keys_in_pool)
  have "takes_message se ?img" using Cons.prems(4) [OF _ se] by simp
  then obtain n ks1 where n: "send_to sid c e args ks = Ret (n, ks1)" "0 < n" "sends ks ks1" "delivered ?img {sid} ks ks1"
    by (rule send_to_delivers [OF Cons.prems(1) se assms(4)])
  have keys: "map_keys (session_pool ks1) = map_keys (session_pool ks)"
    using n(3) only_sends_frame(10) by (auto simp: sends_def)
  have "\<exists>ks'. emit_loop c e args sids err ks1 = Ret (err, ks') \<and> sends ks1 ks' \<and> delivered ?img (set sids) ks1 ks'"
  proof (rule Cons.IH)
    show "pool_wf (session_pool ks1)" using n(3) by (simp add: sends_def)
    show "set sids \<subseteq> set (map_keys (session_pool ks1))" "distinct sids" using Cons.prems keys by auto
    fix i s assume i: "i \<in> set sids" "map_at (session_pool ks1) i = Some s"
    with keys obtain s0 where s0: "map_at (session_pool ks) i = Some s0" by (metis keys_in_pool)
    have "i \<noteq> sid" using Cons.prems(3) i(1) by auto
    with n(4) s0 have "map_at (session_pool ks1) i = Some s0" by (force simp: delivered_def)
    with i(2) have "s = s0" by simp
    with Cons.prems(4) [of i s0] i(1) s0 show "takes_message s ?img" by simp
  qed
  then obtain ks2 where ks2: "emit_loop c e args sids err ks1 = Ret (err, ks2)" "sends ks1 ks2"
    "delivered ?img (set sids) ks1 ks2" by blast
  have "delivered ?img ({sid} \<union> set sids) ks ks2"
    using n(4) ks2(3) by (rule delivered_trans) (use Cons.prems(3) in auto)
  moreover have "sends ks ks2" using n(3) ks2(2) by (rule sends_trans)
  ultimately show ?case using n(1,2) ks2(1) by simp
qed

section \<open>A sample server\<close>

text \<open>Two sessions, the second subscribed to the server channel.\<close>

definition sample_server :: "unit kserver" where
  "sample_server =
     \<lparr>config = KServerConfig, s_interrupted = False, exit_comm = False, exit_all = False,
      tcp_listener = ListeningChannel, websock_listener = ListeningChannel, unix_listener = ListeningChannel,
      dev_manager = DeviceManager 3,
      session_pool = [(0, Session TCP (connection_of \<lparr>rx = [], tx = [], sent = []\<rparr>) 0),
        (1, Session TCP (connection_of \<lparr>rx = [], tx = [TxAccept 100], sent = []\<rparr>) 1)],
      reusable_ids = [2], num_sess = 2, subscribers = [[1], [], []], server_start_time = 0,
      devices = (), shutdown_ret = (\<lambda>_. 0), trace = []\<rparr>"

lemmas sample_simps = sample_server_def channels map_at_def map_keys_def

lemma session_wf_new: "sock_type \<noteq> NONE \<Longrightarrow> session_wf (Session sock_type (connection_of s) i)"
  by (auto simp: session_wf_def session_new ws_wf_new)

lemma sample_inv: "comm_inv sample_server"
proof -
  have "pool_wf (session_pool sample_server)"
    by (auto simp: pool_wf_def sample_simps map_sorted_def session_wf_new split: if_splits) (simp_all add: session_new)
  then show ?thesis
    by (auto simp: comm_inv_def sample_simps subs_wf_def subs_within_def members_def less_Suc_eq numeral_3_eq_3)
qed

section \<open>Properties\<close>

text \<open>C29: a broadcast reaches every subscriber exactly once. When the subscribers of the channel
  are live sessions without repetition and their sockets take the message, \<open>emit\<close> returns 0,
  each subscriber's socket has got one image of the event, over a WebSocket in one frame, and
  every other session is as it was.\<close>

theorem emit_delivers_once:
  assumes "comm_inv ks" and "\<not> s_interrupted ks" and "c < channels_count" and "reply_ok args"
    and "\<forall>i \<in> set (subscribers ks ! c). \<forall>se. map_at (session_pool ks) i = Some se \<longrightarrow>
      takes_message se (command_image (word_of_nat c) (word_of_nat e) args)"
  shows "\<exists>ks'. emit c e args ks = Ret (0, ks') \<and> sends ks ks' \<and>
    delivered (command_image (word_of_nat c) (word_of_nat e) args) (set (subscribers ks ! c)) ks ks'"
proof -
  have "set (subscribers ks ! c) \<subseteq> set (map_keys (session_pool ks))"
    using comm_inv_subscriber [OF assms(1,3)] by blast
  moreover have "distinct (subscribers ks ! c)"
    using assms(1,3) by (simp add: comm_inv_def subs_wf_def list_all_length)
  moreover have "pool_wf (session_pool ks)" using assms(1) by (simp add: comm_inv_def)
  ultimately have "\<exists>ks'. emit_loop c e args (subscribers ks ! c) 0 ks = Ret (0, ks') \<and> sends ks ks' \<and>
    delivered (command_image (word_of_nat c) (word_of_nat e) args) (set (subscribers ks ! c)) ks ks'"
    using assms(4,5) by (intro emit_loop_delivers) auto
  with assms(2) show ?thesis by (simp add: emit_def)
qed

theorem emit_delivers_once_witness:
  "\<exists>ks'. emit SERVER_CHANNEL 0 [Scalar (V_uint32 5)] sample_server = Ret (0, ks')
    \<and> delivered (command_image 0 0 [Scalar (V_uint32 5)]) {1} sample_server ks'"
proof -
  have "\<forall>i \<in> set (subscribers sample_server ! SERVER_CHANNEL). \<forall>se. map_at (session_pool sample_server) i = Some se \<longrightarrow>
      takes_message se (command_image (word_of_nat SERVER_CHANNEL) (word_of_nat 0) [Scalar (V_uint32 5)])"
    by (simp add: sample_simps takes_message_def session_new IO_MAX_def command_image_def)
  moreover have "reply_ok [Scalar (V_uint32 5)]"
    by (simp add: reply_ok_def SCALAR_PACK_LEN_def command_image_def)
  moreover have "\<not> s_interrupted sample_server" "set (subscribers sample_server ! SERVER_CHANNEL) = {1}"
    "SERVER_CHANNEL < channels_count" by (simp_all add: sample_simps)
  ultimately show ?thesis
    using emit_delivers_once [OF sample_inv, of SERVER_CHANNEL "[Scalar (V_uint32 5)]" 0]
    by (auto simp: channels)
qed

text \<open>Logging never harms the server. In a state in which the subscribers are live sessions,
  \<open>print\<close> of any text with any severity neither throws nor is undefined; it changes nothing
  but the sockets of sessions and the logs, and the subscribers are still live sessions.\<close>

theorem print_keeps_invariant:
  assumes "comm_inv ks"
  shows "safe_res (\<lambda>ks'. only_sends ks ks' \<and> comm_inv ks') (print sev text ks)"
  by (rule safe_res_mono [OF print_safe [OF assms]]) (auto intro: comm_inv_sends [OF assms] simp: sends_def)

theorem print_keeps_invariant_witness:
  "safe_res (\<lambda>ks'. only_sends sample_server ks' \<and> comm_inv ks') (print INFO (lit ''x'') sample_server)"
  by (rule print_keeps_invariant [OF sample_inv])

end
