(* ===== verification/SessionManager.thy ===== *)
theory SessionManager
  imports SysLog
begin

text \<open>
  The session manager of \<open>core/session_manager.hpp\<close> and \<open>.cpp\<close>: creation of sessions with
  identifiers that are reused, deletion with the closing of the socket and the end of the
  subscriptions, and the invariant that ties the pool, the free identifiers, the counter and the
  subscriptions together. The mutex makes each operation one step; the relation \<open>mgr_step\<close>
  interleaves them freely.
\<close>

section \<open>Operations\<close>

definition create_session :: "SockType \<Rightarrow> connection \<Rightarrow> 'w kserver \<Rightarrow> SessID \<times> 'w kserver" where
  "create_session sock_type c ks =
     (let (new_id, reusable) = (if reusable_ids ks = [] then (to_int (uint (num_sess ks)), [])
                                else (last (reusable_ids ks), butlast (reusable_ids ks)))
      in (new_id, ks\<lparr>reusable_ids := reusable,
           session_pool := map_insert new_id (Session sock_type c new_id) (session_pool ks),
           num_sess := num_sess ks + 1\<rparr>))"

definition is_reusable_id :: "SessID \<Rightarrow> 'w kserver \<Rightarrow> bool" where
  "is_reusable_id sid ks \<longleftrightarrow> sid \<in> set (reusable_ids ks)"

definition get_current_ids :: "'w kserver \<Rightarrow> SessID list" where
  "get_current_ids ks = map_keys (session_pool ks)"

definition is_current_id :: "SessID \<Rightarrow> 'w kserver \<Rightarrow> bool" where
  "is_current_id sid ks \<longleftrightarrow> sid \<in> set (get_current_ids ks)"

text \<open>
  The descriptor is read from the session by its kind; with the assertion compiled out a session
  of no kind would leave it uninitialised.
\<close>

definition session_fd :: "session \<Rightarrow> int res" where
  "session_fd se = (case kind se of TCP \<Rightarrow> Ret (comm_fd se) | UNIX \<Rightarrow> Ret (comm_fd se)
     | WEBSOCK \<Rightarrow> Ret (comm_fd se) | NONE \<Rightarrow> Undef)"

definition shutdown_and_close :: "SessID \<Rightarrow> int \<Rightarrow> 'w kserver \<Rightarrow> 'w kserver res" where
  "shutdown_and_close sid fd ks =
     (let ks = put (ShutdownFd fd) ks in
      bind_res (if shutdown_ret ks fd < 0
                then print WARNING (lit ''Cannot shutdown socket for session ID: '' @ fmt_u sid @ nl) ks
                else Ret ks)
        (\<lambda>ks. Ret (put (CloseFd fd) ks)))"

definition delete_session :: "SessID \<Rightarrow> 'w kserver \<Rightarrow> 'w kserver res" where
  "delete_session sid ks =
     (if \<not> is_current_id sid ks then print INFO (lit ''Not allocated session ID: '' @ fmt_u sid @ nl) ks
      else
        let ks = ks\<lparr>subscribers := unsubscribe sid (subscribers ks)\<rparr> in
        bind_res (get_session sid ks) (\<lambda>se.
        bind_res (session_fd se) (\<lambda>fd.
        bind_res (shutdown_and_close sid fd ks) (\<lambda>ks.
        Ret (ks\<lparr>session_pool := map_erase sid (session_pool ks),
                reusable_ids := reusable_ids ks @ [sid],
                num_sess := num_sess ks - 1\<rparr>)))))"

fun delete_sessions :: "SessID list \<Rightarrow> 'w kserver \<Rightarrow> 'w kserver res" where
  "delete_sessions [] ks = Ret ks"
| "delete_sessions (sid # ids) ks =
     bind_res (print INFO (lit ''Delete session '' @ fmt_u sid @ nl) ks) (\<lambda>ks.
     bind_res (delete_session sid ks) (\<lambda>ks. delete_sessions ids ks))"

definition delete_all :: "'w kserver \<Rightarrow> 'w kserver res" where
  "delete_all ks =
     bind_res (print INFO (lit ''Closing all active sessions ...'' @ nl) ks) (\<lambda>ks.
       if session_pool ks \<noteq> [] then delete_sessions (get_current_ids ks) ks else Ret ks)"

section \<open>Invariant\<close>

text \<open>
  The identifiers of the live sessions and the free ones are, without repetition, the numbers
  below their count, and the counter is the number of sessions.
\<close>

definition mgr_inv :: "'w kserver \<Rightarrow> bool" where
  "mgr_inv ks \<longleftrightarrow> comm_inv ks
     \<and> num_sess ks = word_of_nat (length (session_pool ks))
     \<and> distinct (get_current_ids ks @ reusable_ids ks)
     \<and> set (get_current_ids ks @ reusable_ids ks) = {0 ..< int (length (session_pool ks) + length (reusable_ids ks))}"

text \<open>The object memory a connection brings has the sizes of the class.\<close>

definition connection_ok :: "connection \<Rightarrow> bool" where
  "connection_ok c \<longleftrightarrow> length (send_buf (ws_memory c)) = WEBSOCK_SEND_BUF_LEN \<and> length (scal_memory c) = SCALAR_PACK_LEN"

lemma Session_wf: "sock_type \<noteq> NONE \<Longrightarrow> connection_ok c \<Longrightarrow> session_wf (Session sock_type c i)"
  by (simp add: session_wf_def Session_def session_kind_def connection_ok_def ws_wf_new)

lemma mgr_inv_sends: "mgr_inv ks \<Longrightarrow> sends ks ks' \<Longrightarrow> mgr_inv ks'"
proof -
  assume inv: "mgr_inv ks" and s: "sends ks ks'"
  note f = only_sends_frame [of ks ks']
  from s have "map_keys (session_pool ks') = map_keys (session_pool ks)" using f(10) by (simp add: sends_def)
  moreover from this have "length (session_pool ks') = length (session_pool ks)" by (metis length_keys)
  ultimately show ?thesis
    using inv s f(2,3) comm_inv_sends [OF _ s] by (auto simp: mgr_inv_def get_current_ids_def sends_def)
qed

lemma print_mgr_inv: "mgr_inv ks \<Longrightarrow> safe_res mgr_inv (print sev text ks)"
  by (rule safe_res_mono [OF print_safe], simp add: mgr_inv_def) (rule mgr_inv_sends)

lemma num_sess_count:
  assumes "mgr_inv ks" and "length (session_pool ks) < 2 ^ 31"
  shows "to_int (uint (num_sess ks)) = int (length (session_pool ks))"
  using assms by (simp add: mgr_inv_def uint_nat unat_of_nat take_bit_nat_eq_self to_int_id)

text \<open>The identifier of the next session: free, and not above the number of those in use.\<close>

lemma create_session_id:
  assumes "mgr_inv ks" and "length (session_pool ks) < 2 ^ 31"
  shows "fst (create_session t c ks) \<notin> set (get_current_ids ks)"
    and "fst (create_session t c ks) \<in> {0 .. int (length (session_pool ks) + length (reusable_ids ks))}"
proof -
  let ?n = "length (session_pool ks)"
  have all: "set (get_current_ids ks) \<union> set (reusable_ids ks) = {0 ..< int (?n + length (reusable_ids ks))}"
    and dj: "set (get_current_ids ks) \<inter> set (reusable_ids ks) = {}"
    using assms(1) by (auto simp: mgr_inv_def)
  have new: "fst (create_session t c ks) = (if reusable_ids ks = [] then int ?n else last (reusable_ids ks))"
    using num_sess_count [OF assms] by (simp add: create_session_def Let_def)
  show "fst (create_session t c ks) \<notin> set (get_current_ids ks)"
    using all dj new last_in_set [of "reusable_ids ks"] by (auto split: if_splits)
  show "fst (create_session t c ks) \<in> {0 .. int (?n + length (reusable_ids ks))}"
  proof (cases "reusable_ids ks = []")
    case False
    then have "last (reusable_ids ks) \<in> {0 ..< int (?n + length (reusable_ids ks))}" using all by auto
    with False new show ?thesis by simp
  qed (simp add: new)
qed

lemma create_session_state:
  assumes "mgr_inv ks" and "length (session_pool ks) < 2 ^ 31" and "create_session t c ks = (i, ks')"
  shows "session_pool ks' = map_insert i (Session t c i) (session_pool ks)"
    and "reusable_ids ks' = butlast (reusable_ids ks)" and "num_sess ks' = num_sess ks + 1"
    and "subscribers ks' = subscribers ks" and "i \<notin> set (map_keys (session_pool ks))"
  using assms(3) create_session_id(1) [OF assms(1,2), of t c]
  by (auto simp: create_session_def Let_def get_current_ids_def split: if_splits)

lemma create_session_inv:
  assumes "mgr_inv ks" and "length (session_pool ks) < 2 ^ 31" and "t \<noteq> NONE" and "connection_ok c"
  shows "mgr_inv (snd (create_session t c ks))"
proof -
  obtain i ks' where cs: "create_session t c ks = (i, ks')" by force
  note st = create_session_state [OF assms(1,2) cs]
  have inv: "pool_wf (session_pool ks)" "map_sorted (session_pool ks)"
    using assms(1) by (simp_all add: mgr_inv_def comm_inv_def pool_wf_def)
  have none: "map_at (session_pool ks) i = None" using st(5) by (simp add: keys_at)
  have keys: "set (map_keys (session_pool ks')) = insert i (set (map_keys (session_pool ks)))"
    and len: "length (session_pool ks') = Suc (length (session_pool ks))"
    using entries.set_ids_ins [OF inv(2) st(5)] entries.count_ins [OF inv(2) st(5)] st(1) by simp_all
  have "pool_wf (session_pool ks')"
    using inv none Session_wf [OF assms(3,4)] st(1)
    by (auto simp: pool_wf_def sorted_insert at_insert Session_def split: if_splits)
  then have "comm_inv ks'"
    using assms(1) keys st(4) by (auto simp: mgr_inv_def comm_inv_def intro: subs_within_mono)
  moreover have "distinct (map_keys (session_pool ks'))"
    using \<open>pool_wf (session_pool ks')\<close> by (simp add: pool_wf_def map_sorted_def)
  moreover have "set (map_keys (session_pool ks')) \<inter> set (reusable_ids ks') = {} \<and>
      set (map_keys (session_pool ks')) \<union> set (reusable_ids ks')
        = {0 ..< int (length (session_pool ks') + length (reusable_ids ks'))} \<and> distinct (reusable_ids ks')"
  proof (cases "reusable_ids ks = []")
    case True
    then have "i = int (length (session_pool ks))"
      using cs num_sess_count [OF assms(1,2)] by (simp add: create_session_def Let_def)
    with True assms(1) st(2) keys len show ?thesis
      by (auto simp: mgr_inv_def get_current_ids_def)
  next
    case False
    then have r: "reusable_ids ks = reusable_ids ks' @ [i]"
      using cs by (auto simp: create_session_def Let_def)
    then have "i \<notin> set (reusable_ids ks')" "distinct (reusable_ids ks')"
      using assms(1) by (auto simp: mgr_inv_def)
    with r assms(1) keys len show ?thesis by (auto simp: mgr_inv_def get_current_ids_def)
  qed
  moreover have "num_sess ks' = word_of_nat (length (session_pool ks'))"
    using assms(1) st(3) len by (simp add: mgr_inv_def)
  ultimately show ?thesis by (simp add: cs mgr_inv_def get_current_ids_def)
qed

text \<open>The state just before the session leaves the pool: all that was done is sending, on the
  state in which the session has no subscription.\<close>

lemma shutdown_and_close_safe:
  assumes "comm_inv ks"
  shows "safe_res (sends ks) (shutdown_and_close sid fd ks)"
proof -
  have "sends ks (put ev ks)" for ev using assms by (simp add: comm_inv_def sends_refl)
  moreover have "safe_res (sends ks) (print WARNING t (put (ShutdownFd fd) ks))" for t
  proof (rule safe_res_mono [OF print_safe])
    show "comm_inv (put (ShutdownFd fd) ks)" using assms by simp
    show "sends ks x" if "sends (put (ShutdownFd fd) ks) x" for x
      using that \<open>\<And>ev. sends ks (put ev ks)\<close> sends_trans by blast
  qed
  ultimately show ?thesis
    unfolding shutdown_and_close_def Let_def
    by (intro safe_res_bind [where Q = "sends ks"]) auto
qed

lemma unsubscribe_comm_inv:
  assumes "comm_inv ks"
  shows "comm_inv (ks\<lparr>subscribers := unsubscribe sid (subscribers ks)\<rparr>)"
  using assms by (auto simp: comm_inv_def inv_intros intro: subs_within_mono [OF subs_within_unsubscribe])

lemma delete_session_live:
  assumes "mgr_inv ks" and "map_at (session_pool ks) sid = Some se"
  shows "safe_res (\<lambda>ks'. \<exists>ks1. sends (ks\<lparr>subscribers := unsubscribe sid (subscribers ks)\<rparr>) ks1
      \<and> shutdown_and_close sid (comm_fd se) (ks\<lparr>subscribers := unsubscribe sid (subscribers ks)\<rparr>) = Ret ks1
      \<and> ks' = ks1\<lparr>session_pool := map_erase sid (session_pool ks1),
                 reusable_ids := reusable_ids ks1 @ [sid], num_sess := num_sess ks1 - 1\<rparr>)
    (delete_session sid ks)"
proof -
  let ?ks = "ks\<lparr>subscribers := unsubscribe sid (subscribers ks)\<rparr>"
  have "is_current_id sid ks" using assms(2) by (simp add: is_current_id_def get_current_ids_def keys_at)
  moreover have "session_fd se = Ret (comm_fd se)"
    using assms by (cases "kind se") (auto simp: session_fd_def mgr_inv_def comm_inv_def pool_wf_def session_wf_def)
  moreover have "safe_res (sends ?ks) (shutdown_and_close sid (comm_fd se) ?ks)"
    using assms(1) by (intro shutdown_and_close_safe unsubscribe_comm_inv) (simp add: mgr_inv_def)
  ultimately show ?thesis
    using assms(2)
    by (cases "shutdown_and_close sid (comm_fd se) ?ks") (auto simp: delete_session_def get_session_def)
qed

lemma erase_inv:
  assumes "mgr_inv ks" and "sid \<in> set (map_keys (session_pool ks))"
    and "sends (ks\<lparr>subscribers := unsubscribe sid (subscribers ks)\<rparr>) ks1"
    and ks': "ks' = ks1\<lparr>session_pool := map_erase sid (session_pool ks1),
      reusable_ids := reusable_ids ks1 @ [sid], num_sess := num_sess ks1 - 1\<rparr>"
  shows "mgr_inv ks'" and "map_keys (session_pool ks') = filter (\<lambda>i. i \<noteq> sid) (map_keys (session_pool ks))"
    and "reusable_ids ks' = reusable_ids ks @ [sid]"
    and "subscribers ks' = unsubscribe sid (subscribers ks)"
proof -
  note f = only_sends_frame [OF assms(3) [unfolded sends_def, THEN conjunct1], simplified]
  have wf: "pool_wf (session_pool ks1)" using assms(3) by (simp add: sends_def)
  have keys: "map_keys (session_pool ks') = filter (\<lambda>i. i \<noteq> sid) (map_keys (session_pool ks))"
    using ks' f(10) by (simp add: keys_erase)
  have "sid \<in> set (map_keys (session_pool ks1))" using assms(2) f(10) by simp
  moreover have sorted: "map_sorted (session_pool ks1)" using wf by (simp add: pool_wf_def)
  ultimately have len: "Suc (length (session_pool ks')) = length (session_pool ks)"
    using entries.count_del [of "session_pool ks1" sid] ks' f(10) by (metis kserver.select_convs(9) kserver.surjective kserver.update_convs(9,10,11) length_keys)
  have "pool_wf (session_pool ks')"
    using wf ks' entries.invar_del [OF sorted] by (auto simp: pool_wf_def at_erase split: if_splits)
  moreover have "subs_within (set (map_keys (session_pool ks'))) (subscribers ks')"
    using assms(1) ks' f(1) keys subs_within_unsubscribe [of "subscribers ks" "set (map_keys (session_pool ks))" sid]
    by (auto simp: mgr_inv_def comm_inv_def intro: subs_within_mono)
  moreover have "subs_wf (subscribers ks')"
    using assms(1) ks' f(1) by (simp add: mgr_inv_def comm_inv_def inv_intros)
  ultimately have "comm_inv ks'" by (simp add: comm_inv_def)
  moreover have "num_sess ks' = word_of_nat (length (session_pool ks'))"
    using assms(1) ks' f(2) len by (simp add: mgr_inv_def flip: len)
  moreover have "distinct (map_keys (session_pool ks') @ reusable_ids ks')"
    using assms(1,2) ks' f(3) keys by (auto simp: mgr_inv_def get_current_ids_def)
  moreover have "set (map_keys (session_pool ks') @ reusable_ids ks') = set (get_current_ids ks @ reusable_ids ks)"
    using assms(2) ks' f(3) keys by (auto simp: get_current_ids_def)
  moreover have "length (session_pool ks') + length (reusable_ids ks') = length (session_pool ks) + length (reusable_ids ks)"
    using ks' f(3) len by simp
  ultimately show "mgr_inv ks'" using assms(1) by (simp add: mgr_inv_def get_current_ids_def)
  show "reusable_ids ks' = reusable_ids ks @ [sid]" "subscribers ks' = unsubscribe sid (subscribers ks)"
    using ks' f by simp_all
qed (use ks' only_sends_frame(10) [OF assms(3) [unfolded sends_def, THEN conjunct1]] in \<open>simp add: keys_erase\<close>)

lemma delete_session_inv:
  assumes "mgr_inv ks"
  shows "safe_res (\<lambda>ks'. mgr_inv ks' \<and> map_keys (session_pool ks') = filter (\<lambda>i. i \<noteq> sid) (map_keys (session_pool ks)))
    (delete_session sid ks)"
proof (cases "map_at (session_pool ks) sid")
  case None
  then have n: "sid \<notin> set (map_keys (session_pool ks))" by (simp add: keys_at)
  then have "filter (\<lambda>i. i \<noteq> sid) (map_keys (session_pool ks)) = map_keys (session_pool ks)"
    by (intro filter_True) auto
  moreover have "comm_inv ks" using assms by (simp add: mgr_inv_def)
  ultimately show ?thesis
    using n assms
    by (simp add: delete_session_def is_current_id_def get_current_ids_def)
      (rule safe_res_mono [OF print_safe], assumption, use mgr_inv_sends only_sends_frame(10) sends_def in blast)
next
  case (Some se)
  then have "sid \<in> set (map_keys (session_pool ks))" by (simp add: keys_at)
  with assms Some show ?thesis
    by (intro safe_res_mono [OF delete_session_live]) (auto intro: erase_inv)
qed

lemma delete_sessions_inv:
  assumes "mgr_inv ks"
  shows "safe_res (\<lambda>ks'. mgr_inv ks' \<and> map_keys (session_pool ks') = filter (\<lambda>i. i \<notin> set ids) (map_keys (session_pool ks)))
    (delete_sessions ids ks)"
  using assms
proof (induction ids arbitrary: ks)
  case (Cons sid ids)
  have p: "safe_res (\<lambda>k. mgr_inv k \<and> map_keys (session_pool k) = map_keys (session_pool ks))
      (print INFO t ks)" for t
  proof (rule safe_res_mono [OF print_safe])
    show "comm_inv ks" using Cons.prems by (simp add: mgr_inv_def)
    show "mgr_inv k \<and> map_keys (session_pool k) = map_keys (session_pool ks)" if "sends ks k" for k
      using that mgr_inv_sends [OF Cons.prems that] only_sends_frame(10) [of ks k] by (simp add: sends_def)
  qed
  show ?case
    unfolding delete_sessions.simps
  proof (rule safe_res_bind [OF p], elim conjE)
    fix k :: "'a kserver" assume k: "mgr_inv k" "map_keys (session_pool k) = map_keys (session_pool ks)"
    show "safe_res (\<lambda>ks'. mgr_inv ks' \<and> map_keys (session_pool ks') = filter (\<lambda>i. i \<notin> set (sid # ids)) (map_keys (session_pool ks)))
        (bind_res (delete_session sid k) (\<lambda>ks. delete_sessions ids ks))"
    proof (rule safe_res_bind [OF delete_session_inv [OF k(1)]], elim conjE)
      fix k' :: "'a kserver"
      assume k': "mgr_inv k'" "map_keys (session_pool k') = filter (\<lambda>i. i \<noteq> sid) (map_keys (session_pool k))"
      have "filter (\<lambda>i. i \<notin> set ids) (filter (\<lambda>i. i \<noteq> sid) l) = filter (\<lambda>i. i \<notin> set (sid # ids)) l" for l
        by (auto intro: filter_cong)
      then show "safe_res (\<lambda>ks'. mgr_inv ks' \<and> map_keys (session_pool ks') = filter (\<lambda>i. i \<notin> set (sid # ids)) (map_keys (session_pool ks)))
          (delete_sessions ids k')"
        using Cons.IH [OF k'(1)] k(2) k'(2) by simp
    qed
  qed
qed simp

lemma empty_pool:
  assumes "mgr_inv ks" and "session_pool ks = []"
  shows "num_sess ks = 0" and "\<forall>c < channels_count. subscribers ks ! c = []"
  using assms by (auto simp: mgr_inv_def comm_inv_def subs_within_def members_def map_keys_def)

lemma delete_all_inv:
  assumes "mgr_inv ks"
  shows "safe_res (\<lambda>ks'. mgr_inv ks' \<and> session_pool ks' = []) (delete_all ks)"
  unfolding delete_all_def
proof (rule safe_res_bind [OF print_mgr_inv [OF assms]])
  fix k :: "'a kserver" assume k: "mgr_inv k"
  have "safe_res (\<lambda>ks'. mgr_inv ks' \<and> session_pool ks' = []) (delete_sessions (get_current_ids k) k)"
    by (rule safe_res_mono [OF delete_sessions_inv [OF k]])
      (auto simp: get_current_ids_def map_keys_def filter_empty_conv)
  with k show "safe_res (\<lambda>ks'. mgr_inv ks' \<and> session_pool ks' = [])
      (if session_pool k \<noteq> [] then delete_sessions (get_current_ids k) k else Ret k)" by simp
qed

section \<open>Interleavings\<close>

text \<open>
  The steps that session threads, the listeners and the main thread take on the shared state, in
  any order: a listener's thread opens a session, a session ends, a live session subscribes,
  someone broadcasts or logs, the main thread closes everything.
\<close>

inductive mgr_step :: "'w kserver \<Rightarrow> 'w kserver \<Rightarrow> bool" where
  create: "sock_type \<noteq> NONE \<Longrightarrow> connection_ok c \<Longrightarrow> length (session_pool ks) < 2 ^ 31
    \<Longrightarrow> create_session sock_type c ks = (i, ks') \<Longrightarrow> mgr_step ks ks'"
| delete: "delete_session sid ks = Ret ks' \<Longrightarrow> mgr_step ks ks'"
| subscribe: "is_current_id sid ks
    \<Longrightarrow> mgr_step ks (ks\<lparr>subscribers := snd (subscribe channel sid (subscribers ks))\<rparr>)"
| emit: "channel < channels_count \<Longrightarrow> reply_ok args \<Longrightarrow> emit channel event args ks = Ret (r, ks') \<Longrightarrow> mgr_step ks ks'"
| log: "print sev text ks = Ret ks' \<Longrightarrow> mgr_step ks ks'"
| close_all: "delete_all ks = Ret ks' \<Longrightarrow> mgr_step ks ks'"

inductive_cases mgr_stepE: "mgr_step ks ks'"

text \<open>The members as the constructors leave them.\<close>

definition mgr_init :: "'w kserver \<Rightarrow> bool" where
  "mgr_init ks \<longleftrightarrow> session_pool ks = [] \<and> reusable_ids ks = [] \<and> num_sess ks = 0 \<and> subscribers ks = Subscribers"

inductive mgr_reachable :: "'w kserver \<Rightarrow> bool" where
  init: "mgr_init ks \<Longrightarrow> mgr_reachable ks"
| step: "mgr_reachable ks \<Longrightarrow> mgr_step ks ks' \<Longrightarrow> mgr_reachable ks'"

lemma mgr_init_inv: "mgr_init ks \<Longrightarrow> mgr_inv ks"
  by (simp add: mgr_init_def mgr_inv_def comm_inv_def pool_wf_def map_sorted_def map_keys_def map_at_def
      get_current_ids_def inv_intros subs_within_init)

lemma subscribe_inv:
  "mgr_inv ks \<Longrightarrow> is_current_id sid ks \<Longrightarrow> mgr_inv (ks\<lparr>subscribers := snd (subscribe c sid (subscribers ks))\<rparr>)"
  by (auto simp: mgr_inv_def comm_inv_def get_current_ids_def is_current_id_def inv_intros
      intro!: subs_within_subscribe)

lemma mgr_step_inv: "mgr_step ks ks' \<Longrightarrow> mgr_inv ks \<Longrightarrow> mgr_inv ks'"
proof (induction rule: mgr_step.induct)
  case (create sock_type c ks i ks')
  then show ?case using create_session_inv [of ks sock_type c] by simp
next
  case (delete sid ks ks')
  then show ?case using delete_session_inv [of ks sid] by simp
next
  case (subscribe sid ks channel)
  then show ?case by (intro subscribe_inv)
next
  case (emit channel args event ks r ks')
  then show ?case using emit_safe [of ks channel args event] mgr_inv_sends [of ks ks'] by (simp add: mgr_inv_def)
next
  case (log sev msg ks ks')
  then show ?case using print_mgr_inv [of ks sev msg] by simp
next
  case (close_all ks ks')
  then show ?case using delete_all_inv [of ks] by simp
qed

lemma mgr_reachable_inv: "mgr_reachable ks \<Longrightarrow> mgr_inv ks"
  by (induction rule: mgr_reachable.induct) (auto intro: mgr_init_inv mgr_step_inv)

section \<open>Properties\<close>

text \<open>C11: in every state the server can reach, by any interleaving of sessions opened and closed,
  subscriptions, broadcasts, log messages and the closing of all sessions, the counter is the
  number of sessions in the pool, the identifiers of the pool and the reusable ones are the
  numbers from 0 to their count without repetition, every subscriber is a live session listed
  once per channel, and every session is registered under its own identifier.\<close>

theorem mgr_reachable_invariant:
  assumes "mgr_reachable ks"
  shows "num_sess ks = word_of_nat (length (session_pool ks))
    \<and> distinct (get_current_ids ks @ reusable_ids ks)
    \<and> set (get_current_ids ks @ reusable_ids ks) = {0 ..< int (length (session_pool ks) + length (reusable_ids ks))}
    \<and> (\<forall>c < channels_count. distinct (subscribers ks ! c) \<and> set (subscribers ks ! c) \<subseteq> set (get_current_ids ks))
    \<and> (\<forall>i se. map_at (session_pool ks) i = Some se \<longrightarrow> session_id se = i)"
proof -
  have inv: "mgr_inv ks" using assms by (rule mgr_reachable_inv)
  then have "\<forall>c < channels_count. distinct (subscribers ks ! c) \<and> set (subscribers ks ! c) \<subseteq> set (get_current_ids ks)"
    by (auto simp: mgr_inv_def comm_inv_def subs_wf_def list_all_length subs_within_def members_def get_current_ids_def)
  moreover from inv have "\<forall>i se. map_at (session_pool ks) i = Some se \<longrightarrow> session_id se = i"
    by (simp add: mgr_inv_def comm_inv_def pool_wf_def)
  ultimately show ?thesis using inv by (simp add: mgr_inv_def)
qed

definition empty_server :: "unit kserver" where
  "empty_server = sample_server\<lparr>session_pool := [], reusable_ids := [], num_sess := 0, subscribers := Subscribers\<rparr>"

definition one_session :: "unit kserver" where
  "one_session = snd (create_session WEBSOCK (connection_of \<lparr>rx = [], tx = [], sent = []\<rparr>) empty_server)"

lemma empty_reachable: "mgr_reachable empty_server"
  by (rule mgr_reachable.init) (simp add: mgr_init_def empty_server_def)

lemma connection_of_ok: "connection_ok (connection_of s)"
  by (simp add: connection_ok_def connection_of_def WebSocket_def)

lemma one_session_reachable: "mgr_reachable one_session"
proof (rule mgr_reachable.step [OF empty_reachable])
  show "mgr_step empty_server one_session"
    by (rule mgr_step.create [of WEBSOCK "connection_of \<lparr>rx = [], tx = [], sent = []\<rparr>" _ 0])
      (simp_all add: connection_of_ok one_session_def empty_server_def create_session_def to_int_def)
qed

theorem mgr_reachable_invariant_witness:
  "mgr_reachable one_session \<and> num_sess one_session = word_of_nat (length (session_pool one_session))
    \<and> get_current_ids one_session = [0]"
  using mgr_reachable_invariant [OF one_session_reachable] one_session_reachable
  by (simp add: one_session_def empty_server_def create_session_def to_int_def get_current_ids_def map_keys_def)

text \<open>A new session never gets the identifier of a live one. In every reachable state with
  fewer than \<open>2 ^ 31\<close> sessions, \<open>create_session\<close> returns an identifier that no live session has
  and that is not above the number of identifiers given out so far; afterwards \<open>get_session\<close>
  finds the new session there and every other session where it was.\<close>

theorem create_session_fresh:
  assumes "mgr_reachable ks" and "length (session_pool ks) < 2 ^ 31" and "create_session t c ks = (i, ks')"
  shows "i \<notin> set (get_current_ids ks) \<and> 0 \<le> i \<and> i \<le> int (length (session_pool ks) + length (reusable_ids ks))
    \<and> get_session i ks' = Ret (Session t c i) \<and> (\<forall>j. j \<noteq> i \<longrightarrow> get_session j ks' = get_session j ks)"
proof -
  have inv: "mgr_inv ks" using assms(1) by (rule mgr_reachable_inv)
  note st = create_session_state [OF inv assms(2,3)]
  have "map_at (session_pool ks) i = None" using st(5) by (simp add: keys_at)
  then have "map_at (session_pool ks') j = (if j = i then Some (Session t c i) else map_at (session_pool ks) j)" for j
    using st(1) by (simp add: at_insert)
  then show ?thesis
    using create_session_id [OF inv assms(2), of t c] assms(3) by (simp add: get_session_def)
qed

theorem create_session_fresh_witness:
  "fst (create_session TCP (connection_of \<lparr>rx = [], tx = [], sent = []\<rparr>) one_session) \<notin> set (get_current_ids one_session)"
  using create_session_fresh [OF one_session_reachable, of TCP "connection_of \<lparr>rx = [], tx = [], sent = []\<rparr>"]
  by (auto simp: one_session_def empty_server_def create_session_def Let_def)



text \<open>Closing all sessions leaves nothing behind. From every reachable state \<open>delete_all\<close> is
  safe, and when it returns the pool is empty, the counter is 0, as the assertion at its end
  says, and no channel has a subscriber.\<close>

theorem delete_all_empties:
  assumes "mgr_reachable ks"
  shows "safe_res (\<lambda>ks'. session_pool ks' = [] \<and> num_sess ks' = 0 \<and> (\<forall>c < channels_count. subscribers ks' ! c = []))
    (delete_all ks)"
  by (rule safe_res_mono [OF delete_all_inv [OF mgr_reachable_inv [OF assms]]]) (use empty_pool in auto)

theorem delete_all_empties_witness:
  "safe_res (\<lambda>ks'. session_pool ks' = [] \<and> num_sess ks' = 0) (delete_all one_session)"
  by (rule safe_res_mono [OF delete_all_empties [OF one_session_reachable]]) simp

end
