(* ===== verification/KServerCommands.thy ===== *)
theory KServerCommands
  imports SessionManager
begin

text \<open>
  The commands of the server device, \<open>core/kserver_commands.cpp\<close>: version, description of the
  devices, statistics, running sessions, subscription and the test broadcast, with the dispatch
  of \<open>KServer::execute\<close>. What the build brings from outside the sources, the version text, the
  description generated for the devices and the code of the devices themselves, is the record
  \<open>external\<close>, an argument of the definitions that use it.
\<close>

section \<open>What comes from outside\<close>

text \<open>
  \<open>uninit_mem\<close> is the content of uninitialised buffers, \<open>now\<close> what \<open>std::time\<close> returns. A device
  \<open>d\<close> is built by a constructor that asks the context for the devices \<open>deps d\<close> in this order,
  then does \<open>build d\<close> to the state of the devices; \<open>dev_execute d\<close> is its generated \<open>execute\<close>.
\<close>

record 'w external =
  version :: "byte list"
  devices_json :: "byte list"
  now :: int
  uninit_mem :: "nat \<Rightarrow> byte"
  device_num :: nat
  dev_name :: "nat \<Rightarrow> byte list"
  deps :: "nat \<Rightarrow> nat list"
  build :: "nat \<Rightarrow> 'w \<Rightarrow> 'w"
  dev_execute :: "nat \<Rightarrow> command \<Rightarrow> 'w kserver \<Rightarrow> (int \<times> 'w kserver) res"

section \<open>Commands\<close>

definition KS_DEV_WRITE_STR_LEN :: nat where "KS_DEV_WRITE_STR_LEN = 1024"

definition GET_VERSION :: int where "GET_VERSION = 0"
definition GET_CMDS :: int where "GET_CMDS = 1"
definition GET_STATS :: int where "GET_STATS = 2"
definition GET_DEV_STATUS :: int where "GET_DEV_STATUS = 3"
definition GET_RUNNING_SESSIONS :: int where "GET_RUNNING_SESSIONS = 4"
definition SUBSCRIBE_PUBSUB :: int where "SUBSCRIBE_PUBSUB = 5"
definition PUBSUB_PING :: int where "PUBSUB_PING = 6"

lemmas operations = GET_VERSION_def GET_CMDS_def GET_STATS_def GET_DEV_STATUS_def
  GET_RUNNING_SESSIONS_def SUBSCRIBE_PUBSUB_def PUBSUB_PING_def

primrec listen_channel_desc :: "SockType \<Rightarrow> string" where
  "listen_channel_desc NONE = ''NONE''"
| "listen_channel_desc TCP = ''TCP''"
| "listen_channel_desc WEBSOCK = ''WebSocket''"
| "listen_channel_desc UNIX = ''Unix socket''"

text \<open>A reply of the server device that carries a C string, to the session of the command.\<close>

definition reply_text :: "int \<Rightarrow> byte list \<Rightarrow> command \<Rightarrow> 'w kserver \<Rightarrow> (int \<times> 'w kserver) res" where
  "reply_text op text cmd ks = send_to (sess_id cmd) 1 (nat op) [CString (text @ [0])] ks"

definition get_version :: "'w external \<Rightarrow> command \<Rightarrow> 'w kserver \<Rightarrow> (int \<times> 'w kserver) res" where
  "get_version ext cmd ks = reply_text GET_VERSION (version ext) cmd ks"

definition get_cmds :: "'w external \<Rightarrow> command \<Rightarrow> 'w kserver \<Rightarrow> (int \<times> 'w kserver) res" where
  "get_cmds ext cmd ks = send_to (sess_id cmd) 1 (nat GET_CMDS) [StdString (devices_json ext)] ks"

text \<open>
  The result of a call of \<open>send\<close> is kept in an \<open>unsigned int\<close>, so that the test for a negative
  result never holds; \<open>bytes\<close> below is that value.
\<close>

definition send_listener_stats ::
  "SockType \<Rightarrow> listener \<Rightarrow> command \<Rightarrow> 'w kserver \<Rightarrow> (int \<times> 'w kserver) res" where
  "send_listener_stats sock_type l cmd ks =
     (let send_str = lit (listen_channel_desc sock_type) @ lit '':'' @ fmt_d (opened_sessions_num l)
        @ lit '':'' @ fmt_d (total_sessions_num l) @ lit '':'' @ fmt_d (total_requests_num l) @ nl in
      if length send_str \<ge> KS_DEV_WRITE_STR_LEN then
        bind_res (print ERROR (lit ''KServer::GET_STATS Buffer overflow'' @ nl) ks) (\<lambda>ks. Ret (-1, ks))
      else bind_res (reply_text GET_STATS send_str cmd ks) (\<lambda>(n, ks).
        let bytes_send = to_uint n in
        if bytes_send < 0 then Ret (-1, ks) else Ret (to_int bytes_send, ks)))"

definition get_stats :: "'w external \<Rightarrow> command \<Rightarrow> 'w kserver \<Rightarrow> (int \<times> 'w kserver) res" where
  "get_stats ext cmd ks =
     (let send_str = lit ''UPTIME:'' @ fmt_lu (now ext - server_start_time ks) @ nl in
      if length send_str \<ge> KS_DEV_WRITE_STR_LEN then
        bind_res (print ERROR (lit ''KServer::GET_STATS Buffer overflow'' @ nl) ks) (\<lambda>ks. Ret (-1, ks))
      else
        bind_res (reply_text GET_STATS send_str cmd ks) (\<lambda>(n, ks).
        let bytes = to_uint n in if bytes < 0 then Ret (-1, ks) else
        let bytes_send = bytes in
        bind_res (send_listener_stats TCP (tcp_listener ks) cmd ks) (\<lambda>(n, ks).
        let bytes = to_uint n in if bytes < 0 then Ret (-1, ks) else
        let bytes_send = to_uint (bytes_send + bytes) in
        bind_res (send_listener_stats WEBSOCK (websock_listener ks) cmd ks) (\<lambda>(n, ks).
        let bytes = to_uint n in if bytes < 0 then Ret (-1, ks) else
        let bytes_send = to_uint (bytes_send + bytes) in
        bind_res (send_listener_stats UNIX (unix_listener ks) cmd ks) (\<lambda>(n, ks).
        let bytes = to_uint n in if bytes < 0 then Ret (-1, ks) else
        let bytes_send = to_uint (bytes_send + bytes) in
        bind_res (reply_text GET_STATS (lit ''EOKS'' @ nl) cmd ks) (\<lambda>(n, ks).
        let bytes = to_uint n in if bytes < 0 then Ret (-1, ks) else
        bind_res (print DEBUG (lit ''[S] ['' @ fmt_u (bytes_send + bytes) @ lit '' bytes]'' @ nl) ks)
          (\<lambda>ks. Ret (0, ks))))))))"

definition get_dev_status :: "command \<Rightarrow> 'w kserver \<Rightarrow> (int \<times> 'w kserver) res" where
  "get_dev_status cmd ks = Ret (0, ks)"

text \<open>\<open>SET_SESSION_PARAMS\<close>: a session of no kind would leave the variables uninitialised.\<close>

definition sock_type_name :: "session \<Rightarrow> byte list res" where
  "sock_type_name se = (case kind se of TCP \<Rightarrow> Ret (lit ''TCP'') | WEBSOCK \<Rightarrow> Ret (lit ''WEBSOCK'')
     | UNIX \<Rightarrow> Ret (lit ''UNIX'') | NONE \<Rightarrow> Undef)"

definition session_line :: "int \<Rightarrow> SessID \<Rightarrow> session \<Rightarrow> byte list res" where
  "session_line time sid se = bind_res (sock_type_name se) (\<lambda>name.
     Ret (fmt_u sid @ lit '':'' @ name @ lit '':'' @ ip_str (peer se) @ lit '':'' @ fmt_u (port (peer se))
       @ lit '':'' @ fmt_u (uint (requests_num se)) @ lit '':'' @ fmt_u (uint (errors_num se)) @ lit '':''
       @ fmt_d (time - start_time se) @ nl))"

fun running_sessions_loop ::
  "int \<Rightarrow> command \<Rightarrow> SessID list \<Rightarrow> int \<Rightarrow> 'w kserver \<Rightarrow> (int \<times> int \<times> 'w kserver) res" where
  "running_sessions_loop time cmd [] bytes_send ks = Ret (0, bytes_send, ks)"
| "running_sessions_loop time cmd (sid # ids) bytes_send ks =
     bind_res (get_session sid ks) (\<lambda>se.
     bind_res (session_line time sid se) (\<lambda>send_str.
       if length send_str \<ge> KS_DEV_WRITE_STR_LEN then
         bind_res (print ERROR (lit ''KServer::GET_RUNNING_SESSIONS Buffer overflow'' @ nl) ks)
           (\<lambda>ks. Ret (-1, bytes_send, ks))
       else bind_res (reply_text GET_RUNNING_SESSIONS send_str cmd ks) (\<lambda>(n, ks).
         let bytes = to_uint n in
         if bytes < 0 then Ret (-1, bytes_send, ks)
         else running_sessions_loop time cmd ids (to_uint (bytes_send + bytes)) ks)))"

definition get_running_sessions :: "'w external \<Rightarrow> command \<Rightarrow> 'w kserver \<Rightarrow> (int \<times> 'w kserver) res" where
  "get_running_sessions ext cmd ks =
     bind_res (running_sessions_loop (now ext) cmd (get_current_ids ks) 0 ks) (\<lambda>(r, bytes_send, ks).
       if r < 0 then Ret (-1, ks)
       else bind_res (reply_text GET_RUNNING_SESSIONS (lit ''EORS'' @ nl) cmd ks) (\<lambda>(n, ks).
         let bytes = to_uint n in
         if bytes < 0 then Ret (-1, ks)
         else bind_res (print DEBUG (lit ''[S] ['' @ fmt_u (bytes_send + bytes) @ lit '' bytes]'' @ nl) ks)
           (\<lambda>ks. Ret (0, ks))))"

text \<open>
  \<open>cmd.sess\<close> is a plain pointer to the session: dereferencing it after the session has been
  deleted is undefined. The channel is read as 32 bits and passed as 16.
\<close>

definition subscribe_pubsub :: "'w external \<Rightarrow> command \<Rightarrow> 'w kserver \<Rightarrow> (int \<times> 'w kserver) res" where
  "subscribe_pubsub ext cmd ks = (case Option.bind (sess cmd) (map_at (session_pool ks)) of
     None \<Rightarrow> Undef
   | Some se \<Rightarrow>
       bind_res (op_deserialize (session_ops (uninit_mem ext)) [T_uint32] (se, cmd)) (\<lambda>(err, tup, (se, cmd)).
         let ks = put_session (session_id se) se ks in
         if err < 0 then
           bind_res (print ERROR (lit ''Pubsub subscribe: cannot read channel'' @ nl) ks) (\<lambda>ks. Ret (-1, ks))
         else (case tup of
           [V_uint32 channel] \<Rightarrow>
             bind_res (print DEBUG (lit ''Session id #'' @ fmt_u (sess_id cmd) @ lit '' subscribes to channel #''
               @ fmt_u (uint channel) @ nl) ks) (\<lambda>ks.
             let (r, subs) = subscribe (ucast channel) (sess_id cmd) (subscribers ks) in
             Ret (r, ks\<lparr>subscribers := subs\<rparr>))
         | _ \<Rightarrow> Undef)))"

definition pubsub_ping :: "command \<Rightarrow> 'w kserver \<Rightarrow> (int \<times> 'w kserver) res" where
  "pubsub_ping cmd ks =
     bind_res (emit SERVER_CHANNEL PUBSUB_PING_EVENT [Scalar (V_uint32 (word_of_int (sess_id cmd)))] ks) (\<lambda>(r, ks).
     bind_res (emit_str SERVER_CHANNEL PUBSUB_PING_TEXT_EVENT (lit ''Ping from server'' @ nl) ks) (\<lambda>(r, ks).
     bind_res (print INFO (lit ''Pubsub test triggered'' @ nl) ks) (\<lambda>ks. Ret (0, ks))))"

definition kserver_execute :: "'w external \<Rightarrow> command \<Rightarrow> 'w kserver \<Rightarrow> (int \<times> 'w kserver) res" where
  "kserver_execute ext cmd ks =
     (if operation cmd = GET_VERSION then get_version ext cmd ks
      else if operation cmd = GET_CMDS then get_cmds ext cmd ks
      else if operation cmd = GET_STATS then get_stats ext cmd ks
      else if operation cmd = GET_DEV_STATUS then get_dev_status cmd ks
      else if operation cmd = GET_RUNNING_SESSIONS then get_running_sessions ext cmd ks
      else if operation cmd = SUBSCRIBE_PUBSUB then subscribe_pubsub ext cmd ks
      else if operation cmd = PUBSUB_PING then pubsub_ping cmd ks
      else bind_res (print ERROR (lit ''KServer::execute unknown operation'' @ nl) ks) (\<lambda>ks. Ret (-1, ks)))"

section \<open>Reading an argument is safe\<close>

lemma rcv_n_bytes_length: "rcv_n_bytes n es = Some (r, got, es') \<Longrightarrow> length got \<le> n"
proof (cases "n \<le> length (rx_bytes es)")
  case True
  assume "rcv_n_bytes n es = Some (r, got, es')"
  moreover obtain es'' where "rcv_n_bytes n es = Some (to_int (int n), take n (rx_bytes es), es'')"
    using rcv_n_bytes_complete [OF True] by blast
  ultimately show ?thesis by auto
next
  case False
  assume "rcv_n_bytes n es = Some (r, got, es')"
  with False show ?thesis
    by (auto simp: rcv_n_bytes_short stream_end_def split: list.splits rx_event.splits)
qed

lemma rcv_into_safe:
  "n \<le> length mem \<Longrightarrow> safe_res (\<lambda>(err, mem', s'). length mem' = length mem) (rcv_into mem n s)"
  unfolding rcv_into_def
  by (rule safe_res_bind [where Q = "\<lambda>(err, got, es). length got \<le> n"])
    (auto simp: pokes_def intro!: safe_res_of_wait dest: rcv_n_bytes_length)

lemma deserialize_u32:
  assumes "position b + 4 \<le> length (buf_data b)"
  obtains c where "buf_deserialize [T_uint32] b = Some ([V_uint32 c], b\<lparr>position := position b + 4\<rparr>)"
proof -
  have "extract_T T_uint32 (buf_data b) (position b) \<noteq> None"
    using assms extract_T_dom [of T_uint32] by simp
  then obtain c where "extract_T T_uint32 (buf_data b) (position b) = Some (V_uint32 c)" by auto
  with that show thesis by (simp add: buf_deserialize_def deserialize_def required_buffer_size_def)
qed

text \<open>A command as \<open>read_command\<close> leaves it: of the session \<open>sid\<close>, with the whole payload to read.\<close>

definition cmd_of :: "SessID \<Rightarrow> command \<Rightarrow> bool" where
  "cmd_of sid cmd \<longleftrightarrow> sess_id cmd = sid \<and> sess cmd = Some sid
     \<and> length (buf_data (payload cmd)) = CMD_PAYLOAD_BUFFER_LEN \<and> position (payload cmd) = 0"

lemma session_deserialize_u32_safe:
  assumes "session_wf se" and "cmd_of sid cmd"
  shows "safe_res (\<lambda>(err, tup, (se', cmd')). session_wf se' \<and> session_id se' = session_id se
      \<and> (\<exists>c. tup = [V_uint32 c]) \<and> sess_id cmd' = sess_id cmd)
    (op_deserialize (session_ops g) [T_uint32] (se, cmd))"
proof (cases "kind se = WEBSOCK")
  case True
  have "position (payload cmd) + 4 \<le> length (buf_data (payload cmd))"
    using assms(2) by (simp add: cmd_of_def CMD_PAYLOAD_BUFFER_LEN_def)
  then obtain c where "buf_deserialize [T_uint32] (payload cmd) = Some ([V_uint32 c], (payload cmd)\<lparr>position := position (payload cmd) + 4\<rparr>)"
    by (rule deserialize_u32)
  with True assms(1) show ?thesis
    by (simp add: session_ops_def switch_sock_type_def on_cmd_def ws_ops_def ws_deserialize_def with_payload_def)
next
  case False
  have t: "safe_res (\<lambda>(err, tup, s'). \<exists>c. tup = [V_uint32 c]) (op_deserialize (tcp_ops g) [T_uint32] (conn se))"
  proof -
    have r: "required_buffer_size [T_uint32] = 4" by (simp add: required_buffer_size_def)
    show ?thesis
      unfolding tcp_ops_def tcp_deserialize_def r
    proof (simp, rule safe_res_bind [OF rcv_into_safe [of 4 "uninit g 4" "conn se"]], simp, clarify)
      fix err and mem :: "byte list" and s' :: sock assume "length mem = length (uninit g 4)"
      then have "position (Buffer mem 0) + 4 \<le> length (buf_data (Buffer mem 0))" by (simp add: Buffer_def)
      then obtain c where "buf_deserialize [T_uint32] (Buffer mem 0) = Some ([V_uint32 c], (Buffer mem 0)\<lparr>position := position (Buffer mem 0) + 4\<rparr>)"
        by (rule deserialize_u32)
      then show "safe_res (\<lambda>(err, tup, s'). \<exists>c. tup = [V_uint32 c])
          (bind_res (of_ub (buf_deserialize [T_uint32] (Buffer mem 0))) (\<lambda>(tup, _). Ret (err, tup, s')))" by simp
    qed
  qed
  from False assms(1) have k: "kind se = TCP \<or> kind se = UNIX"
    by (cases "kind se") (simp_all add: session_wf_def)
  have "op_deserialize (session_ops g) [T_uint32] (se, cmd)
      = on_conn (se, cmd) (op_deserialize (tcp_ops g) [T_uint32] (conn se))"
    using k by (auto simp: session_ops_def switch_sock_type_def)
  also have "safe_res (\<lambda>(err, tup, (se', cmd')). session_wf se' \<and> session_id se' = session_id se
      \<and> (\<exists>c. tup = [V_uint32 c]) \<and> sess_id cmd' = sess_id cmd) \<dots>"
    unfolding on_conn_def by (rule safe_res_bind [OF t]) (use assms(1) in \<open>auto simp: session_wf_def\<close>)
  finally show ?thesis .
qed

section \<open>Replies are safe\<close>

lemma length_digits: "n < 10 ^ k \<Longrightarrow> 0 < k \<Longrightarrow> length (digits n) \<le> k"
proof (induction n arbitrary: k rule: digits.induct)
  case (1 n)
  show ?case
  proof (cases "n < 10")
    case True
    with 1 show ?thesis by (subst digits.simps) simp
  next
    case False
    then obtain j where j: "k = Suc j" "0 < j" using "1.prems" by (cases k) (auto, fastforce)
    have "n div 10 < 10 ^ j" using "1.prems"(1) j(1) by (simp add: div_less_iff_less_mult)
    from "1.IH" [OF False this j(2)] False j(1) show ?thesis by (subst digits.simps) simp
  qed
qed

definition int32_ok :: "int \<Rightarrow> bool" where
  "int32_ok k \<longleftrightarrow> - (2 ^ 31) \<le> k \<and> k < 2 ^ 31"

lemma length_fmt: "int32_ok k \<Longrightarrow> length (fmt_d k) \<le> 11" "length (fmt_lu k) \<le> 20"
proof -
  have "nat \<bar>k\<bar> < 10 ^ 10" if "int32_ok k" using that by (auto simp: int32_ok_def)
  then show "int32_ok k \<Longrightarrow> length (fmt_d k) \<le> 11"
    using length_digits [of "nat \<bar>k\<bar>" 10] by (auto simp: fmt_d_def le_Suc_eq)
  have "take_bit 64 k < 2 ^ 64" by (rule take_bit_int_less_exp)
  then have "nat (take_bit 64 k) < 10 ^ 20" by simp
  from length_digits [OF this] show "length (fmt_lu k) \<le> 20" by (simp add: fmt_lu_def)
qed

definition stats_ok :: "listener \<Rightarrow> bool" where
  "stats_ok l \<longleftrightarrow> int32_ok (opened_sessions_num l) \<and> int32_ok (total_sessions_num l) \<and> int32_ok (total_requests_num l)"

lemma reply_text_safe:
  assumes "mgr_inv ks" and "sess_id cmd \<in> set (map_keys (session_pool ks))" and "length text < FMT_BUFF_LEN"
  shows "safe_res (\<lambda>(n, ks'). sends ks ks') (reply_text op text cmd ks)"
  unfolding reply_text_def
  using assms by (intro send_to_safe reply_ok_text) (auto simp: mgr_inv_def comm_inv_def)

text \<open>A state after replies and logs from \<open>ks0\<close>, in which the session of the command still lives.\<close>

definition replying :: "'w kserver \<Rightarrow> SessID \<Rightarrow> 'w kserver \<Rightarrow> bool" where
  "replying ks0 sid ks \<longleftrightarrow> mgr_inv ks \<and> sends ks0 ks \<and> sid \<in> set (map_keys (session_pool ks))"

lemma replying_start: "mgr_inv ks \<Longrightarrow> sid \<in> set (map_keys (session_pool ks)) \<Longrightarrow> replying ks sid ks"
  by (simp add: replying_def mgr_inv_def comm_inv_def sends_refl)

lemma replying_sends: "replying ks0 sid ks \<Longrightarrow> sends ks ks' \<Longrightarrow> replying ks0 sid ks'"
  using mgr_inv_sends [of ks ks'] sends_trans [of ks0 ks ks'] only_sends_frame(10) [of ks ks']
  by (auto simp: replying_def sends_def)

lemma replying_reply:
  assumes "replying ks0 (sess_id cmd) ks" and "length text < FMT_BUFF_LEN"
  shows "safe_res (\<lambda>(n, ks'). replying ks0 (sess_id cmd) ks') (reply_text op text cmd ks)"
  by (rule safe_res_mono [OF reply_text_safe])
    (use assms replying_sends [OF assms(1)] in \<open>auto simp: replying_def\<close>)

lemma replying_print:
  assumes "replying ks0 sid ks"
  shows "safe_res (replying ks0 sid) (print sev text ks)"
  by (rule safe_res_mono [OF print_safe])
    (use assms replying_sends [OF assms] in \<open>auto simp: replying_def mgr_inv_def\<close>)

lemma length_lit [simp]: "length (lit s) = length s"
  by (simp add: bytes_of_string_def)

lemma listener_line_short:
  assumes "stats_ok l"
  shows "length (lit (listen_channel_desc t) @ lit '':'' @ fmt_d (opened_sessions_num l)
    @ lit '':'' @ fmt_d (total_sessions_num l) @ lit '':'' @ fmt_d (total_requests_num l) @ nl) < FMT_BUFF_LEN"
  using assms length_fmt(1) [of "opened_sessions_num l"] length_fmt(1) [of "total_sessions_num l"]
    length_fmt(1) [of "total_requests_num l"]
  by (cases t) (simp_all add: stats_ok_def FMT_BUFF_LEN_def)

lemma listener_stats_safe:
  assumes "replying ks0 (sess_id cmd) ks" and "stats_ok l"
  shows "safe_res (\<lambda>(n, ks'). replying ks0 (sess_id cmd) ks') (send_listener_stats t l cmd ks)"
proof -
  note short = listener_line_short [OF assms(2), of t]
  then have s2: "\<not> KS_DEV_WRITE_STR_LEN \<le> length (lit (listen_channel_desc t) @ lit '':'' @ fmt_d (opened_sessions_num l)
    @ lit '':'' @ fmt_d (total_sessions_num l) @ lit '':'' @ fmt_d (total_requests_num l) @ nl)"
    by (simp add: KS_DEV_WRITE_STR_LEN_def FMT_BUFF_LEN_def)
  show ?thesis
    unfolding send_listener_stats_def Let_def if_not_P [OF s2]
    by (rule safe_res_bind [OF replying_reply [OF assms(1) short]]) auto
qed

text \<open>After the conversion of a result to \<open>unsigned int\<close> no error is left.\<close>

lemma bind_ignoring:
  assumes "safe_res (\<lambda>(n, ks). Q ks) m" and "\<And>n ks. Q ks \<Longrightarrow> safe_res R (f (to_uint n) ks)"
  shows "safe_res R (bind_res m (\<lambda>(n, ks). let bytes = to_uint n in if bytes < 0 then Ret (-1, ks) else f bytes ks))"
  by (rule safe_res_bind [OF assms(1)]) (use assms(2) in \<open>auto simp: Let_def not_less [THEN iffD2, OF to_uint_nonneg]\<close>)

definition listeners_ok :: "'w kserver \<Rightarrow> bool" where
  "listeners_ok ks \<longleftrightarrow> stats_ok (tcp_listener ks) \<and> stats_ok (websock_listener ks) \<and> stats_ok (unix_listener ks)"

lemma listeners_ok_replying: "replying ks0 sid ks \<Longrightarrow> listeners_ok ks0 \<Longrightarrow> listeners_ok ks"
  using only_sends_frame(12-14) [of ks0 ks] by (simp add: replying_def sends_def listeners_ok_def)

lemma get_stats_safe:
  assumes "mgr_inv ks" and "sess_id cmd \<in> set (map_keys (session_pool ks))" and "listeners_ok ks"
  shows "safe_res (\<lambda>(r, ks'). r = 0 \<and> replying ks (sess_id cmd) ks') (get_stats ext cmd ks)"
proof -
  let ?s = "lit ''UPTIME:'' @ fmt_lu (now ext - server_start_time ks) @ nl"
  have short: "length ?s < FMT_BUFF_LEN" "\<not> KS_DEV_WRITE_STR_LEN \<le> length ?s"
    using length_fmt(2) [of "now ext - server_start_time ks"]
    by (simp_all add: FMT_BUFF_LEN_def KS_DEV_WRITE_STR_LEN_def)
  have eoks: "length (lit ''EOKS'' @ nl) < FMT_BUFF_LEN" by (simp add: FMT_BUFF_LEN_def)
  note st = replying_start [OF assms(1,2)]
  have l: "replying ks (sess_id cmd) k \<Longrightarrow> stats_ok (tcp_listener k) \<and> stats_ok (websock_listener k) \<and> stats_ok (unix_listener k)" for k
    using listeners_ok_replying [OF _ assms(3)] by (simp add: listeners_ok_def)
  show ?thesis
    unfolding get_stats_def Let_def [of ?s] if_not_P [OF short(2)]
    apply (rule bind_ignoring [OF replying_reply [OF st short(1)]])
    apply (subst Let_def, rule bind_ignoring [OF listener_stats_safe], assumption, simp add: l)
    apply (subst Let_def, rule bind_ignoring [OF listener_stats_safe], assumption, simp add: l)
    apply (subst Let_def, rule bind_ignoring [OF listener_stats_safe], assumption, simp add: l)
    apply (subst Let_def, rule bind_ignoring [OF replying_reply [OF _ eoks]], assumption)
    apply (rule safe_res_bind [OF replying_print], assumption, simp)
    done
qed

section \<open>The list of running sessions\<close>

lemma session_line_same: "same_session se se' \<Longrightarrow> session_line time sid se' = session_line time sid se"
  by (simp add: session_line_def sock_type_name_def same_session_def)

lemma session_line_defined: "session_wf se \<Longrightarrow> \<exists>l. session_line time sid se = Ret l"
  by (cases "kind se") (simp_all add: session_line_def sock_type_name_def session_wf_def)

text \<open>A reply over TCP to a client that takes it in one write.\<close>

lemma tcp_reply:
  assumes "pool_wf (session_pool ks)" and "map_at (session_pool ks) sid = Some se" and "kind se = TCP"
    and "tx (conn se) = TxAccept k # es" and "length text < FMT_BUFF_LEN" and "FMT_BUFF_LEN + 12 \<le> k"
    and "sess_id cmd = sid"
  obtains se' n where "reply_text op text cmd ks = Ret (n, put_session sid se' ks)"
    and "same_session se se'" and "session_wf se'"
    and "tx (conn se') = es"
    and "sent (conn se') = sent (conn se) @ command_image 1 (word_of_nat (nat op)) [CString (text @ [0])]"
proof -
  let ?args = "[CString (text @ [0])]"
  let ?img = "command_image 1 (word_of_nat (nat op)) ?args"
  have wf: "session_wf se" using assms(1,2) by (auto simp: pool_wf_def)
  have ok: "reply_ok ?args" by (rule reply_ok_text [OF assms(5)])
  have "length (takeWhile (\<lambda>c. c \<noteq> 0) (text @ [0])) \<le> length text"
    using length_takeWhile_le [of "\<lambda>c. c \<noteq> 0" "text"] by (simp add: takeWhile_append)
  then have len: "length ?img \<le> FMT_BUFF_LEN + 12" using assms(5) by (simp add: command_image_def Let_def)
  then have len2: "length ?img < 2 ^ 31" "length ?img \<le> min k IO_MAX"
    using assms(6) by (simp_all add: FMT_BUFF_LEN_def IO_MAX_def)
  obtain ser where b: "build_command (replicate 8 0) 1 (word_of_nat (nat op)) (dyn_serializer se) (send_buffer se) ?args = Some (ser, ?img)"
    using build_command_eq [of "replicate 8 0" ?args 1 "word_of_nat (nat op)" "dyn_serializer se" "send_buffer se"] ok wf
    by (auto simp: reply_ok_def session_wf_def)
  have ne: "?img \<noteq> []" by (simp add: command_image_def)
  let ?se = "se\<lparr>dyn_serializer := ser, send_buffer := ?img,
    conn := (conn se)\<lparr>tx := es, sent := sent (conn se) @ ?img\<rparr>\<rparr>"
  have send: "session_send (replicate 8 0) 1 (word_of_nat (nat op)) ?args se = Ret (int (length ?img), ?se)"
    using b assms(3) tcp_write_all [OF ne len2(1) assms(4) len2(2)] ne
    by (simp add: session_send_def session_write_def)
  have "session_wf ?se" "same_session se ?se"
    using session_send_safe [OF wf _ ok, of "replicate 8 0" 1 "word_of_nat (nat op)"] send by simp_all
  moreover have "reply_text op text cmd ks = Ret (int (length ?img), put_session sid ?se ks)"
    using send assms(2,7) by (simp add: reply_text_def send_to_def get_session_def)
  ultimately show thesis by (intro that [of "int (length ?img)" ?se]) simp_all
qed

text \<open>The lines are those of the sessions as they are when the command starts.\<close>

definition lines_of :: "int \<Rightarrow> 'w kserver \<Rightarrow> SessID list \<Rightarrow> byte list list \<Rightarrow> bool" where
  "lines_of time ks ids ls \<longleftrightarrow> list_all2 (\<lambda>i l. \<exists>se. get_session i ks = Ret se \<and> session_line time i se = Ret l) ids ls"

lemma lines_of_put:
  assumes "map_at (session_pool ks) sid = Some se" and "same_session se se'" and "lines_of time ks ids ls"
  shows "lines_of time (put_session sid se' ks) ids ls"
  using assms(3) unfolding lines_of_def
proof (rule list_all2_mono)
  fix i l assume "\<exists>s. get_session i ks = Ret s \<and> session_line time i s = Ret l"
  then show "\<exists>s. get_session i (put_session sid se' ks) = Ret s \<and> session_line time i s = Ret l"
    using assms(1,2) session_line_same [OF assms(2), of time i]
    by (auto simp: get_session_def put_session_def at_assign split: option.splits)
qed

lemma running_loop_delivers:
  assumes "pool_wf (session_pool ks)" and "map_at (session_pool ks) sid = Some se" and "kind se = TCP"
    and "sess_id cmd = sid" and "lines_of time ks ids ls" and "\<forall>l \<in> set ls. length l < FMT_BUFF_LEN"
    and "tx (conn se) = map TxAccept caps @ es" and "length caps = length ls" and "\<forall>k \<in> set caps. FMT_BUFF_LEN + 12 \<le> k"
  shows "\<exists>b se'. running_sessions_loop time cmd ids b0 ks = Ret (0, b, put_session sid se' ks)
    \<and> same_session se se' \<and> session_wf se' \<and> tx (conn se') = es
    \<and> sent (conn se') = sent (conn se) @ concat (map (\<lambda>l. command_image 1 4 [CString (l @ [0])]) ls)"
  using assms
proof (induction ids arbitrary: ks se ls caps b0)
  case Nil
  have "put_session sid se ks = ks"
    using Nil.prems(1,2) by (simp add: put_session_def pool_wf_def assign_same)
  moreover have "session_wf se" using Nil.prems(1,2) by (auto simp: pool_wf_def)
  moreover have "ls = []" using Nil.prems(5) by (simp add: lines_of_def)
  ultimately show ?case using Nil.prems(7,8) by (intro exI [of _ b0] exI [of _ se]) simp
next
  case (Cons i ids)
  from Cons.prems(5) obtain l ls' s where ls: "ls = l # ls'" and l: "get_session i ks = Ret s" "session_line time i s = Ret l"
    and ls': "lines_of time ks ids ls'" by (auto simp: lines_of_def list_all2_Cons1)
  from Cons.prems(8) ls obtain k caps' where caps: "caps = k # caps'" by (cases caps) auto
  have short: "length l < FMT_BUFF_LEN" "\<not> KS_DEV_WRITE_STR_LEN \<le> length l"
    using Cons.prems(6) ls by (simp_all add: FMT_BUFF_LEN_def KS_DEV_WRITE_STR_LEN_def)
  have tx: "tx (conn se) = TxAccept k # map TxAccept caps' @ es" using Cons.prems(7) caps by simp
  have cap: "FMT_BUFF_LEN + 12 \<le> k" using Cons.prems(9) caps by simp
  obtain se1 n where r: "reply_text GET_RUNNING_SESSIONS l cmd ks = Ret (n, put_session sid se1 ks)"
    and se1: "same_session se se1" "session_wf se1" "tx (conn se1) = map TxAccept caps' @ es"
      "sent (conn se1) = sent (conn se) @ command_image 1 (word_of_nat (nat GET_RUNNING_SESSIONS)) [CString (l @ [0])]"
    by (rule tcp_reply [OF Cons.prems(1,2,3) tx short(1) cap Cons.prems(4)])
  let ?ks = "put_session sid se1 ks"
  have at: "map_at (session_pool ?ks) sid = Some se1" "pool_wf (session_pool ?ks)"
    using Cons.prems(1,2) se1(1,2) put_session_pool_wf [OF Cons.prems(1,2) se1(2)]
    by (auto simp: put_session_def at_assign same_session_def pool_wf_def)
  have again: "put_session sid s2 ?ks = put_session sid s2 ks" for s2
    by (simp add: put_session_def)
  have "\<exists>b se'. running_sessions_loop time cmd ids (to_uint (b0 + to_uint n)) ?ks = Ret (0, b, put_session sid se' ?ks)
    \<and> same_session se1 se' \<and> session_wf se' \<and> tx (conn se') = es
    \<and> sent (conn se') = sent (conn se1) @ concat (map (\<lambda>l. command_image 1 4 [CString (l @ [0])]) ls')"
    by (rule Cons.IH [OF at(2,1) _ Cons.prems(4) lines_of_put [OF Cons.prems(2) se1(1) ls'] _ se1(3)])
      (use Cons.prems ls caps se1(1) in \<open>auto simp: same_session_def\<close>)
  then obtain b se' where ih: "running_sessions_loop time cmd ids (to_uint (b0 + to_uint n)) ?ks = Ret (0, b, put_session sid se' ks)"
    "same_session se1 se'" "session_wf se'" "tx (conn se') = es"
    "sent (conn se') = sent (conn se1) @ concat (map (\<lambda>l. command_image 1 4 [CString (l @ [0])]) ls')"
    by (auto simp: again)
  have "running_sessions_loop time cmd (i # ids) b0 ks = Ret (0, b, put_session sid se' ks)"
    using l r short(2) ih(1) by (simp add: Let_def not_less [THEN iffD2, OF to_uint_nonneg])
  moreover have "same_session se se'" using se1(1) ih(2) by (rule same_session_trans)
  ultimately show ?case
    using ih se1(4) ls by (intro exI [of _ b] exI [of _ se']) (simp add: operations)
qed

section \<open>Safety of the commands\<close>

lemma running_loop_safe:
  assumes "replying ks0 (sess_id cmd) ks" and "set ids \<subseteq> set (map_keys (session_pool ks))"
  shows "safe_res (\<lambda>(r, b, ks'). replying ks0 (sess_id cmd) ks') (running_sessions_loop time cmd ids b0 ks)"
  using assms
proof (induction ids arbitrary: ks b0)
  case (Cons i ids)
  from Cons.prems(2) obtain se where se: "map_at (session_pool ks) i = Some se" by (auto simp: keys_in_pool)
  then have "session_wf se" using Cons.prems(1) by (auto simp: replying_def mgr_inv_def comm_inv_def pool_wf_def)
  then obtain l where l: "session_line time i se = Ret l" using session_line_defined by blast
  show ?case
  proof (cases "length l \<ge> KS_DEV_WRITE_STR_LEN")
    case True
    with se l show ?thesis
      by (simp add: get_session_def) (rule safe_res_bind [OF replying_print [OF Cons.prems(1)]], simp)
  next
    case False
    then have short: "length l < FMT_BUFF_LEN" by (simp add: KS_DEV_WRITE_STR_LEN_def FMT_BUFF_LEN_def)
    have next_ok: "safe_res (\<lambda>(r, b, ks'). replying ks0 (sess_id cmd) ks') (running_sessions_loop time cmd ids b k)"
      if "replying ks0 (sess_id cmd) k" for k b
      using that Cons.prems only_sends_frame(10) [of ks0 k] only_sends_frame(10) [of ks0 ks]
      by (intro Cons.IH) (auto simp: replying_def sends_def)
    have "safe_res (\<lambda>(r, b, ks'). replying ks0 (sess_id cmd) ks')
      (bind_res (reply_text GET_RUNNING_SESSIONS l cmd ks) (\<lambda>(n, ks). let bytes = to_uint n in
         if bytes < 0 then Ret (-1, b0, ks) else running_sessions_loop time cmd ids (to_uint (b0 + bytes)) ks))"
      by (rule safe_res_bind [OF replying_reply [OF Cons.prems(1) short]]) (auto simp: Let_def next_ok)
    with se l False show ?thesis by (simp add: get_session_def)
  qed
qed simp

lemma get_running_sessions_safe:
  assumes "mgr_inv ks" and "sess_id cmd \<in> set (map_keys (session_pool ks))"
  shows "safe_res (\<lambda>(r, ks'). replying ks (sess_id cmd) ks') (get_running_sessions ext cmd ks)"
proof -
  have eors: "length (lit ''EORS'' @ nl) < FMT_BUFF_LEN" by (simp add: FMT_BUFF_LEN_def)
  show ?thesis
    unfolding get_running_sessions_def
    apply (rule safe_res_bind [OF running_loop_safe [OF replying_start [OF assms]]])
     apply (simp add: get_current_ids_def)
    apply (clarsimp split: if_splits)
    apply (rule bind_ignoring [OF replying_reply [OF _ eors]], assumption)
    apply (rule safe_res_bind [OF replying_print], assumption, simp)
    done
qed

lemma subscribe_pubsub_safe:
  assumes "mgr_inv ks" and "cmd_of sid cmd" and "sid \<in> set (map_keys (session_pool ks))"
  shows "safe_res (\<lambda>(r, ks'). mgr_inv ks' \<and> map_keys (session_pool ks') = map_keys (session_pool ks))
    (subscribe_pubsub ext cmd ks)"
proof -
  from assms(3) obtain se where se: "map_at (session_pool ks) sid = Some se" by (auto simp: keys_in_pool)
  then have wf: "session_wf se" "session_id se = sid"
    using assms(1) by (auto simp: mgr_inv_def comm_inv_def pool_wf_def)
  let ?Q = "\<lambda>(r, ks'). mgr_inv ks' \<and> map_keys (session_pool ks') = map_keys (session_pool ks)"
  have step: "safe_res ?Q (case x of (err, tup, se, cmd) \<Rightarrow>
         let ks = put_session (session_id se) se ks in
         if err < 0 then
           bind_res (print ERROR (lit ''Pubsub subscribe: cannot read channel'' @ nl) ks) (\<lambda>ks. Ret (-1, ks))
         else (case tup of
           [V_uint32 channel] \<Rightarrow>
             bind_res (print DEBUG (lit ''Session id #'' @ fmt_u (sess_id cmd) @ lit '' subscribes to channel #''
               @ fmt_u (uint channel) @ nl) ks) (\<lambda>ks.
             let (r, subs) = subscribe (ucast channel) (sess_id cmd) (subscribers ks) in
             Ret (r, ks\<lparr>subscribers := subs\<rparr>))
         | _ \<Rightarrow> Undef))"
    if "case x of (err, tup, se', cmd') \<Rightarrow> session_wf se' \<and> session_id se' = session_id se
      \<and> (\<exists>c. tup = [V_uint32 c]) \<and> sess_id cmd' = sess_id cmd" for x
  proof -
    obtain err tup se' cmd' where x: "x = (err, tup, se', cmd')" by (cases x)
    with that wf(2) assms(2) obtain c where h: "session_wf se'" "session_id se' = sid" "tup = [V_uint32 c]" "sess_id cmd' = sid"
      by (auto simp: cmd_of_def)
    let ?ks = "put_session sid se' ks"
    have keys: "map_keys (session_pool ?ks) = map_keys (session_pool ks)" by (simp add: put_session_def)
    then have inv: "mgr_inv ?ks"
      using assms(1) put_session_pool_wf [OF _ se h(1,2)] length_keys [of "session_pool ?ks"] length_keys [of "session_pool ks"]
      by (simp add: mgr_inv_def comm_inv_def get_current_ids_def) (simp add: put_session_def)
    have p: "safe_res (replying ?ks sid) (print sev t ?ks)" for sev t
      using inv assms(3) keys by (intro replying_print replying_start) simp_all
    have k: "map_keys (session_pool k) = map_keys (session_pool ks)" if "replying ?ks sid k" for k
      using that keys only_sends_frame(10) [of ?ks k] by (simp add: replying_def sends_def)
    show ?thesis
    proof (cases "err < 0")
      case True
      with x h show ?thesis
        by (simp add: Let_def) (rule safe_res_bind [OF p], use k in \<open>auto simp: replying_def\<close>)
    next
      case False
      with x h show ?thesis
        by (simp add: Let_def case_prod_beta)
          (rule safe_res_bind [OF p], use k in \<open>auto simp: replying_def is_current_id_def get_current_ids_def intro!: subscribe_inv\<close>)
    qed
  qed
  have "Option.bind (sess cmd) (map_at (session_pool ks)) = Some se" using assms(2) se by (simp add: cmd_of_def)
  then show ?thesis
    unfolding subscribe_pubsub_def option.case
    by (simp only: option.case) (rule safe_res_bind [OF session_deserialize_u32_safe [OF wf(1) assms(2)] step])
qed

lemma pubsub_ping_safe:
  assumes "mgr_inv ks"
  shows "safe_res (\<lambda>(r, ks'). mgr_inv ks' \<and> map_keys (session_pool ks') = map_keys (session_pool ks)) (pubsub_ping cmd ks)"
proof -
  have ch: "SERVER_CHANNEL < channels_count" by (simp add: channels)
  have ok: "reply_ok [Scalar (V_uint32 w)]" for w by (simp add: reply_ok_def SCALAR_PACK_LEN_def command_image_def)
  have c: "mgr_inv k \<and> comm_inv k" if "sends ks k" for k
    using mgr_inv_sends [OF assms that] by (simp add: mgr_inv_def)
  have k: "map_keys (session_pool k) = map_keys (session_pool ks)" if "sends ks k" for k
    using that only_sends_frame(10) [of ks k] by (simp add: sends_def)
  have e1: "safe_res (\<lambda>(r, k). sends ks k) (emit SERVER_CHANNEL PUBSUB_PING_EVENT [Scalar (V_uint32 w)] ks)" for w
    using assms by (intro emit_safe ch ok) (simp add: mgr_inv_def)
  have e2: "safe_res (\<lambda>(r, k'). sends ks k') (emit_str SERVER_CHANNEL e t k)" if "sends ks k" for k e t
    by (rule safe_res_mono [OF emit_str_safe [OF _ ch]]) (use c [OF that] that sends_trans in auto)
  have e3: "safe_res (\<lambda>k'. sends ks k') (print sev t k)" if "sends ks k" for k sev t
    by (rule safe_res_mono [OF print_safe]) (use c [OF that] that sends_trans in auto)
  show ?thesis
    unfolding pubsub_ping_def
    by (rule safe_res_bind [OF e1], clarsimp, rule safe_res_bind [OF e2], assumption, clarsimp,
        rule safe_res_bind [OF e3], assumption) (use c k in auto)
qed

lemma replying_keys: "replying ks sid k \<Longrightarrow> mgr_inv k \<and> map_keys (session_pool k) = map_keys (session_pool ks)"
  using only_sends_frame(10) [of ks k] by (simp add: replying_def sends_def)

lemma send_to_replying:
  assumes "mgr_inv ks" and "sid \<in> set (map_keys (session_pool ks))" and "reply_ok args"
  shows "safe_res (\<lambda>(n, k). replying ks sid k) (send_to sid c f args ks)"
  by (rule safe_res_mono [OF send_to_safe])
    (use assms replying_sends [OF replying_start [OF assms(1,2)]] in \<open>auto simp: mgr_inv_def comm_inv_def\<close>)

lemma kserver_execute_keeps:
  assumes "mgr_inv ks" and "cmd_of sid cmd" and "sid \<in> set (map_keys (session_pool ks))" and "listeners_ok ks"
    and "reply_ok [CString (version ext @ [0])]" and "reply_ok [StdString (devices_json ext)]"
  shows "safe_res (\<lambda>(r, ks'). mgr_inv ks' \<and> map_keys (session_pool ks') = map_keys (session_pool ks)) (kserver_execute ext cmd ks)"
proof -
  let ?Q = "\<lambda>(r :: int, ks'). mgr_inv ks' \<and> map_keys (session_pool ks') = map_keys (session_pool ks)"
  have sid: "sess_id cmd = sid" "sid \<in> set (map_keys (session_pool ks))"
    using assms(2,3) by (simp_all add: cmd_of_def)
  have rep: "safe_res ?Q m" if "safe_res (\<lambda>(r, k). replying ks sid k) m" for m
    by (rule safe_res_mono [OF that]) (auto dest: replying_keys)
  have v: "safe_res ?Q (get_version ext cmd ks)" "safe_res ?Q (get_cmds ext cmd ks)"
    unfolding get_version_def get_cmds_def reply_text_def sid(1)
    by (intro rep send_to_replying [OF assms(1) sid(2)] assms(5,6))+
  have st: "safe_res ?Q (get_stats ext cmd ks)" "safe_res ?Q (get_running_sessions ext cmd ks)"
    using get_stats_safe [OF assms(1) _ assms(4), of cmd ext] get_running_sessions_safe [OF assms(1), of cmd ext] sid
    by (auto intro!: rep elim: safe_res_mono)
  have u: "safe_res ?Q (bind_res (print ERROR t ks) (\<lambda>k. Ret (-1, k)))" for t
    by (rule safe_res_bind [OF replying_print [OF replying_start [OF assms(1) sid(2)]]]) (auto dest: replying_keys)
  show ?thesis
    using v st u subscribe_pubsub_safe [OF assms(1,2) sid(2)] pubsub_ping_safe [OF assms(1)] assms(1)
    by (simp add: kserver_execute_def get_dev_status_def)
qed

section \<open>Properties\<close>


definition sample_external :: "unit external" where
  "sample_external = \<lparr>version = lit ''1.0'', devices_json = lit ''[]'', now = 12, uninit_mem = (\<lambda>_. 255),
     device_num = 4, dev_name = (\<lambda>_. lit ''Dev''), deps = (\<lambda>d. if d = 2 then [3] else []),
     build = (\<lambda>d w. w), dev_execute = (\<lambda>d cmd ks. Ret (0, ks))\<rparr>"

definition sample_cmd :: "SessID \<Rightarrow> int \<Rightarrow> command" where
  "sample_cmd sid op = (Command (replicate HEADER_SIZE 0) (replicate CMD_PAYLOAD_BUFFER_LEN 0))
     \<lparr>sess_id := sid, sess := Some sid, device := 1, operation := op\<rparr>"

lemma sample_cmd_of: "cmd_of sid (sample_cmd sid op)"
  by (simp add: cmd_of_def sample_cmd_def Command_def Buffer_def)

lemma sample_mgr_inv: "mgr_inv sample_server"
  using sample_inv by (auto simp: mgr_inv_def get_current_ids_def) (auto simp: sample_simps)

lemma sample_listeners_ok: "listeners_ok sample_server"
  by (simp add: listeners_ok_def stats_ok_def int32_ok_def sample_server_def ListeningChannel_def)


text \<open>C28: \<open>GET_RUNNING_SESSIONS\<close> lists every session. A TCP client whose socket takes each line in
  one write, when no line exceeds the buffer, receives one reply per live session, in increasing
  order of the identifiers, each with the session's own data at the time of the command, and
  then the reply that ends the list; the command returns 0.\<close>

theorem running_sessions_lists_all:
  assumes "mgr_inv ks" and "get_session (sess_id cmd) ks = Ret se" and "kind se = TCP"
    and "lines_of (now ext) ks (get_current_ids ks) ls" and "\<forall>l \<in> set ls. length l < FMT_BUFF_LEN"
    and "tx (conn se) = map TxAccept caps" and "length caps = Suc (length ls)" and "\<forall>k \<in> set caps. FMT_BUFF_LEN + 12 \<le> k"
  shows "\<exists>ks' se'. get_running_sessions ext cmd ks = Ret (0, ks') \<and> get_session (sess_id cmd) ks' = Ret se'
    \<and> sent (conn se') = sent (conn se)
        @ concat (map (\<lambda>l. command_image 1 4 [CString (l @ [0])]) (ls @ [lit ''EORS'' @ nl]))"
proof -
  have at: "map_at (session_pool ks) (sess_id cmd) = Some se"
    using assms(2) by (simp add: get_session_def split: option.splits)
  have pw: "pool_wf (session_pool ks)" using assms(1) by (simp add: mgr_inv_def comm_inv_def)
  from assms(7) have split: "caps = butlast caps @ [last caps]" "length (butlast caps) = length ls"
    "last caps \<in> set caps" by (cases caps rule: rev_cases; simp)+
  have tx: "tx (conn se) = map TxAccept (butlast caps) @ [TxAccept (last caps)]"
    by (subst assms(6), subst split(1)) simp
  have caps: "\<forall>k \<in> set (butlast caps). FMT_BUFF_LEN + 12 \<le> k" using assms(8) by (auto dest: in_set_butlastD)
  obtain b se1 where l: "running_sessions_loop (now ext) cmd (get_current_ids ks) 0 ks = Ret (0, b, put_session (sess_id cmd) se1 ks)"
    and se1: "same_session se se1" "session_wf se1" "tx (conn se1) = [TxAccept (last caps)]"
      "sent (conn se1) = sent (conn se) @ concat (map (\<lambda>l. command_image 1 4 [CString (l @ [0])]) ls)"
    using running_loop_delivers [OF pw at assms(3) refl assms(4,5) tx split(2) caps, of 0] by blast
  let ?k1 = "put_session (sess_id cmd) se1 ks"
  have sid: "session_id se1 = sess_id cmd" using pw at se1(1) by (auto simp: pool_wf_def same_session_def)
  have at1: "map_at (session_pool ?k1) (sess_id cmd) = Some se1" "pool_wf (session_pool ?k1)"
    using at put_session_pool_wf [OF pw at se1(2) sid] by (simp_all add: put_session_def at_assign)
  have "kind se1 = TCP" using assms(3) se1(1) by (simp add: same_session_def)
  moreover have "length (lit ''EORS'' @ nl) < FMT_BUFF_LEN" by (simp add: FMT_BUFF_LEN_def)
  moreover have "FMT_BUFF_LEN + 12 \<le> last caps" using assms(8) split(3) by blast
  ultimately obtain se2 n where r: "reply_text GET_RUNNING_SESSIONS (lit ''EORS'' @ nl) cmd ?k1 = Ret (n, put_session (sess_id cmd) se2 ?k1)"
    and se2: "same_session se1 se2" "session_wf se2" "tx (conn se2) = []" "sent (conn se2) = sent (conn se1)
      @ command_image 1 (word_of_nat (nat GET_RUNNING_SESSIONS)) [CString ((lit ''EORS'' @ nl) @ [0])]"
    by (rule tcp_reply [OF at1(2,1) _ se1(3) _ _ refl])
  let ?k2 = "put_session (sess_id cmd) se2 ?k1"
  have at2: "map_at (session_pool ?k2) (sess_id cmd) = Some se2" using at by (simp add: put_session_def at_assign)
  have p: "print DEBUG t ?k2 = Ret (if verbose (config ks) then put (ToStdout t) ?k2 else ?k2)" for t
    by (simp add: print_def emit_error_def call_syslog_def print_msg_def less_eq_severity_def put_session_def put_def)
  have at3: "get_session (sess_id cmd) (if verbose (config ks) then put (ToStdout t) ?k2 else ?k2) = Ret se2" for t
    using at2 by (simp add: get_session_def put_def)
  show ?thesis
    using l r p at3 se2(4) se1(4)
    by (simp add: get_running_sessions_def Let_def not_less [THEN iffD2, OF to_uint_nonneg] operations)
qed

definition listing_server :: "unit kserver" where
  "listing_server = sample_server\<lparr>session_pool :=
       [(0, Session TCP (connection_of \<lparr>rx = [], tx = map TxAccept [2000, 2000], sent = []\<rparr>) 0)],
     reusable_ids := [], num_sess := 1, subscribers := [[], [], []]\<rparr>"

lemma listing_mgr_inv: "mgr_inv listing_server"
proof -
  have "pool_wf (session_pool listing_server)"
    by (simp add: pool_wf_def listing_server_def map_sorted_def map_keys_def map_at_def session_wf_new)
      (simp add: session_new)
  then show ?thesis
    by (auto simp: mgr_inv_def comm_inv_def get_current_ids_def listing_server_def map_keys_def subs_wf_def
        subs_within_def members_def channels less_Suc_eq numeral_3_eq_3)
qed

theorem running_sessions_lists_all_witness:
  "\<exists>ks' se'. get_running_sessions sample_external (sample_cmd 0 4) listing_server = Ret (0, ks')
    \<and> get_session 0 ks' = Ret se' \<and> sent (conn se') = command_image 1 4 [CString (lit ''0:TCP::0:0:0:12'' @ nl @ [0])]
        @ command_image 1 4 [CString (lit ''EORS'' @ nl @ [0])]"
proof -
  let ?se = "Session TCP (connection_of \<lparr>rx = [], tx = map TxAccept [2000, 2000], sent = []\<rparr>) 0"
  let ?l = "lit ''0:TCP::0:0:0:12'' @ nl"
  have get: "get_session 0 listing_server = Ret ?se"
    by (simp add: get_session_def listing_server_def map_at_def)
  have "session_line 12 0 ?se = Ret ?l"
    by (simp add: session_line_def sock_type_name_def session_new PeerInfo_def fill_up_def fmt_u_def fmt_d_def
        digits.simps bytes_of_string_def to_uint_def)
  then have "lines_of (now sample_external) listing_server (get_current_ids listing_server) [?l]"
    using get by (simp add: lines_of_def get_current_ids_def sample_external_def)
      (simp add: listing_server_def map_keys_def)
  moreover have "sess_id (sample_cmd 0 4) = 0" by (simp add: sample_cmd_def)
  moreover have "kind ?se = TCP" "tx (conn ?se) = map TxAccept [2000, 2000]" "sent (conn ?se) = []"
    by (simp_all add: session_new)
  ultimately show ?thesis
    using running_sessions_lists_all [OF listing_mgr_inv, of "sample_cmd 0 4" ?se sample_external "[?l]" "[2000, 2000]"] get
    by (simp add: FMT_BUFF_LEN_def)
qed

text \<open>\<open>GET_STATS\<close> reports success whatever happens to its replies. In a state that satisfies the
  invariant of the sessions, the command, sent by a live session, returns 0 also when every
  \<open>send\<close> fails: each result is compared with 0 only after its conversion to an unsigned type.\<close>

theorem get_stats_never_fails:
  assumes "mgr_inv ks" and "sess_id cmd \<in> set (get_current_ids ks)" and "listeners_ok ks"
  shows "safe_res (\<lambda>(r, ks'). r = 0) (get_stats ext cmd ks)"
  by (rule safe_res_mono [OF get_stats_safe]) (use assms in \<open>auto simp: get_current_ids_def\<close>)

definition failing_server :: "unit kserver" where
  "failing_server = listing_server\<lparr>session_pool :=
     [(0, Session TCP (connection_of \<lparr>rx = [], tx = replicate 5 TxErr, sent = []\<rparr>) 0)]\<rparr>"

lemma failing_mgr_inv: "mgr_inv failing_server" "listeners_ok failing_server" "get_current_ids failing_server = [0]"
proof -
  have "pool_wf (session_pool failing_server)"
    by (simp add: pool_wf_def failing_server_def map_sorted_def map_keys_def map_at_def session_wf_new)
      (simp add: session_new)
  then show "mgr_inv failing_server"
    by (auto simp: mgr_inv_def comm_inv_def get_current_ids_def failing_server_def listing_server_def map_keys_def
        subs_wf_def subs_within_def members_def channels less_Suc_eq numeral_3_eq_3)
  show "listeners_ok failing_server" "get_current_ids failing_server = [0]"
    using sample_listeners_ok
    by (simp_all add: listeners_ok_def failing_server_def listing_server_def get_current_ids_def map_keys_def)
qed

theorem get_stats_never_fails_witness:
  "safe_res (\<lambda>(r, ks'). r = 0) (get_stats sample_external (sample_cmd 0 2) failing_server)"
  by (rule get_stats_never_fails [OF failing_mgr_inv(1) _ failing_mgr_inv(2)])
    (simp add: failing_mgr_inv(3), simp add: sample_cmd_def)

text \<open>A Unix session is listed as a TCP one, and a channel is taken modulo 65536.\<close>

lemma unix_session_listed_as_tcp: "sock_type_name (Session UNIX c i) = Ret (lit ''TCP'')"
  by (simp add: sock_type_name_def Session_def session_kind_def)

lemma subscribe_wraps: "subscribe (ucast (0x10001 :: u32)) sid subs = subscribe 1 sid subs"
proof -
  have "(ucast (0x10001 :: u32) :: u16) = 1" by (simp add: word_uint_eq_iff)
  then show ?thesis by (rule arg_cong)
qed

end
