(* ===== verification/DeviceManager.thy ===== *)
theory DeviceManager
  imports KServerCommands
begin

text \<open>
  The device manager of \<open>core/devices_manager.hpp\<close> and \<open>.cpp\<close>: devices are built on first use,
  a constructor may ask for other devices, a circular demand is detected by the flag of a device
  that is being built. The recursion from \<open>alloc_device\<close> through the constructor and \<open>get\<close> back
  to \<open>alloc_device\<close> runs on fuel; \<open>alloc_device_returns\<close> shows that \<open>device_num\<close> is enough for
  any demands, circular ones included.
\<close>

section \<open>Operations\<close>

definition flag :: "bool list \<Rightarrow> nat \<Rightarrow> bool" where
  "flag xs dev = xs ! (dev - 2)"

definition set_flag :: "nat \<Rightarrow> bool \<Rightarrow> bool list \<Rightarrow> bool list" where
  "set_flag dev b xs = xs[dev - 2 := b]"

definition on_dm :: "(dev_manager \<Rightarrow> dev_manager) \<Rightarrow> 'w kserver \<Rightarrow> 'w kserver" where
  "on_dm f ks = ks\<lparr>dev_manager := f (dev_manager ks)\<rparr>"

text \<open>What \<open>DevicesContainer::alloc\<close> does after the constructor's demands, and what
  \<open>DeviceManager::alloc_device\<close> does after the container's success.\<close>

definition cont_built :: "'w external \<Rightarrow> nat \<Rightarrow> 'w kserver \<Rightarrow> 'w kserver" where
  "cont_built ext dev ks =
     on_dm (cont_is_started_update (set_flag dev True))
     (on_dm (cont_is_starting_update (set_flag dev False))
     (on_dm (devtup_update (set_flag dev True)) (ks\<lparr>devices := build ext dev (devices ks)\<rparr>)))"

definition dm_built :: "nat \<Rightarrow> 'w kserver \<Rightarrow> 'w kserver" where
  "dm_built dev ks = on_dm (dm_is_started_update (set_flag dev True))
     (on_dm (device_list_update (set_flag dev True)) ks)"

text \<open>\<open>DevicesContainer::alloc\<close>; \<open>construct\<close> are the demands of the constructor, \<open>build\<close> the rest.\<close>

definition cont_alloc :: "('w kserver \<Rightarrow> 'w kserver res option) \<Rightarrow> 'w external \<Rightarrow> nat \<Rightarrow> 'w kserver
    \<Rightarrow> (int \<times> 'w kserver) res option" where
  "cont_alloc construct ext dev ks =
     (if flag (cont_is_started (dev_manager ks)) dev then Some (Ret (0, ks))
      else if flag (cont_is_starting (dev_manager ks)) dev then
        bind_ro (Some (print CRITICAL (lit ''Circular dependency detected while initializing device [''
          @ fmt_u (int dev) @ lit ''] '' @ dev_name ext dev @ nl) ks)) (\<lambda>ks. Some (Ret (-1, ks)))
      else
        bind_ro (construct (on_dm (cont_is_starting_update (set_flag dev True)) ks)) (\<lambda>ks.
          Some (Ret (0, cont_built ext dev ks))))"

text \<open>
  \<open>DeviceManager::alloc_device\<close>, and the demands of a constructor, each a call of
  \<open>Context::get\<close>, which allocates the device when it is not started and then dereferences its
  pointer in the container: undefined when the allocation failed.
\<close>

fun alloc_device :: "nat \<Rightarrow> 'w external \<Rightarrow> nat \<Rightarrow> 'w kserver \<Rightarrow> 'w kserver res option"
  and get_devices :: "nat \<Rightarrow> 'w external \<Rightarrow> nat list \<Rightarrow> 'w kserver \<Rightarrow> 'w kserver res option" where
  "alloc_device 0 ext dev ks = None"
| "alloc_device (Suc fuel) ext dev ks =
     (if flag (dm_is_started (dev_manager ks)) dev then Some (Ret ks)
      else
        bind_ro (Some (print INFO (lit ''Device Manager: Starting device ['' @ fmt_u (int dev) @ lit ''] ''
          @ dev_name ext dev @ lit ''...'' @ nl) ks)) (\<lambda>ks.
        bind_ro (cont_alloc (get_devices fuel ext (deps ext dev)) ext dev ks) (\<lambda>(r, ks).
          if r < 0 then
            bind_ro (Some (print PANIC (lit ''Failed to allocate device ['' @ fmt_u (int dev) @ lit ''] ''
              @ dev_name ext dev @ lit ''. Exiting server...'' @ nl) ks)) (\<lambda>ks. Some (Ret (ks\<lparr>exit_all := True\<rparr>)))
          else Some (Ret (dm_built dev ks)))))"
| "get_devices fuel ext [] ks = Some (Ret ks)"
| "get_devices fuel ext (d # ds) ks =
     bind_ro (if flag (dm_is_started (dev_manager ks)) d then Some (Ret ks) else alloc_device fuel ext d ks) (\<lambda>ks.
       if flag (devtup (dev_manager ks)) d then get_devices fuel ext ds ks else Some Undef)"

text \<open>The dispatch over the device numbers, instantiated at compile time for \<open>2 .. device_num - 1\<close>.\<close>

fun start_impl :: "'w external \<Rightarrow> nat list \<Rightarrow> nat \<Rightarrow> 'w kserver \<Rightarrow> 'w kserver res option" where
  "start_impl ext [] dev ks = Some Undef"
| "start_impl ext [dev0] dev ks = alloc_device (device_num ext) ext dev0 ks"
| "start_impl ext (dev0 # dev1 # devs) dev ks =
     (if dev = dev0 then alloc_device (device_num ext) ext dev0 ks else start_impl ext (dev1 # devs) dev ks)"

definition dm_start :: "'w external \<Rightarrow> nat \<Rightarrow> 'w kserver \<Rightarrow> 'w kserver res option" where
  "dm_start ext dev ks = start_impl ext [2 ..< device_num ext] dev ks"

text \<open>\<open>dev_kind\<close> is the \<open>kind\<close> of the object the pointer refers to.\<close>

fun execute_dev_impl :: "'w external \<Rightarrow> nat list \<Rightarrow> nat \<Rightarrow> command \<Rightarrow> 'w kserver \<Rightarrow> (int \<times> 'w kserver) res" where
  "execute_dev_impl ext [] dev_kind cmd ks = Undef"
| "execute_dev_impl ext [dev0] dev_kind cmd ks = dev_execute ext dev0 cmd ks"
| "execute_dev_impl ext (dev0 # dev1 # devs) dev_kind cmd ks =
     (if dev_kind = dev0 then dev_execute ext dev0 cmd ks else execute_dev_impl ext (dev1 # devs) dev_kind cmd ks)"

definition execute_dev :: "'w external \<Rightarrow> nat \<Rightarrow> command \<Rightarrow> 'w kserver \<Rightarrow> (int \<times> 'w kserver) res" where
  "execute_dev ext dev cmd ks =
     (if flag (device_list (dev_manager ks)) dev
      then execute_dev_impl ext [2 ..< device_num ext] dev cmd ks else Undef)"

text \<open>The assertion on the device number is compiled out: an unknown number indexes past the arrays.\<close>

definition dm_execute :: "'w external \<Rightarrow> command \<Rightarrow> 'w kserver \<Rightarrow> (int \<times> 'w kserver) res option" where
  "dm_execute ext cmd ks =
     (if device cmd = 0 then Some (Ret (0, ks))
      else if device cmd = 1 then Some (kserver_execute ext cmd ks)
      else if device_num ext \<le> device cmd then Some Undef
      else
        bind_ro (if \<not> flag (dm_is_started (dev_manager ks)) (device cmd) then dm_start ext (device cmd) ks
                 else Some (Ret ks))
          (\<lambda>ks. Some (execute_dev ext (device cmd) cmd ks)))"

text \<open>\<open>ctx_init\<close> is what the initialisation of the context returns.\<close>

definition dm_init :: "int \<Rightarrow> 'w kserver \<Rightarrow> (int \<times> 'w kserver) res" where
  "dm_init ctx_init ks =
     (if ctx_init < 0 then bind_res (print CRITICAL (lit ''Context initialization failed'' @ nl) ks) (\<lambda>ks. Ret (-1, ks))
      else Ret (0, ks))"

definition dm_get :: "'w external \<Rightarrow> nat \<Rightarrow> 'w kserver \<Rightarrow> 'w kserver res option" where
  "dm_get ext dev ks = get_devices (device_num ext) ext [dev] ks"

section \<open>Dispatch\<close>

lemma start_impl_eq:
  "dev \<in> set devs \<Longrightarrow> start_impl ext devs dev ks = alloc_device (device_num ext) ext dev ks"
  by (induction ext devs dev ks rule: start_impl.induct) auto

lemma execute_dev_impl_eq:
  "dev \<in> set devs \<Longrightarrow> execute_dev_impl ext devs dev cmd ks = dev_execute ext dev cmd ks"
  by (induction ext devs dev cmd ks rule: execute_dev_impl.induct) auto

section \<open>State of the manager\<close>

text \<open>
  Between two calls the flags agree: \<open>S\<close> tells which devices are built, \<open>P\<close> which are being built.
\<close>

definition dm_state :: "'w external \<Rightarrow> bool list \<Rightarrow> bool list \<Rightarrow> 'w kserver \<Rightarrow> bool" where
  "dm_state ext S P ks \<longleftrightarrow> length S = device_num ext - 2 \<and> length P = device_num ext - 2 \<and> dev_manager ks =
     \<lparr>cont_is_started = S, cont_is_starting = P, devtup = S, device_list = S, dm_is_started = S\<rparr>"

definition devs :: "'w external \<Rightarrow> nat set" where
  "devs ext = {2 ..< device_num ext}"

definition marked :: "'w external \<Rightarrow> bool list \<Rightarrow> nat set" where
  "marked ext S = {d \<in> devs ext. flag S d}"

lemma marked_set:
  "d \<in> devs ext \<Longrightarrow> length S = device_num ext - 2 \<Longrightarrow>
   marked ext (set_flag d b S) = (if b then insert d (marked ext S) else marked ext S - {d})"
  by (auto simp: marked_def flag_def set_flag_def devs_def nth_list_update split: if_splits)

lemma length_set_flag [simp]: "length (set_flag d b S) = length S"
  by (simp add: set_flag_def)

lemma flag_marked: "d \<in> devs ext \<Longrightarrow> flag S d \<longleftrightarrow> d \<in> marked ext S"
  by (simp add: marked_def)

lemma set_flag_undo: "d \<in> devs ext \<Longrightarrow> length P = device_num ext - 2 \<Longrightarrow> \<not> flag P d \<Longrightarrow> set_flag d False (set_flag d True P) = P"
  by (auto simp: set_flag_def flag_def list_update_same_conv devs_def)

lemma dm_state_sends: "dm_state ext S P ks \<Longrightarrow> sends ks ks' \<Longrightarrow> dm_state ext S P ks'"
  using only_sends_frame(5) [of ks ks'] by (simp add: dm_state_def sends_def)

text \<open>A demand that returns: a value with the postcondition, or one of the other outcomes.\<close>

definition returns :: "('a \<Rightarrow> bool) \<Rightarrow> 'a res option \<Rightarrow> bool" where
  "returns Q m \<longleftrightarrow> (\<exists>r. m = Some r \<and> (\<forall>x. r = Ret x \<longrightarrow> Q x))"

lemma returns_simps [simp]:
  "returns Q (Some (Ret x)) = Q x" "returns Q (Some Undef)" "returns Q (Some Wait)" "returns Q (Some Throw)"
  "\<not> returns Q None"
  by (simp_all add: returns_def)

lemma returns_bind: "returns Q m \<Longrightarrow> (\<And>x. Q x \<Longrightarrow> returns R (f x)) \<Longrightarrow> returns R (bind_ro m f)"
  by (cases m rule: option.exhaust; cases "the m") (auto simp: returns_def)

lemma returns_mono: "returns Q m \<Longrightarrow> (\<And>x. Q x \<Longrightarrow> R x) \<Longrightarrow> returns R m"
  by (auto simp: returns_def)

lemma print_returns:
  assumes "mgr_inv ks" and "dm_state ext S P ks"
  shows "returns (\<lambda>k. mgr_inv k \<and> dm_state ext S P k \<and> sends ks k) (Some (print sev text ks))"
proof -
  have "safe_res (sends ks) (print sev text ks)" using assms(1) by (intro print_safe) (simp add: mgr_inv_def)
  then show ?thesis
    using mgr_inv_sends [OF assms(1)] dm_state_sends [OF assms(2)]
    by (cases "print sev text ks") (auto simp: returns_def)
qed

lemma mgr_inv_dm [simp]: "mgr_inv (on_dm f ks) = mgr_inv ks" "mgr_inv (ks\<lparr>devices := w\<rparr>) = mgr_inv ks"
  "mgr_inv (ks\<lparr>exit_all := b\<rparr>) = mgr_inv ks" "mgr_inv (ks\<lparr>dev_manager := d\<rparr>) = mgr_inv ks"
  by (simp_all add: mgr_inv_def comm_inv_def get_current_ids_def on_dm_def)

lemma dm_state_exit [simp]: "dm_state ext S P (ks\<lparr>exit_all := b\<rparr>) = dm_state ext S P ks"
  by (simp add: dm_state_def)

text \<open>The number of devices that are neither built nor being built.\<close>

definition free_devs :: "'w external \<Rightarrow> bool list \<Rightarrow> bool list \<Rightarrow> nat set" where
  "free_devs ext S P = devs ext - marked ext S - marked ext P"

lemma finite_free [simp]: "finite (free_devs ext S P)"
  by (simp add: free_devs_def devs_def)

lemma card_free: "d \<in> devs ext \<Longrightarrow> card (free_devs ext S P) < device_num ext"
proof -
  assume "d \<in> devs ext"
  have "card (free_devs ext S P) \<le> card (devs ext)" by (intro card_mono) (auto simp: free_devs_def devs_def)
  also have "\<dots> < device_num ext" using \<open>d \<in> devs ext\<close> by (simp add: devs_def)
  finally show ?thesis .
qed

text \<open>What is known after an allocation, whatever its result.\<close>

definition grown :: "'w external \<Rightarrow> bool list \<Rightarrow> bool list \<Rightarrow> 'w kserver \<Rightarrow> bool" where
  "grown ext S P ks \<longleftrightarrow> mgr_inv ks \<and> (\<exists>S'. dm_state ext S' P ks \<and> marked ext S \<subseteq> marked ext S')"

lemma dm_state_starting:
  "dm_state ext S P ks \<Longrightarrow> dm_state ext S (set_flag d True P) (on_dm (cont_is_starting_update (set_flag d True)) ks)"
  by (simp add: dm_state_def on_dm_def)

text \<open>A device whose constructor has come to its end is entered in every table.\<close>

lemma dm_state_built:
  assumes "dm_state ext S (set_flag d True P) ks" and "d \<in> devs ext" and "length P = device_num ext - 2" and "\<not> flag P d"
  shows "dm_state ext (set_flag d True S) P (dm_built d (cont_built ext d ks))"
  using assms set_flag_undo [OF assms(2,3,4)] by (simp add: dm_state_def on_dm_def dm_built_def cont_built_def)

lemma mgr_inv_built [simp]: "mgr_inv (dm_built d ks) = mgr_inv ks" "mgr_inv (cont_built ext d ks) = mgr_inv ks"
  by (simp_all add: dm_built_def cont_built_def)

lemma alloc_get_returns:
  "mgr_inv ks \<Longrightarrow> dm_state ext S P ks \<Longrightarrow> d \<in> devs ext \<Longrightarrow> (\<forall>d \<in> devs ext. set (deps ext d) \<subseteq> devs ext)
    \<Longrightarrow> card (free_devs ext S P) < n \<Longrightarrow> returns (grown ext S P) (alloc_device n ext d ks)"
  "mgr_inv ks \<Longrightarrow> dm_state ext S P ks \<Longrightarrow> set ds \<subseteq> devs ext \<Longrightarrow> (\<forall>d \<in> devs ext. set (deps ext d) \<subseteq> devs ext)
    \<Longrightarrow> card (free_devs ext S P) < n \<Longrightarrow> returns (grown ext S P) (get_devices n ext ds ks)"
proof (induction n ext d ks and n ext ds ks arbitrary: S P and S P rule: alloc_device_get_devices.induct)
  case (1 ext dev ks)
  then show ?case by simp
next
  case (2 n ext d ks)
  have len: "length P = device_num ext - 2" "length S = device_num ext - 2" using "2.prems"(2) by (simp_all add: dm_state_def)
  have g0: "grown ext S P k" if "mgr_inv k" "dm_state ext S P k" for k
    using that by (auto simp: grown_def)
  have built: "returns (\<lambda>(r, k). if r < 0 then mgr_inv k \<and> dm_state ext S P k
        else grown ext S P (dm_built d k)) (cont_alloc (get_devices n ext (deps ext d)) ext d k)"
    if k: "mgr_inv k" "dm_state ext S P k" and ns: "\<not> flag S d" for k
  proof (cases "flag P d")
    case True
    then have "cont_alloc (get_devices n ext (deps ext d)) ext d k
        = bind_ro (Some (print CRITICAL (lit ''Circular dependency detected while initializing device [''
          @ fmt_u (int d) @ lit ''] '' @ dev_name ext d @ nl) k)) (\<lambda>ks. Some (Ret (-1, ks)))"
      using ns k(2) by (simp add: cont_alloc_def dm_state_def)
    then show ?thesis by (simp only:) (rule returns_bind [OF print_returns [OF k]], simp)
  next
    case False
    let ?k = "on_dm (cont_is_starting_update (set_flag d True)) k"
    have "free_devs ext S (set_flag d True P) = free_devs ext S P - {d}"
      using "2.prems"(3) len by (auto simp: free_devs_def marked_set)
    moreover have "d \<in> free_devs ext S P" using "2.prems"(3) ns False by (auto simp: free_devs_def flag_marked)
    ultimately have "card (free_devs ext S (set_flag d True P)) < card (free_devs ext S P)"
      by (metis card_Diff1_less finite_free)
    then have "card (free_devs ext S (set_flag d True P)) < n" using "2.prems"(5) by linarith
    moreover have "\<not> flag (dm_is_started (dev_manager ks)) d" using "2.prems"(2) ns by (simp add: dm_state_def)
    moreover have "mgr_inv ?k" "dm_state ext S (set_flag d True P) ?k" using k dm_state_starting by auto
    moreover have "set (deps ext d) \<subseteq> devs ext" using "2.prems"(3,4) by blast
    ultimately have g: "returns (grown ext S (set_flag d True P)) (get_devices n ext (deps ext d) ?k)"
      using "2.IH" "2.prems"(4) by blast
    have fin: "grown ext S P (dm_built d (cont_built ext d k1))" if gk: "grown ext S (set_flag d True P) k1" for k1
    proof -
      obtain S' where S': "mgr_inv k1" "dm_state ext S' (set_flag d True P) k1" "marked ext S \<subseteq> marked ext S'"
        using gk by (auto simp: grown_def)
      moreover from S'(2) have "length S' = device_num ext - 2" by (simp add: dm_state_def)
      ultimately show ?thesis
        using "2.prems"(3) dm_state_built [OF S'(2) "2.prems"(3) len(1) False]
        by (auto simp: grown_def marked_set intro!: exI [of _ "set_flag d True S'"])
    qed
    have "cont_alloc (get_devices n ext (deps ext d)) ext d k
        = bind_ro (get_devices n ext (deps ext d) ?k) (\<lambda>ks. Some (Ret (0, cont_built ext d ks)))"
      using ns False k(2) by (simp add: cont_alloc_def dm_state_def)
    then show ?thesis by (simp only:) (rule returns_bind [OF g], simp add: fin)
  qed
  show ?case
  proof (cases "flag S d")
    case True
    with "2.prems" g0 show ?thesis by (simp add: dm_state_def)
  next
    case False
    then have "\<not> flag (dm_is_started (dev_manager ks)) d" using "2.prems"(2) by (simp add: dm_state_def)
    then show ?thesis
      unfolding alloc_device.simps if_not_P [OF \<open>\<not> flag (dm_is_started (dev_manager ks)) d\<close>]
      by (intro returns_bind [OF print_returns [OF "2.prems"(1,2)]] returns_bind [OF built])
        (auto simp: False intro!: returns_bind [OF print_returns] g0 split: if_splits)
  qed
next
  case (3 fuel ext ks)
  then show ?case by (auto simp: grown_def)
next
  case (4 n ext d ds ks)
  have a: "returns (grown ext S P) (if flag (dm_is_started (dev_manager ks)) d then Some (Ret ks) else alloc_device n ext d ks)"
  proof (cases "flag (dm_is_started (dev_manager ks)) d")
    case True
    with "4.prems" show ?thesis by (auto simp: grown_def)
  next
    case False
    with "4.prems" "4.IH"(1) [of S P] show ?thesis by simp
  qed
  show ?case
    unfolding get_devices.simps
  proof (rule returns_bind [OF a])
    fix k assume "grown ext S P k"
    then obtain S' where S': "mgr_inv k" "dm_state ext S' P k" "marked ext S \<subseteq> marked ext S'" by (auto simp: grown_def)
    have "card (free_devs ext S' P) \<le> card (free_devs ext S P)"
      using S'(3) by (intro card_mono finite_free) (auto simp: free_devs_def)
    then have "returns (grown ext S' P) (get_devices n ext ds k)" if "flag (devtup (dev_manager k)) d"
      using that "4.IH"(2) [of k S' P] "4.prems" S' by auto
    then show "returns (grown ext S P) (if flag (devtup (dev_manager k)) d then get_devices n ext ds k else Some Undef)"
      using S'(3) by (auto elim!: returns_mono) (meson grown_def order_trans)
  qed
qed

section \<open>Order of construction\<close>

text \<open>The devices \<open>bs\<close> are built one after the other, each once and after what it asks for, when the
  devices \<open>D\<close> exist.\<close>

fun dep_order :: "(nat \<Rightarrow> nat list) \<Rightarrow> nat set \<Rightarrow> nat list \<Rightarrow> bool" where
  "dep_order dp D [] = True"
| "dep_order dp D (b # bs) = (b \<notin> D \<and> set (dp b) \<subseteq> D \<and> dep_order dp (insert b D) bs)"

lemma dep_order_append: "dep_order dp D (xs @ ys) = (dep_order dp D xs \<and> dep_order dp (D \<union> set xs) ys)"
  by (induction dp D xs rule: dep_order.induct) auto

lemma dep_order_distinct: "dep_order dp D bs \<Longrightarrow> distinct bs \<and> set bs \<inter> D = {}"
  by (induction dp D bs rule: dep_order.induct) auto

definition fine :: "('a \<Rightarrow> bool) \<Rightarrow> 'a res option \<Rightarrow> bool" where
  "fine Q m \<longleftrightarrow> (case m of None \<Rightarrow> True | Some r \<Rightarrow> safe_res Q r)"

lemma fine_simps [simp]: "fine Q None" "fine Q (Some r) = safe_res Q r"
  by (simp_all add: fine_def)

lemma fine_bind: "fine Q m \<Longrightarrow> (\<And>x. Q x \<Longrightarrow> fine R (f x)) \<Longrightarrow> fine R (bind_ro m f)"
  by (cases m rule: option.exhaust; cases "the m") auto

lemma fine_mono: "fine Q m \<Longrightarrow> (\<And>x. Q x \<Longrightarrow> R x) \<Longrightarrow> fine R m"
  by (cases m) (auto elim: safe_res_mono)

text \<open>From \<open>ks\<close> with the devices \<open>S\<close> to \<open>k\<close> with more: what was built, of rank below \<open>r\<close>.\<close>

definition built_to :: "'w external \<Rightarrow> (nat \<Rightarrow> nat) \<Rightarrow> nat \<Rightarrow> bool list \<Rightarrow> bool list \<Rightarrow> 'w kserver \<Rightarrow> nat set \<Rightarrow> 'w kserver \<Rightarrow> bool" where
  "built_to ext rank r S P ks D k \<longleftrightarrow> mgr_inv k \<and> map_keys (session_pool k) = map_keys (session_pool ks)
     \<and> exit_all k = exit_all ks
     \<and> (\<exists>S' bs. dm_state ext S' P k \<and> marked ext S' = marked ext S \<union> set bs \<and> D \<subseteq> marked ext S'
          \<and> dep_order (deps ext) (marked ext S) bs \<and> (\<forall>b \<in> set bs. b \<in> devs ext \<and> rank b < r)
          \<and> devices k = fold (build ext) bs (devices ks))"

lemma built_to_sends:
  assumes "mgr_inv ks" and "dm_state ext S P ks" and "sends ks k"
  shows "mgr_inv k" "dm_state ext S P k" "map_keys (session_pool k) = map_keys (session_pool ks)"
    "exit_all k = exit_all ks" "devices k = devices ks"
  using mgr_inv_sends [OF assms(1,3)] dm_state_sends [OF assms(2,3)] assms(3) only_sends_frame(6,9,10) [of ks k]
  by (simp_all add: sends_def)

lemma print_fine:
  assumes "mgr_inv ks"
  shows "fine (sends ks) (Some (print sev text ks))"
  using print_safe [of ks sev "text"] assms by (simp add: mgr_inv_def)

text \<open>No device asks, directly or not, for itself: demands go down in some rank.\<close>

definition acyclic_by :: "(nat \<Rightarrow> nat) \<Rightarrow> 'w external \<Rightarrow> bool" where
  "acyclic_by rank ext \<longleftrightarrow> (\<forall>d \<in> devs ext. \<forall>e \<in> set (deps ext d). e \<in> devs ext \<and> rank e < rank d)"

lemma built_to_refl:
  "mgr_inv ks \<Longrightarrow> dm_state ext S P ks \<Longrightarrow> D \<subseteq> marked ext S \<Longrightarrow> built_to ext rank r S P ks D ks"
  unfolding built_to_def by (intro conjI exI [of _ S] exI [where x = "[] :: nat list"]) simp_all

lemma built_to_mono:
  assumes "built_to ext rank r S P ks D k" and "r \<le> r'"
  shows "built_to ext rank r' S P ks D k"
proof -
  from assms(1) obtain S' bs where 1: "dm_state ext S' P k" "marked ext S' = marked ext S \<union> set bs" "D \<subseteq> marked ext S'"
    "dep_order (deps ext) (marked ext S) bs" "\<forall>b \<in> set bs. b \<in> devs ext \<and> rank b < r"
    "devices k = fold (build ext) bs (devices ks)" by (auto simp: built_to_def)
  moreover from 1(5) assms(2) have "\<forall>b \<in> set bs. b \<in> devs ext \<and> rank b < r'" by auto
  ultimately show ?thesis using assms(1) unfolding built_to_def by blast
qed

lemma built_to_from_sends:
  assumes "mgr_inv ks" and "dm_state ext S P ks" and "sends ks k" and "built_to ext rank r S P k D k'"
  shows "built_to ext rank r S P ks D k'"
  using assms(4) built_to_sends [OF assms(1-3)] by (simp add: built_to_def)

lemma built_to_trans:
  assumes "built_to ext rank r S P ks D k" and "dm_state ext S' P k" and "built_to ext rank r' S' P k D' k'" and "r \<le> r''" and "r' \<le> r''"
  shows "built_to ext rank r'' S P ks (D \<union> D') k'"
proof -
  from assms(1) obtain S1 bs where 1: "dm_state ext S1 P k" "marked ext S1 = marked ext S \<union> set bs" "D \<subseteq> marked ext S1"
    "dep_order (deps ext) (marked ext S) bs" "\<forall>b \<in> set bs. b \<in> devs ext \<and> rank b < r"
    "devices k = fold (build ext) bs (devices ks)" by (auto simp: built_to_def)
  have "S1 = S'" using 1(1) assms(2) by (simp add: dm_state_def)
  from assms(3) obtain S2 cs where 2: "dm_state ext S2 P k'" "marked ext S2 = marked ext S' \<union> set cs" "D' \<subseteq> marked ext S2"
    "dep_order (deps ext) (marked ext S') cs" "\<forall>b \<in> set cs. b \<in> devs ext \<and> rank b < r'"
    "devices k' = fold (build ext) cs (devices k)" by (auto simp: built_to_def)
  have "\<exists>S' bs. dm_state ext S' P k' \<and> marked ext S' = marked ext S \<union> set bs \<and> D \<union> D' \<subseteq> marked ext S'
      \<and> dep_order (deps ext) (marked ext S) bs \<and> (\<forall>b \<in> set bs. b \<in> devs ext \<and> rank b < r'')
      \<and> devices k' = fold (build ext) bs (devices ks)"
    using 1 2 assms(4,5) \<open>S1 = S'\<close>
    by (intro exI [of _ S2] exI [of _ "bs @ cs"]) (auto simp: dep_order_append)
  with assms(1,3) show ?thesis by (simp add: built_to_def)
qed

text \<open>The device itself, after its demands.\<close>

lemma built_to_device:
  assumes "built_to ext rank (rank d) S (set_flag d True P) (on_dm (cont_is_starting_update (set_flag d True)) ks) (set (deps ext d)) k"
    and "d \<in> devs ext" and "length P = device_num ext - 2" and "\<not> flag P d" and "d \<notin> marked ext S"
  shows "built_to ext rank (Suc (rank d)) S P ks {d} (dm_built d (cont_built ext d k))"
proof -
  from assms(1) obtain S1 bs where 1: "dm_state ext S1 (set_flag d True P) k" "marked ext S1 = marked ext S \<union> set bs"
    "set (deps ext d) \<subseteq> marked ext S1" "dep_order (deps ext) (marked ext S) bs" "\<forall>b \<in> set bs. b \<in> devs ext \<and> rank b < rank d"
    "devices k = fold (build ext) bs (devices ks)" by (auto simp: built_to_def on_dm_def)
  have len: "length S1 = device_num ext - 2" using 1(1) by (simp add: dm_state_def)
  have "d \<notin> set bs" using 1(5) by auto
  then have "dep_order (deps ext) (marked ext S) (bs @ [d])" using 1 assms(5) by (simp add: dep_order_append)
  moreover have "dm_state ext (set_flag d True S1) P (dm_built d (cont_built ext d k))"
    by (rule dm_state_built [OF 1(1) assms(2-4)])
  moreover have "marked ext (set_flag d True S1) = marked ext S \<union> set (bs @ [d])"
    using marked_set [OF assms(2) len] 1(2) by simp
  moreover have "devices (dm_built d (cont_built ext d k)) = fold (build ext) (bs @ [d]) (devices ks)"
    using 1(6) by (simp add: dm_built_def cont_built_def on_dm_def)
  moreover have "\<forall>b \<in> set (bs @ [d]). b \<in> devs ext \<and> rank b < Suc (rank d)"
    using 1(5) assms(2) less_SucI by auto
  ultimately have "\<exists>S' bs. dm_state ext S' P (dm_built d (cont_built ext d k)) \<and> marked ext S' = marked ext S \<union> set bs
      \<and> {d} \<subseteq> marked ext S' \<and> dep_order (deps ext) (marked ext S) bs \<and> (\<forall>b \<in> set bs. b \<in> devs ext \<and> rank b < Suc (rank d))
      \<and> devices (dm_built d (cont_built ext d k)) = fold (build ext) bs (devices ks)"
    by (intro exI [of _ "set_flag d True S1"] exI [of _ "bs @ [d]"]) auto
  with assms(1) show ?thesis
    by (simp add: built_to_def) (simp add: dm_built_def cont_built_def on_dm_def)
qed

lemma alloc_get_fine:
  assumes "acyclic_by rank ext"
  shows "mgr_inv ks \<Longrightarrow> dm_state ext S P ks \<Longrightarrow> d \<in> devs ext \<Longrightarrow> (\<forall>p \<in> marked ext P. Suc (rank d) \<le> rank p)
      \<Longrightarrow> fine (built_to ext rank (Suc (rank d)) S P ks {d}) (alloc_device n ext d ks)"
    and "mgr_inv ks \<Longrightarrow> dm_state ext S P ks \<Longrightarrow> (\<forall>e \<in> set ds. e \<in> devs ext \<and> rank e < r) \<Longrightarrow> (\<forall>p \<in> marked ext P. r \<le> rank p)
      \<Longrightarrow> fine (built_to ext rank r S P ks (set ds)) (get_devices n ext ds ks)"
  using assms
proof (induction n ext d ks and n ext ds ks arbitrary: S P and S P r rule: alloc_device_get_devices.induct)
  case (2 n ext d ks)
  have len: "length P = device_num ext - 2" using "2.prems"(2) by (simp add: dm_state_def)
  show ?case
  proof (cases "d \<in> marked ext S")
    case True
    then have "flag (dm_is_started (dev_manager ks)) d" using "2.prems"(2,3) by (simp add: dm_state_def flag_marked)
    with True "2.prems" show ?thesis by (simp add: built_to_refl)
  next
    case False
    have ns: "\<not> flag (dm_is_started (dev_manager ks)) d" "\<not> flag S d"
      using False "2.prems"(2,3) by (simp_all add: dm_state_def flag_marked)
    have nP: "\<not> flag P d" using "2.prems"(3,4) by (auto simp: flag_marked)
    have con: "fine (\<lambda>(r, k'). r = 0 \<and> built_to ext rank (Suc (rank d)) S P k {d} (dm_built d k'))
        (cont_alloc (get_devices n ext (deps ext d)) ext d k)" if k: "mgr_inv k" "dm_state ext S P k" for k
    proof -
      let ?k = "on_dm (cont_is_starting_update (set_flag d True)) k"
      have "mgr_inv ?k" "dm_state ext S (set_flag d True P) ?k" using k dm_state_starting by auto
      moreover have "\<forall>e \<in> set (deps ext d). e \<in> devs ext \<and> rank e < rank d"
        using "2.prems"(3,5) by (auto simp: acyclic_by_def)
      moreover have "\<forall>p \<in> marked ext (set_flag d True P). rank d \<le> rank p"
        using "2.prems"(3,4) len by (auto simp: marked_set)
      ultimately have g: "fine (built_to ext rank (rank d) S (set_flag d True P) ?k (set (deps ext d))) (get_devices n ext (deps ext d) ?k)"
        using "2.IH" [OF ns(1)] "2.prems"(5) by blast
      have "cont_alloc (get_devices n ext (deps ext d)) ext d k
          = bind_ro (get_devices n ext (deps ext d) ?k) (\<lambda>ks. Some (Ret (0, cont_built ext d ks)))"
        using ns(2) nP k(2) by (simp add: cont_alloc_def dm_state_def)
      then show ?thesis
        by (simp only:) (rule fine_bind [OF g], simp add: built_to_device [OF _ "2.prems"(3) len nP False])
    qed
    show ?thesis
      unfolding alloc_device.simps if_not_P [OF ns(1)]
    proof (rule fine_bind [OF print_fine [OF "2.prems"(1)]])
      fix k assume s: "sends ks k"
      note k = built_to_sends [OF "2.prems"(1,2) s]
      show "fine (built_to ext rank (Suc (rank d)) S P ks {d})
          (bind_ro (cont_alloc (get_devices n ext (deps ext d)) ext d k) (\<lambda>(r, ks). if r < 0 then
            bind_ro (Some (print PANIC (lit ''Failed to allocate device ['' @ fmt_u (int d) @ lit ''] ''
              @ dev_name ext d @ lit ''. Exiting server...'' @ nl) ks)) (\<lambda>ks. Some (Ret (ks\<lparr>exit_all := True\<rparr>)))
          else Some (Ret (dm_built d ks))))"
        by (rule fine_bind [OF con [OF k(1,2)]])
          (use built_to_from_sends [OF "2.prems"(1,2) s] in auto)
    qed
  qed
next
  case (3 fuel ext ks)
  then show ?case by (simp add: built_to_refl)
next
  case (4 n ext d ds ks)
  have a: "fine (built_to ext rank r S P ks {d}) (if flag (dm_is_started (dev_manager ks)) d then Some (Ret ks) else alloc_device n ext d ks)"
  proof (cases "flag (dm_is_started (dev_manager ks)) d")
    case True
    then have "{d} \<subseteq> marked ext S" using "4.prems"(2,3) by (simp add: dm_state_def marked_def)
    with True "4.prems" show ?thesis by (simp add: built_to_refl)
  next
    case False
    have "\<forall>p \<in> marked ext P. Suc (rank d) \<le> rank p" "Suc (rank d) \<le> r" "d \<in> devs ext"
      using "4.prems"(3,4) by (auto simp: Suc_le_eq intro: less_le_trans)
    then have "fine (built_to ext rank (Suc (rank d)) S P ks {d}) (alloc_device n ext d ks)"
      using False "4.IH"(1) "4.prems" by blast
    then have "fine (built_to ext rank r S P ks {d}) (alloc_device n ext d ks)"
      by (rule fine_mono) (rule built_to_mono [OF _ \<open>Suc (rank d) \<le> r\<close>])
    with False show ?thesis by simp
  qed
  show ?case
    unfolding get_devices.simps
  proof (rule fine_bind [OF a])
    fix k assume b: "built_to ext rank r S P ks {d} k"
    then obtain S' where S': "dm_state ext S' P k" "d \<in> marked ext S'" "mgr_inv k" by (auto simp: built_to_def)
    then have f: "flag (devtup (dev_manager k)) d" by (simp add: dm_state_def marked_def)
    have "fine (built_to ext rank r S' P k (set ds)) (get_devices n ext ds k)"
      using "4.IH"(2) [OF f S'(3,1)] "4.prems" by simp
    then have "fine (built_to ext rank r S P ks ({d} \<union> set ds)) (get_devices n ext ds k)"
      by (rule fine_mono) (rule built_to_trans [OF b S'(1)], assumption, simp_all)
    with f show "fine (built_to ext rank r S P ks (set (d # ds)))
        (if flag (devtup (dev_manager k)) d then get_devices n ext ds k else Some Undef)" by simp
  qed
qed simp

section \<open>Properties\<close>


definition idle :: "unit kserver" where
  "idle = sample_server\<lparr>dev_manager := DeviceManager 4\<rparr>"

lemma idle_state: "mgr_inv idle" "dm_state sample_external [False, False] [False, False] idle" "device_num sample_external = 4"
  "devs sample_external = {2, 3}"
  using sample_mgr_inv
  by (auto simp: idle_def dm_state_def DeviceManager_def Let_def sample_external_def devs_def eval_nat_numeral)


text \<open>C15: each device is built exactly once, after the devices it asks for. When the demands of the
  constructors are not circular and no device is being built, a command for the device \<open>d\<close>
  first leads, without undefined behaviour, to a state in which \<open>d\<close> and everything it asks for
  is built, the new devices \<open>bs\<close> were constructed one after the other, none of them twice, none
  of them built before and each after its own demands, and then \<open>d\<close> executes the command.\<close>

theorem devices_built_once:
  assumes "mgr_inv ks" and "dm_state ext S (replicate (device_num ext - 2) False) ks" and "acyclic_by rank ext"
    and "device cmd \<in> devs ext"
  shows "\<exists>r. (if \<not> flag (dm_is_started (dev_manager ks)) (device cmd) then dm_start ext (device cmd) ks else Some (Ret ks)) = Some r
    \<and> dm_execute ext cmd ks = Some (bind_res r (\<lambda>k. dev_execute ext (device cmd) cmd k))
    \<and> safe_res (\<lambda>k. mgr_inv k \<and> exit_all k = exit_all ks
        \<and> (\<exists>S' bs. dm_state ext S' (replicate (device_num ext - 2) False) k \<and> marked ext S' = marked ext S \<union> set bs
            \<and> device cmd \<in> marked ext S' \<and> dep_order (deps ext) (marked ext S) bs
            \<and> devices k = fold (build ext) bs (devices ks))) r"
proof -
  let ?P = "replicate (device_num ext - 2) False"
  let ?m = "if \<not> flag (dm_is_started (dev_manager ks)) (device cmd) then dm_start ext (device cmd) ks else Some (Ret ks)"
  have P: "marked ext ?P = {}" by (auto simp: marked_def flag_def devs_def)
  have st: "dm_start ext (device cmd) ks = alloc_device (device_num ext) ext (device cmd) ks"
    using assms(4) by (simp add: dm_start_def start_impl_eq devs_def)
  have "\<forall>d \<in> devs ext. set (deps ext d) \<subseteq> devs ext" using assms(3) by (auto simp: acyclic_by_def)
  then have "returns (grown ext S ?P) ?m"
    using alloc_get_returns(1) [OF assms(1,2,4) _ card_free [OF assms(4)]] assms(1,2) st
    by (auto simp: grown_def)
  then obtain r where r: "?m = Some r" by (auto simp: returns_def)
  have "fine (built_to ext rank (Suc (rank (device cmd))) S ?P ks {device cmd}) ?m"
    using alloc_get_fine(1) [OF assms(3,1,2,4)] P st assms(1,2,4)
    by (auto simp: dm_state_def marked_def intro!: built_to_refl)
  then have safe: "safe_res (built_to ext rank (Suc (rank (device cmd))) S ?P ks {device cmd}) r" using r by simp
  have "dm_execute ext cmd ks = Some (bind_res r (\<lambda>k. execute_dev ext (device cmd) cmd k))"
    using assms(4) r by (cases r) (auto simp: dm_execute_def devs_def)
  also have "bind_res r (\<lambda>k. execute_dev ext (device cmd) cmd k) = bind_res r (\<lambda>k. dev_execute ext (device cmd) cmd k)"
  proof (cases r)
    case (Ret k)
    with safe obtain S' where "dm_state ext S' ?P k" "device cmd \<in> marked ext S'" by (auto simp: built_to_def)
    with Ret assms(4) show ?thesis
      by (simp add: execute_dev_def execute_dev_impl_eq dm_state_def marked_def devs_def)
  qed simp_all
  finally have "dm_execute ext cmd ks = Some (bind_res r (\<lambda>k. dev_execute ext (device cmd) cmd k))" .
  moreover have "safe_res (\<lambda>k. mgr_inv k \<and> exit_all k = exit_all ks
        \<and> (\<exists>S' bs. dm_state ext S' ?P k \<and> marked ext S' = marked ext S \<union> set bs
            \<and> device cmd \<in> marked ext S' \<and> dep_order (deps ext) (marked ext S) bs
            \<and> devices k = fold (build ext) bs (devices ks))) r"
    by (rule safe_res_mono [OF safe]) (auto simp: built_to_def)
  ultimately show ?thesis using r by blast
qed

theorem devices_built_once_witness:
  "\<exists>r. dm_start sample_external 2 idle = Some r
    \<and> dm_execute sample_external ((sample_cmd 1 0)\<lparr>device := 2\<rparr>) idle
        = Some (bind_res r (\<lambda>k. dev_execute sample_external 2 ((sample_cmd 1 0)\<lparr>device := 2\<rparr>) k))"
proof -
  have "acyclic_by (\<lambda>d. 5 - d) sample_external"
    unfolding acyclic_by_def idle_state(4) by (simp add: sample_external_def)
  moreover have "dm_state sample_external [False, False] (replicate (device_num sample_external - 2) False) idle"
    using idle_state(2,3) by (simp add: eval_nat_numeral)
  moreover have "\<not> flag (dm_is_started (dev_manager idle)) 2" by (simp add: idle_def DeviceManager_def Let_def flag_def)
  ultimately show ?thesis
    using devices_built_once [OF idle_state(1), of sample_external "[False, False]" "\<lambda>d. 5 - d" "(sample_cmd 1 0)\<lparr>device := 2\<rparr>"]
    by (auto simp: idle_state(4))
qed

text \<open>Nobody listens to the log: printing only writes it.\<close>

lemma put_frame: "\<exists>t. put ev (ks\<lparr>trace := t0\<rparr>) = ks\<lparr>trace := t\<rparr>"
  by (rule exI [of _ "t0 @ [ev]"]) (simp add: put_def)

lemma same_frame: "\<exists>t. ks\<lparr>trace := t0\<rparr> = ks\<lparr>trace := t\<rparr>"
  by (rule exI, rule refl)

lemma if_frame: "\<exists>t. a = f t \<Longrightarrow> \<exists>t. b = f t \<Longrightarrow> \<exists>t. (if c then a else b) = f t"
  by simp

lemma print_quiet:
  assumes "subscribers ks ! SYSLOG_CHANNEL = []"
  shows "\<exists>t. print sev msg (ks\<lparr>trace := t0\<rparr>) = Ret (ks\<lparr>trace := t\<rparr>)"
proof -
  have "\<exists>t. print_msg sev msg (ks\<lparr>trace := t0\<rparr>) = ks\<lparr>trace := t\<rparr>"
    unfolding print_msg_def by (intro if_frame put_frame same_frame)
  then obtain t1 where t1: "print_msg sev msg (ks\<lparr>trace := t0\<rparr>) = ks\<lparr>trace := t1\<rparr>" ..
  have "\<exists>t. call_syslog sev msg (ks\<lparr>trace := t1\<rparr>) = ks\<lparr>trace := t\<rparr>"
    unfolding call_syslog_def by (intro if_frame put_frame same_frame)
  then obtain t2 where t2: "call_syslog sev msg (ks\<lparr>trace := t1\<rparr>) = ks\<lparr>trace := t2\<rparr>" ..
  obtain t3 where t3: "put (ToStderr (lit ''emit_error: Buffer fmt_buffer overflow'' @ nl)) (ks\<lparr>trace := t2\<rparr>)
      = ks\<lparr>trace := t3\<rparr>"
    using put_frame [of _ t2 ks] ..
  have "\<exists>t\<in>{t2, t3}. bind_res (emit_error sev msg (ks\<lparr>trace := t2\<rparr>)) (\<lambda>(r, ks). Ret ks) = Ret (ks\<lparr>trace := t\<rparr>)"
    by (simp add: emit_error_def emit_str_def assms t3)
  then show ?thesis unfolding print_def t1 t2 by blast
qed

text \<open>A device that is being built is asked for: the allocation fails, the server is told to exit,
  and the reference that \<open>get\<close> returns is taken from a null pointer.\<close>

lemma demand_of_starting:
  assumes "dm_state ext S P ks" and "\<not> flag S a" and "flag P a" and "subscribers ks ! SYSLOG_CHANNEL = []"
  shows "get_devices (Suc n) ext (a # ds) (ks\<lparr>trace := t0\<rparr>) = Some Undef"
proof -
  have dm: "dev_manager ks = \<lparr>cont_is_started = S, cont_is_starting = P, devtup = S, device_list = S, dm_is_started = S\<rparr>"
    using assms(1) by (simp add: dm_state_def)
  obtain t1 where t1: "print INFO (lit ''Device Manager: Starting device ['' @ fmt_u (int a) @ lit ''] ''
      @ dev_name ext a @ lit ''...'' @ nl) (ks\<lparr>trace := t0\<rparr>) = Ret (ks\<lparr>trace := t1\<rparr>)"
    using print_quiet [OF assms(4)] by blast
  obtain t2 where t2: "print CRITICAL (lit ''Circular dependency detected while initializing device [''
      @ fmt_u (int a) @ lit ''] '' @ dev_name ext a @ nl) (ks\<lparr>trace := t1\<rparr>) = Ret (ks\<lparr>trace := t2\<rparr>)"
    using print_quiet [OF assms(4)] by blast
  obtain t3 where t3: "print PANIC (lit ''Failed to allocate device ['' @ fmt_u (int a) @ lit ''] ''
      @ dev_name ext a @ lit ''. Exiting server...'' @ nl) (ks\<lparr>trace := t2\<rparr>) = Ret (ks\<lparr>trace := t3\<rparr>)"
    using print_quiet [OF assms(4)] by blast
  have "cont_alloc (get_devices n ext (deps ext a)) ext a (ks\<lparr>trace := t1\<rparr>) = Some (Ret (-1, ks\<lparr>trace := t2\<rparr>))"
    using assms(2,3) t2 by (simp add: cont_alloc_def dm)
  then have "alloc_device (Suc n) ext a (ks\<lparr>trace := t0\<rparr>) = Some (Ret (ks\<lparr>trace := t3, exit_all := True\<rparr>))"
    using assms(2) t1 t3 by (simp add: dm)
  then show ?thesis using assms(2) by (simp add: dm)
qed

lemma marks_starting:
  assumes "dm_state ext S P ks"
  shows "dm_state ext S (set_flag d True P) (on_dm (cont_is_starting_update (set_flag d True)) ks)"
  using assms by (simp add: dm_state_def on_dm_def)

text \<open>One step into a device that is free: its demands run with its flag raised.\<close>

lemma demand_of_free:
  assumes "dm_state ext S P ks" and "\<not> flag S a" and "\<not> flag P a" and "subscribers ks ! SYSLOG_CHANNEL = []"
    and und: "\<And>t. get_devices n ext (deps ext a) ((on_dm (cont_is_starting_update (set_flag a True)) ks)\<lparr>trace := t\<rparr>) = Some Undef"
  shows "alloc_device (Suc n) ext a (ks\<lparr>trace := t0\<rparr>) = Some Undef"
proof -
  have dm: "dev_manager ks = \<lparr>cont_is_started = S, cont_is_starting = P, devtup = S, device_list = S, dm_is_started = S\<rparr>"
    using assms(1) by (simp add: dm_state_def)
  obtain t1 where t1: "print INFO (lit ''Device Manager: Starting device ['' @ fmt_u (int a) @ lit ''] ''
      @ dev_name ext a @ lit ''...'' @ nl) (ks\<lparr>trace := t0\<rparr>) = Ret (ks\<lparr>trace := t1\<rparr>)"
    using print_quiet [OF assms(4)] by blast
  have "on_dm (cont_is_starting_update (set_flag a True)) (ks\<lparr>trace := t1\<rparr>)
      = (on_dm (cont_is_starting_update (set_flag a True)) ks)\<lparr>trace := t1\<rparr>" by (simp add: on_dm_def)
  then have "cont_alloc (get_devices n ext (deps ext a)) ext a (ks\<lparr>trace := t1\<rparr>) = Some Undef"
    using assms(2,3) und [of t1] by (simp add: cont_alloc_def dm)
  then show ?thesis using assms(2) t1 by (simp add: dm)
qed

text \<open>C26: Two devices whose constructors ask for each other are not handled: whichever is asked for
  first, the circular demand is detected and the server is told to exit, but the constructor then
  goes on with a reference taken from a null pointer.\<close>

theorem circular_demand_undefined:
  assumes "dm_state ext S P ks" and "subscribers ks ! SYSLOG_CHANNEL = []"
    and "a \<in> devs ext" and "b \<in> devs ext" and "a \<noteq> b"
    and "\<not> flag S a" and "\<not> flag P a" and "\<not> flag S b" and "\<not> flag P b"
    and "deps ext a = b # as" and "deps ext b = a # bs"
  shows "alloc_device (device_num ext) ext a ks = Some Undef"
proof -
  obtain n where n: "device_num ext = Suc (Suc (Suc n))"
    using assms(3-5) by (cases "device_num ext"; cases "device_num ext - 1"; cases "device_num ext - 2") (auto simp: devs_def)
  let ?A = "on_dm (cont_is_starting_update (set_flag a True)) ks"
  let ?B = "on_dm (cont_is_starting_update (set_flag b True)) ?A"
  let ?PA = "set_flag a True P"
  have A: "dm_state ext S ?PA ?A" and B: "dm_state ext S (set_flag b True ?PA) ?B"
    using assms(1) by (auto intro!: marks_starting)
  have subs: "subscribers ?A ! SYSLOG_CHANNEL = []" "subscribers ?B ! SYSLOG_CHANNEL = []"
    using assms(2) by (simp_all add: on_dm_def)
  have ab: "a - 2 \<noteq> b - 2" "a - 2 < length P" using assms(1,3-5) by (auto simp: devs_def dm_state_def)
  have fl: "\<not> flag ?PA b" "flag (set_flag b True ?PA) a"
    using ab assms(9) by (simp_all add: flag_def set_flag_def)
  have "get_devices (Suc n) ext (deps ext b) (?B\<lparr>trace := t\<rparr>) = Some Undef" for t
    unfolding assms(11) by (rule demand_of_starting [OF B assms(6) fl(2) subs(2)])
  then have "alloc_device (Suc (Suc n)) ext b (?A\<lparr>trace := t\<rparr>) = Some Undef" for t
    by (rule demand_of_free [OF A assms(8) fl(1) subs(1)])
  then have "get_devices (Suc (Suc n)) ext (deps ext a) (?A\<lparr>trace := t\<rparr>) = Some Undef" for t
    using assms(8) A unfolding assms(10) by (simp add: dm_state_def)
  then have "alloc_device (Suc (Suc (Suc n))) ext a (ks\<lparr>trace := trace ks\<rparr>) = Some Undef"
    by (rule demand_of_free [OF assms(1,6,7,2)])
  then show ?thesis by (simp add: n)
qed

theorem circular_demand_undefined_witness:
  "alloc_device 4 (sample_external\<lparr>device_num := 4, deps := \<lambda>d. [5 - d]\<rparr>) 2
     (idle\<lparr>subscribers := Subscribers\<rparr>) = Some Undef"
proof -
  let ?ext = "sample_external\<lparr>device_num := 4, deps := \<lambda>d. [5 - d]\<rparr>"
  have "dm_state ?ext [False, False] [False, False] (idle\<lparr>subscribers := Subscribers\<rparr>)"
    using idle_state(2,3) by (simp add: dm_state_def)
  moreover have "subscribers (idle\<lparr>subscribers := Subscribers\<rparr>) ! SYSLOG_CHANNEL = []"
    by (simp add: Subscribers_def channels)
  moreover have "2 \<in> devs ?ext" "3 \<in> devs ?ext" "deps ?ext 2 = 3 # []" "deps ?ext 3 = 2 # []" "2 \<noteq> (3::nat)"
    by (simp_all add: devs_def)
  moreover have "\<not> flag [False, False] 2" "\<not> flag [False, False] 3" by (simp_all add: flag_def)
  ultimately have "alloc_device (device_num ?ext) ?ext 2 (idle\<lparr>subscribers := Subscribers\<rparr>) = Some Undef"
    using circular_demand_undefined [of ?ext "[False, False]" "[False, False]" "idle\<lparr>subscribers := Subscribers\<rparr>" 2 3 "[]" "[]"]
    by blast
  then show ?thesis by simp
qed

end
