(* ===== verification/Base64.thy ===== *)
theory Base64
  imports Prelude
begin

text \<open>
  The Base64 codec of \<open>core/crypto/base64.cpp\<close>, which the WebSocket handshake uses: its
  loops with the groups they fill, and the proofs that encoding is the one of RFC 4648 and that
  decoding inverts it. The part of \<open>char_array_3\<close> and \<open>char_array_4\<close> that is filled is the
  list \<open>arr\<close>, and the counter \<open>i\<close> of the code its length.
\<close>

section \<open>The code\<close>

definition base64_chars :: "byte list" where
  "base64_chars = bytes_of_string
     ''ABCDEFGHIJKLMNOPQRSTUVWXYZabcdefghijklmnopqrstuvwxyz0123456789+/''"

text \<open>\<open>isalnum\<close> in the C locale.\<close>

definition isalnum :: "byte \<Rightarrow> bool" where
  "isalnum c \<longleftrightarrow> (48 \<le> c \<and> c \<le> 57) \<or> (65 \<le> c \<and> c \<le> 90) \<or> (97 \<le> c \<and> c \<le> 122)"

definition is_base64 :: "byte \<Rightarrow> bool" where
  "is_base64 c \<longleftrightarrow> isalnum c \<or> c = 43 \<or> c = 47"

text \<open>\<open>char_array_4\<close> from \<open>char_array_3\<close>.\<close>

fun to_sextets :: "byte list \<Rightarrow> byte list" where
  "to_sextets [a, b, c] =
     [drop_bit 2 (a AND 0xfc),
      push_bit 4 (a AND 0x03) + drop_bit 4 (b AND 0xf0),
      push_bit 2 (b AND 0x0f) + drop_bit 6 (c AND 0xc0),
      c AND 0x3f]"
| "to_sextets _ = []"

definition base64_char :: "byte \<Rightarrow> byte option" where
  "base64_char x = peek base64_chars (unat x)"

fun append_chars :: "byte list \<Rightarrow> byte list \<Rightarrow> byte list option" where
  "append_chars ret [] = Some ret"
| "append_chars ret (x # xs) = base64_char x \<bind> (\<lambda>c. append_chars (ret @ [c]) xs)"

fun encode_loop :: "byte list \<Rightarrow> byte list \<Rightarrow> byte list \<Rightarrow> (byte list \<times> byte list) option" where
  "encode_loop ret arr [] = Some (ret, arr)"
| "encode_loop ret arr (b # bs) =
     (let arr = arr @ [b] in
      if length arr = 3
      then append_chars ret (to_sextets arr) \<bind> (\<lambda>ret. encode_loop ret [] bs)
      else encode_loop ret arr bs)"

definition base64_encode :: "byte list \<Rightarrow> byte list option" where
  "base64_encode bytes_to_encode = do {
     (ret, arr) \<leftarrow> encode_loop [] [] bytes_to_encode;
     (let i = length arr in
      if i \<noteq> 0 then do {
        ret \<leftarrow> append_chars ret (take (i + 1) (to_sextets (arr @ replicate (3 - i) 0)));
        Some (ret @ replicate (3 - i) 61)
      } else Some ret)
   }"

text \<open>\<open>std::string::find\<close>; \<open>npos\<close> stored in an \<open>unsigned char\<close> is 255.\<close>

definition base64_find :: "byte \<Rightarrow> byte" where
  "base64_find c =
     (let i = length (takeWhile (\<lambda>x. x \<noteq> c) base64_chars) in
      if i < length base64_chars then word_of_nat i else 255)"

fun to_octets :: "byte list \<Rightarrow> byte list" where
  "to_octets [w, x, y, z] =
     [push_bit 2 w + drop_bit 4 (x AND 0x30),
      push_bit 4 (x AND 0xf) + drop_bit 2 (y AND 0x3c),
      push_bit 6 (y AND 0x3) + z]"
| "to_octets _ = []"

fun decode_loop :: "byte list \<Rightarrow> byte list \<Rightarrow> byte list \<Rightarrow> byte list \<times> byte list" where
  "decode_loop ret arr [] = (ret, arr)"
| "decode_loop ret arr (c # cs) =
     (if c \<noteq> 61 \<and> is_base64 c then
        let arr = arr @ [c] in
        if length arr = 4 then decode_loop (ret @ to_octets (map base64_find arr)) [] cs
        else decode_loop ret arr cs
      else (ret, arr))"

definition base64_decode :: "byte list \<Rightarrow> byte list" where
  "base64_decode encoded_string =
     (let (ret, arr) = decode_loop [] [] encoded_string; i = length arr in
      if i \<noteq> 0
      then ret @ take (i - 1) (to_octets (map base64_find (arr @ replicate (4 - i) 0)))
      else ret)"

section \<open>RFC 4648\<close>

text \<open>The encoding on numbers: groups of 24 bits cut into four digits to the base 64.\<close>

definition digit :: "nat \<Rightarrow> byte" where
  "digit n = base64_chars ! (n mod 64)"

fun rfc4648 :: "byte list \<Rightarrow> byte list" where
  "rfc4648 [] = []"
| "rfc4648 [a] = (let n = unat a * 2 ^ 4 in [digit (n div 64), digit n, 61, 61])"
| "rfc4648 [a, b] = (let n = (unat a * 2 ^ 8 + unat b) * 2 ^ 2
     in [digit (n div 64 ^ 2), digit (n div 64), digit n, 61])"
| "rfc4648 (a # b # c # bs) = (let n = unat a * 2 ^ 16 + unat b * 2 ^ 8 + unat c
     in [digit (n div 64 ^ 3), digit (n div 64 ^ 2), digit (n div 64), digit n]) @ rfc4648 bs"

section \<open>Bytes and digits as numbers\<close>

lemma no_bit_beyond [simp]: "\<not> bit (a :: byte) 8" "\<not> bit a 9" "\<not> bit a (Suc 8)"
  by (auto dest!: bit_imp_le_length)

lemma byte_and_masks:
  "(a :: byte) AND 0x03 = take_bit 2 a" "a AND 0x0f = take_bit 4 a" "a AND 0x3f = take_bit 6 a"
  "drop_bit 2 (a AND 0xfc) = drop_bit 2 a" "drop_bit 4 (a AND 0xf0) = drop_bit 4 a"
  "drop_bit 6 (a AND 0xc0) = drop_bit 6 a" "drop_bit 4 (a AND 0x30) = take_bit 2 (drop_bit 4 a)"
  "drop_bit 2 (a AND 0x3c) = take_bit 4 (drop_bit 2 a)"
  by (rule byte_eqI; auto simp add: bit_simps dest: bit_imp_le_length simp flip: numeral_2_eq_2 numeral_3_eq_3)+

lemma unat_byte_less [simp]: "unat (b :: byte) < 256"
  using unsigned_less [of b] by simp

lemma unat_push_byte: "unat (push_bit n (a :: byte)) = unat a * 2 ^ n mod 256"
  unfolding unsigned_push_bit_eq by (simp add: push_bit_eq_mult take_bit_eq_mod)

lemma unat_take_drop_byte:
  "unat (take_bit n (a :: byte)) = unat a mod 2 ^ n" "unat (drop_bit n a) = unat a div 2 ^ n"
  by (metis take_bit_eq_mod unsigned_take_bit_eq, metis drop_bit_eq_div unat_drop_bit_eq)

lemma encode_masks:
  "unat (drop_bit 2 (a AND 0xfc)) = unat (a :: byte) div 4"
  "unat (push_bit 4 (a AND 0x03)) = unat a mod 4 * 16"
  "unat (drop_bit 4 (a AND 0xf0)) = unat a div 16"
  "unat (push_bit 2 (a AND 0x0f)) = unat a mod 16 * 4"
  "unat (drop_bit 6 (a AND 0xc0)) = unat a div 64"
  "unat (a AND 0x3f) = unat a mod 64"
  unfolding byte_and_masks unat_push_byte unat_take_drop_byte
  using mod_less_divisor [of 4 "unat a"] mod_less_divisor [of 16 "unat a"] by simp_all

lemma decode_masks:
  "unat (push_bit 2 w) = unat (w :: byte) * 4 mod 256"
  "unat (drop_bit 4 (w AND 0x30)) = unat w div 16 mod 4"
  "unat (push_bit 4 (w AND 0xf)) = unat w mod 16 * 16"
  "unat (drop_bit 2 (w AND 0x3c)) = unat w div 4 mod 16"
  "unat (push_bit 6 (w AND 0x3)) = unat w mod 4 * 64"
  unfolding byte_and_masks unat_push_byte unat_take_drop_byte
  using mod_less_divisor [of 4 "unat w"] mod_less_divisor [of 16 "unat w"] by simp_all

lemma unat_add_byte: "unat a + unat b < 256 \<Longrightarrow> unat (a + b :: byte) = unat a + unat b"
  by (simp add: unat_add_lem [THEN iffD1])

lemma unat_to_sextets:
  "map unat (to_sextets [a, b, c]) =
     [unat a div 4, unat a mod 4 * 16 + unat b div 16, unat b mod 16 * 4 + unat c div 64,
      unat c mod 64]"
proof -
  have d: "unat b div 16 < 16" "unat c div 64 < 4" by (simp_all add: less_mult_imp_div_less)
  have m: "unat a mod 4 * 16 \<le> 48" "unat b mod 16 * 4 \<le> 60"
    using mod_less_divisor [of 4 "unat a"] mod_less_divisor [of 16 "unat b"] by linarith+
  have "unat (push_bit 4 (a AND 0x03) + drop_bit 4 (b AND 0xf0)) = unat a mod 4 * 16 + unat b div 16"
    "unat (push_bit 2 (b AND 0x0f) + drop_bit 6 (c AND 0xc0)) = unat b mod 16 * 4 + unat c div 64"
    using d m by (subst unat_add_byte; unfold encode_masks; linarith)+
  then show ?thesis
    unfolding to_sextets.simps list.map encode_masks by blast
qed

lemma base64_chars_ranges:
  "base64_chars = map word_of_nat ([65..<91] @ [97..<123] @ [48..<58] @ [43, 47])"
  by (simp add: base64_chars_def bytes_of_string_def upt_rec)

lemma length_base64_chars [simp]: "length base64_chars = 64"
  by (simp add: base64_chars_ranges)

lemma append_chars_digits:
  "list_all (\<lambda>x. unat x < 64) xs \<Longrightarrow> append_chars ret xs = Some (ret @ map (digit \<circ> unat) xs)"
  by (induction xs arbitrary: ret) (simp_all add: base64_char_def peek_def digit_def)


lemma digit_mod [simp]: "digit (n mod 64) = digit n"
  by (simp add: digit_def)

lemma digits_3:
  assumes "a < 256" "b < 256" "c < (256::nat)"
  shows "digit ((a * 65536 + b * 256 + c) div 262144) = digit (a div 4)"
    "digit ((a * 65536 + b * 256 + c) div 4096) = digit (a mod 4 * 16 + b div 16)"
    "digit ((a * 65536 + b * 256 + c) div 64) = digit (b mod 16 * 4 + c div 64)"
    "digit (a * 65536 + b * 256 + c) = digit (c mod 64)"
proof -
  have "(a * 65536 + b * 256 + c) div 262144 = a div 4" using assms by linarith
  then show "digit ((a * 65536 + b * 256 + c) div 262144) = digit (a div 4)" by simp
  have scale: "(x mod m * 4 ^ n + k) mod (m * 4 ^ n) = (x * 4 ^ n + k) mod (m * 4 ^ n)" for x m n k :: nat
    by (simp only: mod_mult_mult2 [symmetric] mod_add_left_eq)
  have "(a * 65536 + b * 256 + c) div 4096 = a * 16 + b div 16" using assms by linarith
  with scale [of a 4 2 "b div 16"]
  show "digit ((a * 65536 + b * 256 + c) div 4096) = digit (a mod 4 * 16 + b div 16)"
    by (simp add: digit_def)
  have "(a * 65536 + b * 256 + c) div 64 = (a * 16) * 64 + (b * 4 + c div 64)" using assms by linarith
  with scale [of b 16 1 "c div 64"]
  show "digit ((a * 65536 + b * 256 + c) div 64) = digit (b mod 16 * 4 + c div 64)"
    by (simp only: digit_def mod_mult_self3) simp
  have "a * 65536 + b * 256 + c = (a * 1024 + b * 4) * 64 + c" by simp
  then have "(a * 65536 + b * 256 + c) mod 64 = c mod 64" by (simp only: mod_mult_self3)
  then show "digit (a * 65536 + b * 256 + c) = digit (c mod 64)" by (metis digit_mod)
qed

lemma length_to_sextets [simp]: "length (to_sextets [a, b, c]) = 4"
  by simp

lemma sextets_small: "list_all (\<lambda>x. unat x < 64) (to_sextets [a, b, c])"
proof -
  have "unat a div 4 < 64" "unat b div 16 < 16" "unat c div 64 < 4"
    by (simp_all add: less_mult_imp_div_less)
  moreover have "unat a mod 4 * 16 \<le> 48" "unat b mod 16 * 4 \<le> 60"
    using mod_less_divisor [of 4 "unat a"] mod_less_divisor [of 16 "unat b"] by linarith+
  ultimately have "list_all (\<lambda>n. n < 64) (map unat (to_sextets [a, b, c]))"
    unfolding unat_to_sextets by simp
  then show ?thesis by (simp only: list.pred_map comp_def)
qed

lemma append_sextets:
  "append_chars ret (take k (to_sextets [a, b, c])) =
     Some (ret @ take k (map digit (map unat (to_sextets [a, b, c]))))"
proof -
  have "list_all (\<lambda>x. unat x < 64) (take k (to_sextets [a, b, c]))"
    using sextets_small [of a b c] by (auto simp only: list_all_iff dest: in_set_takeD)
  from append_chars_digits [OF this] show ?thesis by (simp only: map_map take_map)
qed

lemmas append_group = append_sextets [unfolded unat_to_sextets list.map]

lemma rfc4648_3:
  "rfc4648 (a # b # c # bs) =
     map digit [unat a div 4, unat a mod 4 * 16 + unat b div 16,
       unat b mod 16 * 4 + unat c div 64, unat c mod 64] @ rfc4648 bs"
  using digits_3 [of "unat a" "unat b" "unat c"] by (simp add: Let_def)

lemma rfc4648_2:
  "rfc4648 [a, b] = map digit [unat a div 4, unat a mod 4 * 16 + unat b div 16,
       unat b mod 16 * 4] @ [61]"
proof -
  have "digit ((unat a * 256 + unat b) * 4 div 4096) = digit (unat a div 4)"
    "digit ((unat a * 256 + unat b) * 4 div 64) = digit (unat a mod 4 * 16 + unat b div 16)"
    "digit ((unat a * 256 + unat b) * 4) = digit (unat b mod 16 * 4)"
    using digits_3 [of "unat a" "unat b" 0]
    by (simp_all add: div_mult2_eq [of _ 64 64, simplified] div_mult2_eq [of _ 64 4096, simplified]
        mult.commute)
  then show ?thesis by (simp add: Let_def)
qed

lemma rfc4648_1: "rfc4648 [a] = map digit [unat a div 4, unat a mod 4 * 16] @ [61, 61]"
proof -
  have "digit (unat a * 16 div 64) = digit (unat a div 4)"
    "digit (unat a * 16) = digit (unat a mod 4 * 16)"
    using digits_3 [of "unat a" 0 0]
    by (simp_all add: div_mult2_eq [of _ 4096 64, simplified] div_mult2_eq [of _ 4096 16, simplified]
        mult.commute)
  then show ?thesis by (simp add: Let_def)
qed

lemma encode_loop_group:
  "encode_loop ret [] (a # b # c # bs) = append_chars ret (take 4 (to_sextets [a, b, c]))
     \<bind> (\<lambda>ret. encode_loop ret [] bs)"
  by (simp add: Let_def)

lemma encode_finish:
  "(encode_loop ret [] bs \<bind> (\<lambda>(ret, arr). let i = length arr in
      if i \<noteq> 0 then do {
        ret \<leftarrow> append_chars ret (take (i + 1) (to_sextets (arr @ replicate (3 - i) 0)));
        Some (ret @ replicate (3 - i) 61)
      } else Some ret)) = Some (ret @ rfc4648 bs)"
proof (induction bs arbitrary: ret rule: rfc4648.induct)
  case (2 a)
  have "append_chars ret (take 2 (to_sextets [a, 0, 0]))
      = Some (ret @ map digit [unat a div 4, unat a mod 4 * 16])"
    unfolding append_group by (simp add: numeral_2_eq_2)
  then show ?case unfolding rfc4648_1 by (simp add: Let_def numeral_2_eq_2)
next
  case (3 a b)
  have "append_chars ret (take 3 (to_sextets [a, b, 0]))
      = Some (ret @ map digit [unat a div 4, unat a mod 4 * 16 + unat b div 16, unat b mod 16 * 4])"
    unfolding append_group by (simp add: numeral_3_eq_3)
  then show ?case unfolding rfc4648_2 by (simp add: Let_def numeral_3_eq_3)
next
  case (4 a b c bs)
  then show ?case unfolding rfc4648_3 encode_loop_group append_group by simp
qed simp

lemma base64_encode_rfc4648: "base64_encode bs = Some (rfc4648 bs)"
  using encode_finish [of "[]" bs] by (simp add: base64_encode_def)

section \<open>Decoding\<close>

lemma inj_byte_of_nat: "inj_on (word_of_nat :: nat \<Rightarrow> byte) {..<256}"
  by (rule inj_on_inverseI [where g = unat]) (simp add: unat_of_nat take_bit_nat_eq_self)

lemma base64_find_nth:
  assumes "n < 64"
  shows "base64_find (base64_chars ! n) = word_of_nat n"
proof -
  have "distinct base64_chars"
    unfolding base64_chars_ranges distinct_map
    by (intro conjI inj_on_subset [OF inj_byte_of_nat]) auto
  then have "takeWhile (\<lambda>x. x \<noteq> base64_chars ! n) base64_chars = take n base64_chars"
    using assms by (intro takeWhile_eq_take_P_nth) (auto simp: nth_eq_iff_index_eq)
  with assms show ?thesis by (simp add: base64_find_def)
qed

lemma unat_base64_chars:
  assumes "c \<in> set base64_chars"
  shows "unat c \<in> {65..90} \<union> {97..122} \<union> {48..57} \<union> {43, 47}"
proof -
  from assms obtain n where c: "c = word_of_nat n"
    and n: "n \<in> {65..<91} \<union> ({97..<123} \<union> ({48..<58} \<union> set [43, 47]))"
    unfolding base64_chars_ranges set_map set_append set_upt by (rule imageE)
  from n have "n < 256" by auto
  then have "unat c = n" by (simp add: c unat_of_nat take_bit_nat_eq_self)
  with n show ?thesis by auto
qed

lemma is_base64_chars: "c \<in> set base64_chars \<Longrightarrow> is_base64 c \<and> c \<noteq> 61"
  using unat_base64_chars [of c] unfolding is_base64_def isalnum_def word_le_nat_alt word_unat_eq_iff
  by auto

lemma digit_props [simp]:
  "is_base64 (digit n)" "digit n \<noteq> 61" "base64_find (digit n) = word_of_nat (n mod 64)"
  using is_base64_chars [of "digit n"] by (simp_all add: digit_def base64_find_nth)

lemma to_octets_digits:
  assumes "a < 256" "b < 256" "c < (256 :: nat)"
    and "x = (a mod 4 * 16 + b div 16) mod 64" and "y = (b mod 16 * 4 + c div 64) mod 64"
  shows "to_octets (map word_of_nat [a div 4 mod 64, x, y, c mod 64])
    = map word_of_nat [a, b, c]"
proof -
  have [simp]: "unat (word_of_nat n :: byte) = n" if "n < 256" for n
    using that by (simp add: unat_of_nat take_bit_nat_eq_self)
  have x: "x < 256" "x div 16 = a mod 4" "x mod 16 = b div 16" using assms(1-4) by auto
  have y: "y < 256" "y div 4 = b mod 16" "y mod 4 = c div 64" using assms(1-3,5) by auto
  let ?w = "word_of_nat :: nat \<Rightarrow> byte"
  have "unat (push_bit 2 (?w (a div 4 mod 64)) + drop_bit 4 (?w x AND 0x30)) = a"
    using assms(1) x by (subst unat_add_byte; unfold decode_masks; simp)
  moreover have "unat (push_bit 4 (?w x AND 0xf) + drop_bit 2 (?w y AND 0x3c)) = b"
    using assms(2) x y by (subst unat_add_byte; unfold decode_masks; simp)
  moreover have "unat (push_bit 6 (?w y AND 0x3) + ?w (c mod 64)) = c"
    using assms(3) y by (subst unat_add_byte; unfold decode_masks; simp)
  ultimately show ?thesis
    unfolding list.map to_octets.simps word_unat_eq_iff list.inject using assms(1-3) by simp
qed

lemma decode_loop_digits:
  "decode_loop ret [] (map digit [n1, n2, n3, n4] @ cs) =
     decode_loop (ret @ to_octets (map word_of_nat [n1 mod 64, n2 mod 64, n3 mod 64, n4 mod 64])) [] cs"
  by (simp add: Let_def)

lemma decode_loop_group:
  "decode_loop ret [] (rfc4648 (a # b # c # bs)) = decode_loop (ret @ [a, b, c]) [] (rfc4648 bs)"
  unfolding rfc4648_3 decode_loop_digits
  using to_octets_digits [of "unat a" "unat b" "unat c"] by simp

lemma take_to_octets:
  "take (Suc 0) (to_octets [w, x, y, z]) = take (Suc 0) (to_octets [w, x, 0, 0])"
  "take 2 (to_octets [w, x, y, z]) = take 2 (to_octets [w, x, y, 0])"
  by (simp_all add: numeral_2_eq_2)

lemma decode_finish:
  "(let (ret, arr) = decode_loop ret [] (rfc4648 bs); i = length arr in
    if i \<noteq> 0 then ret @ take (i - 1) (to_octets (map base64_find (arr @ replicate (4 - i) 0)))
    else ret) = ret @ bs"
proof (induction bs arbitrary: ret rule: rfc4648.induct)
  case (2 a)
  have "decode_loop ret [] (rfc4648 [a]) = (ret, map digit [unat a div 4, unat a mod 4 * 16])"
    unfolding rfc4648_1 by (simp add: Let_def)
  moreover have "take (Suc 0) (to_octets [word_of_nat (unat a div 4 mod 64),
      word_of_nat (unat a mod 4 * 16 mod 64), y, z]) = [a]" for y z
    using to_octets_digits [of "unat a" 0 0] by (subst take_to_octets) simp
  ultimately show ?case by (simp add: Let_def numeral_2_eq_2 del: to_octets.simps)
next
  case (3 a b)
  have "decode_loop ret [] (rfc4648 [a, b]) = (ret, map digit [unat a div 4,
      unat a mod 4 * 16 + unat b div 16, unat b mod 16 * 4])"
    unfolding rfc4648_2 by (simp add: Let_def)
  moreover have "take 2 (to_octets [word_of_nat (unat a div 4 mod 64),
      word_of_nat ((unat a mod 4 * 16 + unat b div 16) mod 64),
      word_of_nat (unat b mod 16 * 4 mod 64), z]) = [a, b]" for z
    using to_octets_digits [of "unat a" "unat b" 0] by (subst take_to_octets) simp
  ultimately show ?case by (simp add: Let_def numeral_3_eq_3 numeral_2_eq_2 del: to_octets.simps)
next
  case (4 a b c bs)
  then show ?case unfolding decode_loop_group by simp
qed simp

lemma length_rfc4648: "length (rfc4648 bs) = 4 * ((length bs + 2) div 3)"
  by (induction bs rule: rfc4648.induct) (simp_all add: Let_def, presburger)

section \<open>Properties\<close>

text \<open>C33: \<open>base64_encode\<close> never indexes outside its alphabet and produces the encoding of
  RFC 4648, groups of 24 bits cut into base-64 digits with the padding of the last group; the
  result has four characters per started group of three bytes.\<close>

theorem base64_encode_correct:
  "base64_encode bs = Some (rfc4648 bs) \<and> length (rfc4648 bs) = 4 * ((length bs + 2) div 3)"
  by (simp add: base64_encode_rfc4648 length_rfc4648)

text \<open>\<open>base64_decode\<close> inverts \<open>base64_encode\<close> on every byte string.\<close>

theorem base64_roundtrip: "map_option base64_decode (base64_encode bs) = Some bs"
  using decode_finish [of "[]" bs] by (simp add: base64_encode_rfc4648 base64_decode_def)

end
