(* ===== verification/Sha1.thy ===== *)
theory Sha1
  imports Prelude
begin

text \<open>
  SHA-1 as \<open>core/crypto/sha1.cpp\<close> computes it for the WebSocket handshake: the context with
  its partial block and the counter of buffered bytes, the byte swap of a little-endian host,
  the message schedule kept in a window of sixteen words, and the padding that is written through
  the same block buffer. The reference is the secure hash standard FIPS 180-4, with the padded
  message, the eighty-word schedule and its own round functions.
\<close>

section \<open>The code\<close>

text \<open>
  The members of the unions are kept in the view the code computes with: \<open>h.b32\<close>, \<open>c.b64\<close>
  and \<open>m.b8\<close>; the other view of a member is its memory image.
\<close>

record sha1_ctxt =
  hs :: "u32 list"
  cnt :: u64
  blk :: "byte list"
  count :: byte

definition K_table :: "u32 list" where
  "K_table = [0x5a827999, 0x6ed9eba1, 0x8f1bbcdc, 0xca62c1d6]"

definition K :: "nat \<Rightarrow> u32" where
  "K t = K_table ! (t div 20)"

definition F0 :: "u32 \<Rightarrow> u32 \<Rightarrow> u32 \<Rightarrow> u32" where
  "F0 b c d = (b AND c) OR (NOT b AND d)"

definition F1 :: "u32 \<Rightarrow> u32 \<Rightarrow> u32 \<Rightarrow> u32" where
  "F1 b c d = (b XOR c) XOR d"

definition F2 :: "u32 \<Rightarrow> u32 \<Rightarrow> u32 \<Rightarrow> u32" where
  "F2 b c d = (b AND c) OR (b AND d) OR (c AND d)"

definition F3 :: "u32 \<Rightarrow> u32 \<Rightarrow> u32 \<Rightarrow> u32" where
  "F3 b c d = (b XOR c) XOR d"

definition S :: "nat \<Rightarrow> u32 \<Rightarrow> u32" where
  "S n x = push_bit n x OR drop_bit (32 - n) x"

text \<open>The swap of the bytes of each word of the block.\<close>

definition swap_words :: "byte list \<Rightarrow> byte list" where
  "swap_words m = map (\<lambda>i. m ! (4 * (i div 4) + (3 - i mod 4))) [0..<64]"

text \<open>The block as \<open>m.b32\<close>.\<close>

definition m_b32 :: "byte list \<Rightarrow> u32 list" where
  "m_b32 m = map (\<lambda>n. unmem32 (slice m (4 * n) 4)) [0..<16]"

type_synonym round_state = "u32 list \<times> u32 \<times> u32 \<times> u32 \<times> u32 \<times> u32"

text \<open>
  One turn of the loops over \<open>t\<close>. Only the first loop tests \<open>t >= 16\<close>; in the others it
  always holds.
\<close>

definition sha1_round ::
  "(u32 \<Rightarrow> u32 \<Rightarrow> u32 \<Rightarrow> u32) \<Rightarrow> nat \<Rightarrow> round_state \<Rightarrow> round_state" where
  "sha1_round F t = (\<lambda>(W, a, b, c, d, e).
     let s = t AND 0x0f;
         W = (if t \<ge> 16
              then W[s := S 1 (W ! ((s + 13) AND 0x0f) XOR W ! ((s + 8) AND 0x0f)
                               XOR W ! ((s + 2) AND 0x0f) XOR W ! s)]
              else W);
         tmp = S 5 a + F b c d + e + W ! s + K t
     in (W, tmp, a, S 30 b, c, d))"

definition sha1_step :: "sha1_ctxt \<Rightarrow> sha1_ctxt" where
  "sha1_step ctxt =
     (let W = m_b32 (swap_words (blk ctxt));
          H = hs ctxt;
          st = (W, H ! 0, H ! 1, H ! 2, H ! 3, H ! 4);
          st = fold (sha1_round F0) [0..<20] st;
          st = fold (sha1_round F1) [20..<40] st;
          st = fold (sha1_round F2) [40..<60] st;
          (_, a, b, c, d, e) = fold (sha1_round F3) [60..<80] st
      in ctxt\<lparr>hs := [H ! 0 + a, H ! 1 + b, H ! 2 + c, H ! 3 + d, H ! 4 + e],
              blk := replicate 64 0\<rparr>)"

definition sha1_init :: "sha1_ctxt" where
  "sha1_init = \<lparr>hs = [0x67452301, 0xefcdab89, 0x98badcfe, 0x10325476, 0xc3d2e1f0],
     cnt = 0, blk = replicate 64 0, count = 0\<rparr>"

text \<open>The macro \<open>PUTPAD\<close>.\<close>

definition putpad :: "byte \<Rightarrow> sha1_ctxt \<Rightarrow> sha1_ctxt" where
  "putpad x ctxt =
     (let ctxt = ctxt\<lparr>blk := (blk ctxt)[unat (count ctxt mod 64) := x]\<rparr>;
          ctxt = ctxt\<lparr>count := (count ctxt + 1) mod 64\<rparr>
      in if count ctxt mod 64 = 0 then sha1_step ctxt else ctxt)"

text \<open>The case of \<open>sha1_pad\<close> where the length does not fit in the block.\<close>

definition pad_full_block :: "sha1_ctxt \<Rightarrow> nat \<Rightarrow> nat \<Rightarrow> sha1_ctxt \<times> nat \<times> nat" where
  "pad_full_block ctxt padstart padlen =
     (let ctxt = ctxt\<lparr>blk := patch (blk ctxt) padstart (replicate padlen 0)\<rparr>;
          ctxt = ctxt\<lparr>count := (count ctxt + word_of_nat padlen) mod 64\<rparr>;
          ctxt = sha1_step ctxt;
          padstart = unat (count ctxt mod 64)
      in (ctxt, padstart, 64 - padstart))"

text \<open>The eight \<open>PUTPAD\<close>s of the little-endian branch: \<open>c.b8[7]\<close> first.\<close>

definition pad_length :: "sha1_ctxt \<Rightarrow> sha1_ctxt" where
  "pad_length = fold (\<lambda>i ctxt. putpad (mem64 (cnt ctxt) ! i) ctxt) [7, 6, 5, 4, 3, 2, 1, 0]"

definition sha1_pad :: "sha1_ctxt \<Rightarrow> sha1_ctxt" where
  "sha1_pad ctxt =
     (let ctxt = putpad 0x80 ctxt;
          padstart = unat (count ctxt mod 64);
          padlen = 64 - padstart;
          (ctxt, padstart, padlen) =
            (if padlen < 8 then pad_full_block ctxt padstart padlen else (ctxt, padstart, padlen));
          ctxt = ctxt\<lparr>blk := patch (blk ctxt) padstart (replicate (padlen - 8) 0)\<rparr>;
          ctxt = ctxt\<lparr>count := (count ctxt + word_of_nat (padlen - 8)) mod 64\<rparr>
      in pad_length ctxt)"

lemma unat_mod_64: "unat (c mod 64 :: byte) = unat c mod 64"
  by (simp add: unat_mod)

lemma unat_mod_64_less [simp]: "unat (c mod 64 :: byte) < 64"
  by (simp add: unat_mod_64)

text \<open>The rest of the input from \<open>off\<close> on is the argument \<open>input\<close>.\<close>

function sha1_loop :: "sha1_ctxt \<Rightarrow> byte list \<Rightarrow> sha1_ctxt" where
  "sha1_loop ctxt input =
     (if input \<noteq> [] then
        let gapstart = unat (count ctxt mod 64);
            gaplen = 64 - gapstart;
            copysiz = (if gaplen < length input then gaplen else length input);
            ctxt = ctxt\<lparr>blk := patch (blk ctxt) gapstart (take copysiz input)\<rparr>;
            ctxt = ctxt\<lparr>count := (count ctxt + word_of_nat copysiz) mod 64\<rparr>;
            ctxt = ctxt\<lparr>cnt := cnt ctxt + word_of_nat (copysiz * 8)\<rparr>;
            ctxt = (if count ctxt mod 64 = 0 then sha1_step ctxt else ctxt)
        in sha1_loop ctxt (drop copysiz input)
      else ctxt)"
  by pat_completeness auto
termination
  by (relation "measure (\<lambda>(_, input). length input)") (auto simp: not_le)

declare sha1_loop.simps [simp del]

text \<open>The digest reads \<open>h.b8\<close>, the memory image of the words, each word backwards.\<close>

definition sha1_result :: "sha1_ctxt \<Rightarrow> byte list" where
  "sha1_result ctxt = concat (map (\<lambda>w. rev (mem32 w)) (hs (sha1_pad ctxt)))"

definition SHA1 :: "byte list \<Rightarrow> byte list" where
  "SHA1 d = sha1_result (sha1_loop sha1_init d)"

section \<open>FIPS 180-4\<close>

definition Ch :: "u32 \<Rightarrow> u32 \<Rightarrow> u32 \<Rightarrow> u32" where
  "Ch x y z = (x AND y) XOR (NOT x AND z)"

definition Parity :: "u32 \<Rightarrow> u32 \<Rightarrow> u32 \<Rightarrow> u32" where
  "Parity x y z = x XOR y XOR z"

definition Maj :: "u32 \<Rightarrow> u32 \<Rightarrow> u32 \<Rightarrow> u32" where
  "Maj x y z = (x AND y) XOR (x AND z) XOR (y AND z)"

definition fips_f :: "nat \<Rightarrow> u32 \<Rightarrow> u32 \<Rightarrow> u32 \<Rightarrow> u32" where
  "fips_f t = (if t < 20 then Ch else if t < 40 then Parity else if t < 60 then Maj else Parity)"

definition fips_K :: "nat \<Rightarrow> u32" where
  "fips_K t = (if t < 20 then 0x5a827999 else if t < 40 then 0x6ed9eba1
     else if t < 60 then 0x8f1bbcdc else 0xca62c1d6)"

text \<open>A block of 64 bytes as sixteen big-endian words, and the schedule of eighty words.\<close>

definition block_word :: "byte list \<Rightarrow> nat \<Rightarrow> u32" where
  "block_word M t = foldl (\<lambda>w b. w * 256 + ucast b) 0 (slice M (4 * t) 4)"

fun schedule :: "byte list \<Rightarrow> nat \<Rightarrow> u32" where
  "schedule M t = (if t < 16 then block_word M t
     else word_rotl 1 (schedule M (t - 3) XOR schedule M (t - 8)
       XOR schedule M (t - 14) XOR schedule M (t - 16)))"

declare schedule.simps [simp del]

type_synonym working = "u32 \<times> u32 \<times> u32 \<times> u32 \<times> u32"

definition fips_round :: "byte list \<Rightarrow> nat \<Rightarrow> working \<Rightarrow> working" where
  "fips_round M t = (\<lambda>(a, b, c, d, e).
     (word_rotl 5 a + fips_f t b c d + e + fips_K t + schedule M t, a, word_rotl 30 b, c, d))"

definition compress :: "byte list \<Rightarrow> u32 list \<Rightarrow> u32 list" where
  "compress M H =
     (let (a, b, c, d, e) = fold (fips_round M) [0..<80] (H ! 0, H ! 1, H ! 2, H ! 3, H ! 4)
      in [a + H ! 0, b + H ! 1, c + H ! 2, d + H ! 3, e + H ! 4])"

text \<open>Whole blocks of a message; what is left is the part of an unfinished block.\<close>

definition blocks :: "byte list \<Rightarrow> byte list list" where
  "blocks M = map (\<lambda>i. slice M (64 * i) 64) [0..<length M div 64]"

definition padding_zeros :: "nat \<Rightarrow> nat" where
  "padding_zeros l = (119 - l mod 64) mod 64"

definition fips_pad :: "byte list \<Rightarrow> byte list" where
  "fips_pad M = M @ [0x80] @ replicate (padding_zeros (length M)) 0
     @ be64 (word_of_nat (8 * length M))"

definition fips_H0 :: "u32 list" where
  "fips_H0 = [0x67452301, 0xefcdab89, 0x98badcfe, 0x10325476, 0xc3d2e1f0]"

definition fips_sha1 :: "byte list \<Rightarrow> byte list" where
  "fips_sha1 M = concat (map be32 (fold compress (blocks (fips_pad M)) fips_H0))"

section \<open>The compression function\<close>

lemma S_rotl:
  assumes "0 < n" "n < 32"
  shows "S n x = word_rotl n x"
proof (rule bit_word_eqI)
  fix j :: nat
  assume j: "j < LENGTH(32)"
  show "bit (S n x) j = bit (word_rotl n x) j"
  proof (cases "j < n")
    case True
    with assms have "(j + (32 - n)) mod 32 = 32 - n + j" by simp
    with True assms j show ?thesis by (simp add: S_def bit_simps)
  next
    case False
    then have "j + (32 - n) = (j - n) + 32" using assms by simp
    moreover have "(j - n + 32) mod 32 = j - n" using j by simp
    ultimately have "(j + (32 - n)) mod 32 = j - n" by (simp only:)
    moreover have "\<not> bit x (32 - n + j)" using False assms by (auto dest: bit_imp_le_length)
    ultimately show ?thesis using False assms j by (simp add: S_def bit_simps)
  qed
qed

lemma F_fips: "F0 = Ch" "F1 = Parity" "F2 = Maj" "F3 = Parity"
proof -
  have "F0 b c d = Ch b c d" "F2 b c d = Maj b c d" for b c d
    by (rule bit_word_eqI, auto simp: bit_simps F0_def Ch_def F2_def Maj_def)+
  then show "F0 = Ch" "F2 = Maj" by (auto intro!: ext)
qed (simp_all add: fun_eq_iff F1_def F3_def Parity_def ac_simps)

lemma K_fips: "t < 80 \<Longrightarrow> K t = fips_K t"
proof -
  assume "t < 80"
  then consider "t div 20 = 0" "t < 20" | "t div 20 = 1" "20 \<le> t" "t < 40"
    | "t div 20 = 2" "40 \<le> t" "t < 60" | "t div 20 = 3" "60 \<le> t" by linarith
  then show ?thesis by cases (simp_all add: K_def K_table_def fips_K_def)
qed

lemma mask_0f: "(t :: nat) AND 0x0f = t mod 16"
  using take_bit_eq_mask [of 4 t] by (simp add: take_bit_eq_mod mask_eq_exp_minus_1)

text \<open>The window of the schedule that round \<open>t\<close> finds in the sixteen words.\<close>

definition window :: "byte list \<Rightarrow> nat \<Rightarrow> u32 list \<Rightarrow> bool" where
  "window M t W \<longleftrightarrow> length W = 16
     \<and> (\<forall>j. t \<le> j + 16 \<longrightarrow> j < max t 16 \<longrightarrow> W ! (j mod 16) = schedule M j)"

lemma window_nth: "window M t W \<Longrightarrow> t \<le> j + 16 \<Longrightarrow> j < max t 16 \<Longrightarrow> W ! (j mod 16) = schedule M j"
  by (simp add: window_def)

lemma window_step:
  assumes "window M t W" "16 \<le> t"
  shows "window M (Suc t) (W[t mod 16 := schedule M t])"
proof -
  have "W[t mod 16 := schedule M t] ! (j mod 16) = schedule M j"
    if "Suc t \<le> j + 16" "j < Suc t" for j
  proof (cases "j = t")
    case False
    have "t mod 16 \<noteq> j mod 16"
    proof
      assume "t mod 16 = j mod 16"
      then have "16 dvd t - j" using that by (metis less_Suc_eq_le mod_eq_dvd_iff_nat)
      with that False show False by (auto dest!: dvd_imp_le)
    qed
    with False that assms show ?thesis by (simp add: window_nth)
  qed (use assms in \<open>simp add: window_def\<close>)
  with assms show ?thesis by (simp add: window_def)
qed

lemma sha1_round_fips:
  assumes W: "window M t W" and "t < 80" and F: "F = fips_f t"
  obtains W' where "sha1_round F t (W, v) = (W', fips_round M t v)" and "window M (Suc t) W'"
proof -
  obtain a b c d e where v: "v = (a, b, c, d, e)" by (cases v)
  define W' where "W' = (if 16 \<le> t then W[t mod 16 := schedule M t] else W)"
  have win: "window M (Suc t) W'"
  proof (cases "16 \<le> t")
    case False
    with W show ?thesis by (simp add: W'_def window_def max_def)
  qed (use W in \<open>simp add: W'_def window_step\<close>)
  have nth: "W' ! (t mod 16) = schedule M t"
    using win by (rule window_nth) simp_all
  have sched: "S 1 (W ! ((t mod 16 + 13) mod 16) XOR W ! ((t mod 16 + 8) mod 16)
      XOR W ! ((t mod 16 + 2) mod 16) XOR W ! (t mod 16)) = schedule M t" if "16 \<le> t"
  proof -
    have prev: "W ! ((t mod 16 + k) mod 16) = schedule M (t - (16 - k))" if "k < 16" for k
    proof -
      have "t + k = t - (16 - k) + 16" using that \<open>16 \<le> t\<close> by simp
      then have "(t mod 16 + k) mod 16 = (t - (16 - k)) mod 16"
        by (simp only: mod_add_left_eq mod_add_self2)
      moreover have "W ! ((t - (16 - k)) mod 16) = schedule M (t - (16 - k))"
        using that \<open>16 \<le> t\<close> by (intro window_nth [OF W]) auto
      ultimately show ?thesis by (simp only:)
    qed
    have "W ! (t mod 16) = schedule M (t - 16)" using prev [of 0] by simp
    moreover have "W ! ((t mod 16 + 13) mod 16) = schedule M (t - 3)" using prev [of 13] by simp
    moreover have "W ! ((t mod 16 + 8) mod 16) = schedule M (t - 8)" using prev [of 8] by simp
    moreover have "W ! ((t mod 16 + 2) mod 16) = schedule M (t - 14)" using prev [of 2] by simp
    ultimately show ?thesis
      using that schedule.simps [of M t] by (simp only: S_rotl) simp
  qed
  have W'_code: "(if 16 \<le> t then W[t mod 16 := S 1 (W ! ((t mod 16 + 13) mod 16)
      XOR W ! ((t mod 16 + 8) mod 16) XOR W ! ((t mod 16 + 2) mod 16) XOR W ! (t mod 16))]
      else W) = W'"
    unfolding W'_def by (rule if_cong) (simp_all only: sched)
  have "sha1_round F t (W, v) = (W', S 5 a + F b c d + e + schedule M t + K t, a, S 30 b, c, d)"
    by (simp only: sha1_round_def v prod.case mask_0f Let_def W'_code nth)
  then have "sha1_round F t (W, v) = (W', fips_round M t v)"
    using assms(2) by (simp add: fips_round_def v F S_rotl K_fips ac_simps)
  from that [OF this win] show thesis .
qed

lemma fold_round_fips:
  assumes "window M m W" and "m \<le> n" and "n \<le> 80"
    and "\<And>t. m \<le> t \<Longrightarrow> t < n \<Longrightarrow> F = fips_f t"
  obtains W' where "fold (sha1_round F) [m..<n] (W, v) = (W', fold (fips_round M) [m..<n] v)"
    and "window M n W'"
proof -
  from \<open>m \<le> n\<close> assms have "\<exists>W'. fold (sha1_round F) [m..<n] (W, v) =
      (W', fold (fips_round M) [m..<n] v) \<and> window M n W'"
  proof (induction n rule: dec_induct)
    case (step n)
    then obtain W' where W': "fold (sha1_round F) [m..<n] (W, v) = (W', fold (fips_round M) [m..<n] v)"
      "window M n W'" by auto
    obtain W'' where "sha1_round F n (W', fold (fips_round M) [m..<n] v)
        = (W'', fips_round M n (fold (fips_round M) [m..<n] v))" "window M (Suc n) W''"
      by (rule sha1_round_fips [OF W'(2)]) (use step.hyps step.prems in auto)
    with W' step.hyps show ?case by simp
  qed simp
  with that show thesis by blast
qed

lemma slice_map_upt: "p + k \<le> n \<Longrightarrow> slice (map f [0..<n]) p k = map f [p..<p + k]"
  by (simp add: slice_def take_map drop_map)

lemma slice_4: "4 * n + 4 \<le> length m \<Longrightarrow>
    slice m (4 * n) 4 = [m ! (4 * n), m ! (4 * n + 1), m ! (4 * n + 2), m ! (4 * n + 3)]"
  by (rule nth_equalityI) (auto simp: less_Suc_eq nth_Cons numeral_eq_Suc)

lemma unmem32_rev: "unmem32 [d, c, b, a] = foldl (\<lambda>w b. w * 256 + ucast b) 0 [a, b, c, d]"
  by (simp add: unmem32_def push_bit_eq_mult algebra_simps)

lemma m_b32_block_word:
  assumes "length M = 64" and "n < 16"
  shows "m_b32 (swap_words M) ! n = block_word M n"
proof -
  have "[4 * n..<4 * n + 4] = [4 * n, 4 * n + 1, 4 * n + 2, 4 * n + 3]"
    by (simp add: upt_rec)
  moreover have "Suc (4 * n) div 4 = n" "Suc (Suc (4 * n)) div 4 = n" "Suc (Suc (4 * n)) mod 4 = 2"
    by presburger+
  ultimately have "slice (swap_words M) (4 * n) 4
      = [M ! (4 * n + 3), M ! (4 * n + 2), M ! (4 * n + 1), M ! (4 * n)]"
    using assms(2) unfolding swap_words_def by (subst slice_map_upt) simp_all
  with assms show ?thesis by (simp add: m_b32_def block_word_def slice_4 unmem32_rev)
qed

lemma window_initial: "length M = 64 \<Longrightarrow> window M 0 (m_b32 (swap_words M))"
  by (auto simp: window_def m_b32_block_word schedule.simps) (simp add: m_b32_def)

lemma sha1_step_fips:
  assumes M: "length (blk ctxt) = 64"
  shows "sha1_step ctxt = ctxt\<lparr>hs := compress (blk ctxt) (hs ctxt), blk := replicate 64 0\<rparr>"
proof -
  let ?M = "blk ctxt" and ?H = "hs ctxt"
  let ?v = "(?H ! 0, ?H ! 1, ?H ! 2, ?H ! 3, ?H ! 4)"
  let ?r = "\<lambda>m n. fold (fips_round ?M) [m..<n]"
  obtain W1 where 1: "fold (sha1_round F0) [0..<20] (m_b32 (swap_words ?M), ?v) = (W1, ?r 0 20 ?v)"
    and w1: "window ?M 20 W1"
    by (rule fold_round_fips [OF window_initial [OF M], of 20 F0]) (auto simp: fips_f_def F_fips)
  obtain W2 where 2: "fold (sha1_round F1) [20..<40] (W1, ?r 0 20 ?v) = (W2, ?r 20 40 (?r 0 20 ?v))"
    and w2: "window ?M 40 W2"
    by (rule fold_round_fips [OF w1, of 40 F1]) (auto simp: fips_f_def F_fips)
  obtain W3 where 3: "fold (sha1_round F2) [40..<60] (W2, ?r 20 40 (?r 0 20 ?v))
      = (W3, ?r 40 60 (?r 20 40 (?r 0 20 ?v)))" and w3: "window ?M 60 W3"
    by (rule fold_round_fips [OF w2, of 60 F2]) (auto simp: fips_f_def F_fips)
  obtain W4 where 4: "fold (sha1_round F3) [60..<80] (W3, ?r 40 60 (?r 20 40 (?r 0 20 ?v)))
      = (W4, ?r 60 80 (?r 40 60 (?r 20 40 (?r 0 20 ?v))))"
    by (rule fold_round_fips [OF w3, of 80 F3]) (auto simp: fips_f_def F_fips)
  have join: "?r m n (?r 0 m x) = ?r 0 n x" if "m \<le> n" for m n x
    using upt_add_eq_append [of 0 m "n - m"] that by simp
  have "?r 20 40 (?r 0 20 ?v) = ?r 0 40 ?v" "?r 40 60 (?r 0 40 ?v) = ?r 0 60 ?v"
    "?r 60 80 (?r 0 60 ?v) = ?r 0 80 ?v" by (rule join, simp)+
  with 1 2 3 4 have "fold (sha1_round F3) [60..<80] (fold (sha1_round F2) [40..<60]
      (fold (sha1_round F1) [20..<40] (fold (sha1_round F0) [0..<20] (m_b32 (swap_words ?M), ?v))))
      = (W4, ?r 0 80 ?v)"
    by (simp only:)
  moreover obtain a b c d e where "?r 0 80 ?v = (a, b, c, d, e)" by (cases "?r 0 80 ?v")
  ultimately show ?thesis
    by (simp only: sha1_step_def compress_def Let_def prod.case add.commute)
qed

section \<open>The block buffer\<close>

text \<open>
  A context has absorbed a message: its whole blocks are in the hash value, the rest is at the
  start of the block buffer.
\<close>

definition absorbed :: "sha1_ctxt \<Rightarrow> byte list \<Rightarrow> bool" where
  "absorbed ctxt M \<longleftrightarrow> length (blk ctxt) = 64 \<and> unat (count ctxt) = length M mod 64
     \<and> take (length M mod 64) (blk ctxt) = drop (64 * (length M div 64)) M
     \<and> hs ctxt = fold compress (blocks M) fips_H0"

lemma slice_append_left: "p + n \<le> length xs \<Longrightarrow> slice (xs @ ys) p n = slice xs p n"
  by (simp add: slice_def)

lemma map_slice_append:
  "64 * q \<le> length M \<Longrightarrow>
   map (\<lambda>i. slice (M @ xs) (64 * i) 64) [0..<q] = map (\<lambda>i. slice M (64 * i) 64) [0..<q]"
  by (auto intro!: slice_append_left)

lemma blocks_append:
  assumes "length M mod 64 + length xs \<le> 64"
  shows "blocks (M @ xs) = blocks M @
    (if length M mod 64 + length xs = 64 then [drop (64 * (length M div 64)) M @ xs] else [])"
proof -
  let ?q = "length M div 64" and ?l = "length M mod 64"
  have M: "length M = 64 * ?q + ?l" by simp
  have q: "64 * ?q \<le> length M" by simp
  show ?thesis
  proof (cases "?l + length xs = 64")
    case True
    then have len: "length (M @ xs) = 64 * Suc ?q" using M unfolding length_append mult_Suc_right by linarith
    then have "slice (M @ xs) (64 * ?q) 64 = drop (64 * ?q) M @ xs"
      using q by (simp add: slice_def)
    moreover have "length (M @ xs) div 64 = Suc ?q" by (simp only: len) simp
    ultimately show ?thesis using True by (simp add: blocks_def map_slice_append [OF q])
  next
    case False
    then have "length (M @ xs) div 64 = ?q" using assms M unfolding length_append by linarith
    then show ?thesis using False by (simp add: blocks_def map_slice_append [OF q])
  qed
qed

lemma absorbed_cnt [simp]: "absorbed (ctxt\<lparr>cnt := x\<rparr>) M = absorbed ctxt M"
  by (simp add: absorbed_def)

lemma unat_count_add:
  "unat (c :: byte) < 64 \<Longrightarrow> n \<le> 64 \<Longrightarrow> unat ((c + word_of_nat n) mod 64) = (unat c + n) mod 64"
  by (simp add: unat_mod unat_add_lem [THEN iffD1] unat_of_nat take_bit_nat_eq_self)

text \<open>The buffer after a run of bytes that fits in the gap has been written to it.\<close>

definition fill :: "byte list \<Rightarrow> sha1_ctxt \<Rightarrow> sha1_ctxt" where
  "fill xs ctxt = ctxt\<lparr>blk := patch (blk ctxt) (unat (count ctxt mod 64)) xs,
     count := (count ctxt + word_of_nat (length xs)) mod 64\<rparr>"

lemma absorbed_count:
  assumes "absorbed ctxt M"
  shows "unat (count ctxt mod 64) = length M mod 64"
  using assms by (simp add: absorbed_def unat_mod_64)

lemma fill_count:
  assumes "absorbed ctxt M" and "length M mod 64 + length xs \<le> 64"
  shows "unat (count (fill xs ctxt)) = length (M @ xs) mod 64"
  using assms unat_count_add [of "count ctxt" "length xs"]
  by (simp add: absorbed_def fill_def mod_simps)

lemma absorbed_fill:
  assumes abs: "absorbed ctxt M" and len: "length M mod 64 + length xs \<le> 64"
  shows "if length M mod 64 + length xs = 64 then absorbed (sha1_step (fill xs ctxt)) (M @ xs)
    else absorbed (fill xs ctxt) (M @ xs)"
proof -
  let ?q = "length M div 64" and ?l = "length M mod 64"
  have M: "length M = 64 * ?q + ?l" by simp
  have blk: "blk (fill xs ctxt) = patch (blk ctxt) ?l xs"
    using absorbed_count [OF abs] by (simp add: fill_def)
  have len_blk: "length (blk (fill xs ctxt)) = 64"
    using abs len by (simp add: blk absorbed_def)
  have pre: "take ?l (blk ctxt) = drop (64 * ?q) M" using abs by (simp add: absorbed_def)
  have hs: "hs (fill xs ctxt) = fold compress (blocks M) fips_H0"
    using abs by (simp add: fill_def absorbed_def)
  note cnt = fill_count [OF abs len]
  show ?thesis
  proof (cases "?l + length xs = 64")
    case True
    then have "length (M @ xs) = 64 * Suc ?q" using M unfolding length_append mult_Suc_right by linarith
    then have "length (M @ xs) mod 64 = 0" "drop (64 * (length (M @ xs) div 64)) (M @ xs) = []"
      by simp_all
    moreover have "blk (fill xs ctxt) = drop (64 * ?q) M @ xs"
      using abs True by (simp add: blk patch_def absorbed_def)
    ultimately show ?thesis
      using True cnt hs len_blk
      by (simp add: absorbed_def sha1_step_fips blocks_append del: length_append)
  next
    case False
    then have "?l + length xs < 64" using len by linarith
    then have "length (M @ xs) div 64 = ?q" "length (M @ xs) mod 64 = ?l + length xs"
      using M unfolding length_append by (linarith, metis mod_add_left_eq mod_less)
    moreover have "take (?l + length xs) (blk (fill xs ctxt)) = drop (64 * ?q) M @ xs"
      using abs len by (simp add: blk patch_def absorbed_def minus_mult_div_eq_mod)
    moreover have "64 * ?q \<le> length M" by simp
    ultimately show ?thesis
      using False cnt hs len_blk len
      by (simp add: absorbed_def blocks_append del: length_append)
  qed
qed

lemma sha1_step_keeps [simp]: "count (sha1_step ctxt) = count ctxt" "cnt (sha1_step ctxt) = cnt ctxt"
  by (simp_all add: sha1_step_def Let_def split: prod.split)

lemma count_zero_iff: "count (c :: sha1_ctxt) mod 64 = 0 \<longleftrightarrow> unat (count c) mod 64 = 0"
  by (simp add: word_unat_eq_iff unat_mod_64)

text \<open>Writing to the buffer and processing it when it is full, as \<open>PUTPAD\<close> and the loop do.\<close>

lemma absorbed_feed:
  assumes abs: "absorbed ctxt M" and len: "length M mod 64 + length xs \<le> 64" and "xs \<noteq> []"
    and c: "c = fill xs ctxt\<lparr>cnt := x\<rparr>"
  shows "absorbed (if count c mod 64 = 0 then sha1_step c else c) (M @ xs)"
proof -
  have "unat (count c) = length (M @ xs) mod 64"
    using fill_count [OF abs len] by (simp add: c)
  moreover have "length (M @ xs) mod 64 = 0 \<longleftrightarrow> length M mod 64 + length xs = 64"
  proof -
    have "length (M @ xs) mod 64 = (length M mod 64 + length xs) mod 64" by (simp add: mod_simps)
    moreover have "0 < length xs" using \<open>xs \<noteq> []\<close> by simp
    ultimately show ?thesis using len by (cases "length M mod 64 + length xs = 64") auto
  qed
  ultimately have "count c mod 64 = 0 \<longleftrightarrow> length M mod 64 + length xs = 64"
    by (simp add: count_zero_iff del: length_append)
  moreover have "sha1_step c = (sha1_step (fill xs ctxt))\<lparr>cnt := x\<rparr>"
    by (simp add: c sha1_step_def Let_def split: prod.split)
  ultimately show ?thesis
    using absorbed_fill [OF abs len] by (auto simp: c)
qed

lemma putpad_absorbed:
  assumes "absorbed ctxt M"
  shows "absorbed (putpad x ctxt) (M @ [x]) \<and> cnt (putpad x ctxt) = cnt ctxt"
proof -
  have "length (blk ctxt) = 64" using assms by (simp add: absorbed_def)
  then have "(blk ctxt)[unat (count ctxt mod 64) := x]
      = patch (blk ctxt) (unat (count ctxt mod 64)) [x]"
    by (simp add: patch_Cons)
  then have "putpad x ctxt = (let c = fill [x] ctxt\<lparr>cnt := cnt ctxt\<rparr> in
      if count c mod 64 = 0 then sha1_step c else c)"
    by (simp add: putpad_def Let_def fill_def)
  moreover have "length M mod 64 < 64" by simp
  then have "absorbed (let c = fill [x] ctxt\<lparr>cnt := cnt ctxt\<rparr> in
      if count c mod 64 = 0 then sha1_step c else c) (M @ [x])"
    unfolding Let_def by (intro absorbed_feed [OF assms _ _ refl]) simp_all
  ultimately show ?thesis by (simp add: Let_def)
qed

lemma sha1_loop_absorbed:
  "absorbed ctxt M \<Longrightarrow> absorbed (sha1_loop ctxt input) (M @ input) \<and>
   cnt (sha1_loop ctxt input) = cnt ctxt + word_of_nat (8 * length input)"
proof (induction ctxt input arbitrary: M rule: sha1_loop.induct)
  case (1 ctxt input)
  show ?case
  proof (cases "input = []")
    case False
    define n where "n = min (64 - length M mod 64) (length input)"
    have n: "(if 64 - unat (count ctxt mod 64) < length input
        then 64 - unat (count ctxt mod 64) else length input) = n"
      using absorbed_count [OF "1.prems"] by (simp add: n_def min_def)
    have "length M mod 64 < 64" by simp
    then have np: "0 < n" "length M mod 64 + n \<le> 64" "n \<le> length input"
      using False by (auto simp: n_def)
    define c where "c = fill (take n input) ctxt\<lparr>cnt := cnt ctxt + word_of_nat (n * 8)\<rparr>"
    define c' where "c' = (if count c mod 64 = 0 then sha1_step c else c)"
    have "absorbed c' (M @ take n input)"
      unfolding c'_def
      by (rule absorbed_feed [OF "1.prems" _ _ c_def]) (use np False in auto)
    moreover have unf: "sha1_loop ctxt input = sha1_loop c' (drop n input)"
      using False np
      by (subst sha1_loop.simps) (simp add: n Let_def c'_def c_def fill_def)
    moreover have "cnt c' = cnt ctxt + word_of_nat (n * 8)" by (simp add: c'_def c_def)
    moreover have "absorbed (sha1_loop c' (drop n input)) ((M @ take n input) @ drop n input) \<and>
      cnt (sha1_loop c' (drop n input)) = cnt c' + word_of_nat (8 * length (drop n input))"
      by (rule "1.IH" [OF False refl refl n [symmetric] refl refl refl _ \<open>absorbed c' _\<close>]) 
        (use np in \<open>simp add: c'_def c_def fill_def n\<close>)
    ultimately show ?thesis
      using np by (simp add: algebra_simps flip: of_nat_add)
  qed (simp add: sha1_loop.simps "1.prems")
qed

lemma fold_putpad_absorbed:
  "absorbed ctxt M \<Longrightarrow>
   absorbed (fold (\<lambda>i ctxt. putpad (mem64 (cnt ctxt) ! i) ctxt) is ctxt)
     (M @ map (\<lambda>i. mem64 (cnt ctxt) ! i) is)"
proof (induction "is" arbitrary: ctxt M)
  case (Cons i "is")
  from putpad_absorbed [OF Cons.prems, of "mem64 (cnt ctxt) ! i"] Cons.IH show ?case by fastforce
qed simp

lemma mem64_rev: "map (\<lambda>i. mem64 v ! i) [7, 6, 5, 4, 3, 2, 1, 0] = be64 v"
  by (simp add: mem64_def mem32_def be64_def be32_def numeral_2_eq_2)

lemma absorbed_zeros:
  assumes "absorbed ctxt M" and "length M mod 64 + n < 64"
  shows "absorbed (fill (replicate n 0) ctxt) (M @ replicate n 0)"
  using absorbed_fill [OF assms(1), of "replicate n 0"] assms(2) by simp

lemma absorbed_zeros_full:
  assumes "absorbed ctxt M" and "length M mod 64 + n = 64"
  shows "absorbed (sha1_step (fill (replicate n 0) ctxt)) (M @ replicate n 0)"
  using absorbed_fill [OF assms(1), of "replicate n 0"] assms(2) by simp

text \<open>The zero bytes and the length written after the byte \<open>0x80\<close>.\<close>

lemma pad_tail:
  assumes abs: "absorbed ctxt M"
    and padstart: "padstart = unat (count ctxt mod 64)"
    and r: "r = (if 64 - padstart < 8 then pad_full_block ctxt padstart (64 - padstart)
      else (ctxt, padstart, 64 - padstart))"
  shows "\<exists>c n. r = (c, length (M @ replicate n 0) mod 64, 64 - length (M @ replicate n 0) mod 64)
    \<and> absorbed c (M @ replicate n 0) \<and> cnt c = cnt ctxt \<and> length (M @ replicate n 0) mod 64 \<le> 56
    \<and> (120 - length M mod 64) mod 64 = n + (56 - length (M @ replicate n 0) mod 64)"
proof -
  let ?l = "length M mod 64"
  note l = absorbed_count [OF abs]
  show ?thesis
  proof (cases "64 - ?l < 8")
    case True
    let ?M = "M @ replicate (64 - ?l) 0"
    have "?l < 64" by simp
    then have full: "?l + (64 - ?l) = 64" by linarith
    note abs' = absorbed_zeros_full [OF abs full]
    have len: "length ?M mod 64 = 0" using full
      by (metis length_append length_replicate mod_add_left_eq mod_self)
    show ?thesis
      using True abs' absorbed_count [OF abs'] len
      by (intro exI [of _ "sha1_step (fill (replicate (64 - ?l) 0) ctxt)"] exI [of _ "64 - ?l"])
        (simp add: r padstart l Let_def fill_def pad_full_block_def)
  next
    case False
    then have le: "?l \<le> 56" by linarith
    then have "120 - ?l = (56 - ?l) + 64" by linarith
    moreover have "(56 - ?l + 64) mod 64 = 56 - ?l" by simp
    ultimately have "(120 - ?l) mod 64 = 56 - ?l" by (simp only:)
    with False le show ?thesis using abs l by (intro exI [of _ ctxt] exI [of _ 0]) (simp add: r padstart)
  qed
qed

lemma padding_zeros_eq: "padding_zeros l = (120 - Suc l mod 64) mod 64"
proof -
  have "l mod 64 < 64" by simp
  then show ?thesis by (cases "l mod 64 = 63") (simp_all add: padding_zeros_def mod_Suc)
qed

lemma sha1_pad_absorbed:
  assumes abs: "absorbed ctxt M"
  shows "absorbed (sha1_pad ctxt)
    (M @ [0x80] @ replicate (padding_zeros (length M)) 0 @ be64 (cnt ctxt))"
proof -
  let ?c1 = "putpad 0x80 ctxt" and ?M1 = "M @ [0x80]"
  from putpad_absorbed [OF abs] have c1: "absorbed ?c1 ?M1" "cnt ?c1 = cnt ctxt" by auto
  define padstart where "padstart = unat (count ?c1 mod 64)"
  define r where "r = (if 64 - padstart < 8 then pad_full_block ?c1 padstart (64 - padstart)
      else (?c1, padstart, 64 - padstart))"
  obtain c2 n where r: "r = (c2, length (?M1 @ replicate n 0) mod 64,
      64 - length (?M1 @ replicate n 0) mod 64)"
    and c2: "absorbed c2 (?M1 @ replicate n 0)" "cnt c2 = cnt ctxt"
    and l: "length (?M1 @ replicate n 0) mod 64 \<le> 56"
    and k: "(120 - length ?M1 mod 64) mod 64 = n + (56 - length (?M1 @ replicate n 0) mod 64)"
    using pad_tail [OF c1(1) padstart_def r_def] c1(2) by auto
  let ?l = "length (?M1 @ replicate n 0) mod 64"
  define c3 where "c3 = fill (replicate (56 - ?l) 0) c2"
  have zeros: "replicate n 0 @ replicate (56 - ?l) 0 = replicate (padding_zeros (length M)) (0 :: byte)"
    using k by (simp add: padding_zeros_eq replicate_add)
  have "absorbed c3 ((?M1 @ replicate n 0) @ replicate (56 - ?l) 0)"
    unfolding c3_def using l by (intro absorbed_zeros [OF c2(1)]) linarith
  then have c3: "absorbed c3 (M @ [0x80] @ replicate (padding_zeros (length M)) 0)"
    using zeros by (simp del: length_append)
  have "64 - ?l - 8 = 56 - ?l" by linarith
  moreover have "sha1_pad ctxt = (case r of (c, padstart, padlen) \<Rightarrow>
      pad_length (c\<lparr>blk := patch (blk c) padstart (replicate (padlen - 8) 0),
        count := (count c + word_of_nat (padlen - 8)) mod 64\<rparr>))"
    by (simp add: sha1_pad_def Let_def r_def padstart_def)
  ultimately have "sha1_pad ctxt = pad_length c3"
    unfolding c3_def fill_def r absorbed_count [OF c2(1)] by (simp del: length_append)
  moreover have "cnt c3 = cnt ctxt" using c2(2) by (simp add: c3_def fill_def)
  ultimately show ?thesis
    using fold_putpad_absorbed [OF c3, of "[7, 6, 5, 4, 3, 2, 1, 0]"]
    by (simp only: mem64_rev append_assoc pad_length_def)
qed

lemma absorbed_init: "absorbed sha1_init []"
  by (simp add: absorbed_def sha1_init_def blocks_def fips_H0_def)

lemma SHA1_fips: "SHA1 d = fips_sha1 d"
proof -
  let ?c = "sha1_loop sha1_init d"
  have c: "absorbed ?c d" "cnt ?c = word_of_nat (8 * length d)"
    using sha1_loop_absorbed [OF absorbed_init, of d] by (simp_all add: sha1_init_def)
  from sha1_pad_absorbed [OF c(1)] c(2)
  have "hs (sha1_pad ?c) = fold compress (blocks (fips_pad d)) fips_H0"
    by (simp add: absorbed_def fips_pad_def)
  then show ?thesis
    by (simp add: SHA1_def sha1_result_def fips_sha1_def flip: be_rev_mem)
qed

lemma length_SHA1 [simp]: "length (SHA1 d) = 20"
proof -
  have "length (fold compress Ms H) = 5" if "length H = 5" for Ms H
    using that by (induction Ms arbitrary: H) (auto simp: compress_def Let_def split: prod.splits)
  then show ?thesis
    by (simp add: SHA1_fips fips_sha1_def length_concat comp_def sum_list_triv fips_H0_def)
qed

section \<open>Properties\<close>

text \<open>C32: the \<open>SHA1\<close> that the handshake computes, with its rolling sixteen-word schedule and
  its padding through the block buffer, is the SHA-1 of FIPS 180-4 for every input, and the
  digest has 20 bytes.\<close>

theorem SHA1_is_fips_sha1: "SHA1 d = fips_sha1 d \<and> length (SHA1 d) = 20"
  by (simp only: SHA1_fips [symmetric] length_SHA1 simp_thms)

end
