(* ===== verification/Handshake.thy ===== *)
theory Handshake
  imports WebSocket Base64 Sha1
begin

text \<open>
  The opening handshake of \<open>core/websocket.cpp\<close>: reading the HTTP request of the client and
  answering it with the digest of its key. The reference of the answer is RFC 6455 over the
  hash of FIPS 180-4 and the encoding of RFC 4648.
\<close>

section \<open>The code\<close>

text \<open>\<open>std::string::find\<close> of a substring.\<close>

fun str_find :: "'a list \<Rightarrow> 'a list \<Rightarrow> nat option" where
  "str_find pat [] = (if pat = [] then Some 0 else None)"
| "str_find pat (x # xs) =
     (if take (length pat) (x # xs) = pat then Some 0 else map_option Suc (str_find pat xs))"

definition CRLF :: "byte list" where
  "CRLF = [13, 10]"

definition WSKeyIdentifier :: "byte list" where
  "WSKeyIdentifier = bytes_of_string ''Sec-WebSocket-Key: ''"

definition WSProtocolIdentifier :: "byte list" where
  "WSProtocolIdentifier = bytes_of_string ''Sec-WebSocket-Protocol: ''"

definition WSMagic :: "byte list" where
  "WSMagic = bytes_of_string ''258EAFA5-E914-47DA-95CA-C5AB0DC85B11''"

definition WSKeyLen :: nat where "WSKeyLen = 24"

text \<open>
  \<open>std::string(read_str)\<close> stops at the first zero byte; without one it reads past the array.
  The number of bytes received is compared with \<open>KSERVER_READ_STR_LEN\<close>, not with the size
  of the buffer.
\<close>

definition read_http_packet :: "websocket \<Rightarrow> sock \<Rightarrow> (int \<times> websocket \<times> sock) res" where
  "read_http_packet ws s =
     (let ws = reset_read_buff ws in
      bind_res (of_wait (sock_read WEBSOCK_READ_STR_LEN (rx s))) (\<lambda>(nb_bytes_rcvd, bs, es).
      bind_res (of_ub (pokes (read_str ws) 0 bs)) (\<lambda>d.
        let s = s\<lparr>rx := es\<rparr>; ws = ws\<lparr>read_str := d\<rparr> in
        if nb_bytes_rcvd < 0 then Ret (-1, ws, s)
        else if nb_bytes_rcvd = int KSERVER_READ_STR_LEN then Ret (-1, ws, s)
        else if nb_bytes_rcvd = 0 then Ret (-1, ws\<lparr>connection_closed := True\<rparr>, s)
        else if 0 \<notin> set d then Undef
        else
          let ws = ws\<lparr>http_packet := takeWhile (\<lambda>c. c \<noteq> 0) d\<rparr> in
          if str_find (CRLF @ CRLF) (http_packet ws) = None then Ret (-1, ws, s)
          else Ret (nb_bytes_rcvd, ws, s))))"

text \<open>The answer built in \<open>oss\<close>.\<close>

definition handshake_response :: "byte list \<Rightarrow> bool \<Rightarrow> byte list" where
  "handshake_response final_str is_protocol =
     bytes_of_string ''HTTP/1.1 101 Switching Protocols'' @ CRLF
     @ bytes_of_string ''Upgrade: websocket'' @ CRLF
     @ bytes_of_string ''Connection: Upgrade'' @ CRLF
     @ bytes_of_string ''Sec-WebSocket-Accept: '' @ final_str @ CRLF
     @ (if is_protocol then bytes_of_string ''Sec-WebSocket-Protocol: chat'' @ CRLF else [])
     @ CRLF"

definition authenticate :: "websocket \<Rightarrow> sock \<Rightarrow> (int \<times> websocket \<times> sock) res" where
  "authenticate ws s =
     bind_res (read_http_packet ws s) (\<lambda>(err, ws, s).
       if err < 0 then Ret (-1, ws, s)
       else
         let is_protocol = (str_find WSProtocolIdentifier (http_packet ws) \<noteq> None) in
         (case str_find WSKeyIdentifier (http_packet ws) of
            None \<Rightarrow> Ret (-1, ws, s)
          | Some pos \<Rightarrow>
              if pos + length WSKeyIdentifier > length (http_packet ws) then Ret (-1, ws, s)
              else
                let key = take WSKeyLen (drop (pos + length WSKeyIdentifier) (http_packet ws)) @ WSMagic in
                bind_res (of_ub (pokes (sha_str ws) 0 (SHA1 key))) (\<lambda>sha.
                bind_res (of_ub (peeks sha 0 20 \<bind> base64_encode)) (\<lambda>final_str.
                  send_request (handshake_response final_str is_protocol) (ws\<lparr>sha_str := sha\<rparr>) s))))"

section \<open>Correctness\<close>

lemma str_find_Some:
  "str_find pat xs = Some p \<Longrightarrow> p + length pat \<le> length xs \<and> take (length pat) (drop p xs) = pat"
proof (induction pat xs arbitrary: p rule: str_find.induct)
  case (2 pat x xs)
  show ?case
  proof (cases "take (length pat) (x # xs) = pat")
    case True
    then have "length pat \<le> length (x # xs)" by (metis length_take min.cobounded1)
    with True 2 show ?thesis by simp
  qed (use 2 in auto)
qed (simp split: if_splits)

lemma takeWhile_no_zero:
  "0 \<notin> set req \<Longrightarrow> takeWhile (\<lambda>c. c \<noteq> 0) (req @ (0 :: byte) # r) = req"
  by (induction req) auto

text \<open>A socket that has only been constructed: its receive buffer is zero.\<close>

definition ws_fresh :: "websocket \<Rightarrow> bool" where
  "ws_fresh ws \<longleftrightarrow> ws_wf ws \<and> read_str_len ws = 0 \<and> read_str ws = replicate WEBSOCK_READ_STR_LEN 0
     \<and> length (sha_str ws) = 21 \<and> \<not> connection_closed ws"

lemma read_http_packet_request:
  assumes "ws_fresh ws" and "rx s = RxData req # es" and "req \<noteq> []" and "0 \<notin> set req"
    and "length req < WEBSOCK_READ_STR_LEN" and "length req \<noteq> KSERVER_READ_STR_LEN"
  shows "\<exists>ws'. ws' = ws\<lparr>read_str := read_str ws', http_packet := req\<rparr>
    \<and> read_http_packet ws s = Ret (if str_find (CRLF @ CRLF) req = None then -1 else int (length req),
         ws', s\<lparr>rx := es\<rparr>)"
proof -
  define d where "d = req @ replicate (WEBSOCK_READ_STR_LEN - length req) 0"
  have "sock_read WEBSOCK_READ_STR_LEN (rx s) = Some (int (length req), req, es)"
    using assms by (simp add: Let_def IO_MAX_def buffer_lengths)
  moreover have "pokes (read_str (reset_read_buff ws)) 0 req = Some d"
    using assms by (simp add: ws_fresh_def reset_read_buff_def pokes_def patch_def d_def)
  moreover have "\<exists>r. d = req @ 0 # r"
    unfolding d_def using assms(5) by (cases "WEBSOCK_READ_STR_LEN - length req") auto
  then have "0 \<in> set d" "takeWhile (\<lambda>c. c \<noteq> 0) d = req"
    using takeWhile_no_zero [OF assms(4)] by auto
  moreover have "reset_read_buff ws = ws\<lparr>read_str := read_str ws\<rparr>"
    using assms(1) by (simp add: reset_read_buff_def ws_fresh_def)
  ultimately show ?thesis
    using assms(3,6)
    by (intro exI [of _ "ws\<lparr>read_str := d, http_packet := req\<rparr>"]) (simp add: read_http_packet_def Let_def)
qed

text \<open>The accept value of RFC 6455.\<close>

definition accept_value :: "byte list \<Rightarrow> byte list" where
  "accept_value key = rfc4648 (fips_sha1 (key @ WSMagic))"

section \<open>Properties\<close>

text \<open>C40: a request that arrives in one piece, ends its header with an empty line and carries a
  key is answered with the accept value of RFC 6455 for the 24 characters after the first
  \<open>Sec-WebSocket-Key: \<close>, and with a protocol line exactly when the request has one;
  \<open>authenticate\<close> returns a positive number and the connection stays open.\<close>

theorem authenticate_accepts:
  assumes "ws_fresh ws" and "rx s = RxData req # es" and "0 \<notin> set req"
    and "length req < WEBSOCK_READ_STR_LEN" and "length req \<noteq> KSERVER_READ_STR_LEN"
    and "str_find (CRLF @ CRLF) req \<noteq> None" and "str_find WSKeyIdentifier req = Some pos"
    and "resp = handshake_response (accept_value (take WSKeyLen (drop (pos + length WSKeyIdentifier) req)))
      (str_find WSProtocolIdentifier req \<noteq> None)"
    and "tx_accepts (length resp) (tx s)"
  shows "\<exists>n ws' ts. authenticate ws s = Ret (n, ws', s\<lparr>rx := es, tx := ts, sent := sent s @ resp\<rparr>)
    \<and> 0 < n \<and> \<not> connection_closed ws'"
proof -
  have "req \<noteq> []" using assms(7) by (auto simp: WSKeyIdentifier_def bytes_of_string_def)
  from read_http_packet_request [OF assms(1,2) this assms(3-5)] assms(6)
  obtain ws1 where ws1: "ws1 = ws\<lparr>read_str := read_str ws1, http_packet := req\<rparr>"
    and rd: "read_http_packet ws s = Ret (int (length req), ws1, s\<lparr>rx := es\<rparr>)" by auto
  have sel: "http_packet ws1 = req" "length (sha_str ws1) = 21" "\<not> connection_closed ws1"
    using assms(1) by (subst ws1, simp add: ws_fresh_def)+
  let ?key = "take WSKeyLen (drop (pos + length WSKeyIdentifier) req) @ WSMagic"
  define sha where "sha = SHA1 ?key @ drop 20 (sha_str ws1)"
  have sha: "pokes (sha_str ws1) 0 (SHA1 ?key) = Some sha"
    using sel(2) by (simp add: pokes_def patch_def sha_def)
  have "peeks sha 0 20 = Some (SHA1 ?key)" by (simp add: sha_def peeks_def slice_def)
  then have enc: "peeks sha 0 20 \<bind> base64_encode
      = Some (accept_value (take WSKeyLen (drop (pos + length WSKeyIdentifier) req)))"
    by (simp add: base64_encode_rfc4648 accept_value_def SHA1_fips)
  have "pos + length WSKeyIdentifier \<le> length req" using str_find_Some [OF assms(7)] by simp
  then have auth: "authenticate ws s = send_request resp (ws1\<lparr>sha_str := sha\<rparr>) (s\<lparr>rx := es\<rparr>)"
    using rd sel sha enc assms(7,8) by (simp add: authenticate_def Let_def)
  have "resp \<noteq> []" by (simp add: assms(8) handshake_response_def CRLF_def)
  moreover have "tx_accepts (length resp) (tx (s\<lparr>rx := es\<rparr>))" using assms(9) by simp
  ultimately obtain n ts where "send_request resp (ws1\<lparr>sha_str := sha\<rparr>) (s\<lparr>rx := es\<rparr>)
      = Ret (n, ws1\<lparr>sha_str := sha\<rparr>, (s\<lparr>rx := es\<rparr>)\<lparr>tx := ts, sent := sent (s\<lparr>rx := es\<rparr>) @ resp\<rparr>)" "0 < n"
    using send_request_accepts [of resp "s\<lparr>rx := es\<rparr>" "ws1\<lparr>sha_str := sha\<rparr>"] sel(3) by auto
  with auth sel(3) show ?thesis by auto
qed

definition sample_request :: "byte list" where
  "sample_request = bytes_of_string ''GET / HTTP/1.1'' @ CRLF @ WSKeyIdentifier
     @ bytes_of_string ''dGhlIHNhbXBsZSBub25jZQ=='' @ CRLF @ CRLF"

lemma sample_request_finds:
  "str_find (CRLF @ CRLF) sample_request = Some 59" "str_find WSKeyIdentifier sample_request = Some 16"
  "str_find WSProtocolIdentifier sample_request = None"
  "take 24 (drop 35 sample_request) = bytes_of_string ''dGhlIHNhbXBsZSBub25jZQ==''"
  "length sample_request = 63" "0 \<notin> set sample_request"
  by code_simp+

theorem authenticate_accepts_witness:
  "\<exists>n ws' ts. authenticate (WebSocket (replicate WEBSOCK_SEND_BUF_LEN 0) 0 zero_header)
      \<lparr>rx = [RxData sample_request], tx = [TxAccept 1000], sent = []\<rparr>
    = Ret (n, ws', \<lparr>rx = [], tx = ts, sent = handshake_response
        (accept_value (bytes_of_string ''dGhlIHNhbXBsZSBub25jZQ=='')) False\<rparr>) \<and> 0 < n"
proof -
  let ?resp = "handshake_response (accept_value (bytes_of_string ''dGhlIHNhbXBsZSBub25jZQ=='')) False"
  let ?s = "\<lparr>rx = [RxData sample_request], tx = [TxAccept 1000], sent = []\<rparr>"
  have "ws_fresh (WebSocket (replicate WEBSOCK_SEND_BUF_LEN 0) 0 zero_header)"
    by (simp add: ws_fresh_def ws_wf_new) (simp add: WebSocket_def)
  moreover have "length (accept_value key) = 28" for key
    using length_SHA1 by (simp add: accept_value_def length_rfc4648 SHA1_fips)
  then have len: "length ?resp \<le> 1000"
    by (simp add: handshake_response_def bytes_of_string_def CRLF_def)
  moreover have "length WSKeyIdentifier = 19" by code_simp
  ultimately show ?thesis
    using authenticate_accepts [of "WebSocket (replicate WEBSOCK_SEND_BUF_LEN 0) 0 zero_header" ?s
        sample_request "[]" 16 ?resp] sample_request_finds
    by (simp add: buffer_lengths IO_MAX_def WSKeyLen_def) blast
qed

end
