(* ===== verification/SessionRun.thy ===== *)
theory SessionRun
  imports DeviceManager Handshake
begin

text \<open>
  The life of a session, \<open>Session::run\<close> of \<open>core/kserver_session.hpp\<close> with what
  \<open>core/kserver_session.cpp\<close> says of each kind of socket: opening, reading a command, executing
  it, leaving. The loop is given in steps between which other threads may run, and as the
  function that runs the steps one after the other. The messages of the \<open>WebSocket\<close> class itself
  are left out; those of the session are there.
\<close>

section \<open>The session behind \<open>this\<close>\<close>

text \<open>The object is owned by the pool: using it after it was deleted is undefined.\<close>

definition this_session :: "SessID \<Rightarrow> 'w kserver \<Rightarrow> session res" where
  "this_session sid ks = of_ub (map_at (session_pool ks) sid)"

definition on_session :: "SessID \<Rightarrow> (session \<Rightarrow> session) \<Rightarrow> 'w kserver \<Rightarrow> 'w kserver res" where
  "on_session sid f ks = bind_res (this_session sid ks) (\<lambda>se. Ret (put_session sid (f se) ks))"

fun prints :: "(severity \<times> byte list) list \<Rightarrow> 'w kserver \<Rightarrow> 'w kserver res" where
  "prints [] ks = Ret ks"
| "prints ((sev, msg) # ms) ks = bind_res (print sev msg ks) (\<lambda>ks. prints ms ks)"

section \<open>Opening and leaving\<close>

definition init_socket :: "SessID \<Rightarrow> 'w kserver \<Rightarrow> (int \<times> 'w kserver) res" where
  "init_socket sid ks =
     bind_res (this_session sid ks) (\<lambda>se.
       if kind se = WEBSOCK then
         bind_res (authenticate (websock se) (conn se)) (\<lambda>(r, w, c).
           let ks = put_session sid (se\<lparr>websock := w, conn := c\<rparr>) ks in
           if r < 0 then
             bind_res (print CRITICAL (lit ''Cannot connect websocket to client'' @ nl) ks) (\<lambda>ks. Ret (-1, ks))
           else Ret (0, ks))
       else Ret (0, ks))"

definition init_session :: "'w external \<Rightarrow> SessID \<Rightarrow> 'w kserver \<Rightarrow> (int \<times> 'w kserver) res" where
  "init_session ext sid ks =
     bind_res (on_session sid (\<lambda>se. se\<lparr>errors_num := 0, requests_num := 0, start_time := now ext\<rparr>) ks)
       (\<lambda>ks. init_socket sid ks)"

definition exit_socket :: "SessID \<Rightarrow> 'w kserver \<Rightarrow> (int \<times> 'w kserver) res" where
  "exit_socket sid ks =
     bind_res (this_session sid ks) (\<lambda>se.
       if kind se = WEBSOCK then
         bind_res (ws_exit (websock se) (conn se)) (\<lambda>(r, w, c).
           Ret (r, put_session sid (se\<lparr>websock := w, conn := c\<rparr>) ks))
       else Ret (0, ks))"

definition exit_session :: "SessID \<Rightarrow> 'w kserver \<Rightarrow> 'w kserver res" where
  "exit_session sid ks =
     bind_res (exit_socket sid ks) (\<lambda>(r, ks).
       if r < 0 then print WARNING (lit ''An error occured during session exit'' @ nl) ks else Ret ks)"

section \<open>Reading a command\<close>

text \<open>
  What \<open>read_command\<close> prints, from its result: over TCP with the messages of \<open>rcv_n_bytes\<close>, which
  it calls once. Over a WebSocket the result -1 has two causes.
\<close>

definition received_text :: "string \<Rightarrow> command \<Rightarrow> byte list" where
  "received_text socket cmd = lit socket @ lit '': Receive command for device '' @ fmt_u (int (device cmd))
     @ lit '', operation '' @ fmt_u (operation cmd) @ nl"

definition ws_failure :: "command \<Rightarrow> session \<Rightarrow> byte list" where
  "ws_failure cmd se = (case receive_cmd cmd (websock se) (conn se) of
     Some (Ret (err, _)) \<Rightarrow> if err < 0 then lit ''WebSocket: Command reception failed'' @ nl
       else lit ''WebSocket: Command too small'' @ nl
   | _ \<Rightarrow> [])"

definition read_log :: "command \<Rightarrow> session \<Rightarrow> int \<Rightarrow> command \<Rightarrow> (severity \<times> byte list) list" where
  "read_log cmd0 se n cmd =
     (if kind se = WEBSOCK then
        (if n < 0 then [(ERROR, ws_failure cmd0 se)]
         else if n = 0 then []
         else [(DEBUG, received_text ''WebSocket'' cmd)])
      else if n = 0 then [(INFO, lit ''TCPSocket: Connection closed by client'' @ nl)]
      else if n < 0 then [(ERROR, lit ''TCPSocket: Can't receive data'' @ nl), (ERROR, lit ''TCPSocket: Cannot read header'' @ nl)]
      else [(DEBUG, lit ''[R@'' @ fmt_u (session_id se) @ lit ''] ['' @ fmt_u n @ lit '' bytes]'' @ nl),
            (DEBUG, received_text ''TCPSocket'' cmd)])"

definition read_command :: "SessID \<Rightarrow> command \<Rightarrow> 'w kserver \<Rightarrow> (int \<times> command \<times> 'w kserver) res option" where
  "read_command sid cmd0 ks =
     bind_ro (Some (this_session sid ks)) (\<lambda>se.
     bind_ro (session_read_command cmd0 se) (\<lambda>(n, cmd, se').
     bind_ro (Some (prints (read_log cmd0 se n cmd) (put_session sid se' ks))) (\<lambda>ks.
     Some (Ret (n, cmd, ks)))))"

section \<open>The loop\<close>

text \<open>
  Where a session thread is: before \<open>init_session\<close>, at the head of the loop, with the result of
  \<open>read_command\<close>, after \<open>run\<close> returned.
\<close>

datatype phase = Starting | Looping | Received int command | Returned int

definition leave :: "SessID \<Rightarrow> 'w kserver \<Rightarrow> (phase \<times> 'w kserver) res" where
  "leave sid ks = bind_res (exit_session sid ks) (\<lambda>ks. Ret (Returned 0, ks))"

definition execute_command :: "'w external \<Rightarrow> SessID \<Rightarrow> command \<Rightarrow> 'w kserver \<Rightarrow> (phase \<times> 'w kserver) res option" where
  "execute_command ext sid cmd ks =
     bind_ro (Some (on_session sid (\<lambda>se. se\<lparr>requests_num := requests_num se + 1\<rparr>) ks)) (\<lambda>ks.
     bind_ro (dm_execute ext cmd ks) (\<lambda>(r, ks).
     bind_ro (Some (if r < 0 then
         bind_res (print ERROR (lit ''Failed to execute command [device = '' @ fmt_d (int (device cmd))
           @ lit '', operation = '' @ fmt_d (operation cmd) @ lit '']'' @ nl) ks)
           (\<lambda>ks. on_session sid (\<lambda>se. se\<lparr>errors_num := errors_num se + 1\<rparr>) ks)
       else Ret ks)) (\<lambda>ks.
     bind_ro (Some (this_session sid ks)) (\<lambda>se.
       if status se = CLOSED then Some (leave sid ks) else Some (Ret (Looping, ks))))))"

definition run_step :: "'w external \<Rightarrow> SessID \<Rightarrow> phase \<Rightarrow> 'w kserver \<Rightarrow> (phase \<times> 'w kserver) res option" where
  "run_step ext sid ph ks = (case ph of
     Starting \<Rightarrow> Some (bind_res (init_session ext sid ks) (\<lambda>(r, ks). Ret (if r < 0 then Returned (-1) else Looping, ks)))
   | Looping \<Rightarrow>
       bind_ro (Some (this_session sid ks)) (\<lambda>se.
         if exit_comm ks then Some (leave sid ks)
         else bind_ro (read_command sid (Command (uninit (uninit_mem ext) HEADER_SIZE)
             (uninit (uninit_mem ext) CMD_PAYLOAD_BUFFER_LEN)) ks)
           (\<lambda>(n, cmd, ks). Some (Ret (Received n cmd, ks))))
   | Received n cmd \<Rightarrow>
       bind_ro (Some (this_session sid ks)) (\<lambda>se.
         if exit_comm ks then Some (leave sid ks)
         else if n \<le> 0 then Some (Ret (Returned n, ks))
         else execute_command ext sid cmd ks)
   | Returned r \<Rightarrow> Some (Ret (Returned r, ks)))"

text \<open>The steps of one thread that nobody disturbs. \<^const>\<open>None\<close>: it never returns.\<close>

partial_function (option) run_loop :: "'w external \<Rightarrow> SessID \<Rightarrow> phase \<Rightarrow> 'w kserver \<Rightarrow> (int \<times> 'w kserver) res option" where
  "run_loop ext sid ph ks = (case ph of
     Returned r \<Rightarrow> Some (Ret (r, ks))
   | _ \<Rightarrow> bind_ro (run_step ext sid ph ks) (\<lambda>(ph, ks). run_loop ext sid ph ks))"

definition run :: "'w external \<Rightarrow> SessID \<Rightarrow> 'w kserver \<Rightarrow> (int \<times> 'w kserver) res option" where
  "run ext sid ks = run_loop ext sid Starting ks"

lemma run_loop_simps [simp]:
  "run_loop ext sid (Returned r) ks = Some (Ret (r, ks))"
  "run_loop ext sid Starting ks = bind_ro (run_step ext sid Starting ks) (\<lambda>(ph, ks). run_loop ext sid ph ks)"
  "run_loop ext sid Looping ks = bind_ro (run_step ext sid Looping ks) (\<lambda>(ph, ks). run_loop ext sid ph ks)"
  "run_loop ext sid (Received n cmd) ks = bind_ro (run_step ext sid (Received n cmd) ks) (\<lambda>(ph, ks). run_loop ext sid ph ks)"
  by (subst run_loop.simps, simp)+

section \<open>One command over TCP\<close>

lemma print_DEBUG: "\<exists>t. print DEBUG msg (ks\<lparr>trace := t0\<rparr>) = Ret (ks\<lparr>trace := t\<rparr>)"
proof -
  have "\<exists>t. print_msg DEBUG msg (ks\<lparr>trace := t0\<rparr>) = ks\<lparr>trace := t\<rparr>"
    unfolding print_msg_def by (intro if_frame put_frame same_frame)
  then show ?thesis
    by (auto simp: print_def call_syslog_def emit_error_def less_eq_severity_def)
qed

lemma prints_two_DEBUG: "\<exists>t. prints [(DEBUG, a), (DEBUG, b)] ks = Ret (ks\<lparr>trace := t\<rparr>)"
proof -
  obtain t1 where "print DEBUG a (ks\<lparr>trace := trace ks\<rparr>) = Ret (ks\<lparr>trace := t1\<rparr>)"
    using print_DEBUG by blast
  moreover obtain t2 where "print DEBUG b (ks\<lparr>trace := t1\<rparr>) = Ret (ks\<lparr>trace := t2\<rparr>)"
    using print_DEBUG by blast
  ultimately show ?thesis by (simp add: same_frame)
qed

lemma reads_command:
  assumes "map_at (session_pool ks) sid = Some se" and "kind se \<in> {TCP, UNIX}" and "session_id se = sid"
    and "\<not> exit_comm ks" and "rx_bytes (rx (conn se)) = reserved @ be16 dev @ be16 op @ rest" and "length reserved = 4"
  obtains cmd c t where
    "run_step ext sid Looping ks = Some (Ret (Received 8 cmd, (put_session sid (se\<lparr>conn := c\<rparr>) ks)\<lparr>trace := t\<rparr>))"
    and "cmd_of sid cmd" and "device cmd = unat dev" and "operation cmd = uint op"
    and "rx_bytes (rx c) = rest" and "received_from (conn se) c"
proof -
  let ?cmd = "Command (uninit (uninit_mem ext) HEADER_SIZE) (uninit (uninit_mem ext) CMD_PAYLOAD_BUFFER_LEN)"
  obtain cmd c where c: "tcp_read_command sid ?cmd (conn se) = Ret (8, cmd, c)"
    "device cmd = unat dev" "operation cmd = uint op" "sess_id cmd = sid" "sess cmd = Some sid"
    "payload cmd = Buffer (uninit (uninit_mem ext) CMD_PAYLOAD_BUFFER_LEN) 0"
    "rx_bytes (rx c) = rest" "received_from (conn se) c"
    using tcp_read_command_exact [OF assms(5,6), of "uninit (uninit_mem ext) HEADER_SIZE" sid
        "uninit (uninit_mem ext) CMD_PAYLOAD_BUFFER_LEN"] by (auto simp: received_from_def)
  have read: "session_read_command ?cmd se = Some (Ret (8, cmd, se\<lparr>conn := c\<rparr>))"
    using assms(2,3) c(1) by (auto simp: session_read_command_def)
  have log: "read_log ?cmd se 8 cmd = [(DEBUG, lit ''[R@'' @ fmt_u (session_id se) @ lit ''] ['' @ fmt_u 8 @ lit '' bytes]'' @ nl),
      (DEBUG, received_text ''TCPSocket'' cmd)]"
    using assms(2) by (auto simp: read_log_def)
  obtain t where t: "prints (read_log ?cmd se 8 cmd) (put_session sid (se\<lparr>conn := c\<rparr>) ks)
      = Ret ((put_session sid (se\<lparr>conn := c\<rparr>) ks)\<lparr>trace := t\<rparr>)"
    unfolding log using prints_two_DEBUG by blast
  have "read_command sid ?cmd ks = Some (Ret (8, cmd, (put_session sid (se\<lparr>conn := c\<rparr>) ks)\<lparr>trace := t\<rparr>))"
    using assms(1) read t by (simp add: read_command_def this_session_def)
  then have "run_step ext sid Looping ks = Some (Ret (Received 8 cmd, (put_session sid (se\<lparr>conn := c\<rparr>) ks)\<lparr>trace := t\<rparr>))"
    using assms(1,4) by (simp add: run_step_def this_session_def)
  with c(2-8) that show thesis by (simp add: cmd_of_def Buffer_def)
qed

section \<open>A conversation over TCP\<close>

text \<open>
  What a device promises of one command: it takes its arguments from the stream of its session,
  no byte more, writes the bytes of its reply, if it has one, in one write, and changes nothing
  else but the devices' own state and the logs. \<open>exec\<close> says what it returns, what it writes and
  what it does to the devices, on a connection whose other end reads.
\<close>

type_synonym message = "u16 \<times> u16 \<times> cmd_arg list"

fun message_bytes :: "message \<Rightarrow> byte list" where
  "message_bytes (dev, op, args) = command_image dev op args"

text \<open>The events of a socket on which a message, if there is one, is written whole, and the events after it.\<close>

definition takes_out :: "byte list \<Rightarrow> tx_event list \<Rightarrow> bool" where
  "takes_out out es \<longleftrightarrow> out = [] \<or> (\<exists>k es'. es = TxAccept k # es' \<and> length out \<le> min k IO_MAX)"

definition after_out :: "byte list \<Rightarrow> tx_event list \<Rightarrow> tx_event list" where
  "after_out out es = (if out = [] then es else tl es)"

fun takes_outs :: "byte list list \<Rightarrow> tx_event list \<Rightarrow> bool" where
  "takes_outs [] es = True"
| "takes_outs (out # outs) es = (takes_out out es \<and> takes_outs outs (after_out out es))"

type_synonym 'w reaction = "message \<Rightarrow> 'w \<Rightarrow> int \<times> byte list \<times> 'w"

text \<open>A session after a command: its arguments taken, its reply written.\<close>

definition replied :: "byte list \<Rightarrow> byte list \<Rightarrow> session \<Rightarrow> session \<Rightarrow> bool" where
  "replied out rest se se' \<longleftrightarrow> kind se' = kind se \<and> session_id se' = session_id se \<and> status se' = status se
     \<and> requests_num se' = requests_num se \<and> errors_num se' = errors_num se
     \<and> length (scal_data (dyn_serializer se')) = length (scal_data (dyn_serializer se))
     \<and> rx_bytes (rx (conn se')) = rest \<and> rx_after (rx (conn se')) = rx_after (rx (conn se))
     \<and> tx (conn se') = after_out out (tx (conn se)) \<and> sent (conn se') = sent (conn se) @ out"

definition device_contract :: "'w external \<Rightarrow> SessID \<Rightarrow> 'w reaction \<Rightarrow> message \<Rightarrow> bool" where
  "device_contract ext sid exec m = (case m of (dev, op, args) \<Rightarrow>
     \<forall>ks cmd se rest r out w. cmd_of sid cmd \<longrightarrow> device cmd = unat dev \<longrightarrow> operation cmd = uint op
       \<longrightarrow> map_sorted (session_pool ks) \<longrightarrow> map_at (session_pool ks) sid = Some se \<longrightarrow> kind se \<in> {TCP, UNIX} \<longrightarrow> session_id se = sid
       \<longrightarrow> length (scal_data (dyn_serializer se)) = SCALAR_PACK_LEN
       \<longrightarrow> rx_bytes (rx (conn se)) = concat (map arg_image args) @ rest
       \<longrightarrow> exec m (devices ks) = (r, out, w) \<longrightarrow> takes_out out (tx (conn se))
       \<longrightarrow> (\<exists>se' t. dev_execute ext (unat dev) cmd ks = Ret (r, (put_session sid se' ks)\<lparr>devices := w, trace := t\<rparr>)
            \<and> replied out rest se se'))"

text \<open>The effect of a sequence of commands: the number of failures, what is written for each, and
  the state of the devices.\<close>

fun served :: "'w reaction \<Rightarrow> message list \<Rightarrow> 'w \<Rightarrow> nat \<times> byte list list \<times> 'w" where
  "served exec [] w = (0, [], w)"
| "served exec (m # ms) w =
     (let (r, out, w) = exec m w; (e, outs, w) = served exec ms w in ((if r < 0 then 1 else 0) + e, out # outs, w))"

text \<open>A session thread at the head of its loop, the devices of \<open>B\<close> built and nobody listening to the log.\<close>

definition at_loop :: "'w external \<Rightarrow> bool list \<Rightarrow> SessID \<Rightarrow> session \<Rightarrow> 'w kserver \<Rightarrow> bool" where
  "at_loop ext B sid se ks \<longleftrightarrow> map_sorted (session_pool ks) \<and> map_at (session_pool ks) sid = Some se \<and> kind se \<in> {TCP, UNIX}
     \<and> session_id se = sid \<and> status se = OPENED \<and> length (scal_data (dyn_serializer se)) = SCALAR_PACK_LEN
     \<and> \<not> exit_comm ks \<and> subscribers ks ! SYSLOG_CHANNEL = []
     \<and> dm_is_started (dev_manager ks) = B \<and> device_list (dev_manager ks) = B"

lemma at_put_session:
  "map_at (session_pool ks) sid = Some se \<Longrightarrow> map_at (session_pool (put_session sid se' ks)) sid = Some se'"
  by (simp add: put_session_def at_assign)

lemma put_session_frame [simp]:
  "exit_comm (put_session sid se ks) = exit_comm ks" "subscribers (put_session sid se ks) = subscribers ks"
  "dev_manager (put_session sid se ks) = dev_manager ks" "devices (put_session sid se ks) = devices ks"
  by (simp_all add: put_session_def)

lemma at_loop_put:
  assumes "at_loop ext B sid se ks" and "kind se' = kind se" and "session_id se' = session_id se" and "status se' = OPENED"
    and "length (scal_data (dyn_serializer se')) = length (scal_data (dyn_serializer se))"
  shows "at_loop ext B sid se' ((put_session sid se' ks)\<lparr>trace := t\<rparr>)"
    and "at_loop ext B sid se' (put_session sid se' ks)"
    and "at_loop ext B sid se' ((put_session sid se' ks)\<lparr>devices := w, trace := t\<rparr>)"
  using assms at_put_session [of ks sid se se'] entries.invar_upd [of "session_pool ks" sid se']
  by (auto simp: at_loop_def) (simp_all add: put_session_def)

lemma at_loop_trace [simp]: "at_loop ext B sid se (ks\<lparr>trace := t\<rparr>) = at_loop ext B sid se ks"
  by (simp add: at_loop_def)

lemma at_loop_session:
  "at_loop ext B sid se ks \<Longrightarrow> this_session sid ks = Ret se"
  "at_loop ext B sid se ks \<Longrightarrow> on_session sid f ks = Ret (put_session sid (f se) ks)"
  by (simp_all add: at_loop_def this_session_def on_session_def)

lemma at_loop_status: "at_loop ext B sid se ks \<Longrightarrow> status se = OPENED"
  by (simp add: at_loop_def)

lemma dm_execute_built:
  assumes "at_loop ext B sid se ks" and "device cmd \<in> marked ext B"
  shows "dm_execute ext cmd ks = Some (dev_execute ext (device cmd) cmd ks)"
  using assms execute_dev_impl_eq [of "device cmd" "[2 ..< device_num ext]" ext cmd ks]
  by (auto simp: at_loop_def dm_execute_def marked_def devs_def execute_dev_def)

lemma counts_failure:
  assumes "at_loop ext B sid se ks"
  obtains ks' where "(if r < 0 then bind_res (print ERROR msg ks) (\<lambda>ks. on_session sid (\<lambda>se. se\<lparr>errors_num := errors_num se + 1\<rparr>) ks)
      else Ret ks) = Ret ks'"
    and "at_loop ext B sid (se\<lparr>errors_num := errors_num se + (if r < 0 then 1 else 0)\<rparr>) ks'" and "devices ks' = devices ks"
proof (cases "r < 0")
  case True
  have "subscribers ks ! SYSLOG_CHANNEL = []" using assms by (simp add: at_loop_def)
  from print_quiet [OF this, of ERROR msg "trace ks"] obtain t where t: "print ERROR msg ks = Ret (ks\<lparr>trace := t\<rparr>)" by auto
  let ?se = "se\<lparr>errors_num := errors_num se + 1\<rparr>"
  have at: "at_loop ext B sid se (ks\<lparr>trace := t\<rparr>)" using assms by simp
  have "on_session sid (\<lambda>se. se\<lparr>errors_num := errors_num se + 1\<rparr>) (ks\<lparr>trace := t\<rparr>) = Ret (put_session sid ?se (ks\<lparr>trace := t\<rparr>))"
    and "at_loop ext B sid ?se (put_session sid ?se (ks\<lparr>trace := t\<rparr>))"
    using at_loop_session(2) [OF at] at_loop_put(2) [OF at, of ?se] at_loop_status [OF assms] by simp_all
  with True t that show thesis by simp
qed (use that [of ks] assms in simp)

text \<open>One message: read, executed, counted, and the thread is back at the head of the loop.\<close>

lemma serves_message:
  assumes at: "at_loop ext B sid se ks" and con: "device_contract ext sid exec m"
    and built: "unat (fst m) \<in> marked ext B" and rx: "rx_bytes (rx (conn se)) = message_bytes m @ rest"
    and exec: "exec m (devices ks) = (r, out, w)" and takes: "takes_out out (tx (conn se))"
  obtains ks' se' where "run_loop ext sid Looping ks = run_loop ext sid Looping ks'" and "at_loop ext B sid se' ks'"
    and "devices ks' = w"
    and "replied out rest (se\<lparr>requests_num := requests_num se + 1, errors_num := errors_num se + (if r < 0 then 1 else 0)\<rparr>) se'"
proof -
  obtain dev op args where m: "m = (dev, op, args)" by (cases m)
  have "rx_bytes (rx (conn se)) = replicate 4 0 @ be16 dev @ be16 op @ (concat (map arg_image args) @ rest)"
    using rx m by (simp add: command_image_split)
  then obtain cmd c t where rd:
    "run_step ext sid Looping ks = Some (Ret (Received 8 cmd, (put_session sid (se\<lparr>conn := c\<rparr>) ks)\<lparr>trace := t\<rparr>))"
    "cmd_of sid cmd" "device cmd = unat dev" "operation cmd = uint op"
    "rx_bytes (rx c) = concat (map arg_image args) @ rest" "received_from (conn se) c"
    by (rule reads_command [rotated 4]) (use at in \<open>auto simp: at_loop_def\<close>)
  define k1 where "k1 = (put_session sid (se\<lparr>conn := c\<rparr>) ks)\<lparr>trace := t\<rparr>"
  have k1: "at_loop ext B sid (se\<lparr>conn := c\<rparr>) k1" "devices k1 = devices ks"
    using at_loop_put(1) [OF at, of "se\<lparr>conn := c\<rparr>"] at_loop_status [OF at] by (simp_all add: k1_def)
  let ?s2 = "se\<lparr>conn := c, requests_num := requests_num se + 1\<rparr>"
  define k2 where "k2 = put_session sid ?s2 k1"
  have k2: "at_loop ext B sid ?s2 k2" "devices k2 = devices ks"
    "on_session sid (\<lambda>se. se\<lparr>requests_num := requests_num se + 1\<rparr>) k1 = Ret k2"
    using at_loop_put(2) [OF k1(1), of ?s2] at_loop_session(2) [OF k1(1)] k1(2) at_loop_status [OF at]
    by (simp_all add: k2_def)
  have "exec (dev, op, args) (devices k2) = (r, out, w)" "takes_out out (tx (conn ?s2))"
    using exec takes m k2(2) rd(6) by (simp_all add: received_from_def)
  with con [unfolded device_contract_def m prod.case, rule_format, OF rd(2-4), of k2 ?s2 rest r out w] k2(1) rd(5)
  obtain se3 t3 where ex: "dev_execute ext (unat dev) cmd k2 = Ret (r, (put_session sid se3 k2)\<lparr>devices := w, trace := t3\<rparr>)"
    and s3: "replied out rest ?s2 se3"
    by (auto simp: at_loop_def)
  define k3 where "k3 = (put_session sid se3 k2)\<lparr>devices := w, trace := t3\<rparr>"
  have k3: "at_loop ext B sid se3 k3" "devices k3 = w"
    using at_loop_put(3) [OF k2(1), of se3] s3 at_loop_status [OF at] unfolding k3_def by (simp_all add: replied_def)
  have dm: "dm_execute ext cmd k2 = Some (Ret (r, k3))"
    using dm_execute_built [OF k2(1)] built m rd(3) ex by (simp add: k3_def)
  obtain k4 where k4: "(if r < 0 then
         bind_res (print ERROR (lit ''Failed to execute command [device = '' @ fmt_d (int (device cmd))
           @ lit '', operation = '' @ fmt_d (operation cmd) @ lit '']'' @ nl) k3)
           (\<lambda>ks. on_session sid (\<lambda>se. se\<lparr>errors_num := errors_num se + 1\<rparr>) ks)
       else Ret k3) = Ret k4"
    "at_loop ext B sid (se3\<lparr>errors_num := errors_num se3 + (if r < 0 then 1 else 0)\<rparr>) k4"
    "devices k4 = devices k3"
    by (rule counts_failure [OF k3(1)])
  have "status se3 = OPENED" using k3(1) by (simp add: at_loop_def)
  then have "execute_command ext sid cmd k1 = Some (Ret (Looping, k4))"
    unfolding execute_command_def
    by (simp only: k2(3) bind_ro_simps dm prod.case k4(1) at_loop_session(1) [OF k4(2)]) simp
  then have "run_step ext sid (Received 8 cmd) k1 = Some (Ret (Looping, k4))"
    using k1(1) by (simp add: run_step_def at_loop_session(1) [OF k1(1)]) (simp add: at_loop_def)
  with rd(1) have "run_loop ext sid Looping ks = run_loop ext sid Looping k4"
    by (simp add: k1_def del: run_loop_simps(3)) (subst run_loop_simps(3), simp)
  from that [OF this k4(2)] k4(3) k3(2) s3 rd(6) show thesis by (simp add: replied_def received_from_def)
qed

text \<open>The client closes: the session returns 0.\<close>

lemma serves_end:
  assumes at: "at_loop ext B sid se ks" and rx: "rx_bytes (rx (conn se)) = []" "rx_after (rx (conn se)) = RxEof # es"
  obtains ks' se' where "run_loop ext sid Looping ks = Some (Ret (0, ks'))" and "at_loop ext B sid se' ks'"
    and "devices ks' = devices ks" and "requests_num se' = requests_num se" and "errors_num se' = errors_num se"
    and "sent (conn se') = sent (conn se)"
proof -
  let ?cmd = "Command (uninit (uninit_mem ext) HEADER_SIZE) (uninit (uninit_mem ext) CMD_PAYLOAD_BUFFER_LEN)"
  let ?se = "se\<lparr>conn := (conn se)\<lparr>rx := RxEof # es\<rparr>\<rparr>"
  have knd: "kind se \<in> {TCP, UNIX}" "session_id se = sid" "\<not> exit_comm ks" "map_at (session_pool ks) sid = Some se"
    using at by (simp_all add: at_loop_def)
  have "rcv_n_bytes HEADER_SIZE (rx (conn se)) = Some (0, [], RxEof # es)"
    using rcv_n_bytes_short [of "rx (conn se)" HEADER_SIZE] rx by (simp add: HEADER_SIZE_def stream_end_def)
  then have "tcp_read_command sid ?cmd (conn se) = Ret (0, ?cmd, (conn se)\<lparr>rx := RxEof # es\<rparr>)"
    by (simp add: tcp_read_command_def pokes_def patch_def)
  then have read: "session_read_command ?cmd se = Some (Ret (0, ?cmd, ?se))"
    using knd by (auto simp: session_read_command_def)
  have at2: "at_loop ext B sid ?se (put_session sid ?se ks)"
    using at_loop_put(2) [OF at, of ?se] at_loop_status [OF at] by simp
  then have "subscribers (put_session sid ?se ks) ! SYSLOG_CHANNEL = []" by (simp add: at_loop_def)
  from print_quiet [OF this, of INFO "lit ''TCPSocket: Connection closed by client'' @ nl" "trace (put_session sid ?se ks)"]
  obtain t where t: "print INFO (lit ''TCPSocket: Connection closed by client'' @ nl) (put_session sid ?se ks)
      = Ret ((put_session sid ?se ks)\<lparr>trace := t\<rparr>)" by auto
  let ?k = "(put_session sid ?se ks)\<lparr>trace := t\<rparr>"
  have "read_log ?cmd se 0 ?cmd = [(INFO, lit ''TCPSocket: Connection closed by client'' @ nl)]"
    using knd by (auto simp: read_log_def)
  with read t have "read_command sid ?cmd ks = Some (Ret (0, ?cmd, ?k))"
    by (simp add: read_command_def at_loop_session(1) [OF at])
  then have 1: "run_step ext sid Looping ks = Some (Ret (Received 0 ?cmd, ?k))"
    using knd(3) by (simp add: run_step_def at_loop_session(1) [OF at])
  have at3: "at_loop ext B sid ?se ?k" using at2 by simp
  then have "run_step ext sid (Received 0 ?cmd) ?k = Some (Ret (Returned 0, ?k))"
    using knd(3) by (simp add: run_step_def at_loop_session(1) [OF at3])
  with 1 have "run_loop ext sid Looping ks = Some (Ret (0, ?k))" by simp
  from that [OF this at3] show thesis by simp
qed

lemma serves_all:
  assumes "at_loop ext B sid se ks" and "\<forall>m \<in> set ms. device_contract ext sid exec m \<and> unat (fst m) \<in> marked ext B"
    and "rx_bytes (rx (conn se)) = concat (map message_bytes ms)" and "rx_after (rx (conn se)) = RxEof # es"
    and "served exec ms (devices ks) = (e, outs, w)" and "takes_outs outs (tx (conn se))"
  shows "\<exists>ks' se'. run_loop ext sid Looping ks = Some (Ret (0, ks')) \<and> at_loop ext B sid se' ks' \<and> devices ks' = w
    \<and> requests_num se' = requests_num se + of_nat (length ms) \<and> errors_num se' = errors_num se + of_nat e
    \<and> sent (conn se') = sent (conn se) @ concat outs"
  using assms
proof (induction ms arbitrary: se ks e outs)
  case Nil
  obtain ks' se' where "run_loop ext sid Looping ks = Some (Ret (0, ks'))" "at_loop ext B sid se' ks'"
    "devices ks' = devices ks" "requests_num se' = requests_num se" "errors_num se' = errors_num se"
    "sent (conn se') = sent (conn se)"
    by (rule serves_end [OF Nil.prems(1) _ Nil.prems(4)]) (use Nil.prems(3) in simp)
  with Nil.prems(5) show ?case by (intro exI [of _ ks'] exI [of _ se']) simp
next
  case (Cons m ms)
  have m: "device_contract ext sid exec m" "unat (fst m) \<in> marked ext B"
    "rx_bytes (rx (conn se)) = message_bytes m @ concat (map message_bytes ms)"
    using Cons.prems(2,3) by simp_all
  obtain r out v e' outs' where x: "exec m (devices ks) = (r, out, v)" "served exec ms v = (e', outs', w)"
    "e = (if r < 0 then 1 else 0) + e'" "outs = out # outs'"
    using Cons.prems(5) by (auto split: prod.splits)
  have out: "takes_out out (tx (conn se))" "takes_outs outs' (after_out out (tx (conn se)))"
    using Cons.prems(6) x(4) by simp_all
  obtain k1 s1 where k1: "run_loop ext sid Looping ks = run_loop ext sid Looping k1" "at_loop ext B sid s1 k1"
    "devices k1 = v" and s1: "replied out (concat (map message_bytes ms))
      (se\<lparr>requests_num := requests_num se + 1, errors_num := errors_num se + (if r < 0 then 1 else 0)\<rparr>) s1"
    by (rule serves_message [OF Cons.prems(1) m x(1) out(1)])
  have "\<forall>m \<in> set ms. device_contract ext sid exec m \<and> unat (fst m) \<in> marked ext B" using Cons.prems(2) by simp
  from Cons.IH [OF k1(2) this, of e' outs'] s1 k1(3) x(2) out(2) Cons.prems(4) obtain ks' se' where
    r: "run_loop ext sid Looping k1 = Some (Ret (0, ks'))" "at_loop ext B sid se' ks'" "devices ks' = w"
    "requests_num se' = requests_num s1 + of_nat (length ms)" "errors_num se' = errors_num s1 + of_nat e'"
    "sent (conn se') = sent (conn s1) @ concat outs'" by (auto simp: replied_def)
  show ?case
    using r k1(1) s1 x(3,4) by (intro exI [of _ ks'] exI [of _ se']) (simp add: replied_def)
qed

lemma session_conversation:
  assumes "at_loop ext B sid se ks"
    and "\<forall>m \<in> set ms. device_contract ext sid exec m \<and> unat (fst m) \<in> marked ext B"
    and "rx_bytes (rx (conn se)) = concat (map message_bytes ms)" and "rx_after (rx (conn se)) = RxEof # es"
    and "served exec ms (devices ks) = (e, outs, w)" and "takes_outs outs (tx (conn se))"
  shows "\<exists>ks' se'. run ext sid ks = Some (Ret (0, ks')) \<and> map_at (session_pool ks') sid = Some se'
    \<and> devices ks' = w \<and> requests_num se' = of_nat (length ms) \<and> errors_num se' = of_nat e
    \<and> sent (conn se') = sent (conn se) @ concat outs"
proof -
  let ?se = "se\<lparr>errors_num := 0, requests_num := 0, start_time := now ext\<rparr>"
  have at: "at_loop ext B sid ?se (put_session sid ?se ks)"
    using at_loop_put(2) [OF assms(1), of ?se] at_loop_status [OF assms(1)] by simp
  have "kind se \<noteq> WEBSOCK" using assms(1) by (auto simp: at_loop_def)
  then have "run_step ext sid Starting ks = Some (Ret (Looping, put_session sid ?se ks))"
    by (simp add: run_step_def init_session_def at_loop_session(2) [OF assms(1)] init_socket_def at_loop_session(1) [OF at])
  moreover from serves_all [OF at assms(2), of es e outs w] assms(3-6) obtain ks' se' where
    "run_loop ext sid Looping (put_session sid ?se ks) = Some (Ret (0, ks'))" "at_loop ext B sid se' ks'"
    "devices ks' = w" "requests_num se' = of_nat (length ms)" "errors_num se' = of_nat e"
    "sent (conn se') = sent (conn se) @ concat outs" by (auto simp del: run_loop_simps)
  ultimately show ?thesis
    by (intro exI [of _ ks'] exI [of _ se']) (simp add: run_def at_loop_def)
qed

section \<open>Properties\<close>

text \<open>C3: a session executes what its client sends and answers it. A TCP client that sends any number
  of commands to devices that are built, in whatever pieces the stream delivers them, reads the
  replies and then closes: each command is executed once, in the order in which it was sent, with
  its own arguments; what the client receives is the replies, in the same order and nothing else;
  the session returns 0, has counted every request and every failed one, and the devices are in
  the state that the commands, in this order, lead to.\<close>

theorem session_executes_commands:
  assumes "at_loop ext B sid se ks"
    and "\<forall>m \<in> set ms. device_contract ext sid exec m \<and> unat (fst m) \<in> marked ext B"
    and "rx_bytes (rx (conn se)) = concat (map message_bytes ms)" and "rx_after (rx (conn se)) = RxEof # es"
    and "served exec ms (devices ks) = (e, outs, w)" and "takes_outs outs (tx (conn se))"
  shows "\<exists>ks' se'. run ext sid ks = Some (Ret (0, ks')) \<and> map_at (session_pool ks') sid = Some se'
    \<and> devices ks' = w \<and> requests_num se' = of_nat (length ms) \<and> errors_num se' = of_nat e
    \<and> sent (conn se') = sent (conn se) @ concat outs"
  using assms by (rule session_conversation)

text \<open>A device that takes four bytes, keeps them and fails on zero, and a client of two such devices.\<close>

definition keeping_device :: "nat \<Rightarrow> command \<Rightarrow> byte list list kserver \<Rightarrow> (int \<times> byte list list kserver) res" where
  "keeping_device d cmd ks = (case map_at (session_pool ks) (sess_id cmd) of None \<Rightarrow> Undef
     | Some se \<Rightarrow> (case rcv_n_bytes 4 (rx (conn se)) of None \<Rightarrow> Wait
         | Some (n, got, es) \<Rightarrow> Ret (if got = [0, 0, 0, 0] then -1 else 0,
             (put_session (sess_id cmd) (se\<lparr>conn := (conn se)\<lparr>rx := es\<rparr>\<rparr>) ks)\<lparr>devices := devices ks @ [got]\<rparr>)))"

definition keeping :: "byte list list reaction" where
  "keeping m w = (case m of (dev, op, args) \<Rightarrow>
     let got = concat (map arg_image args) in (if got = [0, 0, 0, 0] then -1 else 0, [], w @ [got]))"

lemma keeping_contract:
  assumes "dev_execute ext = keeping_device" and "length (concat (map arg_image args)) = 4"
  shows "device_contract ext sid keeping (dev, op, args)"
proof -
  have *: "\<exists>se' t. keeping_device d cmd ks = Ret (r, (put_session sid se' ks)\<lparr>devices := w, trace := t\<rparr>)
      \<and> replied out rest se se'"
    if gk: "cmd_of sid cmd" "map_at (session_pool ks) sid = Some se"
      "rx_bytes (rx (conn se)) = concat (map arg_image args) @ rest" "keeping (dev, op, args) (devices ks) = (r, out, w)"
    for d cmd ks se rest r out w
  proof -
    obtain es where "rcv_n_bytes 4 (rx (conn se)) = Some (to_int (int 4), take 4 (rx_bytes (rx (conn se))), es)"
      "rx_bytes es = drop 4 (rx_bytes (rx (conn se)))" "rx_after es = rx_after (rx (conn se))"
      by (rule rcv_n_bytes_complete [of 4 "rx (conn se)"]) (use gk(3) assms(2) in simp)
    with gk assms(2) show ?thesis
      by (intro exI [of _ "se\<lparr>conn := (conn se)\<lparr>rx := es\<rparr>\<rparr>"] exI [of _ "trace ks"])
        (auto simp: keeping_device_def keeping_def Let_def cmd_of_def put_session_def replied_def after_out_def)
  qed
  show ?thesis unfolding device_contract_def prod.case assms(1) by (intro allI impI *)
qed

definition keeping_external :: "byte list list external" where
  "keeping_external = \<lparr>version = [], devices_json = [], now = 12, uninit_mem = (\<lambda>_. 255), device_num = 4,
     dev_name = (\<lambda>_. []), deps = (\<lambda>_. []), build = (\<lambda>d w. w), dev_execute = keeping_device\<rparr>"

definition keeping_server :: "session \<Rightarrow> byte list list kserver" where
  "keeping_server se =
     \<lparr>config = KServerConfig, s_interrupted = False, exit_comm = False, exit_all = False,
      tcp_listener = ListeningChannel, websock_listener = ListeningChannel, unix_listener = ListeningChannel,
      dev_manager = \<lparr>cont_is_started = [True, True], cont_is_starting = [False, False], devtup = [True, True],
        device_list = [True, True], dm_is_started = [True, True]\<rparr>,
      session_pool = [(0, se)], reusable_ids = [], num_sess = 1, subscribers = Subscribers, server_start_time = 0,
      devices = [], shutdown_ret = (\<lambda>_. 0), trace = []\<rparr>"

definition keeping_session :: session where
  "keeping_session = Session TCP (connection_of \<lparr>rx = [RxData [0, 0, 0, 0, 0, 2, 0], RxData [7, 0, 0, 0, 5, 0, 0],
     RxData [0, 0, 0, 3, 0, 1, 0, 0, 0, 0], RxEof], tx = [], sent = []\<rparr>) 0"

theorem session_executes_commands_witness:
  "\<exists>ks' se'. run keeping_external 0 (keeping_server keeping_session) = Some (Ret (0, ks'))
    \<and> map_at (session_pool ks') 0 = Some se' \<and> devices ks' = [[0, 0, 0, 5], [0, 0, 0, 0]]
    \<and> requests_num se' = 2 \<and> errors_num se' = 1 \<and> sent (conn se') = []"
proof -
  let ?ms = "[(2, 7, [Scalar (V_uint32 5)]), (3, 1, [Scalar (V_uint32 0)])] :: message list"
  have img: "arg_image (Scalar (V_uint32 5)) = [0, 0, 0, 5]" "arg_image (Scalar (V_uint32 0)) = [0, 0, 0, 0]"
    by code_simp+
  have at: "at_loop keeping_external [True, True] 0 keeping_session (keeping_server keeping_session)"
    by (simp add: at_loop_def keeping_server_def map_sorted_def map_keys_def map_at_def channels Subscribers_def keeping_session_def session_new)
  have con: "\<forall>m \<in> set ?ms. device_contract keeping_external 0 keeping m \<and> unat (fst m) \<in> marked keeping_external [True, True]"
    by (auto intro!: keeping_contract simp: img marked_def devs_def flag_def keeping_external_def)
  have "concat (map message_bytes ?ms) = [0, 0, 0, 0, 0, 2, 0, 7, 0, 0, 0, 5, 0, 0, 0, 0, 0, 3, 0, 1, 0, 0, 0, 0]"
    by code_simp
  then have rx: "rx_bytes (rx (conn keeping_session)) = concat (map message_bytes ?ms)"
    "rx_after (rx (conn keeping_session)) = RxEof # []" "sent (conn keeping_session) = []"
    by (simp_all add: keeping_session_def session_new)
  have "served keeping ?ms [] = (1, [[], []], [[0, 0, 0, 5], [0, 0, 0, 0]])" by code_simp
  then have ser: "served keeping ?ms (devices (keeping_server keeping_session)) = (1, [[], []], [[0, 0, 0, 5], [0, 0, 0, 0]])"
    by (simp add: keeping_server_def del: served.simps)
  have "takes_outs [[], []] (tx (conn keeping_session))" by (simp add: takes_out_def)
  from session_executes_commands [OF at con rx(1,2) ser this] rx(3) show ?thesis by simp
qed



end
