(* ===== verification/Listening.thy ===== *)
theory Listening
  imports SessionRun
begin

text \<open>
  The listening channels of \<open>core/listening_channel.cpp\<close>: creating the sockets, accepting a
  client, the limit on the number of sessions, shutting down. What the system calls answer is
  the record \<open>os\<close>, an argument of the operations; what the server asks of the system is in the
  trace.
\<close>

section \<open>What the system answers\<close>

record os =
  socket_ret :: int
  reuseaddr_ret :: int
  nodelay_ret :: int
  bind_ret :: int
  listen_ret :: int
  sndbuf_ret :: int
  rcvbuf_ret :: int

definition KSERVER_SIG_LEN :: nat where "KSERVER_SIG_LEN = 16384"
definition KSERVER_BACKLOG :: int where "KSERVER_BACKLOG = 10"

section \<open>Sockets\<close>

text \<open>\<open>htons\<close> takes the low sixteen bits of the port.\<close>

definition create_tcp_listening :: "os \<Rightarrow> u32 \<Rightarrow> 'w kserver \<Rightarrow> (int \<times> 'w kserver) res" where
  "create_tcp_listening sys p ks =
     (let fd = socket_ret sys in
      if fd < 0 then bind_res (print PANIC (lit ''Can't open socket'' @ nl) ks) (\<lambda>ks. Ret (-1, ks))
      else
        bind_res (let ks = put (SockOpt fd ''SO_REUSEADDR'' 1) ks in
          if reuseaddr_ret sys = -1 then print CRITICAL (lit ''Cannot set SO_REUSEADDR'' @ nl) ks else Ret ks) (\<lambda>ks.
        bind_res (if tcp_nodelay (config ks) then
            let ks = put (SockOpt fd ''TCP_NODELAY'' 1) ks in
            if nodelay_ret sys < 0 then print CRITICAL (lit ''Cannot set TCP_NODELAY'' @ nl) ks else Ret ks
          else Ret ks) (\<lambda>ks.
        let ks = put (BindPort fd (ucast p)) ks in
        if bind_ret sys < 0 then
          bind_res (print PANIC (lit ''Binding error'' @ nl) ks) (\<lambda>ks. Ret (-1, put (CloseFd fd) ks))
        else Ret (fd, ks))))"

text \<open>The two arrays have the same size; a path without terminator makes \<open>strcpy\<close> read past it.\<close>

definition create_unix_listening :: "os \<Rightarrow> byte list \<Rightarrow> 'w kserver \<Rightarrow> (int \<times> 'w kserver) res" where
  "create_unix_listening sys path ks =
     (let fd = socket_ret sys in
      if fd < 0 then bind_res (print PANIC (lit ''Can't open Unix socket'' @ nl) ks) (\<lambda>ks. Ret (-1, ks))
      else if 0 \<notin> set path then Undef
      else bind_res (of_ub (strcpy (replicate UNIX_SOCKET_PATH_LEN 0) (c_string path))) (\<lambda>sun_path.
        let ks = put (BindPath fd (c_string sun_path)) (put (Unlink (c_string sun_path)) ks) in
        if bind_ret sys < 0 then
          bind_res (print PANIC (lit ''Unix socket binding error'' @ nl) ks) (\<lambda>ks. Ret (-1, put (CloseFd fd) ks))
        else Ret (fd, ks)))"

definition set_comm_sock_opts :: "os \<Rightarrow> int \<Rightarrow> 'w kserver \<Rightarrow> (int \<times> 'w kserver) res" where
  "set_comm_sock_opts sys fd ks =
     (let ks = put (SockOpt fd ''SO_SNDBUF'' (4 * int KSERVER_SIG_LEN)) ks in
      if sndbuf_ret sys < 0 then
        bind_res (print CRITICAL (lit ''Cannot set socket send options'' @ nl) ks) (\<lambda>ks. Ret (-1, put (CloseFd fd) ks))
      else let ks = put (SockOpt fd ''SO_RCVBUF'' (int KSERVER_READ_STR_LEN)) ks in
      if rcvbuf_ret sys < 0 then
        bind_res (print CRITICAL (lit ''Cannot set socket receive options'' @ nl) ks) (\<lambda>ks. Ret (-1, put (CloseFd fd) ks))
      else if tcp_nodelay (config ks) then
        let ks = put (SockOpt fd ''TCP_NODELAY'' 1) ks in
        if nodelay_ret sys < 0 then
          bind_res (print CRITICAL (lit ''Cannot set TCP_NODELAY'' @ nl) ks) (\<lambda>ks. Ret (-1, put (CloseFd fd) ks))
        else Ret (0, ks)
      else Ret (0, ks))"

text \<open>\<open>c\<close> is the connection that \<open>accept\<close> returns; a negative descriptor is its error.\<close>

definition open_tcp_communication :: "os \<Rightarrow> connection \<Rightarrow> 'w kserver \<Rightarrow> (int \<times> 'w kserver) res" where
  "open_tcp_communication sys c ks =
     (if conn_fd c < 0 then Ret (conn_fd c, ks)
      else bind_res (set_comm_sock_opts sys (conn_fd c) ks) (\<lambda>(r, ks).
        if r < 0 then Ret (-1, ks) else Ret (conn_fd c, ks)))"

section \<open>The channels\<close>

text \<open>The listener of each kind, and the limit of the configuration for it.\<close>

definition the_listener :: "SockType \<Rightarrow> 'w kserver \<Rightarrow> listener" where
  "the_listener t ks = (case t of WEBSOCK \<Rightarrow> websock_listener ks | UNIX \<Rightarrow> unix_listener ks | _ \<Rightarrow> tcp_listener ks)"

definition on_listener :: "SockType \<Rightarrow> (listener \<Rightarrow> listener) \<Rightarrow> 'w kserver \<Rightarrow> 'w kserver" where
  "on_listener t f ks = (case t of
     WEBSOCK \<Rightarrow> ks\<lparr>websock_listener := f (websock_listener ks)\<rparr>
   | UNIX \<Rightarrow> ks\<lparr>unix_listener := f (unix_listener ks)\<rparr>
   | _ \<Rightarrow> ks\<lparr>tcp_listener := f (tcp_listener ks)\<rparr>)"

definition worker_connections :: "SockType \<Rightarrow> kserver_config \<Rightarrow> u32" where
  "worker_connections t c = (case t of WEBSOCK \<Rightarrow> websock_worker_connections c
     | UNIX \<Rightarrow> unixsock_worker_connections c | _ \<Rightarrow> tcp_worker_connections c)"

definition tcp_init :: "os \<Rightarrow> 'w kserver \<Rightarrow> (int \<times> 'w kserver) res" where
  "tcp_init sys ks =
     (let ks = on_listener TCP (num_threads_update (\<lambda>_. 0)) ks in
      if tcp_worker_connections (config ks) > 0 then
        bind_res (create_tcp_listening sys (tcp_port (config ks)) ks)
          (\<lambda>(fd, ks). Ret (fd, on_listener TCP (listen_fd_update (\<lambda>_. fd)) ks))
      else Ret (0, ks))"

definition websock_init :: "os \<Rightarrow> 'w kserver \<Rightarrow> (int \<times> 'w kserver) res" where
  "websock_init sys ks =
     (let ks = on_listener WEBSOCK (num_threads_update (\<lambda>_. 0)) ks in
      if websock_worker_connections (config ks) > 0 then
        bind_res (create_tcp_listening sys (websock_port (config ks)) ks)
          (\<lambda>(fd, ks). Ret (fd, on_listener WEBSOCK (listen_fd_update (\<lambda>_. fd)) ks))
      else Ret (0, ks))"

definition unix_init :: "os \<Rightarrow> 'w kserver \<Rightarrow> (int \<times> 'w kserver) res" where
  "unix_init sys ks =
     (let ks = on_listener UNIX (num_threads_update (\<lambda>_. 0)) ks in
      if unixsock_worker_connections (config ks) > 0 then
        bind_res (create_unix_listening sys (unixsock_path (config ks)) ks)
          (\<lambda>(fd, ks). Ret (fd, on_listener UNIX (listen_fd_update (\<lambda>_. fd)) ks))
      else Ret (0, ks))"

definition listener_init :: "os \<Rightarrow> SockType \<Rightarrow> 'w kserver \<Rightarrow> (int \<times> 'w kserver) res" where
  "listener_init sys t ks = (case t of WEBSOCK \<Rightarrow> websock_init sys ks | UNIX \<Rightarrow> unix_init sys ks | _ \<Rightarrow> tcp_init sys ks)"

text \<open>Closing: the messages name the channel.\<close>

definition close_channel :: "string \<Rightarrow> int \<Rightarrow> 'w kserver \<Rightarrow> 'w kserver res" where
  "close_channel name fd ks =
     (let ks = put (ShutdownFd fd) ks in
      bind_res (if shutdown_ret ks fd < 0
          then print WARNING (lit ''Cannot shutdown socket for '' @ lit name @ lit '' listener'' @ nl) ks
          else Ret ks) (\<lambda>ks. Ret (put (CloseFd fd) ks)))"

definition tcp_shutdown :: "'w kserver \<Rightarrow> 'w kserver res" where
  "tcp_shutdown ks =
     (if tcp_worker_connections (config ks) > 0 then
        bind_res (print INFO (lit ''Closing TCP listener ...'' @ nl) ks)
          (\<lambda>ks. close_channel ''TCP'' (listen_fd (tcp_listener ks)) ks)
      else Ret ks)"

definition websock_shutdown :: "'w kserver \<Rightarrow> 'w kserver res" where
  "websock_shutdown ks =
     (if websock_worker_connections (config ks) > 0 then
        bind_res (print INFO (lit ''Closing WebSocket listener ...'' @ nl) ks)
          (\<lambda>ks. close_channel ''WebSocket'' (listen_fd (websock_listener ks)) ks)
      else Ret ks)"

definition unix_shutdown :: "'w kserver \<Rightarrow> 'w kserver res" where
  "unix_shutdown ks =
     (if unixsock_worker_connections (config ks) > 0 then
        bind_res (print INFO (lit ''Closing Unix listener ...'' @ nl) ks)
          (\<lambda>ks. close_channel ''Unix'' (listen_fd (unix_listener ks)) ks)
      else Ret ks)"

definition listener_shutdown :: "SockType \<Rightarrow> 'w kserver \<Rightarrow> 'w kserver res" where
  "listener_shutdown t ks = (case t of WEBSOCK \<Rightarrow> websock_shutdown ks | UNIX \<Rightarrow> unix_shutdown ks | _ \<Rightarrow> tcp_shutdown ks)"

definition unix_open_communication :: "connection \<Rightarrow> 'w kserver \<Rightarrow> (int \<times> 'w kserver) res" where
  "unix_open_communication c ks = Ret (conn_fd c, ks)"

definition open_communication :: "os \<Rightarrow> SockType \<Rightarrow> connection \<Rightarrow> 'w kserver \<Rightarrow> (int \<times> 'w kserver) res" where
  "open_communication sys t c ks = (case t of UNIX \<Rightarrow> unix_open_communication c ks | _ \<Rightarrow> open_tcp_communication sys c ks)"

definition tcp_is_max_threads :: "'w kserver \<Rightarrow> bool" where
  "tcp_is_max_threads ks \<longleftrightarrow> num_threads (tcp_listener ks) + 1 > to_int (uint (tcp_worker_connections (config ks)))"

definition websock_is_max_threads :: "'w kserver \<Rightarrow> bool" where
  "websock_is_max_threads ks \<longleftrightarrow> num_threads (websock_listener ks) + 1 > to_int (uint (websock_worker_connections (config ks)))"

definition unix_is_max_threads :: "'w kserver \<Rightarrow> bool" where
  "unix_is_max_threads ks \<longleftrightarrow> num_threads (unix_listener ks) + 1 > to_int (uint (unixsock_worker_connections (config ks)))"

definition is_max_threads :: "SockType \<Rightarrow> 'w kserver \<Rightarrow> bool" where
  "is_max_threads t ks \<longleftrightarrow> (case t of WEBSOCK \<Rightarrow> websock_is_max_threads ks
     | UNIX \<Rightarrow> unix_is_max_threads ks | _ \<Rightarrow> tcp_is_max_threads ks)"

text \<open>\<open>__start_worker\<close>; whether the thread of the channel was started.\<close>

definition start_worker :: "os \<Rightarrow> SockType \<Rightarrow> 'w kserver \<Rightarrow> (int \<times> bool \<times> 'w kserver) res" where
  "start_worker sys t ks =
     (let fd = listen_fd (the_listener t ks) in
      if fd \<ge> 0 then
        let ks = put (ListenFd fd KSERVER_BACKLOG) ks in
        if listen_ret sys < 0 then
          bind_res (print PANIC (lit ''Listen '' @ lit (listen_channel_desc t) @ lit '' error'' @ nl) ks)
            (\<lambda>ks. Ret (-1, False, ks))
        else Ret (0, True, ks)
      else Ret (0, False, ks))"

section \<open>The kinds of channel, uniformly\<close>

lemma listener_init_eq:
  "listener_init sys t ks =
     (let ks = on_listener t (num_threads_update (\<lambda>_. 0)) ks in
      if worker_connections t (config ks) > 0 then
        bind_res (case t of UNIX \<Rightarrow> create_unix_listening sys (unixsock_path (config ks)) ks
          | WEBSOCK \<Rightarrow> create_tcp_listening sys (websock_port (config ks)) ks
          | _ \<Rightarrow> create_tcp_listening sys (tcp_port (config ks)) ks)
          (\<lambda>(fd, ks). Ret (fd, on_listener t (listen_fd_update (\<lambda>_. fd)) ks))
      else Ret (0, ks))"
  by (cases t) (simp_all add: listener_init_def tcp_init_def websock_init_def unix_init_def worker_connections_def on_listener_def Let_def)

lemma listener_shutdown_eq:
  "\<exists>msg name. listener_shutdown t ks =
     (if worker_connections t (config ks) > 0 then
        bind_res (print INFO msg ks) (\<lambda>ks. close_channel name (listen_fd (the_listener t ks)) ks)
      else Ret ks)"
  by (cases t) (auto simp: listener_shutdown_def tcp_shutdown_def websock_shutdown_def unix_shutdown_def
      worker_connections_def the_listener_def)

lemma is_max_threads_eq:
  "is_max_threads t ks \<longleftrightarrow> num_threads (the_listener t ks) + 1 > to_int (uint (worker_connections t (config ks)))"
  by (cases t) (simp_all add: is_max_threads_def tcp_is_max_threads_def websock_is_max_threads_def unix_is_max_threads_def
      worker_connections_def the_listener_def)

end
