(* ===== verification/Keeps.thy ===== *)
theory Keeps
  imports Listening
begin

text \<open>
  What the operations of a session thread leave as it is: the sessions in the pool, the listeners,
  the configuration and the flags of the server, together with the invariant of the session
  manager. The statements are about calls that return; whether they do is a matter of the
  sockets and of the devices.
\<close>

section \<open>Calls that return\<close>

definition if_ret :: "('a \<Rightarrow> bool) \<Rightarrow> 'a res option \<Rightarrow> bool" where
  "if_ret Q m \<longleftrightarrow> (\<forall>x. m = Some (Ret x) \<longrightarrow> Q x)"

lemma if_ret_simps [simp]:
  "if_ret Q None" "if_ret Q (Some Undef)" "if_ret Q (Some Wait)" "if_ret Q (Some Throw)" "if_ret Q (Some (Ret x)) = Q x"
  by (simp_all add: if_ret_def)

lemma if_ret_bind: "if_ret Q m \<Longrightarrow> (\<And>x. Q x \<Longrightarrow> if_ret R (f x)) \<Longrightarrow> if_ret R (bind_ro m f)"
  by (cases m rule: option.exhaust; cases "the m") auto

lemma if_ret_bind_res: "if_ret Q (Some m) \<Longrightarrow> (\<And>x. Q x \<Longrightarrow> if_ret R (Some (f x))) \<Longrightarrow> if_ret R (Some (bind_res m f))"
  by (cases m) auto

lemma if_ret_mono: "if_ret Q m \<Longrightarrow> (\<And>x. Q x \<Longrightarrow> R x) \<Longrightarrow> if_ret R m"
  by (auto simp: if_ret_def)

lemma if_ret_safe: "safe_res Q m \<Longrightarrow> if_ret Q (Some m)"
  by (cases m) auto

lemma if_ret_any: "if_ret (\<lambda>_. True) m"
  by (simp add: if_ret_def)

section \<open>The frame\<close>

definition frame :: "'w kserver \<Rightarrow> 'w kserver \<Rightarrow> bool" where
  "frame ks ks' \<longleftrightarrow> tcp_listener ks' = tcp_listener ks \<and> websock_listener ks' = websock_listener ks
     \<and> unix_listener ks' = unix_listener ks \<and> config ks' = config ks \<and> exit_comm ks' = exit_comm ks
     \<and> s_interrupted ks' = s_interrupted ks \<and> shutdown_ret ks' = shutdown_ret ks"

lemma frame_refl [simp]: "frame ks ks"
  by (simp add: frame_def)

lemma frame_trans: "frame a b \<Longrightarrow> frame b c \<Longrightarrow> frame a c"
  by (simp add: frame_def)

lemma frame_updates [simp]:
  "frame ks (put ev k) = frame ks k" "frame ks (put_session sid se k) = frame ks k"
  "frame ks (k\<lparr>subscribers := s\<rparr>) = frame ks k" "frame ks (on_dm f k) = frame ks k"
  "frame ks (k\<lparr>devices := w\<rparr>) = frame ks k" "frame ks (k\<lparr>exit_all := b\<rparr>) = frame ks k"
  by (simp_all add: frame_def put_def put_session_def on_dm_def)

lemma sends_frame: "sends ks k \<Longrightarrow> frame ks k"
  using only_sends_frame [of ks k] by (simp add: sends_def frame_def)

text \<open>Rules for calls whose first part keeps the frame.\<close>

definition framed :: "'w kserver \<Rightarrow> (int \<times> 'w kserver) res \<Rightarrow> bool" where
  "framed ks m \<longleftrightarrow> if_ret (\<lambda>(r, k). frame ks k) (Some m)"

lemma framed_Ret [simp]: "framed ks (Ret (r, k)) = frame ks k"
  by (simp add: framed_def)

lemma framed_Undef [simp]: "framed ks Undef"
  by (simp add: framed_def)

lemma framed_bind:
  assumes "framed ks m" and "\<And>r k. frame ks k \<Longrightarrow> framed ks (f (r, k))"
  shows "framed ks (bind_res m f)"
  using assms unfolding framed_def by (intro if_ret_bind_res [of "\<lambda>(r, k). frame ks k"]) auto

lemma framed_from: "framed k m \<Longrightarrow> frame ks k \<Longrightarrow> framed ks m"
  unfolding framed_def by (erule if_ret_mono) (auto intro: frame_trans)

lemma send_to_framed: "framed ks (send_to sid c f args ks)"
proof -
  have "if_ret (\<lambda>(r, k). frame ks k) (Some (bind_res (session_send (replicate 8 0) (word_of_nat c) (word_of_nat f) args se)
      (\<lambda>(n, se). Ret (n, put_session sid se ks))))" for se
    by (rule if_ret_bind_res [OF if_ret_any]) auto
  then show ?thesis
    unfolding send_to_def framed_def by (rule if_ret_bind_res [OF if_ret_any])
qed

lemma emit_loop_framed: "framed ks (emit_loop c e args sids err ks)"
proof (induction sids arbitrary: err ks)
  case (Cons sid sids)
  show ?case
    unfolding emit_loop.simps by (rule framed_bind [OF send_to_framed]) (auto intro: framed_from [OF Cons.IH])
qed simp

lemma emit_framed: "framed ks (emit c e args ks)" "framed ks (emit_str c e msg ks)"
  by (simp_all add: emit_def emit_str_def emit_loop_framed)

lemma print_msg_frame [simp]: "frame ks (print_msg sev msg k) = frame ks k" "frame ks (call_syslog sev msg k) = frame ks k"
  by (simp_all add: print_msg_def call_syslog_def)

lemma print_framed: "if_ret (frame ks) (Some (print sev msg ks))"
proof -
  let ?k = "call_syslog sev msg (print_msg sev msg ks)"
  have "framed ?k (emit_error sev msg ?k)" by (simp add: emit_error_def emit_framed(2))
  then have "framed ks (emit_error sev msg ?k)" by (rule framed_from) simp
  then show ?thesis unfolding print_def framed_def by (rule if_ret_bind_res) auto
qed

lemma framed_print:
  assumes "\<And>k. frame ks k \<Longrightarrow> framed ks (f k)"
  shows "frame ks k \<Longrightarrow> framed ks (bind_res (print sev msg k) f)"
  unfolding framed_def
  by (rule if_ret_bind_res [OF if_ret_mono [OF print_framed]])
    (use assms in \<open>auto simp: framed_def intro: frame_trans\<close>)

lemma subscribe_pubsub_framed: "framed ks (subscribe_pubsub ext cmd ks)"
proof -
  have body: "framed ks (if err < 0 then
           bind_res (print ERROR (lit ''Pubsub subscribe: cannot read channel'' @ nl) k) (\<lambda>ks. Ret (-1, ks))
         else (case tup of
           [V_uint32 channel] \<Rightarrow>
             bind_res (print DEBUG (lit ''Session id #'' @ fmt_u (sess_id cmd) @ lit '' subscribes to channel #''
               @ fmt_u (uint channel) @ nl) k) (\<lambda>ks.
             let (r, subs) = subscribe (ucast channel) (sess_id cmd) (subscribers ks) in
             Ret (r, ks\<lparr>subscribers := subs\<rparr>))
         | _ \<Rightarrow> Undef))" if "frame ks k" for err :: int and tup k cmd
    using that by (auto split: list.split scalar.split intro!: framed_print simp: split_beta)
  show ?thesis
  proof (cases "Option.bind (sess cmd) (map_at (session_pool ks))")
    case (Some se)
    show ?thesis
      unfolding subscribe_pubsub_def Some option.case framed_def
    proof (rule if_ret_bind_res [OF if_ret_any], goal_cases)
      case (1 x)
      obtain err tup se' cmd' where x: "x = (err, tup, se', cmd')" by (cases x) auto
      show ?case
        unfolding x prod.case Let_def
        by (rule body [unfolded framed_def Let_def]) simp
    qed
  qed (simp add: subscribe_pubsub_def)
qed

lemma pubsub_ping_framed: "framed ks (pubsub_ping cmd ks)"
  unfolding pubsub_ping_def
  by (rule framed_bind [OF emit_framed(1)], clarsimp, rule framed_bind [OF framed_from [OF emit_framed(2)]], assumption, clarsimp)
    (auto intro!: framed_print)

lemma replying_framed: "safe_res (\<lambda>(r, k). replying ks sid k) m \<Longrightarrow> framed ks m"
  unfolding framed_def by (drule if_ret_safe, erule if_ret_mono) (auto simp: replying_def sends_frame)

section \<open>Executing a command\<close>

definition keeps :: "'w kserver \<Rightarrow> 'w kserver \<Rightarrow> bool" where
  "keeps ks ks' \<longleftrightarrow> mgr_inv ks' \<and> map_keys (session_pool ks') = map_keys (session_pool ks) \<and> frame ks ks'"

lemma keeps_refl: "mgr_inv ks \<Longrightarrow> keeps ks ks"
  by (simp add: keeps_def)

lemma keeps_trans: "keeps a b \<Longrightarrow> keeps b c \<Longrightarrow> keeps a c"
  by (auto simp: keeps_def intro: frame_trans)

lemma keeps_mgr_inv: "keeps ks k \<Longrightarrow> mgr_inv k"
  by (simp add: keeps_def)

lemma keeps_sends: "mgr_inv ks \<Longrightarrow> sends ks k \<Longrightarrow> keeps ks k"
  using mgr_inv_sends [of ks k] sends_frame [of ks k] only_sends_frame(10) [of ks k]
  by (simp add: keeps_def sends_def)

lemma keeps_updates [simp]:
  "keeps ks (put ev k) = keeps ks k" "keeps ks (on_dm f k) = keeps ks k"
  "keeps ks (k\<lparr>devices := w\<rparr>) = keeps ks k" "keeps ks (k\<lparr>exit_all := b\<rparr>) = keeps ks k"
proof -
  have "mgr_inv (put ev k) = mgr_inv k"
    by (simp add: mgr_inv_def get_current_ids_def) (simp add: put_def)
  then show "keeps ks (put ev k) = keeps ks k" by (simp add: keeps_def) (simp add: put_def)
qed (simp_all add: keeps_def on_dm_def mgr_inv_dm [unfolded on_dm_def] frame_def)

lemma print_keeps:
  assumes "keeps ks k"
  shows "if_ret (keeps ks) (Some (print sev msg k))"
proof -
  have inv: "mgr_inv k" using assms by (rule keeps_mgr_inv)
  then have "safe_res (sends k) (print sev msg k)" by (intro print_safe) (simp add: mgr_inv_def)
  then have "if_ret (sends k) (Some (print sev msg k))" by (rule if_ret_safe)
  then show ?thesis by (rule if_ret_mono) (use keeps_sends [OF inv] keeps_trans [OF assms] in blast)
qed

lemma prints_keeps: "keeps ks k \<Longrightarrow> if_ret (keeps ks) (Some (prints ms k))"
proof (induction ms k rule: prints.induct)
  case (2 sev msg ms k)
  show ?case
    unfolding prints.simps by (rule if_ret_bind_res [OF print_keeps [OF 2(2)]]) (rule 2(1))
qed simp

text \<open>What the server needs of the texts it is built with and of the devices.\<close>

definition ext_ok :: "'w external \<Rightarrow> bool" where
  "ext_ok ext \<longleftrightarrow> reply_ok [CString (version ext @ [0])] \<and> reply_ok [StdString (devices_json ext)]
     \<and> (\<forall>d cmd ks. mgr_inv ks \<longrightarrow> if_ret (\<lambda>(r, k). keeps ks k) (Some (dev_execute ext d cmd ks)))"

lemma kserver_execute_framed:
  assumes "mgr_inv ks" and "sess_id cmd \<in> set (map_keys (session_pool ks))" and "listeners_ok ks"
  shows "framed ks (kserver_execute ext cmd ks)"
proof -
  have "safe_res (\<lambda>(r, k). replying ks (sess_id cmd) k) (get_stats ext cmd ks)"
    by (rule safe_res_mono [OF get_stats_safe [OF assms]]) auto
  then have "framed ks (get_stats ext cmd ks)" by (rule replying_framed)
  moreover have "framed ks (get_running_sessions ext cmd ks)"
    by (rule replying_framed [OF get_running_sessions_safe [OF assms(1,2)]])
  moreover have "framed ks (bind_res (print ERROR msg ks) (\<lambda>ks. Ret (-1, ks)))" for msg
    by (intro framed_print) simp_all
  ultimately show ?thesis
    by (simp add: kserver_execute_def get_version_def get_cmds_def reply_text_def send_to_framed get_dev_status_def
        subscribe_pubsub_framed pubsub_ping_framed)
qed

lemma kserver_execute_if:
  assumes "mgr_inv ks" and "cmd_of sid cmd" and "sid \<in> set (map_keys (session_pool ks))" and "listeners_ok ks" and "ext_ok ext"
  shows "if_ret (\<lambda>(r, k). keeps ks k) (Some (kserver_execute ext cmd ks))"
proof -
  have "sess_id cmd = sid" using assms(2) by (simp add: cmd_of_def)
  with kserver_execute_framed [OF assms(1) _ assms(4), of cmd ext] assms(3)
  have f: "if_ret (\<lambda>(r, k). frame ks k) (Some (kserver_execute ext cmd ks))" by (simp add: framed_def)
  have "if_ret (\<lambda>(r, k). mgr_inv k \<and> map_keys (session_pool k) = map_keys (session_pool ks)) (Some (kserver_execute ext cmd ks))"
    using assms(5) by (intro if_ret_safe kserver_execute_keeps [OF assms(1-4)]) (simp_all add: ext_ok_def)
  with f show ?thesis by (auto simp: if_ret_def keeps_def)
qed

lemma keeps_built [simp]: "keeps ks (dm_built d k) = keeps ks k" "keeps ks (cont_built ext d k) = keeps ks k"
  by (simp_all add: dm_built_def cont_built_def)

lemma alloc_get_keeps:
  "keeps ks0 ks \<Longrightarrow> if_ret (keeps ks0) (alloc_device n ext d ks)"
  "keeps ks0 ks \<Longrightarrow> if_ret (keeps ks0) (get_devices n ext ds ks)"
proof (induction n ext d ks and n ext ds ks rule: alloc_device_get_devices.induct)
  case (2 n ext d ks)
  show ?case
  proof (cases "flag (dm_is_started (dev_manager ks)) d")
    case False
    have con: "if_ret (\<lambda>(r, k). keeps ks0 k) (cont_alloc (get_devices n ext (deps ext d)) ext d k)" if k: "keeps ks0 k" for k
    proof -
      have "if_ret (keeps ks0) (get_devices n ext (deps ext d) (on_dm (cont_is_starting_update (set_flag d True)) k))"
        by (rule "2.IH" [OF False]) (simp add: k)
      then show ?thesis
        unfolding cont_alloc_def
        by (auto simp: k intro!: if_ret_bind [OF print_keeps [OF k]] elim: if_ret_bind)
    qed
    show ?thesis
      unfolding alloc_device.simps if_not_P [OF False]
      by (rule if_ret_bind [OF print_keeps [OF "2.prems"]], rule if_ret_bind [OF con], assumption)
        (auto intro!: if_ret_bind [OF print_keeps])
  qed (use "2.prems" in simp)
next
  case (4 n ext d ds ks)
  have "if_ret (keeps ks0) (if flag (dm_is_started (dev_manager ks)) d then Some (Ret ks) else alloc_device n ext d ks)"
    using "4.IH"(1) "4.prems" by simp
  then show ?case
    unfolding get_devices.simps by (rule if_ret_bind) (use "4.IH"(2) in auto)
qed simp_all

lemma start_impl_keeps: "keeps ks0 ks \<Longrightarrow> if_ret (keeps ks0) (start_impl ext ds d ks)"
  by (induction ext ds d ks rule: start_impl.induct) (simp_all add: alloc_get_keeps(1))

lemma dev_execute_keeps:
  assumes "ext_ok ext" and "keeps ks0 k"
  shows "if_ret (\<lambda>(r, k'). keeps ks0 k') (Some (dev_execute ext d cmd k))"
proof -
  have "if_ret (\<lambda>(r, k'). keeps k k') (Some (dev_execute ext d cmd k))"
    using assms(1) keeps_mgr_inv [OF assms(2)] by (simp add: ext_ok_def)
  then show ?thesis by (rule if_ret_mono) (use keeps_trans [OF assms(2)] in auto)
qed

lemma execute_dev_keeps: "ext_ok ext \<Longrightarrow> keeps ks0 k \<Longrightarrow> if_ret (\<lambda>(r, k'). keeps ks0 k') (Some (execute_dev ext d cmd k))"
proof -
  assume *: "ext_ok ext" "keeps ks0 k"
  have "if_ret (\<lambda>(r, k'). keeps ks0 k') (Some (execute_dev_impl ext ds d cmd k))" for ds
    using * by (induction ext ds d cmd k rule: execute_dev_impl.induct) (simp_all add: dev_execute_keeps)
  then show ?thesis by (simp add: execute_dev_def)
qed

lemma dm_execute_keeps:
  assumes "mgr_inv ks" and "cmd_of sid cmd" and "sid \<in> set (map_keys (session_pool ks))" and "listeners_ok ks" and "ext_ok ext"
  shows "if_ret (\<lambda>(r, k). keeps ks k) (dm_execute ext cmd ks)"
proof -
  have "if_ret (keeps ks) (if \<not> flag (dm_is_started (dev_manager ks)) (device cmd) then dm_start ext (device cmd) ks
      else Some (Ret ks))"
    using keeps_refl [OF assms(1)] by (simp add: dm_start_def start_impl_keeps)
  then have "if_ret (\<lambda>(r, k). keeps ks k) (bind_ro (if \<not> flag (dm_is_started (dev_manager ks)) (device cmd) then dm_start ext (device cmd) ks
      else Some (Ret ks)) (\<lambda>k. Some (execute_dev ext (device cmd) cmd k)))"
    by (rule if_ret_bind) (rule execute_dev_keeps [OF assms(5)])
  then show ?thesis
    using keeps_refl [OF assms(1)] kserver_execute_if [OF assms] by (simp add: dm_execute_def)
qed

section \<open>Reading from a WebSocket\<close>

lemma read_inner_wf: "read_inner r e b ws s = Ret (r', e', b', ws', s') \<Longrightarrow> ws_wf ws \<Longrightarrow> ws_wf ws'"
proof (induction r e b ws s rule: read_inner.induct)
  case (1 r e b ws s)
  show ?case
  proof (cases "r > 0 \<and> (\<exists>n bs es. sock_read (nat r) (rx s) = Some (n, bs, es) \<and> n > 0)")
    case True
    then obtain n bs es where rd: "r > 0" "sock_read (nat r) (rx s) = Some (n, bs, es)" "n > 0" by blast
    with "1.prems"(1) obtain d where d: "pokes (read_str ws) (read_str_len ws) bs = Some d"
      by (subst (asm) read_inner.simps) (auto split: option.splits)
    let ?ws = "ws\<lparr>read_str := d, read_str_len := read_str_len ws + nat n\<rparr>"
    have "n = int (length bs)" using sock_read_pos [OF rd(2,3)] by simp
    with d "1.prems"(2) have "ws_wf ?ws"
      by (auto simp: ws_wf_def pokes_def patch_def split: if_splits)
    moreover have "read_inner (r - n) (if e - n < 0 then 0 else e - n) n ?ws (s\<lparr>rx := es\<rparr>) = Ret (r', e', b', ws', s')"
      using "1.prems"(1) rd d by (subst (asm) read_inner.simps) simp
    ultimately show ?thesis using "1.IH" [OF rd(1,2) refl refl rd(3) d] by blast
  next
    case False
    with "1.prems" show ?thesis by (subst (asm) read_inner.simps) (auto split: option.splits if_splits)
  qed
qed

lemma read_outer_wf: "read_outer r e b ws s = Some x \<Longrightarrow> ws_wf ws \<Longrightarrow> (\<forall>k ws' s'. x = Ret (k, ws', s') \<longrightarrow> ws_wf ws')"
proof (induction r e b ws s x rule: read_outer.raw_induct [rotated 1, consumes 1, case_names step])
  case (step f r e b ws s x)
  show ?case
  proof (cases "e > 0")
    case True
    show ?thesis
    proof (cases "read_inner r e b ws s")
      case (Ret y)
      obtain r' e' b' ws' s' where y: "y = (r', e', b', ws', s')" by (cases y)
      have wf: "ws_wf ws'" using read_inner_wf [OF Ret [unfolded y] step.prems] .
      show ?thesis
        using step.hyps True Ret y wf step.IH [of r' e' b' ws' s'] by (auto simp: ws_wf_def split: if_splits)
    qed (use step.hyps True in auto)
  qed (use step.hyps step.prems in auto)
qed

lemma read_n_bytes_wf: "ws_wf ws \<Longrightarrow> if_ret (\<lambda>(k, ws', s'). ws_wf ws') (read_n_bytes r e ws s)"
  using read_outer_wf [of r e "-1" ws s] by (auto simp: if_ret_def read_n_bytes_def)

lemma ws_wf_header [simp]: "ws_wf (ws\<lparr>ws_header := h\<rparr>) = ws_wf ws" "ws_wf (ws\<lparr>connection_closed := c\<rparr>) = ws_wf ws"
  by (simp_all add: ws_wf_def)

lemma ws_wf_reset [simp]: "ws_wf ws \<Longrightarrow> ws_wf (reset_read_buff ws)"
  by (simp add: ws_wf_def)

lemma peeks_if: "if_ret (\<lambda>_. True) (Some (of_ub m))"
  by (rule if_ret_any)

lemma read_stream_size_wf: "ws_wf ws \<Longrightarrow> if_ret (\<lambda>(k, ws', s'). ws_wf ws') (read_stream_size n ws s)"
  unfolding read_stream_size_def check_payload_size_def
  by (auto intro!: if_ret_bind [OF read_n_bytes_wf] if_ret_bind [OF peeks_if])

lemma read_header_wf: "ws_wf ws \<Longrightarrow> if_ret (\<lambda>(k, ws', s'). ws_wf ws') (read_header ws s)"
  unfolding read_header_def
  by (rule if_ret_bind [OF read_n_bytes_wf], assumption)
    (auto simp: Let_def intro!: if_ret_bind [OF peeks_if] read_stream_size_wf)

lemma read_stream_wf: "ws_wf ws \<Longrightarrow> if_ret (\<lambda>(k, ws', s'). ws_wf ws') (read_stream ws s)"
  unfolding read_stream_def
  by (rule if_ret_bind [OF read_header_wf], simp) (auto intro!: if_ret_bind [OF read_n_bytes_wf])

lemma copy_unmasked_length: "copy_unmasked n rs mo base i dst = Some dst' \<Longrightarrow> length dst' = length dst"
  by (induction n arbitrary: i dst) (auto simp: poke_def bind_eq_Some_conv split: if_splits)

text \<open>The payload buffer of a command keeps its size, and nothing has been read from it.\<close>

definition payload_fresh :: "command \<Rightarrow> bool" where
  "payload_fresh cmd \<longleftrightarrow> length (buf_data (payload cmd)) = CMD_PAYLOAD_BUFFER_LEN \<and> position (payload cmd) = 0"

lemma decode_cmd_fresh: "decode_raw_stream_cmd cmd ws = Some (k, cmd') \<Longrightarrow> payload_fresh cmd \<Longrightarrow> payload_fresh cmd'"
  by (auto simp: decode_raw_stream_cmd_def Let_def payload_fresh_def bind_eq_Some_conv copy_unmasked_length split: if_splits)

lemma receive_cmd_wf:
  assumes "ws_wf ws" and "payload_fresh cmd"
  shows "if_ret (\<lambda>(k, cmd', ws', s'). ws_wf ws' \<and> payload_fresh cmd') (receive_cmd cmd ws s)"
proof (cases "connection_closed ws")
  case False
  have dec: "if_ret (\<lambda>(k, cmd'). payload_fresh cmd') (Some (of_ub (decode_raw_stream_cmd cmd ws')))" for ws'
    using decode_cmd_fresh [of cmd ws'] assms(2) by (cases "decode_raw_stream_cmd cmd ws'") auto
  show ?thesis
    unfolding receive_cmd_def if_not_P [OF False]
    by (rule if_ret_bind [OF read_stream_wf [OF assms(1)]]) (use assms(2) in \<open>auto intro!: if_ret_bind [OF dec]\<close>)
qed (use assms in \<open>simp add: receive_cmd_def\<close>)

lemma two_u16:
  "(case tup of [V_uint16 dev, V_uint16 op] \<Rightarrow> Some (F dev op) | _ \<Rightarrow> None) = Some y \<Longrightarrow> \<exists>dev op. y = F dev op"
  by (auto split: list.split_asm scalar.split_asm)

lemma decode_header_fresh:
  assumes "decode_header sid cmd = Some cmd'" and "payload_fresh cmd"
  shows "cmd_of sid cmd'"
proof -
  from assms(1) obtain tup h where "(case tup of [V_uint16 dev, V_uint16 op] \<Rightarrow>
      Some (cmd\<lparr>header := h, sess_id := sid, sess := Some sid, device := unat dev, operation := uint op\<rparr>) | _ \<Rightarrow> None) = Some cmd'"
    unfolding decode_header_def bind_eq_Some_conv by auto
  from two_u16 [OF this] assms(2) show ?thesis by (auto simp: cmd_of_def payload_fresh_def)
qed

lemma decode_header_if:
  "payload_fresh cmd \<Longrightarrow> if_ret (cmd_of sid) (Some (of_ub (decode_header sid cmd)))"
  using decode_header_fresh [of sid cmd] by (cases "decode_header sid cmd") auto

text \<open>A command received with a positive result is one of the session.\<close>

lemma session_read_command_keeps:
  assumes "session_wf se" and "payload_fresh cmd"
  shows "if_ret (\<lambda>(n, cmd', se'). session_wf se' \<and> session_id se' = session_id se \<and> (0 < n \<longrightarrow> cmd_of (session_id se) cmd'))
    (session_read_command cmd se)"
proof (cases "kind se = WEBSOCK")
  case True
  have ws: "ws_wf (websock se)" using assms(1) by (simp add: session_wf_def)
  have "if_ret (\<lambda>(n, cmd', w, c). ws_wf w \<and> (0 < n \<longrightarrow> cmd_of (session_id se) cmd'))
      (ws_read_command (session_id se) cmd (websock se) (conn se))"
    unfolding ws_read_command_def
    by (rule if_ret_bind [OF receive_cmd_wf [OF ws assms(2)]]) (auto intro!: if_ret_bind [OF decode_header_if])
  with True assms(1) show ?thesis
    unfolding session_read_command_def
    by (simp, elim if_ret_bind) (auto simp: session_wf_def)
next
  case False
  have tcp: "if_ret (\<lambda>(n, cmd', c). 0 < n \<longrightarrow> cmd_of (session_id se) cmd') (Some (tcp_read_command (session_id se) cmd (conn se)))"
    unfolding tcp_read_command_def Let_def
    by (rule if_ret_bind_res [OF if_ret_any], clarify, rule if_ret_bind_res [OF if_ret_any])
      (use assms(2) in \<open>auto simp: payload_fresh_def intro!: if_ret_bind_res [OF decode_header_if]\<close>)
  have "session_read_command cmd se = Some (bind_res (tcp_read_command (session_id se) cmd (conn se))
      (\<lambda>(n, cmd, c). Ret (n, cmd, se\<lparr>conn := c\<rparr>)))"
    using False by (cases "kind se") (simp_all add: session_read_command_def)
  then show ?thesis
    by (simp only:) (rule if_ret_bind_res [OF tcp], use assms(1) in \<open>auto simp: session_wf_def\<close>)
qed

section \<open>The steps of a session\<close>

lemma put_session_keeps:
  assumes "keeps ks k" and "map_at (session_pool k) sid = Some se" and "session_wf se'" and "session_id se' = sid"
  shows "keeps ks (put_session sid se' k)"
proof -
  have "pool_wf (session_pool (put_session sid se' k))"
    using assms by (intro put_session_pool_wf) (auto simp: keeps_def mgr_inv_def comm_inv_def)
  moreover have "map_keys (session_pool (put_session sid se' k)) = map_keys (session_pool k)"
    by (simp add: put_session_def)
  moreover from this have "length (session_pool (put_session sid se' k)) = length (session_pool k)" by (metis length_keys)
  moreover have "mgr_inv k" using assms(1) by (rule keeps_mgr_inv)
  ultimately have "mgr_inv (put_session sid se' k)"
    by (simp add: mgr_inv_def comm_inv_def get_current_ids_def) (simp add: put_session_def)
  with assms(1) show ?thesis by (simp add: keeps_def) (simp add: put_session_def)
qed

lemma this_session_keeps:
  assumes "keeps ks k" and "sid \<in> set (map_keys (session_pool ks))"
  obtains se where "map_at (session_pool k) sid = Some se" and "this_session sid k = Ret se" and "session_wf se" and "session_id se = sid"
proof -
  from assms have "sid \<in> set (map_keys (session_pool k))" by (simp add: keeps_def)
  then obtain se where se: "map_at (session_pool k) sid = Some se" by (auto simp: keys_in_pool)
  moreover have "session_wf se" "session_id se = sid"
    using assms(1) se by (auto simp: keeps_def mgr_inv_def comm_inv_def pool_wf_def)
  ultimately show thesis using that by (simp add: this_session_def)
qed

lemma on_session_keeps:
  assumes "keeps ks k" and "sid \<in> set (map_keys (session_pool ks))"
    and "\<And>se. session_wf se \<Longrightarrow> session_wf (f se) \<and> session_id (f se) = session_id se"
  shows "if_ret (keeps ks) (Some (on_session sid f k))"
proof -
  obtain se where "map_at (session_pool k) sid = Some se" "this_session sid k = Ret se" "session_wf se" "session_id se = sid"
    by (rule this_session_keeps [OF assms(1,2)])
  with assms(1,3) show ?thesis by (simp add: on_session_def put_session_keeps)
qed

lemma read_http_packet_wf:
  assumes "ws_wf ws"
  shows "if_ret (\<lambda>(k, ws', s'). ws_wf ws') (Some (read_http_packet ws s))"
proof -
  have p: "if_ret (\<lambda>d. ws_wf (ws'\<lparr>read_str := d\<rparr>)) (Some (of_ub (pokes (read_str ws') 0 bs)))" if "ws_wf ws'" for ws' bs
    using that by (auto simp: pokes_def ws_wf_def)
  show ?thesis
    unfolding read_http_packet_def Let_def
    by (rule if_ret_bind_res [OF if_ret_any], clarify, rule if_ret_bind_res [OF p [OF ws_wf_reset [OF assms]]])
      (auto simp: ws_wf_def)
qed

lemma send_request_wf: "ws_wf ws \<Longrightarrow> if_ret (\<lambda>(k, ws', s'). ws_wf ws') (Some (send_request bits ws s))"
  by (rule if_ret_mono [OF if_ret_safe [OF send_request_safe]]) auto

lemma authenticate_wf:
  assumes "ws_wf ws"
  shows "if_ret (\<lambda>(k, ws', s'). ws_wf ws') (Some (authenticate ws s))"
proof -
  have "if_ret (\<lambda>(k, ws', s'). ws_wf ws') (Some (bind_res (of_ub m) (\<lambda>sha. bind_res (of_ub (g sha)) (\<lambda>final_str.
      send_request (handshake_response final_str p) (w\<lparr>sha_str := sha\<rparr>) s))))" if "ws_wf w" for m g w p s
    by (rule if_ret_bind_res [OF if_ret_any], rule if_ret_bind_res [OF if_ret_any], rule send_request_wf)
      (use that in \<open>simp add: ws_wf_def\<close>)
  then show ?thesis
    unfolding authenticate_def Let_def
    by (intro if_ret_bind_res [OF read_http_packet_wf [OF assms]]) (auto split: option.split)
qed

lemma ws_exit_wf:
  assumes "ws_wf ws"
  shows "if_ret (\<lambda>(k, ws', s'). ws_wf ws') (Some (ws_exit ws s))"
proof -
  obtain n buf where "set_send_header (send_buf ws) 0 (128 + CONNECTION_CLOSE) = Some (n, buf)" "length buf = WEBSOCK_SEND_BUF_LEN"
    by (rule set_send_header_frame [of 0 "send_buf ws" "128 + CONNECTION_CLOSE"]) (use assms in \<open>auto simp: ws_wf_def WEBSOCK_SEND_BUF_LEN_def\<close>)
  with assms show ?thesis by (simp add: ws_exit_def) (rule send_request_wf, simp add: ws_wf_def)
qed

lemma init_session_keeps:
  assumes "keeps ks k" and "sid \<in> set (map_keys (session_pool ks))"
  shows "if_ret (\<lambda>(r, k'). keeps ks k') (Some (init_session ext sid k))"
proof -
  have sock: "if_ret (\<lambda>(r, k'). keeps ks k') (Some (init_socket sid k))" if k: "keeps ks k" for k
  proof -
    obtain se where se: "map_at (session_pool k) sid = Some se" "this_session sid k = Ret se" "session_wf se" "session_id se = sid"
      by (rule this_session_keeps [OF k assms(2)])
    have ws: "ws_wf (websock se)" using se(3) by (simp add: session_wf_def)
    have put: "keeps ks (put_session sid (se\<lparr>websock := w, conn := c\<rparr>) k)" if "ws_wf w" for w c
      using that se by (intro put_session_keeps [OF k]) (auto simp: session_wf_def)
    have body: "if_ret (\<lambda>(r, k'). keeps ks k') (Some (bind_res (authenticate (websock se) (conn se)) (\<lambda>(r, w, c).
           let k = put_session sid (se\<lparr>websock := w, conn := c\<rparr>) k in
           if r < 0 then bind_res (print CRITICAL (lit ''Cannot connect websocket to client'' @ nl) k) (\<lambda>k. Ret (-1 :: int, k))
           else Ret (0, k))))"
      by (rule if_ret_bind_res [OF authenticate_wf [OF ws]])
        (auto simp: Let_def put intro!: if_ret_bind_res [OF print_keeps [OF put]])
    with se k show ?thesis by (simp add: init_socket_def)
  qed
  show ?thesis
    unfolding init_session_def
    by (rule if_ret_bind_res [OF on_session_keeps [OF assms]]) (auto simp: session_wf_def sock)
qed

lemma leave_keeps:
  assumes k: "keeps ks k" and sid: "sid \<in> set (map_keys (session_pool ks))"
  shows "if_ret (\<lambda>(ph, k'). ph = Returned 0 \<and> keeps ks k') (Some (leave sid k))"
proof -
  obtain se where se: "map_at (session_pool k) sid = Some se" "this_session sid k = Ret se" "session_wf se" "session_id se = sid"
    by (rule this_session_keeps [OF k sid])
  have ws: "ws_wf (websock se)" using se(3) by (simp add: session_wf_def)
  have put: "keeps ks (put_session sid (se\<lparr>websock := w, conn := c\<rparr>) k)" if "ws_wf w" for w c
    using that se by (intro put_session_keeps [OF k]) (auto simp: session_wf_def)
  have "if_ret (\<lambda>(r, k'). keeps ks k') (Some (bind_res (ws_exit (websock se) (conn se)) (\<lambda>(r, w, c).
      Ret (r, put_session sid (se\<lparr>websock := w, conn := c\<rparr>) k))))"
    by (rule if_ret_bind_res [OF ws_exit_wf [OF ws]]) (auto simp: put)
  with se k have ex: "if_ret (\<lambda>(r, k'). keeps ks k') (Some (exit_socket sid k))" by (simp add: exit_socket_def)
  have "if_ret (keeps ks) (Some (exit_session sid k))"
    unfolding exit_session_def by (rule if_ret_bind_res [OF ex]) (auto simp: print_keeps)
  then show ?thesis unfolding leave_def by (rule if_ret_bind_res) auto
qed

lemma listeners_ok_keeps: "keeps ks k \<Longrightarrow> listeners_ok k = listeners_ok ks"
  by (simp add: keeps_def frame_def listeners_ok_def)

text \<open>What a thread holds between two steps.\<close>

definition phase_ok :: "SessID \<Rightarrow> phase \<Rightarrow> bool" where
  "phase_ok sid ph \<longleftrightarrow> (\<forall>n cmd. ph = Received n cmd \<longrightarrow> 0 < n \<longrightarrow> cmd_of sid cmd)"

lemma phase_ok_simps [simp]:
  "phase_ok sid Starting" "phase_ok sid Looping" "phase_ok sid (Returned r)"
  "phase_ok sid (Received n cmd) = (0 < n \<longrightarrow> cmd_of sid cmd)"
  by (simp_all add: phase_ok_def)

lemma read_command_keeps:
  assumes "mgr_inv ks" and "sid \<in> set (map_keys (session_pool ks))" and "payload_fresh cmd0"
  shows "if_ret (\<lambda>(n, cmd, k). keeps ks k \<and> (0 < n \<longrightarrow> cmd_of sid cmd)) (read_command sid cmd0 ks)"
proof -
  note k = keeps_refl [OF assms(1)]
  obtain se where se: "map_at (session_pool ks) sid = Some se" "this_session sid ks = Ret se" "session_wf se" "session_id se = sid"
    by (rule this_session_keeps [OF k assms(2)])
  have "if_ret (\<lambda>(n, cmd, k). keeps ks k \<and> (0 < n \<longrightarrow> cmd_of sid cmd))
      (bind_ro (session_read_command cmd0 se) (\<lambda>(n, cmd, se').
       bind_ro (Some (prints (read_log cmd0 se n cmd) (put_session sid se' ks))) (\<lambda>ks. Some (Ret (n, cmd, ks)))))"
  proof (rule if_ret_bind [OF session_read_command_keeps [OF se(3) assms(3)]], clarify)
    fix n :: int and cmd se' assume n: "session_wf se'" "session_id se' = session_id se" "0 < n \<longrightarrow> cmd_of (session_id se) cmd"
    show "if_ret (\<lambda>(n, cmd, k). keeps ks k \<and> (0 < n \<longrightarrow> cmd_of sid cmd))
        (bind_ro (Some (prints (read_log cmd0 se n cmd) (put_session sid se' ks))) (\<lambda>ks. Some (Ret (n, cmd, ks))))"
      by (rule if_ret_bind [OF prints_keeps [OF put_session_keeps [OF k se(1) n(1)]]]) (use n se(4) in simp_all)
  qed
  with se(2) show ?thesis by (simp add: read_command_def)
qed

lemma execute_command_keeps:
  assumes "mgr_inv ks" and "sid \<in> set (map_keys (session_pool ks))" and "cmd_of sid cmd" and "listeners_ok ks" and "ext_ok ext"
  shows "if_ret (\<lambda>(ph, k). keeps ks k \<and> phase_ok sid ph) (execute_command ext sid cmd ks)"
proof -
  have inc: "if_ret (keeps ks) (Some (on_session sid (\<lambda>se. se\<lparr>requests_num := requests_num se + 1\<rparr>) ks))"
    by (rule on_session_keeps [OF keeps_refl [OF assms(1)] assms(2)]) (simp add: session_wf_def)
  have ex: "if_ret (\<lambda>(r, k'). keeps ks k') (dm_execute ext cmd k)" if k: "keeps ks k" for k
    by (rule if_ret_mono [OF dm_execute_keeps [of k sid cmd ext]])
      (use k assms listeners_ok_keeps [OF k] keeps_trans [OF k] in \<open>auto simp: keeps_def [of ks k]\<close>)
  have err: "if_ret (keeps ks) (Some (bind_res (print ERROR msg k)
      (\<lambda>k. on_session sid (\<lambda>se. se\<lparr>errors_num := errors_num se + 1\<rparr>) k)))" if k: "keeps ks k" for msg k
    by (rule if_ret_bind_res [OF print_keeps [OF k]], rule on_session_keeps [OF _ assms(2)]) (auto simp: session_wf_def)
  have fin: "if_ret (\<lambda>(ph, k). keeps ks k \<and> phase_ok sid ph) (bind_ro (Some (this_session sid k)) (\<lambda>se.
       if status se = CLOSED then Some (leave sid k) else Some (Ret (Looping, k))))" if k: "keeps ks k" for k
    by (rule if_ret_bind [OF if_ret_any]) (auto simp: k intro!: if_ret_mono [OF leave_keeps [OF k assms(2)]])
  show ?thesis
    unfolding execute_command_def
    by (rule if_ret_bind [OF inc], rule if_ret_bind [OF ex], assumption, clarify,
        rule if_ret_bind [where Q = "keeps ks"]) (simp_all add: err fin del: bind_ro_simps)
qed

lemma run_step_keeps:
  assumes "mgr_inv ks" and "sid \<in> set (map_keys (session_pool ks))" and "phase_ok sid ph" and "listeners_ok ks" and "ext_ok ext"
  shows "if_ret (\<lambda>(ph', k). keeps ks k \<and> phase_ok sid ph') (run_step ext sid ph ks)"
proof -
  note k = keeps_refl [OF assms(1)]
  have lv: "if_ret (\<lambda>(ph', k). keeps ks k \<and> phase_ok sid ph') (Some (leave sid ks))"
    by (rule if_ret_mono [OF leave_keeps [OF k assms(2)]]) auto
  show ?thesis
  proof (cases ph)
    case Starting
    show ?thesis
      unfolding Starting run_step_def phase.case
      by (rule if_ret_bind_res [OF init_session_keeps [OF k assms(2)]]) auto
  next
    case Looping
    have fresh: "payload_fresh (Command h (uninit g CMD_PAYLOAD_BUFFER_LEN))" for h g
      by (simp add: payload_fresh_def Command_def Buffer_def)
    show ?thesis
      unfolding Looping run_step_def phase.case
      by (rule if_ret_bind [OF if_ret_any])
        (auto simp: lv intro!: if_ret_bind [OF read_command_keeps [OF assms(1,2) fresh]])
  next
    case (Received n cmd)
    with assms(3) have "n \<le> 0 \<or> cmd_of sid cmd" by auto
    then show ?thesis
      unfolding Received run_step_def phase.case
      by (intro if_ret_bind [OF if_ret_any]) (auto simp: lv k execute_command_keeps [OF assms(1,2) _ assms(4,5)])
  next
    case (Returned r)
    with k show ?thesis by (simp add: run_step_def)
  qed
qed

end
