(* ===== verification/KServer.thy ===== *)
theory KServer
  imports Keeps
begin

text \<open>
  The server as a whole: construction, main loop and shutdown of \<open>core/kserver.cpp\<close>, the threads
  that accept clients and the threads that serve them of \<open>core/listening_channel.cpp\<close>. Every
  thread is a machine whose steps are the stretches between the points at which another thread
  can change what it reads; the system is any interleaving of them. Locks make the operations of
  the session manager atomic; that the statistics are plain integers written by several threads
  is not modelled.
\<close>

section \<open>Construction\<close>

text \<open>The members as the constructors leave them.\<close>

definition KServer :: "kserver_config \<Rightarrow> nat \<Rightarrow> 'w \<Rightarrow> (int \<Rightarrow> int) \<Rightarrow> 'w kserver" where
  "KServer cfg dev_num w shut =
     \<lparr>config = cfg, s_interrupted = False, exit_comm = False, exit_all = False,
      tcp_listener = ListeningChannel, websock_listener = ListeningChannel, unix_listener = ListeningChannel,
      dev_manager = DeviceManager dev_num, session_pool = [], reusable_ids = [], num_sess = 0,
      subscribers = Subscribers, server_start_time = 0, devices = w, shutdown_ret = shut, trace = []\<rparr>"

text \<open>\<open>exit(EXIT_FAILURE)\<close> is \<^const>\<open>None\<close>.\<close>

fun init_listeners :: "(SockType \<Rightarrow> os) \<Rightarrow> SockType list \<Rightarrow> 'w kserver \<Rightarrow> 'w kserver option res" where
  "init_listeners sys [] ks = Ret (Some ks)"
| "init_listeners sys (t # ts) ks =
     bind_res (listener_init (sys t) t ks) (\<lambda>(r, ks). if r < 0 then Ret None else init_listeners sys ts ks)"

definition construct :: "int \<Rightarrow> int \<Rightarrow> (SockType \<Rightarrow> os) \<Rightarrow> 'w kserver \<Rightarrow> 'w kserver option res" where
  "construct sig_init ctx_init sys ks =
     (if sig_init < 0 then Ret None
      else bind_res (dm_init ctx_init ks) (\<lambda>(r, ks).
        if r < 0 then Ret None
        else init_listeners sys [TCP, WEBSOCK, UNIX] (ks\<lparr>exit_comm := False, exit_all := False\<rparr>)))"

section \<open>The main thread\<close>

text \<open>The kinds whose thread was started, up to the first failure.\<close>

fun start_workers :: "(SockType \<Rightarrow> os) \<Rightarrow> SockType list \<Rightarrow> 'w kserver \<Rightarrow> (int \<times> SockType list \<times> 'w kserver) res" where
  "start_workers sys [] ks = Ret (0, [], ks)"
| "start_workers sys (t # ts) ks =
     bind_res (start_worker (sys t) t ks) (\<lambda>(r, started, ks).
       if r < 0 then Ret (-1, [], ks)
       else bind_res (start_workers sys ts ks) (\<lambda>(r, us, ks). Ret (r, if started then t # us else us, ks)))"

definition start_listeners_workers :: "(SockType \<Rightarrow> os) \<Rightarrow> 'w kserver \<Rightarrow> (int \<times> SockType list \<times> 'w kserver) res" where
  "start_listeners_workers sys ks = start_workers sys [TCP, WEBSOCK, UNIX] ks"

definition kserver_is_ready :: "'w kserver \<Rightarrow> bool" where
  "kserver_is_ready ks \<longleftrightarrow>
     (tcp_worker_connections (config ks) > 0 \<longrightarrow> is_ready (tcp_listener ks))
     \<and> (websock_worker_connections (config ks) > 0 \<longrightarrow> is_ready (websock_listener ks))
     \<and> (unixsock_worker_connections (config ks) > 0 \<longrightarrow> is_ready (unix_listener ks))"

text \<open>What the calls of \<open>notify_systemd_ready\<close> answer.\<close>

record notify_os =
  notify_fd :: int
  iov_allocated :: bool
  sendmsg_ret :: int

definition notify_name :: "byte list \<Rightarrow> byte list" where
  "notify_name sock = (let len = min (length (c_string sock)) UNIX_SOCKET_PATH_LEN;
       path = take len (c_string sock) @ replicate (UNIX_SOCKET_PATH_LEN - len) 0;
       path = (if path ! 0 = 64 then path[0 := 0] else path)
     in take (length (c_string sock)) path)"

definition notify_systemd_ready :: "notify_os \<Rightarrow> 'w kserver \<Rightarrow> 'w kserver res" where
  "notify_systemd_ready sys ks =
     (let fd = notify_fd sys in
      if fd < 0 then print WARNING (lit ''Cannot open notification socket'' @ nl) ks
      else if 0 \<notin> set (notify_socket (config ks)) then Undef
      else
        bind_res (if \<not> iov_allocated sys then print WARNING (lit ''Cannot allocate msg.msg_iov'' @ nl) ks
          else
            let ks = put (SendMsg fd (notify_name (notify_socket (config ks)))
                (lit ''STATUS=Koheron server is ready'' @ nl @ lit ''READY=1'' @ nl)) ks in
            if sendmsg_ret sys < 0 then print WARNING (lit ''Cannot send notification to systemd.'' @ nl) ks else Ret ks) (\<lambda>ks.
        let ks = put (ShutdownFd fd) ks in
        bind_res (if shutdown_ret ks fd < 0 then print WARNING (lit ''Cannot shutdown notification socket'' @ nl) ks else Ret ks)
          (\<lambda>ks. Ret (put (CloseFd fd) ks))))"

text \<open>\<open>close_listeners\<close> up to the joining of the threads.\<close>

definition close_listeners :: "'w kserver \<Rightarrow> 'w kserver res" where
  "close_listeners ks =
     bind_res (listener_shutdown TCP (ks\<lparr>exit_comm := True\<rparr>)) (\<lambda>ks.
     bind_res (listener_shutdown WEBSOCK ks) (\<lambda>ks. listener_shutdown UNIX ks))"

text \<open>
  The loop of \<open>KServer::run\<close>: the flag \<open>ready_notified\<close>; the sessions have been deleted; the
  listeners have been shut down and their threads are being joined; the end.
\<close>

datatype main_phase = Running bool | ClosingDown | Joining | Exited int

definition notify_ready :: "notify_os \<Rightarrow> bool \<Rightarrow> 'w kserver \<Rightarrow> (bool \<times> 'w kserver) res" where
  "notify_ready sys ready_notified ks =
     (if \<not> ready_notified \<and> kserver_is_ready ks then
        bind_res (print INFO (lit ''Koheron server ready'' @ nl) ks) (\<lambda>ks.
        bind_res (if notify_systemd (config ks) then notify_systemd_ready sys ks else Ret ks) (\<lambda>ks. Ret (True, ks)))
      else Ret (ready_notified, ks))"

definition main_step :: "notify_os \<Rightarrow> main_phase \<Rightarrow> 'w kserver \<Rightarrow> (main_phase \<times> 'w kserver) res" where
  "main_step sys ph ks = (case ph of
     Running ready_notified \<Rightarrow>
       bind_res (notify_ready sys ready_notified ks) (\<lambda>(ready_notified, ks).
         if s_interrupted ks \<or> exit_all ks then
           bind_res (print INFO (lit ''Interrupt received, killing Koheron server ...'' @ nl) ks) (\<lambda>ks.
           bind_res (delete_all ks) (\<lambda>ks. Ret (ClosingDown, ks)))
         else Ret (Running ready_notified, ks))
   | ClosingDown \<Rightarrow> bind_res (close_listeners ks) (\<lambda>ks. Ret (Joining, ks))
   | Joining \<Rightarrow> bind_res (syslog_close ks) (\<lambda>ks. Ret (Exited 0, ks))
   | Exited r \<Rightarrow> Ret (Exited r, ks))"

section \<open>The accepting threads\<close>

datatype acceptor = NotStarted | AcStart | AcLoop | AcGot int connection | AcEnd

definition listener_closed :: "SockType \<Rightarrow> 'w kserver \<Rightarrow> (acceptor \<times> connection option \<times> 'w kserver) res" where
  "listener_closed t ks =
     bind_res (print INFO (lit (listen_channel_desc t) @ lit '' listener closed.'' @ nl) ks) (\<lambda>ks. Ret (AcEnd, None, ks))"

text \<open>\<open>comm_thread_call\<close>; the connection for which a thread is started, if any.\<close>

definition sock_type_num :: "SockType \<Rightarrow> int" where
  "sock_type_num t = (case t of NONE \<Rightarrow> 0 | TCP \<Rightarrow> 1 | WEBSOCK \<Rightarrow> 2 | UNIX \<Rightarrow> 3)"

definition accept_step :: "os \<Rightarrow> SockType \<Rightarrow> connection \<Rightarrow> acceptor \<Rightarrow> 'w kserver
    \<Rightarrow> (acceptor \<times> connection option \<times> 'w kserver) res" where
  "accept_step sys t c a ks = (case a of
     AcStart \<Rightarrow> Ret (AcLoop, None, on_listener t (is_ready_update (\<lambda>_. True)) ks)
   | AcLoop \<Rightarrow>
       if exit_comm ks then listener_closed t ks
       else bind_res (open_communication sys t c ks) (\<lambda>(fd, ks). Ret (AcGot fd c, None, ks))
   | AcGot fd c \<Rightarrow>
       if exit_comm ks then listener_closed t ks
       else if fd < 0 then
         bind_res (print CRITICAL (lit ''Connection to client rejected [sock_type = '' @ fmt_u (sock_type_num t) @ lit '']'' @ nl) ks)
           (\<lambda>ks. Ret (AcLoop, None, ks))
       else if is_max_threads t ks then
         bind_res (print WARNING (lit ''Maximum number of workers exceeded'' @ nl) ks) (\<lambda>ks. Ret (AcLoop, None, ks))
       else Ret (AcLoop, Some c, ks)
   | _ \<Rightarrow> Ret (a, None, ks))"

section \<open>The session threads\<close>

text \<open>
  \<open>session_thread_call\<close>: started, counted, in the statistics, serving, session deleted, no longer
  counted, ended. Signed overflow of a counter is undefined; an atomic counter wraps.
\<close>

datatype thread = Spawned connection | Counted connection | Opened connection | Serving SessID phase
  | Deleted | Uncounted | Gone

definition int_inc :: "int \<Rightarrow> int res" where
  "int_inc k = (if k + 1 < 2 ^ 31 then Ret (k + 1) else Undef)"

definition int_dec :: "int \<Rightarrow> int res" where
  "int_dec k = (if - (2 ^ 31) \<le> k - 1 then Ret (k - 1) else Undef)"

definition open_stats :: "SockType \<Rightarrow> 'w kserver \<Rightarrow> 'w kserver res" where
  "open_stats t ks =
     bind_res (int_inc (opened_sessions_num (the_listener t ks))) (\<lambda>opened.
     bind_res (int_inc (total_sessions_num (the_listener t ks))) (\<lambda>total.
       Ret (on_listener t (\<lambda>l. l\<lparr>opened_sessions_num := opened, total_sessions_num := total\<rparr>) ks)))"

definition start_session :: "SockType \<Rightarrow> connection \<Rightarrow> 'w kserver \<Rightarrow> (thread \<times> 'w kserver) res" where
  "start_session t c ks =
     (let (sid, ks) = create_session t c ks in
      bind_res (get_session sid ks) (\<lambda>se.
      bind_res (print INFO (lit ''Start session id = '' @ fmt_u sid @ lit ''. Client IP = '' @ ip_str (peer se)
        @ lit '', port = '' @ fmt_u (port (peer se)) @ lit ''. Start time = '' @ fmt_d (start_time se) @ nl) ks)
        (\<lambda>ks. Ret (Serving sid Starting, ks))))"

definition end_session :: "SockType \<Rightarrow> SessID \<Rightarrow> int \<Rightarrow> 'w kserver \<Rightarrow> (thread \<times> 'w kserver) res" where
  "end_session t sid r ks =
     bind_res (if r < 0 then print ERROR (lit ''An error occured during session'' @ nl) ks else Ret ks) (\<lambda>ks.
     bind_res (this_session sid ks) (\<lambda>se.
     bind_res (print INFO (lit ''Close session id = '' @ fmt_u sid @ lit '' with #req = '' @ fmt_u (uint (requests_num se))
       @ lit ''. #err = '' @ fmt_u (uint (errors_num se)) @ nl) ks) (\<lambda>ks.
     bind_res (this_session sid ks) (\<lambda>se.
     let ks = on_listener t (\<lambda>l. l\<lparr>total_requests_num := to_int (total_requests_num l + uint (requests_num se))\<rparr>) ks in
     bind_res (delete_session sid ks) (\<lambda>ks. Ret (Deleted, ks))))))"

definition thread_step :: "'w external \<Rightarrow> SockType \<Rightarrow> thread \<Rightarrow> 'w kserver \<Rightarrow> (thread \<times> 'w kserver) res option" where
  "thread_step ext t th ks = (case th of
     Spawned c \<Rightarrow> Some (Ret (Counted c, on_listener t (\<lambda>l. l\<lparr>num_threads := to_int (num_threads l + 1)\<rparr>) ks))
   | Counted c \<Rightarrow> Some (bind_res (open_stats t ks) (\<lambda>ks. Ret (Opened c, ks)))
   | Opened c \<Rightarrow> Some (start_session t c ks)
   | Serving sid (Returned r) \<Rightarrow> Some (end_session t sid r ks)
   | Serving sid ph \<Rightarrow> bind_ro (run_step ext sid ph ks) (\<lambda>(ph, ks). Some (Ret (Serving sid ph, ks)))
   | Deleted \<Rightarrow> Some (Ret (Uncounted, on_listener t (\<lambda>l. l\<lparr>num_threads := to_int (num_threads l - 1)\<rparr>) ks))
   | Uncounted \<Rightarrow> Some (bind_res (int_dec (opened_sessions_num (the_listener t ks)))
       (\<lambda>n. Ret (Gone, on_listener t (\<lambda>l. l\<lparr>opened_sessions_num := n\<rparr>) ks)))
   | Gone \<Rightarrow> Some (Ret (Gone, ks)))"

section \<open>The system\<close>

record 'w system =
  server :: "'w kserver"
  acceptors :: "SockType \<Rightarrow> acceptor"
  threads :: "(SockType \<times> thread) list"
  main_thread :: main_phase

definition spawn :: "SockType \<Rightarrow> connection option \<Rightarrow> (SockType \<times> thread) list \<Rightarrow> (SockType \<times> thread) list" where
  "spawn t oc thr = (case oc of None \<Rightarrow> thr | Some c \<Rightarrow> thr @ [(t, Spawned c)])"

text \<open>\<open>join_worker\<close> waits for the thread of a channel that was started to end.\<close>

definition join_worker :: "SockType \<Rightarrow> 'w system \<Rightarrow> bool" where
  "join_worker t s \<longleftrightarrow> (listen_fd (the_listener t (server s)) \<ge> 0 \<longrightarrow> acceptors s t = AcEnd)"

definition join_listeners_workers :: "'w system \<Rightarrow> bool" where
  "join_listeners_workers s \<longleftrightarrow> join_worker TCP s \<and> join_worker WEBSOCK s \<and> join_worker UNIX s"

inductive sys_step :: "'w external \<Rightarrow> 'w system \<Rightarrow> 'w system \<Rightarrow> bool" for ext where
  accept: "t \<noteq> NONE \<Longrightarrow> connection_ok c \<Longrightarrow> length (threads s) < 2 ^ 31 - 1
    \<Longrightarrow> accept_step sys t c (acceptors s t) (server s) = Ret (a, oc, ks)
    \<Longrightarrow> sys_step ext s (s\<lparr>server := ks, acceptors := (acceptors s)(t := a), threads := spawn t oc (threads s)\<rparr>)"
| thread: "i < length (threads s) \<Longrightarrow> threads s ! i = (t, th)
    \<Longrightarrow> thread_step ext t th (server s) = Some (Ret (th', ks))
    \<Longrightarrow> sys_step ext s (s\<lparr>server := ks, threads := (threads s)[i := (t, th')]\<rparr>)"
| main: "main_step sys (main_thread s) (server s) = Ret (ph, ks)
    \<Longrightarrow> (main_thread s = Joining \<longrightarrow> join_listeners_workers s)
    \<Longrightarrow> sys_step ext s (s\<lparr>server := ks, main_thread := ph\<rparr>)"
| signal: "sys_step ext s (s\<lparr>server := (server s)\<lparr>s_interrupted := True\<rparr>\<rparr>)"

inductive_cases sys_stepE: "sys_step ext s s'"

text \<open>The state when \<open>run\<close> enters its loop: \<open>ts\<close> are the kinds whose thread was started.\<close>

definition sys_init :: "SockType set \<Rightarrow> 'w kserver \<Rightarrow> 'w system" where
  "sys_init ts ks = \<lparr>server = ks, acceptors = (\<lambda>t. if t \<in> ts then AcStart else NotStarted), threads = [],
     main_thread = Running False\<rparr>"

text \<open>\<open>main\<close> constructs the server and calls \<open>run\<close>.\<close>

inductive sys_reachable :: "'w external \<Rightarrow> 'w system \<Rightarrow> bool" for ext where
  init: "construct sig_init ctx_init sys (KServer cfg (device_num ext) w shut) = Ret (Some ks)
    \<Longrightarrow> start_listeners_workers sys (ks\<lparr>server_start_time := now ext\<rparr>) = Ret (0, ts, ks')
    \<Longrightarrow> sys_reachable ext (sys_init (set ts) ks')"
| step: "sys_reachable ext s \<Longrightarrow> sys_step ext s s' \<Longrightarrow> sys_reachable ext s'"

end
