(* ===== verification/KServerInv.thy ===== *)
theory KServerInv
  imports KServer
begin

text \<open>
  What every interleaving of the server's threads keeps: each session has one thread and each
  thread that serves one finds it, the counters of a channel count its threads, the session
  manager is consistent. Then what the accepting loop does not guarantee, and what the shutdown
  does to the threads that still serve a client.
\<close>

section \<open>Listeners and counts\<close>

lemma listener_cases [simp]:
  "the_listener t (on_listener t' f ks) = (if (t' = WEBSOCK) = (t = WEBSOCK) \<and> (t' = UNIX) = (t = UNIX) then f (the_listener t ks) else the_listener t ks)"
  by (cases t; cases t') (simp_all add: the_listener_def on_listener_def)

lemma on_listener_frame [simp]:
  "session_pool (on_listener t f ks) = session_pool ks" "config (on_listener t f ks) = config ks"
  "exit_comm (on_listener t f ks) = exit_comm ks" "subscribers (on_listener t f ks) = subscribers ks"
  "trace (on_listener t f ks) = trace ks" "s_interrupted (on_listener t f ks) = s_interrupted ks"
  "exit_all (on_listener t f ks) = exit_all ks"
  by (cases t; simp add: on_listener_def)+

lemma mgr_inv_listener [simp]: "mgr_inv (on_listener t f ks) = mgr_inv ks"
  by (cases t) (simp_all add: on_listener_def mgr_inv_def comm_inv_def get_current_ids_def)

lemma the_listener_frame: "frame ks k \<Longrightarrow> the_listener t k = the_listener t ks"
  by (cases t) (simp_all add: the_listener_def frame_def)

lemma listeners_ok_iff: "listeners_ok ks \<longleftrightarrow> (\<forall>t. stats_ok (the_listener t ks))"
  by (auto simp: listeners_ok_def the_listener_def split: SockType.split)

lemma put_frame_listener [simp]: "the_listener t (put ev ks) = the_listener t ks" "session_pool (put ev ks) = session_pool ks"
  by (cases t) (simp_all add: the_listener_def put_def)

text \<open>How many threads of a kind are in a given state.\<close>

definition count_th :: "(thread \<Rightarrow> bool) \<Rightarrow> SockType \<Rightarrow> (SockType \<times> thread) list \<Rightarrow> nat" where
  "count_th P t thr = length (filter (\<lambda>(t', th). t' = t \<and> P th) thr)"

lemma count_th_simps [simp]: "count_th P t [] = 0"
  "count_th P t (thr @ [(t', th)]) = count_th P t thr + (if t' = t \<and> P th then 1 else 0)"
  by (simp_all add: count_th_def)

lemma count_th_le: "count_th P t thr \<le> length thr"
  by (simp add: count_th_def)

lemma count_th_update:
  assumes "i < length thr" and "thr ! i = (t', th)"
  shows "count_th P t (thr[i := (t', th')]) + (if t' = t \<and> P th then 1 else 0)
    = count_th P t thr + (if t' = t \<and> P th' then 1 else 0)"
proof -
  have "thr = take i thr @ (t', th) # drop (Suc i) thr" using id_take_nth_drop [OF assms(1)] assms(2) by simp
  then have c: "count_th P t thr = count_th P t (take i thr @ (t', th) # drop (Suc i) thr)" by (rule arg_cong)
  show ?thesis unfolding c upd_conv_take_nth_drop [OF assms(1)] by (simp add: count_th_def)
qed

lemma count_th_int:
  assumes "i < length thr" and "thr ! i = (t', th)"
  shows "int (count_th P t (thr[i := (t', th')])) = int (count_th P t thr)
    + (if t' = t \<and> P th' then 1 else 0) - (if t' = t \<and> P th then 1 else 0)"
  using count_th_update [OF assms, of P t th'] by (auto split: if_splits)

primrec counted :: "thread \<Rightarrow> bool" where
  "counted (Spawned c) = False"
| "counted (Counted c) = True"
| "counted (Opened c) = True"
| "counted (Serving sid ph) = True"
| "counted Deleted = True"
| "counted Uncounted = False"
| "counted Gone = False"

primrec in_stats :: "thread \<Rightarrow> bool" where
  "in_stats (Spawned c) = False"
| "in_stats (Counted c) = False"
| "in_stats (Opened c) = True"
| "in_stats (Serving sid ph) = True"
| "in_stats Deleted = True"
| "in_stats Uncounted = True"
| "in_stats Gone = False"

primrec serves_id :: "thread \<Rightarrow> SessID option" where
  "serves_id (Spawned c) = None"
| "serves_id (Counted c) = None"
| "serves_id (Opened c) = None"
| "serves_id (Serving sid ph) = Some sid"
| "serves_id Deleted = None"
| "serves_id Uncounted = None"
| "serves_id Gone = None"

primrec thread_ok :: "thread \<Rightarrow> bool" where
  "thread_ok (Spawned c) = connection_ok c"
| "thread_ok (Counted c) = connection_ok c"
| "thread_ok (Opened c) = connection_ok c"
| "thread_ok (Serving sid ph) = phase_ok sid ph"
| "thread_ok Deleted = True"
| "thread_ok Uncounted = True"
| "thread_ok Gone = True"

section \<open>The invariant\<close>

text \<open>The sessions of the pool and the threads that serve them are in one-to-one correspondence.\<close>

definition owned :: "(SockType \<times> thread) list \<Rightarrow> SessID list \<Rightarrow> bool" where
  "owned thr ids \<longleftrightarrow> (\<forall>sid. sid \<in> set ids \<longleftrightarrow> (\<exists>i < length thr. serves_id (snd (thr ! i)) = Some sid))
     \<and> (\<forall>i < length thr. \<forall>j < length thr. \<forall>sid. serves_id (snd (thr ! i)) = Some sid \<longrightarrow> serves_id (snd (thr ! j)) = Some sid \<longrightarrow> i = j)"

definition counts_ok :: "(SockType \<times> thread) list \<Rightarrow> 'w kserver \<Rightarrow> bool" where
  "counts_ok thr ks \<longleftrightarrow> (\<forall>t. t \<noteq> NONE \<longrightarrow> num_threads (the_listener t ks) = int (count_th counted t thr)
     \<and> opened_sessions_num (the_listener t ks) = int (count_th in_stats t thr))"

definition serving :: "(SockType \<times> thread) list \<Rightarrow> nat" where
  "serving thr = length (filter (\<lambda>(t, th). serves_id th \<noteq> None) thr)"

definition sys_inv :: "'w system \<Rightarrow> bool" where
  "sys_inv s \<longleftrightarrow> mgr_inv (server s) \<and> listeners_ok (server s) \<and> counts_ok (threads s) (server s)
     \<and> length (threads s) < 2 ^ 31 \<and> length (session_pool (server s)) \<le> serving (threads s)
     \<and> (\<forall>(t, th) \<in> set (threads s). t \<noteq> NONE \<and> thread_ok th)
     \<and> (\<forall>t fd c. acceptors s t = AcGot fd c \<longrightarrow> connection_ok c)
     \<and> ((\<exists>b. main_thread s = Running b) \<longrightarrow> owned (threads s) (map_keys (session_pool (server s))))"

lemma serving_simps [simp]: "serving (thr @ [(t, th)]) = serving thr + (if serves_id th \<noteq> None then 1 else 0)" "serving [] = 0"
  by (simp_all add: serving_def)

lemma serving_le: "serving thr \<le> length thr"
  by (simp add: serving_def)

lemma serving_update:
  assumes "i < length thr" and "thr ! i = (t, th)"
  shows "serving (thr[i := (t, th')]) + (if serves_id th \<noteq> None then 1 else 0) = serving thr + (if serves_id th' \<noteq> None then 1 else 0)"
proof -
  have "thr = take i thr @ (t, th) # drop (Suc i) thr" using id_take_nth_drop [OF assms(1)] assms(2) by simp
  then have c: "serving thr = serving (take i thr @ (t, th) # drop (Suc i) thr)" by (rule arg_cong)
  show ?thesis unfolding c upd_conv_take_nth_drop [OF assms(1)] by (simp add: serving_def)
qed

lemma owned_same:
  assumes "owned thr ids" and "i < length thr" and "thr ! i = (t, th)" and "serves_id th' = serves_id th"
  shows "owned (thr[i := (t, th')]) ids"
proof -
  have "serves_id (snd (thr[i := (t, th')] ! j)) = serves_id (snd (thr ! j))" if "j < length thr" for j
    using assms that by (cases "j = i") simp_all
  with assms(1) show ?thesis by (simp add: owned_def cong: conj_cong)
qed

lemma owned_spawn: "owned thr ids \<Longrightarrow> serves_id th = None \<Longrightarrow> owned (thr @ [(t, th)]) ids"
  by (auto simp: owned_def nth_append less_Suc_eq)

lemma owned_starts:
  assumes "owned thr ids" and "i < length thr" and "thr ! i = (t, th)" and "serves_id th = None"
    and "serves_id th' = Some sid" and "sid \<notin> set ids" and "set ids' = insert sid (set ids)"
  shows "owned (thr[i := (t, th')]) ids'"
proof -
  have s: "serves_id (snd (thr[i := (t, th')] ! j)) = (if j = i then Some sid else serves_id (snd (thr ! j)))" if "j < length thr" for j
    using assms that by (cases "j = i") simp_all
  have i: "serves_id (snd (thr ! i)) = None" using assms by simp
  have n: "serves_id (snd (thr ! j)) \<noteq> Some sid" if "j < length thr" for j
    using assms(1,6) that by (auto simp: owned_def)
  show ?thesis
    unfolding owned_def
  proof (intro conjI allI impI)
    fix x
    show "(x \<in> set ids') = (\<exists>j < length (thr[i := (t, th')]). serves_id (snd (thr[i := (t, th')] ! j)) = Some x)"
      using assms(1,2,7) s i by (auto simp: owned_def cong: conj_cong)
        (metis option.distinct(1))
  next
    fix j k x assume "j < length (thr[i := (t, th')])" "k < length (thr[i := (t, th')])"
      "serves_id (snd (thr[i := (t, th')] ! j)) = Some x" "serves_id (snd (thr[i := (t, th')] ! k)) = Some x"
    with assms(1) s n show "j = k" by (auto simp: owned_def split: if_splits)
  qed
qed

lemma owned_ends:
  assumes "owned thr ids" and "i < length thr" and "thr ! i = (t, th)" and "serves_id th = Some sid"
    and "serves_id th' = None" and "set ids' = set ids - {sid}"
  shows "owned (thr[i := (t, th')]) ids'"
proof -
  have s: "serves_id (snd (thr[i := (t, th')] ! j)) = (if j = i then None else serves_id (snd (thr ! j)))" if "j < length thr" for j
    using assms that by (cases "j = i") simp_all
  have i: "serves_id (snd (thr ! i)) = Some sid" using assms by simp
  have one: "j = i" if "j < length thr" "serves_id (snd (thr ! j)) = Some sid" for j
    using assms(1,2) i that by (auto simp: owned_def)
  show ?thesis
    unfolding owned_def
  proof (intro conjI allI impI)
    fix x
    show "(x \<in> set ids') = (\<exists>j < length (thr[i := (t, th')]). serves_id (snd (thr[i := (t, th')] ! j)) = Some x)"
    proof -
      have "x \<in> set ids' \<longleftrightarrow> x \<noteq> sid \<and> (\<exists>j < length thr. serves_id (snd (thr ! j)) = Some x)"
        using assms(1,6) by (auto simp: owned_def)
      also have "\<dots> \<longleftrightarrow> (\<exists>j < length thr. j \<noteq> i \<and> serves_id (snd (thr ! j)) = Some x)"
        using one i assms(2) by (metis option.inject)
      also have "\<dots> \<longleftrightarrow> (\<exists>j < length thr. serves_id (snd (thr[i := (t, th')] ! j)) = Some x)"
        using s by (metis option.distinct(1))
      finally show ?thesis by simp
    qed
  next
    fix j k x assume "j < length (thr[i := (t, th')])" "k < length (thr[i := (t, th')])"
      "serves_id (snd (thr[i := (t, th')] ! j)) = Some x" "serves_id (snd (thr[i := (t, th')] ! k)) = Some x"
    with assms(1) s show "j = k" by (auto simp: owned_def split: if_splits)
  qed
qed

section \<open>Every step keeps the invariant\<close>

text \<open>The pool and the numbers of the listeners are as they were.\<close>

definition steady :: "'w kserver \<Rightarrow> 'w kserver \<Rightarrow> bool" where
  "steady ks k \<longleftrightarrow> mgr_inv k \<and> map_keys (session_pool k) = map_keys (session_pool ks)
     \<and> (\<forall>t. num_threads (the_listener t k) = num_threads (the_listener t ks)
          \<and> opened_sessions_num (the_listener t k) = opened_sessions_num (the_listener t ks)
          \<and> stats_ok (the_listener t k) = stats_ok (the_listener t ks))"

lemma keeps_steady: "keeps ks k \<Longrightarrow> steady ks k"
  by (auto simp: keeps_def steady_def the_listener_frame)

lemma keys_length: "map_keys (session_pool k) = map_keys (session_pool ks) \<Longrightarrow> length (session_pool k) = length (session_pool ks)"
  by (metis length_keys)

lemma steady_inv:
  assumes "sys_inv s" and "steady (server s) k"
  shows "mgr_inv k" "listeners_ok k" "counts_ok (threads s) k" "length (session_pool k) \<le> serving (threads s)"
    "map_keys (session_pool k) = map_keys (session_pool (server s))"
  using assms keys_length [of k "server s"] by (auto simp: sys_inv_def steady_def listeners_ok_iff counts_ok_def)

lemma set_comm_sock_opts_keeps:
  assumes "keeps ks k"
  shows "if_ret (\<lambda>(r, k'). keeps ks k') (Some (set_comm_sock_opts sys fd k))"
  using assms by (auto simp: set_comm_sock_opts_def Let_def intro!: if_ret_bind_res [OF print_keeps])

lemma open_communication_keeps:
  assumes "mgr_inv ks"
  shows "if_ret (\<lambda>(fd, k). keeps ks k) (Some (open_communication sys t c ks))"
proof -
  note k = keeps_refl [OF assms]
  have "if_ret (\<lambda>(fd, k). keeps ks k) (Some (open_tcp_communication sys c ks))"
    using k by (auto simp: open_tcp_communication_def intro!: if_ret_bind_res [OF set_comm_sock_opts_keeps [OF k]])
  with k show ?thesis by (cases t) (simp_all add: open_communication_def unix_open_communication_def)
qed

lemma listener_closed_keeps:
  "mgr_inv ks \<Longrightarrow> if_ret (\<lambda>(a, oc, k). a = AcEnd \<and> oc = None \<and> keeps ks k) (Some (listener_closed t ks))"
  unfolding listener_closed_def by (rule if_ret_bind_res [OF print_keeps [OF keeps_refl]]) auto

definition acceptor_ok :: "acceptor \<Rightarrow> bool" where
  "acceptor_ok a \<longleftrightarrow> (\<forall>fd c. a = AcGot fd c \<longrightarrow> connection_ok c)"

lemma accept_step_steady:
  assumes "mgr_inv ks" and "connection_ok c" and "acceptor_ok a"
  shows "if_ret (\<lambda>(a', oc, k). steady ks k \<and> acceptor_ok a' \<and> (\<forall>c'. oc = Some c' \<longrightarrow> connection_ok c'))
    (Some (accept_step sys t c a ks))"
proof -
  note k = keeps_refl [OF assms(1)]
  have ks: "steady ks ks" using keeps_steady [OF k] .
  have ready: "steady ks (on_listener t (is_ready_update (\<lambda>_. True)) ks)"
    using assms(1) by (auto simp: steady_def stats_ok_def)
  have cl: "if_ret (\<lambda>(a', oc, k). steady ks k \<and> acceptor_ok a' \<and> (\<forall>c'. oc = Some c' \<longrightarrow> connection_ok c'))
      (Some (listener_closed t ks))"
    by (rule if_ret_mono [OF listener_closed_keeps [OF assms(1)]]) (auto simp: acceptor_ok_def keeps_steady)
  have op: "if_ret (\<lambda>(a', oc, k). steady ks k \<and> acceptor_ok a' \<and> (\<forall>c'. oc = Some c' \<longrightarrow> connection_ok c'))
      (Some (bind_res (open_communication sys t c ks) (\<lambda>(fd, ks). Ret (AcGot fd c, None, ks))))"
    by (rule if_ret_bind_res [OF open_communication_keeps [OF assms(1)]])
      (use assms(2) in \<open>auto simp: acceptor_ok_def keeps_steady\<close>)
  have pr: "if_ret (\<lambda>(a', oc, k). steady ks k \<and> acceptor_ok a' \<and> (\<forall>c'. oc = Some c' \<longrightarrow> connection_ok c'))
      (Some (bind_res (print sev msg ks) (\<lambda>ks. Ret (AcLoop, None, ks))))" for sev msg
    by (rule if_ret_bind_res [OF print_keeps [OF k]]) (auto simp: acceptor_ok_def keeps_steady)
  show ?thesis
    using assms(3) ready ks cl op pr by (cases a) (auto simp: accept_step_def acceptor_ok_def)
qed

lemma spawn_inv:
  assumes "sys_inv s" and "steady (server s) ks" and "t \<noteq> NONE" and "length (threads s) < 2 ^ 31 - 1"
    and "\<forall>c. oc = Some c \<longrightarrow> connection_ok c" and "acceptor_ok a"
  shows "sys_inv (s\<lparr>server := ks, acceptors := (acceptors s)(t := a), threads := spawn t oc (threads s)\<rparr>)"
proof (cases oc)
  case None
  then show ?thesis
    using assms(1,6) steady_inv [OF assms(1,2)] by (auto simp: sys_inv_def spawn_def acceptor_ok_def)
next
  case (Some c)
  have "counts_ok (threads s @ [(t, Spawned c)]) ks" using steady_inv(3) [OF assms(1,2)] by (simp add: counts_ok_def)
  moreover have "owned (threads s @ [(t, Spawned c)]) ids" if "owned (threads s) ids" for ids
    using that by (rule owned_spawn) simp
  ultimately show ?thesis
    using assms Some steady_inv [OF assms(1,2)] by (auto simp: sys_inv_def spawn_def acceptor_ok_def)
qed

lemma same_kind:
  "t \<noteq> NONE \<Longrightarrow> t' \<noteq> NONE \<Longrightarrow> ((t = WEBSOCK) = (t' = WEBSOCK) \<and> (t = UNIX) = (t' = UNIX)) = (t = t')"
  by (cases t; cases t') simp_all

text \<open>What has to be shown when the thread \<open>i\<close> goes from \<open>th\<close> to \<open>th'\<close>.\<close>

lemma thread_inv:
  assumes "sys_inv s" and "i < length (threads s)" and "threads s ! i = (t, th)"
    and "mgr_inv ks" and "listeners_ok ks" and "thread_ok th'"
    and "\<And>t'. t' \<noteq> NONE \<Longrightarrow> num_threads (the_listener t' ks) = num_threads (the_listener t' (server s))
      + (if t = t' \<and> counted th' then 1 else 0) - (if t = t' \<and> counted th then 1 else 0)"
    and "\<And>t'. t' \<noteq> NONE \<Longrightarrow> opened_sessions_num (the_listener t' ks) = opened_sessions_num (the_listener t' (server s))
      + (if t = t' \<and> in_stats th' then 1 else 0) - (if t = t' \<and> in_stats th then 1 else 0)"
    and "length (session_pool ks) + (if serves_id th \<noteq> None then 1 else 0)
      \<le> length (session_pool (server s)) + (if serves_id th' \<noteq> None then 1 else 0)"
    and "owned (threads s) (map_keys (session_pool (server s))) \<Longrightarrow>
      owned ((threads s)[i := (t, th')]) (map_keys (session_pool ks))"
  shows "sys_inv (s\<lparr>server := ks, threads := (threads s)[i := (t, th')]\<rparr>)"
proof -
  let ?thr = "(threads s)[i := (t, th')]"
  have t: "t \<noteq> NONE" using assms(1,2,3) nth_mem [OF assms(2)] by (auto simp: sys_inv_def)
  have "counts_ok ?thr ks"
    unfolding counts_ok_def
  proof (intro allI impI)
    fix t' :: SockType assume t': "t' \<noteq> NONE"
    with assms(1) have "num_threads (the_listener t' (server s)) = int (count_th counted t' (threads s))"
      "opened_sessions_num (the_listener t' (server s)) = int (count_th in_stats t' (threads s))"
      by (simp_all add: sys_inv_def counts_ok_def)
    then show "num_threads (the_listener t' ks) = int (count_th counted t' ?thr)
        \<and> opened_sessions_num (the_listener t' ks) = int (count_th in_stats t' ?thr)"
      unfolding count_th_int [OF assms(2,3)] assms(7,8) [OF t'] by simp
  qed
  moreover have "length (session_pool ks) \<le> serving ?thr"
    using serving_update [OF assms(2,3), of th'] assms(1,9) by (simp add: sys_inv_def split: if_splits)
  moreover have "\<forall>(t, th) \<in> set ?thr. t \<noteq> NONE \<and> thread_ok th"
    using assms(1,6) t set_update_subset_insert [of "threads s" i "(t, th')"] by (auto simp: sys_inv_def)
  ultimately show ?thesis using assms(1,4,5,10) by (simp add: sys_inv_def)
qed

lemma thread_steady_inv:
  assumes "sys_inv s" and "i < length (threads s)" and "threads s ! i = (t, th)" and "steady (server s) ks"
    and "thread_ok th'" and "counted th' = counted th" and "in_stats th' = in_stats th" and "serves_id th' = serves_id th"
  shows "sys_inv (s\<lparr>server := ks, threads := (threads s)[i := (t, th')]\<rparr>)"
proof (rule thread_inv [OF assms(1-3)])
  note st = steady_inv [OF assms(1,4)]
  show "mgr_inv ks" "listeners_ok ks" using st by blast+
  show "owned ((threads s)[i := (t, th')]) (map_keys (session_pool ks))" if "owned (threads s) (map_keys (session_pool (server s)))"
    using owned_same [OF that assms(2,3,8)] st(5) by simp
  show "length (session_pool ks) + (if serves_id th \<noteq> None then 1 else 0)
      \<le> length (session_pool (server s)) + (if serves_id th' \<noteq> None then 1 else 0)"
    using keys_length [OF st(5)] assms(8) by simp
qed (use assms in \<open>auto simp: steady_def\<close>)

lemma num_threads_bound:
  assumes "sys_inv s" and "t \<noteq> NONE"
  shows "0 \<le> num_threads (the_listener t (server s))" "num_threads (the_listener t (server s)) \<le> int (length (threads s))"
    "length (threads s) < 2 ^ 31"
  using assms count_th_le [of counted t "threads s"] by (auto simp: sys_inv_def counts_ok_def)

lemma counted_positive:
  assumes "sys_inv s" and "i < length (threads s)" and "threads s ! i = (t, th)"
  shows "counted th \<Longrightarrow> 1 \<le> num_threads (the_listener t (server s))"
    and "in_stats th \<Longrightarrow> 1 \<le> opened_sessions_num (the_listener t (server s))"
proof -
  have t: "t \<noteq> NONE" using assms(1) nth_mem [OF assms(2)] assms(3) by (auto simp: sys_inv_def)
  have "1 \<le> count_th P t (threads s)" if "P th" for P
  proof -
    have "(t, th) \<in> set (filter (\<lambda>(t', th). t' = t \<and> P th) (threads s))"
      using nth_mem [OF assms(2)] assms(3) that by simp
    then show ?thesis unfolding count_th_def by (metis One_nat_def Suc_leI length_pos_if_in_set)
  qed
  then show "counted th \<Longrightarrow> 1 \<le> num_threads (the_listener t (server s))"
    and "in_stats th \<Longrightarrow> 1 \<le> opened_sessions_num (the_listener t (server s))"
    using assms(1) t by (force simp: sys_inv_def counts_ok_def)+
qed

text \<open>Counting a thread in and out.\<close>

lemma count_in_inv:
  assumes "sys_inv s" and "i < length (threads s)" and "threads s ! i = (t, Spawned c)"
  shows "sys_inv (s\<lparr>server := on_listener t (\<lambda>l. l\<lparr>num_threads := to_int (num_threads l + 1)\<rparr>) (server s),
    threads := (threads s)[i := (t, Counted c)]\<rparr>)"
proof (rule thread_inv [OF assms])
  have th: "t \<noteq> NONE" "connection_ok c" using assms(1) nth_mem [OF assms(2)] assms(3) by (auto simp: sys_inv_def)
  have "count_th counted t (threads s) + 1 \<le> length (threads s)"
    using count_th_update [OF assms(2,3), of counted t "Counted c"] count_th_le [of counted t "(threads s)[i := (t, Counted c)]"] by simp
  moreover have "num_threads (the_listener t (server s)) = int (count_th counted t (threads s))"
    using assms(1) th(1) by (simp add: sys_inv_def counts_ok_def)
  ultimately have n: "to_int (num_threads (the_listener t (server s)) + 1) = num_threads (the_listener t (server s)) + 1"
    using num_threads_bound(3) [OF assms(1) th(1)] by (simp add: to_int_id)
  show "num_threads (the_listener t' (on_listener t (\<lambda>l. l\<lparr>num_threads := to_int (num_threads l + 1)\<rparr>) (server s)))
      = num_threads (the_listener t' (server s)) + (if t = t' \<and> counted (Counted c) then 1 else 0)
        - (if t = t' \<and> counted (Spawned c) then 1 else 0)" if "t' \<noteq> NONE" for t'
    using n same_kind [OF th(1) that] by auto
  show "owned ((threads s)[i := (t, Counted c)]) (map_keys (session_pool (on_listener t (\<lambda>l. l\<lparr>num_threads := to_int (num_threads l + 1)\<rparr>) (server s))))"
    if "owned (threads s) (map_keys (session_pool (server s)))"
    using owned_same [OF that assms(2,3), of "Counted c"] by simp
  show "listeners_ok (on_listener t (\<lambda>l. l\<lparr>num_threads := to_int (num_threads l + 1)\<rparr>) (server s))"
    using assms(1) by (auto simp: sys_inv_def listeners_ok_iff stats_ok_def)
  show "thread_ok (Counted c)" using th(2) by simp
qed (use assms(1) in \<open>auto simp: sys_inv_def\<close>)

lemma count_out_inv:
  assumes "sys_inv s" and "i < length (threads s)" and "threads s ! i = (t, Deleted)"
  shows "sys_inv (s\<lparr>server := on_listener t (\<lambda>l. l\<lparr>num_threads := to_int (num_threads l - 1)\<rparr>) (server s),
    threads := (threads s)[i := (t, Uncounted)]\<rparr>)"
proof (rule thread_inv [OF assms])
  have th: "t \<noteq> NONE" using assms(1) nth_mem [OF assms(2)] assms(3) by (auto simp: sys_inv_def)
  have n: "to_int (num_threads (the_listener t (server s)) - 1) = num_threads (the_listener t (server s)) - 1"
    using num_threads_bound [OF assms(1) th] counted_positive(1) [OF assms] by (simp add: to_int_id)
  show "num_threads (the_listener t' (on_listener t (\<lambda>l. l\<lparr>num_threads := to_int (num_threads l - 1)\<rparr>) (server s)))
      = num_threads (the_listener t' (server s)) + (if t = t' \<and> counted Uncounted then 1 else 0)
        - (if t = t' \<and> counted Deleted then 1 else 0)" if "t' \<noteq> NONE" for t'
    using n same_kind [OF th that] by auto
  show "owned ((threads s)[i := (t, Uncounted)]) (map_keys (session_pool (on_listener t (\<lambda>l. l\<lparr>num_threads := to_int (num_threads l - 1)\<rparr>) (server s))))"
    if "owned (threads s) (map_keys (session_pool (server s)))"
    using owned_same [OF that assms(2,3), of Uncounted] by simp
  show "listeners_ok (on_listener t (\<lambda>l. l\<lparr>num_threads := to_int (num_threads l - 1)\<rparr>) (server s))"
    using assms(1) by (auto simp: sys_inv_def listeners_ok_iff stats_ok_def)
qed (use assms(1) in \<open>auto simp: sys_inv_def\<close>)

lemma open_stats_inv:
  assumes "sys_inv s" and "i < length (threads s)" and "threads s ! i = (t, Counted c)" and "open_stats t (server s) = Ret ks"
  shows "sys_inv (s\<lparr>server := ks, threads := (threads s)[i := (t, Opened c)]\<rparr>)"
proof -
  have th: "t \<noteq> NONE" "connection_ok c" using assms(1) nth_mem [OF assms(2)] assms(3) by (auto simp: sys_inv_def)
  let ?l = "the_listener t (server s)"
  have ok: "stats_ok ?l" using assms(1) by (simp add: sys_inv_def listeners_ok_iff)
  have lim: "opened_sessions_num ?l + 1 < 2 ^ 31" "total_sessions_num ?l + 1 < 2 ^ 31"
    and ks: "ks = on_listener t (\<lambda>l. l\<lparr>opened_sessions_num := opened_sessions_num ?l + 1, total_sessions_num := total_sessions_num ?l + 1\<rparr>) (server s)"
    using assms(4) by (auto simp: open_stats_def int_inc_def split: if_splits)
  show ?thesis
  proof (rule thread_inv [OF assms(1-3)])
    show "opened_sessions_num (the_listener t' ks) = opened_sessions_num (the_listener t' (server s))
        + (if t = t' \<and> in_stats (Opened c) then 1 else 0) - (if t = t' \<and> in_stats (Counted c) then 1 else 0)" if "t' \<noteq> NONE" for t'
      using same_kind [OF th(1) that] by (auto simp: ks)
    have "int32_ok (opened_sessions_num ?l + 1)" "int32_ok (total_sessions_num ?l + 1)"
      using ok lim by (simp_all add: stats_ok_def int32_ok_def)
    then show "listeners_ok ks"
      using assms(1) by (auto simp: ks sys_inv_def listeners_ok_iff stats_ok_def)
    show "owned ((threads s)[i := (t, Opened c)]) (map_keys (session_pool ks))" if "owned (threads s) (map_keys (session_pool (server s)))"
      using owned_same [OF that assms(2,3), of "Opened c"] by (simp add: ks)
  qed (use assms(1) th in \<open>auto simp: ks sys_inv_def\<close>)
qed

lemma close_stats_inv:
  assumes "sys_inv s" and "i < length (threads s)" and "threads s ! i = (t, Uncounted)"
    and "int_dec (opened_sessions_num (the_listener t (server s))) = Ret n"
  shows "sys_inv (s\<lparr>server := on_listener t (\<lambda>l. l\<lparr>opened_sessions_num := n\<rparr>) (server s), threads := (threads s)[i := (t, Gone)]\<rparr>)"
proof (rule thread_inv [OF assms(1-3)])
  have th: "t \<noteq> NONE" using assms(1) nth_mem [OF assms(2)] assms(3) by (auto simp: sys_inv_def)
  have n: "n = opened_sessions_num (the_listener t (server s)) - 1" using assms(4) by (auto simp: int_dec_def split: if_splits)
  show "opened_sessions_num (the_listener t' (on_listener t (\<lambda>l. l\<lparr>opened_sessions_num := n\<rparr>) (server s))) = opened_sessions_num (the_listener t' (server s))
      + (if t = t' \<and> in_stats Gone then 1 else 0) - (if t = t' \<and> in_stats Uncounted then 1 else 0)" if "t' \<noteq> NONE" for t'
    using same_kind [OF th that] n by auto
  show "owned ((threads s)[i := (t, Gone)]) (map_keys (session_pool (on_listener t (\<lambda>l. l\<lparr>opened_sessions_num := n\<rparr>) (server s))))"
    if "owned (threads s) (map_keys (session_pool (server s)))"
    using owned_same [OF that assms(2,3), of Gone] by simp
  have "int32_ok (opened_sessions_num (the_listener t (server s)))"
    using assms(1) by (simp add: sys_inv_def listeners_ok_iff stats_ok_def)
  then have "int32_ok n" using assms(4) by (auto simp: int32_ok_def int_dec_def split: if_splits)
  then show "listeners_ok (on_listener t (\<lambda>l. l\<lparr>opened_sessions_num := n\<rparr>) (server s))"
    using assms(1) by (auto simp: sys_inv_def listeners_ok_iff stats_ok_def)
qed (use assms(1) in \<open>auto simp: sys_inv_def\<close>)

text \<open>A session begins.\<close>

lemma create_session_frame: "create_session t c ks = (i, ks') \<Longrightarrow> frame ks ks'"
  by (auto simp: create_session_def Let_def frame_def split: if_splits)

lemma length_map_insert: "map_at m k = None \<Longrightarrow> length (map_insert k v m) = Suc (length m)"
  by (induction k v m rule: map_insert.induct) (auto simp: map_at_def split: if_splits)

lemma start_session_inv:
  assumes "sys_inv s" and "i < length (threads s)" and "threads s ! i = (t, Opened c)"
    and "start_session t c (server s) = Ret (th', ks)"
  shows "sys_inv (s\<lparr>server := ks, threads := (threads s)[i := (t, th')]\<rparr>)"
proof -
  have th: "t \<noteq> NONE" "connection_ok c" using assms(1) nth_mem [OF assms(2)] assms(3) by (auto simp: sys_inv_def)
  obtain sid k1 where cs: "create_session t c (server s) = (sid, k1)" by (cases "create_session t c (server s)")
  have inv: "mgr_inv (server s)" and few: "length (session_pool (server s)) < 2 ^ 31"
    using assms(1) serving_le [of "threads s"] by (auto simp: sys_inv_def)
  note st = create_session_state [OF inv few cs]
  have k1: "mgr_inv k1" using create_session_inv [OF inv few th] cs by simp
  have "\<exists>msg. th' = Serving sid Starting \<and> print INFO msg k1 = Ret ks"
    using assms(4) cs by (auto simp: start_session_def bind_res_Ret_iff)
  then obtain msg where pr: "th' = Serving sid Starting" "print INFO msg k1 = Ret ks" by blast
  have k: "keeps k1 ks"
    using print_keeps [OF keeps_refl [OF k1]] pr(2) by (auto simp: if_ret_def)
  then have fr: "frame (server s) ks" using create_session_frame [OF cs] by (auto simp: keeps_def intro: frame_trans)
  have none: "map_at (session_pool (server s)) sid = None" using st(5) by (simp add: keys_at)
  have keys: "set (map_keys (session_pool ks)) = insert sid (set (map_keys (session_pool (server s))))"
    using k st(1) none by (auto simp: keeps_def keys_at at_insert)
  have len: "length (session_pool ks) = Suc (length (session_pool (server s)))"
    using keys_length [of ks k1] k st(1) none by (simp add: keeps_def length_map_insert)
  show ?thesis
  proof (rule thread_inv [OF assms(1-3)])
    show "mgr_inv ks" "listeners_ok ks" using k fr assms(1) by (simp_all add: keeps_def sys_inv_def listeners_ok_iff the_listener_frame)
    show "owned ((threads s)[i := (t, th')]) (map_keys (session_pool ks))" if "owned (threads s) (map_keys (session_pool (server s)))"
      by (rule owned_starts [OF that assms(2,3) _ _ st(5) keys]) (simp_all add: pr(1))
  qed (simp_all add: pr(1) the_listener_frame [OF fr] len)
qed

text \<open>A session ends.\<close>

lemma shutdown_and_close_framed: "frame ks k \<Longrightarrow> if_ret (frame ks) (Some (shutdown_and_close sid fd k))"
proof -
  assume f: "frame ks k"
  let ?k = "put (ShutdownFd fd) k"
  have "if_ret (frame ks) (Some (print sev msg ?k))" for sev msg
    by (rule if_ret_mono [OF print_framed]) (rule frame_trans [of ks ?k], simp_all add: f)
  then have "if_ret (frame ks) (Some (if shutdown_ret ?k fd < 0
      then print WARNING (lit ''Cannot shutdown socket for session ID: '' @ fmt_u sid @ nl) ?k else Ret ?k))"
    using f by simp
  then show ?thesis
    unfolding shutdown_and_close_def Let_def by (rule if_ret_bind_res) simp
qed

lemma delete_session_framed: "if_ret (frame ks) (Some (delete_session sid ks))"
proof (cases "is_current_id sid ks")
  case True
  let ?k = "ks\<lparr>subscribers := unsubscribe sid (subscribers ks)\<rparr>"
  have "if_ret (frame ks) (Some (bind_res (shutdown_and_close sid fd ?k) (\<lambda>ks.
      Ret (ks\<lparr>session_pool := map_erase sid (session_pool ks), reusable_ids := reusable_ids ks @ [sid], num_sess := num_sess ks - 1\<rparr>))))" for fd
    by (rule if_ret_bind_res [OF shutdown_and_close_framed [of ks]]) (simp_all, simp add: frame_def)
  then have "if_ret (frame ks) (Some (bind_res (get_session sid ?k) (\<lambda>se. bind_res (session_fd se) (\<lambda>fd.
      bind_res (shutdown_and_close sid fd ?k) (\<lambda>ks. Ret (ks\<lparr>session_pool := map_erase sid (session_pool ks),
        reusable_ids := reusable_ids ks @ [sid], num_sess := num_sess ks - 1\<rparr>))))))"
    by (rule if_ret_bind_res [OF if_ret_any, OF if_ret_bind_res [OF if_ret_any]])
  then show ?thesis using True by (simp add: delete_session_def Let_def)
qed (simp add: delete_session_def print_framed)

lemma delete_session_shrinks:
  assumes "mgr_inv ks" and "delete_session sid ks = Ret k" and "sid \<in> set (map_keys (session_pool ks))"
  shows "mgr_inv k" "set (map_keys (session_pool k)) = set (map_keys (session_pool ks)) - {sid}"
    "length (session_pool ks) = Suc (length (session_pool k))" "frame ks k"
proof -
  have "mgr_inv k" and keys: "map_keys (session_pool k) = filter (\<lambda>i. i \<noteq> sid) (map_keys (session_pool ks))"
    using delete_session_inv [OF assms(1), of sid] assms(2) by simp_all
  then show "mgr_inv k" "set (map_keys (session_pool k)) = set (map_keys (session_pool ks)) - {sid}" by auto
  have "distinct (map_keys (session_pool ks))" using assms(1) by (simp add: mgr_inv_def get_current_ids_def)
  then have "length (filter (\<lambda>i. i \<noteq> sid) (map_keys (session_pool ks))) = length (map_keys (session_pool ks)) - 1"
    using assms(3) distinct_remove1_removeAll [of "map_keys (session_pool ks)" sid]
      length_remove1 [of sid "map_keys (session_pool ks)"]
    by (simp add: removeAll_filter_not_eq eq_commute [of _ sid])
  moreover have "0 < length (map_keys (session_pool ks))" using assms(3) by (rule length_pos_if_in_set)
  ultimately have "length (map_keys (session_pool ks)) = Suc (length (map_keys (session_pool k)))" using keys by simp
  then show "length (session_pool ks) = Suc (length (session_pool k))" by (simp add: length_keys)
  show "frame ks k" using delete_session_framed [of ks sid] assms(2) by simp
qed

lemma keeps_listener [simp]: "mgr_inv ks \<Longrightarrow> keeps ks k \<Longrightarrow> mgr_inv (on_listener t f k)"
  by (simp add: keeps_def)

lemma int32_ok_to_int: "int32_ok (to_int k)"
  using signed_take_bit_int_less_exp [of 31 k] signed_take_bit_int_greater_eq_minus_exp [of 31 k]
  by (simp add: int32_ok_def to_int_def)

lemma end_session_effect:
  assumes "mgr_inv ks" and "end_session t sid r ks = Ret (th', k)"
  obtains k1 n where "th' = Deleted" and "keeps ks k1" and "sid \<in> set (map_keys (session_pool ks))"
    and "delete_session sid (on_listener t (\<lambda>l. l\<lparr>total_requests_num := to_int (total_requests_num l + n)\<rparr>) k1) = Ret k"
proof -
  have pr: "keeps ks k'" if "keeps ks k" "print sev msg k = Ret k'" for k k' sev msg
    using print_keeps [OF that(1), of sev msg] that(2) by simp
  obtain k0 where k0: "(if r < 0 then print ERROR (lit ''An error occured during session'' @ nl) ks else Ret ks) = Ret k0"
    and rest: "bind_res (this_session sid k0) (\<lambda>se.
     bind_res (print INFO (lit ''Close session id = '' @ fmt_u sid @ lit '' with #req = '' @ fmt_u (uint (requests_num se))
       @ lit ''. #err = '' @ fmt_u (uint (errors_num se)) @ nl) k0) (\<lambda>ks.
     bind_res (this_session sid ks) (\<lambda>se.
     let ks = on_listener t (\<lambda>l. l\<lparr>total_requests_num := to_int (total_requests_num l + uint (requests_num se))\<rparr>) ks in
     bind_res (delete_session sid ks) (\<lambda>ks. Ret (Deleted, ks))))) = Ret (th', k)"
    using assms(2) unfolding end_session_def bind_res_Ret_iff by blast
  have kk0: "keeps ks k0" using k0 pr [OF keeps_refl [OF assms(1)]] keeps_refl [OF assms(1)] by (auto split: if_splits)
  have "\<exists>se msg k1 n. this_session sid k0 = Ret se \<and> print INFO msg k0 = Ret k1
      \<and> delete_session sid (on_listener t (\<lambda>l. l\<lparr>total_requests_num := to_int (total_requests_num l + n)\<rparr>) k1) = Ret k
      \<and> th' = Deleted"
    using rest unfolding bind_res_Ret_iff Let_def by auto
  then obtain k1 se n msg where "this_session sid k0 = Ret se" "print INFO msg k0 = Ret k1"
    and d: "delete_session sid (on_listener t (\<lambda>l. l\<lparr>total_requests_num := to_int (total_requests_num l + n)\<rparr>) k1) = Ret k" "th' = Deleted"
    by blast
  moreover have "sid \<in> set (map_keys (session_pool ks))"
  proof -
    have "map_at (session_pool k0) sid = Some se"
      using \<open>this_session sid k0 = Ret se\<close> by (cases "map_at (session_pool k0) sid") (simp_all add: this_session_def)
    then have "sid \<in> set (map_keys (session_pool k0))" by (simp add: keys_at)
    then show ?thesis using kk0 by (simp add: keeps_def)
  qed
  ultimately show thesis using that [OF d(2) pr [OF kk0] _ d(1)] by blast
qed

lemma end_session_inv:
  assumes "sys_inv s" and "i < length (threads s)" and "threads s ! i = (t, Serving sid ph)"
    and "end_session t sid r (server s) = Ret (th', ks)"
  shows "sys_inv (s\<lparr>server := ks, threads := (threads s)[i := (t, th')]\<rparr>)"
proof -
  have inv: "mgr_inv (server s)" using assms(1) by (simp add: sys_inv_def)
  obtain k1 n where e: "th' = Deleted" "keeps (server s) k1" "sid \<in> set (map_keys (session_pool (server s)))"
    "delete_session sid (on_listener t (\<lambda>l. l\<lparr>total_requests_num := to_int (total_requests_num l + n)\<rparr>) k1) = Ret ks"
    by (rule end_session_effect [OF inv assms(4)])
  let ?k = "on_listener t (\<lambda>l. l\<lparr>total_requests_num := to_int (total_requests_num l + n)\<rparr>) k1"
  have k: "mgr_inv ?k" "map_keys (session_pool ?k) = map_keys (session_pool (server s))" using e(2) by (simp_all add: keeps_def)
  note d = delete_session_shrinks [OF k(1) e(4)]
  have l: "the_listener t' ks = the_listener t' ?k" for t' using d(4) e(3) k(2) by (simp add: the_listener_frame)
  have k1: "the_listener t' k1 = the_listener t' (server s)" for t' using e(2) by (simp add: keeps_def the_listener_frame)
  show ?thesis
  proof (rule thread_inv [OF assms(1-3)])
    show "mgr_inv ks" using d(1) e(3) k(2) by simp
    show "listeners_ok ks" using assms(1) by (auto simp: sys_inv_def listeners_ok_iff l k1 stats_ok_def int32_ok_to_int)
    show "owned ((threads s)[i := (t, th')]) (map_keys (session_pool ks))" if "owned (threads s) (map_keys (session_pool (server s)))"
      by (rule owned_ends [OF that assms(2,3)]) (use d(2) e k(2) in simp_all)
    show "length (session_pool ks) + (if serves_id (Serving sid ph) \<noteq> None then 1 else 0)
        \<le> length (session_pool (server s)) + (if serves_id th' \<noteq> None then 1 else 0)"
      using d(3) e(1,3) k(2) keys_length [OF k(2)] by simp
  qed (simp_all add: e(1) l k1)
qed

lemma serving_inv:
  assumes "sys_inv s" and "i < length (threads s)" and "threads s ! i = (t, Serving sid ph)" and "ext_ok ext"
    and "run_step ext sid ph (server s) = Some (Ret (ph', ks))" and "\<forall>r. ph \<noteq> Returned r"
  shows "sys_inv (s\<lparr>server := ks, threads := (threads s)[i := (t, Serving sid ph')]\<rparr>)"
proof -
  have inv: "mgr_inv (server s)" "listeners_ok (server s)" "phase_ok sid ph"
    using assms(1) nth_mem [OF assms(2)] assms(3) by (auto simp: sys_inv_def)
  have "sid \<in> set (map_keys (session_pool (server s)))"
  proof (rule ccontr)
    assume "sid \<notin> set (map_keys (session_pool (server s)))"
    then have "map_at (session_pool (server s)) sid = None" by (simp add: keys_at)
    with assms(5,6) show False
      by (cases ph) (auto simp: run_step_def init_session_def on_session_def this_session_def)
  qed
  from run_step_keeps [OF inv(1) this inv(3,2) assms(4)] assms(5)
  have "keeps (server s) ks" "phase_ok sid ph'" by (simp_all add: if_ret_def)
  then show ?thesis by (intro thread_steady_inv [OF assms(1-3)] keeps_steady) simp_all
qed

lemma thread_step_inv:
  assumes "sys_inv s" and "i < length (threads s)" and "threads s ! i = (t, th)" and "ext_ok ext"
    and "thread_step ext t th (server s) = Some (Ret (th', ks))"
  shows "sys_inv (s\<lparr>server := ks, threads := (threads s)[i := (t, th')]\<rparr>)"
proof (cases th)
  case (Serving sid ph)
  show ?thesis
  proof (cases "\<exists>r. ph = Returned r")
    case True
    with assms(3,5) Serving show ?thesis
      by (auto simp: thread_step_def intro: end_session_inv [OF assms(1,2)])
  next
    case False
    then have "bind_ro (run_step ext sid ph (server s)) (\<lambda>(ph, ks). Some (Ret (Serving sid ph, ks))) = Some (Ret (th', ks))"
      using assms(5) Serving by (cases ph) (simp_all add: thread_step_def)
    then obtain ph' where "run_step ext sid ph (server s) = Some (Ret (ph', ks))" "th' = Serving sid ph'"
      by (cases "run_step ext sid ph (server s)" rule: option.exhaust; cases "the (run_step ext sid ph (server s))") auto
    with False assms Serving show ?thesis by (auto intro: serving_inv [OF assms(1,2) _ assms(4)])
  qed
next
  case (Counted c)
  with assms(5) have "open_stats t (server s) = Ret ks" "th' = Opened c" by (auto simp: thread_step_def bind_res_Ret_iff)
  with assms(3) Counted show ?thesis using open_stats_inv [OF assms(1,2)] by simp
next
  case Uncounted
  with assms(5) obtain n where "int_dec (opened_sessions_num (the_listener t (server s))) = Ret n"
    "ks = on_listener t (\<lambda>l. l\<lparr>opened_sessions_num := n\<rparr>) (server s)" "th' = Gone"
    by (auto simp: thread_step_def bind_res_Ret_iff)
  with assms(3) Uncounted show ?thesis using close_stats_inv [OF assms(1,2)] by simp
next
  case Gone
  have "steady (server s) (server s)" using assms(1) by (intro keeps_steady keeps_refl) (simp add: sys_inv_def)
  with assms(3,5) Gone show ?thesis by (auto simp: thread_step_def intro!: thread_steady_inv [OF assms(1,2)])
qed (use assms(3,5) in \<open>auto simp: thread_step_def intro: count_in_inv [OF assms(1,2)] count_out_inv [OF assms(1,2)] start_session_inv [OF assms(1,2)]\<close>)

text \<open>The main thread.\<close>

lemma notify_ready_keeps:
  assumes "mgr_inv ks"
  shows "if_ret (\<lambda>(b, k). keeps ks k) (Some (notify_ready sys b ks))"
proof -
  note k = keeps_refl [OF assms]
  have pr: "if_ret (keeps ks) (Some (if b then print sev msg k else Ret k))" if "keeps ks k" for b sev msg k
    using print_keeps [OF that] that by simp
  have nt: "if_ret (keeps ks) (Some (notify_systemd_ready sys k))" if k: "keeps ks k" for k
  proof -
    have fin: "if_ret (keeps ks) (Some (let k = put (ShutdownFd fd) k in bind_res (if shutdown_ret k fd < 0
        then print WARNING msg k else Ret k) (\<lambda>ks. Ret (put (CloseFd fd) ks))))" if "keeps ks k" for k fd msg
      unfolding Let_def by (rule if_ret_bind_res [OF pr]) (use that in auto)
    have "if_ret (keeps ks) (Some (let k = put ev k in if c then print WARNING msg k else Ret k))" for ev c msg
      unfolding Let_def by (rule pr) (simp add: k)
    then have "if_ret (keeps ks) (Some (if \<not> a then print WARNING m k else let k = put ev k in if c then print WARNING msg k else Ret k))"
      for a m ev c msg using print_keeps [OF k] by (cases a) simp_all
    then have "if_ret (keeps ks) (Some (bind_res (if \<not> a then print WARNING m k else let k = put ev k in if c then print WARNING msg k else Ret k)
        (\<lambda>k. let k = put (ShutdownFd fd) k in bind_res (if shutdown_ret k fd < 0 then print WARNING msg2 k else Ret k)
          (\<lambda>ks. Ret (put (CloseFd fd) ks)))))" for a m ev c msg fd msg2
      by (rule if_ret_bind_res) (rule fin)
    then show ?thesis using print_keeps [OF k] by (simp add: notify_systemd_ready_def Let_def)
  qed
  have "if_ret (keeps ks) (Some (if notify_systemd (config k) then notify_systemd_ready sys k else Ret k))" if "keeps ks k" for k
    using nt [OF that] that by simp
  then have "if_ret (\<lambda>(b, k). keeps ks k) (Some (bind_res (print INFO msg ks) (\<lambda>ks.
      bind_res (if notify_systemd (config ks) then notify_systemd_ready sys ks else Ret ks) (\<lambda>ks. Ret (True, ks)))))" for msg
    by (intro if_ret_bind_res [OF print_keeps [OF k]] if_ret_bind_res [where Q = "keeps ks"]) auto
  with k show ?thesis by (simp add: notify_ready_def)
qed

lemma delete_sessions_framed: "if_ret (frame ks) (Some (delete_sessions ids ks))"
proof (induction ids arbitrary: ks)
  case (Cons sid ids)
  have d: "if_ret (frame ks) (Some (delete_session sid k))" if "frame ks k" for k
    by (rule if_ret_mono [OF delete_session_framed]) (rule frame_trans [OF that])
  have r: "if_ret (frame ks) (Some (delete_sessions ids k))" if "frame ks k" for k
    by (rule if_ret_mono [OF Cons.IH]) (rule frame_trans [OF that])
  show ?case
    unfolding delete_sessions.simps
    by (rule if_ret_bind_res [OF print_framed], rule if_ret_bind_res [OF d], assumption) (rule r)
qed simp

lemma delete_all_effect:
  assumes "mgr_inv ks" and "delete_all ks = Ret k"
  shows "mgr_inv k" "session_pool k = []" "frame ks k"
proof -
  show "mgr_inv k" "session_pool k = []" using delete_all_inv [OF assms(1)] assms(2) by simp_all
  have r: "if_ret (frame ks) (Some (if session_pool k \<noteq> [] then delete_sessions (get_current_ids k) k else Ret k))" if "frame ks k" for k
    using if_ret_mono [OF delete_sessions_framed frame_trans [OF that]] that by auto
  have "if_ret (frame ks) (Some (delete_all ks))"
    unfolding delete_all_def by (rule if_ret_bind_res [OF print_framed]) (rule r)
  with assms(2) show "frame ks k" by simp
qed

lemma steady_keeps:
  assumes "steady ks k" and "keeps k k'"
  shows "steady ks k'"
proof -
  have "the_listener t k' = the_listener t k" for t using assms(2) by (simp add: keeps_def the_listener_frame)
  with assms show ?thesis by (simp add: steady_def keeps_def)
qed

lemma listener_shutdown_keeps:
  assumes "mgr_inv ks"
  shows "if_ret (keeps ks) (Some (listener_shutdown t ks))"
proof -
  note k = keeps_refl [OF assms]
  have body: "if_ret (keeps ks) (Some (close_channel name fd k))" if "keeps ks k" for k name fd
    unfolding close_channel_def Let_def
    by (rule if_ret_bind_res [where Q = "keeps ks"]) (use that in \<open>auto intro: print_keeps\<close>)
  obtain msg name where eq: "listener_shutdown t ks = (if worker_connections t (config ks) > 0 then
      bind_res (print INFO msg ks) (\<lambda>ks. close_channel name (listen_fd (the_listener t ks)) ks) else Ret ks)"
    using listener_shutdown_eq by blast
  have "if_ret (keeps ks) (Some (bind_res (print INFO msg ks) (\<lambda>ks. close_channel name (listen_fd (the_listener t ks)) ks)))"
    by (rule if_ret_bind_res [OF print_keeps [OF k]]) (rule body)
  with k show ?thesis by (simp add: eq)
qed

lemma close_listeners_steady:
  assumes "mgr_inv ks"
  shows "if_ret (steady ks) (Some (close_listeners ks))"
proof -
  let ?k = "ks\<lparr>exit_comm := True\<rparr>"
  have k: "mgr_inv ?k" using assms by (simp add: mgr_inv_def comm_inv_def get_current_ids_def)
  then have 0: "steady ks ?k" using assms by (auto simp: steady_def the_listener_def split: SockType.split)
  have s: "if_ret (steady ks) (Some (listener_shutdown t k))" if "steady ks k" for t k
  proof -
    have "mgr_inv k" using that by (simp add: steady_def)
    from listener_shutdown_keeps [OF this] show ?thesis by (rule if_ret_mono) (rule steady_keeps [OF that])
  qed
  show ?thesis
    unfolding close_listeners_def
    by (rule if_ret_bind_res [OF s [OF 0]], rule if_ret_bind_res [OF s], assumption) (rule s)
qed

lemma syslog_close_keeps: "mgr_inv ks \<Longrightarrow> if_ret (keeps ks) (Some (syslog_close ks))"
  by (auto simp: syslog_close_def keeps_refl intro!: if_ret_bind_res [OF print_keeps [OF keeps_refl]])

lemma main_inv:
  assumes "sys_inv s" and "steady (server s) ks" and "(\<exists>b. ph = Running b) \<Longrightarrow> (\<exists>b. main_thread s = Running b)"
  shows "sys_inv (s\<lparr>server := ks, main_thread := ph\<rparr>)"
  using assms(1,3) steady_inv [OF assms(1,2)] by (auto simp: sys_inv_def)

lemma main_step_inv:
  assumes "sys_inv s" and "main_step sys (main_thread s) (server s) = Ret (ph, ks)"
  shows "sys_inv (s\<lparr>server := ks, main_thread := ph\<rparr>)"
proof -
  have inv: "mgr_inv (server s)" using assms(1) by (simp add: sys_inv_def)
  have st: "steady (server s) k" if "if_ret (steady (server s)) (Some m)" "m = Ret k" for m k using that by simp
  show ?thesis
  proof (cases "main_thread s")
    case (Running b)
    with assms(2) obtain b1 k1 where n: "notify_ready sys b (server s) = Ret (b1, k1)"
      and rest: "(if s_interrupted k1 \<or> exit_all k1 then
           bind_res (print INFO (lit ''Interrupt received, killing Koheron server ...'' @ nl) k1) (\<lambda>ks.
           bind_res (delete_all ks) (\<lambda>ks. Ret (ClosingDown, ks)))
         else Ret (main_phase.Running b1, k1)) = Ret (ph, ks)"
      by (auto simp: main_step_def bind_res_Ret_iff)
    have k1: "keeps (server s) k1" using notify_ready_keeps [OF inv, of sys b] n by simp
    show ?thesis
    proof (cases "s_interrupted k1 \<or> exit_all k1")
      case True
      with rest obtain k2 where k2: "print INFO (lit ''Interrupt received, killing Koheron server ...'' @ nl) k1 = Ret k2"
        "delete_all k2 = Ret ks" "ph = ClosingDown" by (auto simp: bind_res_Ret_iff)
      have kk2: "keeps (server s) k2" using print_keeps [OF k1] k2(1) by (auto simp: if_ret_def)
      note d = delete_all_effect [OF keeps_mgr_inv [OF kk2] k2(2)]
      have "frame (server s) ks" using kk2 d(3) by (auto simp: keeps_def intro: frame_trans)
      then have "listeners_ok ks" "counts_ok (threads s) ks"
        using assms(1) by (simp_all add: sys_inv_def listeners_ok_iff counts_ok_def the_listener_frame)
      with assms(1) d k2(3) show ?thesis by (simp add: sys_inv_def)
    next
      case False
      with rest have "ks = k1" by auto
      then show ?thesis using Running k1 by (intro main_inv [OF assms(1)] keeps_steady) auto
    qed
  next
    case ClosingDown
    with assms(2) have "close_listeners (server s) = Ret ks" "ph = Joining" by (auto simp: main_step_def bind_res_Ret_iff)
    then show ?thesis using close_listeners_steady [OF inv] by (intro main_inv [OF assms(1)]) simp_all
  next
    case Joining
    with assms(2) have "syslog_close (server s) = Ret ks" "ph = Exited 0" by (auto simp: main_step_def bind_res_Ret_iff)
    then show ?thesis using syslog_close_keeps [OF inv] by (intro main_inv [OF assms(1)] keeps_steady) simp_all
  next
    case (Exited r)
    with assms show ?thesis by (intro main_inv [OF assms(1)] keeps_steady) (auto simp: main_step_def keeps_refl inv)
  qed
qed

text \<open>The construction: nobody is connected and the listeners are as their constructors leave them.\<close>

definition booted :: "'w kserver \<Rightarrow> 'w kserver \<Rightarrow> bool" where
  "booted ks k \<longleftrightarrow> mgr_init k \<and> config k = config ks \<and> (\<forall>t. the_listener t k = the_listener t ks)"

lemma booted_refl: "mgr_init ks \<Longrightarrow> booted ks ks"
  by (simp add: booted_def)

lemma booted_put [simp]: "booted ks (put ev k) = booted ks k"
  by (simp add: booted_def mgr_init_def) (simp add: put_def)

lemma print_booted:
  assumes "booted ks k"
  shows "if_ret (booted ks) (Some (print sev msg k))"
proof -
  have "subscribers k ! SYSLOG_CHANNEL = []" using assms by (simp add: booted_def mgr_init_def Subscribers_def channels)
  from print_quiet [OF this, of sev msg "trace k"] obtain t where "print sev msg k = Ret (k\<lparr>trace := t\<rparr>)" by auto
  moreover have "booted ks (k\<lparr>trace := t\<rparr>)"
    using assms by (auto simp: booted_def mgr_init_def the_listener_def split: SockType.splits)
  ultimately show ?thesis by simp
qed

lemma print_booted_if: "booted ks k \<Longrightarrow> if_ret (booted ks) (Some (if c then print sev msg k else Ret k))"
  using print_booted [of ks k sev msg] by simp

lemma create_tcp_listening_booted:
  assumes "booted ks k"
  shows "if_ret (\<lambda>(fd, k'). booted ks k') (Some (create_tcp_listening sys p k))"
proof -
  have fin: "if_ret (\<lambda>(fd, k'). booted ks k') (Some (bind_res (print PANIC msg k) (\<lambda>ks. Ret (-1, put (CloseFd fd) ks))))"
    if "booted ks k" for msg fd k
    by (rule if_ret_bind_res [OF print_booted [OF that]]) simp
  have no: "if_ret (\<lambda>(fd, k'). booted ks k') (Some (bind_res (print PANIC msg k) (\<lambda>ks. Ret (-1, ks))))" for msg
    by (rule if_ret_bind_res [OF print_booted [OF assms]]) simp
  have opt: "if_ret (booted ks) (Some (if tcp_nodelay (config k) then let k = put ev k in
      if c then print CRITICAL msg k else Ret k else Ret k))" if "booted ks k" for k ev c msg
    using that print_booted_if [of ks "put ev k"] by (simp add: Let_def)
  show ?thesis
  proof (cases "socket_ret sys < 0")
    case False
    show ?thesis
      unfolding create_tcp_listening_def Let_def if_not_P [OF False]
      by (rule if_ret_bind_res [OF print_booted_if [of ks]], simp add: assms,
          rule if_ret_bind_res [OF opt [unfolded Let_def]], assumption) (auto intro!: fin)
  qed (simp add: create_tcp_listening_def no)
qed

lemma create_unix_listening_booted:
  assumes "booted ks k"
  shows "if_ret (\<lambda>(fd, k'). booted ks k') (Some (create_unix_listening sys path k))"
proof -
  have pr: "if_ret (\<lambda>(fd, k'). booted ks k') (Some (bind_res (print PANIC msg k) (\<lambda>ks. Ret (-1, put (CloseFd fd) ks))))"
    "if_ret (\<lambda>(fd, k'). booted ks k') (Some (bind_res (print PANIC msg k) (\<lambda>ks. Ret (-1, ks))))" if "booted ks k" for msg fd k
    by (rule if_ret_bind_res [OF print_booted [OF that]], simp)+
  show ?thesis
    unfolding create_unix_listening_def Let_def
    by (auto intro!: if_ret_bind_res [OF if_ret_any] pr simp: assms)
qed

text \<open>After \<open>init\<close> the channel counts no thread.\<close>

definition zeroed :: "listener \<Rightarrow> bool" where
  "zeroed l \<longleftrightarrow> opened_sessions_num l = 0 \<and> total_sessions_num l = 0 \<and> total_requests_num l = 0"

definition initialised :: "kserver_config \<Rightarrow> SockType set \<Rightarrow> 'w kserver \<Rightarrow> bool" where
  "initialised cfg ts ks \<longleftrightarrow> mgr_init ks \<and> config ks = cfg \<and> (\<forall>t. zeroed (the_listener t ks)) \<and> (\<forall>t \<in> ts. num_threads (the_listener t ks) = 0)"

lemma mgr_init_listener [simp]: "mgr_init (on_listener t f ks) = mgr_init ks"
  by (cases t) (simp_all add: on_listener_def mgr_init_def)

lemma initialised_booted: "initialised cfg ts ks \<Longrightarrow> booted ks k \<Longrightarrow> initialised cfg ts k"
  by (simp add: initialised_def booted_def)

lemma listener_init_initialised:
  assumes "initialised cfg ts ks" and "t \<noteq> NONE" and "NONE \<notin> ts"
  shows "if_ret (\<lambda>(r, k). initialised cfg (insert t ts) k) (Some (listener_init sys t ks))"
proof -
  let ?k = "on_listener t (num_threads_update (\<lambda>_. 0)) ks"
  have 0: "initialised cfg (insert t ts) ?k"
    using assms same_kind [OF assms(2)] by (auto simp: initialised_def zeroed_def)
  then have b: "booted ?k ?k" by (intro booted_refl) (simp add: initialised_def)
  have fd: "initialised cfg (insert t ts) (on_listener t (listen_fd_update (\<lambda>_. fd)) k)" if "booted ?k k" for fd k
    using initialised_booted [OF 0 that] by (auto simp: initialised_def zeroed_def)
  have mk: "if_ret (\<lambda>(fd, k). booted ?k k) (Some (case t of UNIX \<Rightarrow> create_unix_listening sys (unixsock_path (config ?k)) ?k
      | WEBSOCK \<Rightarrow> create_tcp_listening sys (websock_port (config ?k)) ?k | _ \<Rightarrow> create_tcp_listening sys (tcp_port (config ?k)) ?k))"
    using create_tcp_listening_booted [OF b] create_unix_listening_booted [OF b] by (cases t) simp_all
  have "if_ret (\<lambda>(r, k). initialised cfg (insert t ts) k) (Some (bind_res (case t of UNIX \<Rightarrow> create_unix_listening sys (unixsock_path (config ?k)) ?k
      | WEBSOCK \<Rightarrow> create_tcp_listening sys (websock_port (config ?k)) ?k | _ \<Rightarrow> create_tcp_listening sys (tcp_port (config ?k)) ?k)
      (\<lambda>(fd, ks). Ret (fd, on_listener t (listen_fd_update (\<lambda>_. fd)) ks))))"
    by (rule if_ret_bind_res [OF mk]) (auto simp: fd)
  with 0 show ?thesis unfolding listener_init_eq Let_def by simp
qed

lemma init_listeners_initialised:
  "initialised cfg ts0 ks \<Longrightarrow> NONE \<notin> set ts \<Longrightarrow> NONE \<notin> ts0 \<Longrightarrow>
   if_ret (\<lambda>ok. \<forall>k. ok = Some k \<longrightarrow> initialised cfg (set ts \<union> ts0) k) (Some (init_listeners sys ts ks))"
proof (induction ts arbitrary: ts0 ks)
  case (Cons t ts)
  show ?case
    unfolding init_listeners.simps
  proof (rule if_ret_bind_res [OF listener_init_initialised [OF Cons.prems(1)]], goal_cases)
    case (3 x)
    then show ?case using Cons.IH [of "insert t ts0" "snd x"] Cons.prems by (cases x) auto
  qed (use Cons.prems in auto)
qed simp

lemma start_workers_booted:
  assumes "booted ks k"
  shows "if_ret (\<lambda>(r, us, k'). booted ks k') (Some (start_workers sys ts k))"
  using assms
proof (induction ts arbitrary: k)
  case (Cons t ts)
  have one: "if_ret (\<lambda>(r, b, k'). booted ks k') (Some (start_worker (sys t) t k))"
    using Cons.prems by (auto simp: start_worker_def Let_def intro!: if_ret_bind_res [OF print_booted])
  have r: "if_ret (\<lambda>(r, us, k'). booted ks k') (Some (bind_res (start_workers sys ts k) (\<lambda>(r, us, ks). Ret (r, if b then t # us else us, ks))))"
    if "booted ks k" for b k
    by (rule if_ret_bind_res [OF Cons.IH [OF that]]) auto
  show ?case
    unfolding start_workers.simps by (rule if_ret_bind_res [OF one]) (auto simp: r)
qed simp

lemma construct_initialised:
  assumes "construct sig_init ctx_init sys (KServer cfg n w shut) = Ret (Some ks)"
  shows "initialised cfg {TCP, WEBSOCK, UNIX} ks"
proof -
  let ?k0 = "KServer cfg n w shut"
  have k0: "mgr_init ?k0" "\<forall>t. zeroed (the_listener t ?k0)"
    by (auto simp: KServer_def mgr_init_def the_listener_def ListeningChannel_def zeroed_def split: SockType.split)
  have "if_ret (\<lambda>(r, k). booted ?k0 k) (Some (dm_init ctx_init ?k0))"
    unfolding dm_init_def using booted_refl [OF k0(1)] by (auto intro!: if_ret_bind_res [OF print_booted])
  then obtain k1 where k1: "booted ?k0 k1"
    "init_listeners sys [TCP, WEBSOCK, UNIX] (k1\<lparr>exit_comm := False, exit_all := False\<rparr>) = Ret (Some ks)"
    using assms by (auto simp: construct_def bind_res_Ret_iff split: if_splits)
  have "initialised cfg {} k1" using k1(1) k0(2) by (simp add: initialised_def booted_def) (simp add: KServer_def)
  then have "initialised cfg {} (k1\<lparr>exit_comm := False, exit_all := False\<rparr>)"
    by (auto simp: initialised_def mgr_init_def the_listener_def split: SockType.splits)
  from init_listeners_initialised [OF this, of "[TCP, WEBSOCK, UNIX]" sys] k1(2)
  show ?thesis by (simp add: if_ret_def)
qed

lemma sys_init_inv:
  assumes "construct sig_init ctx_init sys (KServer cfg n w shut) = Ret (Some ks)"
    and "start_listeners_workers sys (ks\<lparr>server_start_time := time\<rparr>) = Ret (0, ts, ks')"
  shows "sys_inv (sys_init (set ts) ks')"
proof -
  have "initialised cfg {TCP, WEBSOCK, UNIX} ks" by (rule construct_initialised [OF assms(1)])
  then have i: "initialised cfg {TCP, WEBSOCK, UNIX} (ks\<lparr>server_start_time := time\<rparr>)"
    by (auto simp: initialised_def mgr_init_def the_listener_def split: SockType.splits)
  then have "booted (ks\<lparr>server_start_time := time\<rparr>) (ks\<lparr>server_start_time := time\<rparr>)"
    by (intro booted_refl) (simp add: initialised_def)
  from start_workers_booted [OF this] assms(2) have "booted (ks\<lparr>server_start_time := time\<rparr>) ks'"
    by (simp add: start_listeners_workers_def if_ret_def del: start_workers.simps)
  from initialised_booted [OF i this] have f: "initialised cfg {TCP, WEBSOCK, UNIX} ks'" .
  have z: "num_threads (the_listener t ks') = 0" if "t \<noteq> NONE" for t
    using f that by (cases t) (auto simp: initialised_def)
  have "mgr_inv ks'" "session_pool ks' = []" using f mgr_init_inv [of ks'] by (simp_all add: initialised_def mgr_init_def)
  then show ?thesis
    using f z by (auto simp: sys_inv_def sys_init_def counts_ok_def owned_def map_keys_def listeners_ok_iff initialised_def
        zeroed_def stats_ok_def int32_ok_def split: if_splits)
qed

lemma sys_step_inv:
  assumes "sys_step ext s s'" and "sys_inv s" and "ext_ok ext"
  shows "sys_inv s'"
  using assms(1)
proof cases
  case (accept t c sys a oc ks)
  have "mgr_inv (server s)" "acceptor_ok (acceptors s t)" using assms(2) by (auto simp: sys_inv_def acceptor_ok_def)
  from accept_step_steady [OF this(1) accept(3) this(2), of sys t] accept(5)
  have "steady (server s) ks" "acceptor_ok a" "\<forall>c. oc = Some c \<longrightarrow> connection_ok c" by simp_all
  then show ?thesis unfolding accept(1) by (intro spawn_inv [OF assms(2)] accept(2,4))
next
  case (thread i t th th' ks)
  then show ?thesis using thread_step_inv [OF assms(2) thread(2,3) assms(3)] by simp
next
  case (main sys ph ks)
  then show ?thesis using main_step_inv [OF assms(2)] by simp
next
  case signal
  have "mgr_inv ((server s)\<lparr>s_interrupted := True\<rparr>)"
    using assms(2) by (simp add: sys_inv_def mgr_inv_def comm_inv_def get_current_ids_def)
  then have "steady (server s) ((server s)\<lparr>s_interrupted := True\<rparr>)"
    by (auto simp: steady_def the_listener_def split: SockType.split)
  from main_inv [OF assms(2) this, of "main_thread s"] signal show ?thesis by simp
qed

lemma sys_reachable_inv: "sys_reachable ext s \<Longrightarrow> ext_ok ext \<Longrightarrow> sys_inv s"
  by (induction rule: sys_reachable.induct) (auto intro: sys_init_inv sys_step_inv)

section \<open>Example\<close>

text \<open>A server that accepts one TCP client, and what its threads do.\<close>

definition boot_config :: kserver_config where
  "boot_config = KServerConfig\<lparr>tcp_worker_connections := 1, websock_worker_connections := 0, unixsock_worker_connections := 0\<rparr>"

definition boot_os :: os where
  "boot_os = \<lparr>socket_ret = 3, reuseaddr_ret = 0, nodelay_ret = 0, bind_ret = 0, listen_ret = 0, sndbuf_ret = 0, rcvbuf_ret = 0\<rparr>"

definition boot_server :: "int \<Rightarrow> trace_event list \<Rightarrow> unit kserver" where
  "boot_server n tr = (KServer boot_config 4 () (\<lambda>_. 0))
     \<lparr>tcp_listener := ListeningChannel\<lparr>num_threads := n, listen_fd := 3, is_ready := True\<rparr>,
      websock_listener := ListeningChannel\<lparr>num_threads := 0\<rparr>, unix_listener := ListeningChannel\<lparr>num_threads := 0\<rparr>,
      server_start_time := 12, trace := tr\<rparr>"

definition boot_system :: "unit kserver \<Rightarrow> acceptor \<Rightarrow> (SockType \<times> thread) list \<Rightarrow> unit system" where
  "boot_system ks a thr = \<lparr>server = ks, acceptors = (\<lambda>t. if t = TCP then a else NotStarted), threads = thr, main_thread = Running False\<rparr>"

lemma boot_reachable: "\<exists>tr. sys_reachable sample_external (boot_system (boot_server 0 tr) AcLoop [])"
proof -
  let ?ks = "(boot_server 0 [SockOpt 3 ''SO_REUSEADDR'' 1, BindPort 3 36000])\<lparr>server_start_time := 0,
    tcp_listener := ListeningChannel\<lparr>num_threads := 0, listen_fd := 3\<rparr>\<rparr>"
  let ?ks' = "(boot_server 0 [SockOpt 3 ''SO_REUSEADDR'' 1, BindPort 3 36000, ListenFd 3 10])\<lparr>
    tcp_listener := ListeningChannel\<lparr>num_threads := 0, listen_fd := 3\<rparr>\<rparr>"
  have "construct 0 0 (\<lambda>_. boot_os) (KServer boot_config (device_num sample_external) () (\<lambda>_. 0)) = Ret (Some ?ks)"
    by (simp add: construct_def dm_init_def listener_init_eq on_listener_def worker_connections_def create_tcp_listening_def
        KServer_def boot_config_def boot_os_def boot_server_def put_def KServerConfig_def sample_external_def ListeningChannel_def)
  moreover have "start_listeners_workers (\<lambda>_. boot_os) (?ks\<lparr>server_start_time := now sample_external\<rparr>) = Ret (0, [TCP], ?ks')"
    by (simp add: start_listeners_workers_def start_worker_def boot_os_def boot_server_def put_def the_listener_def
        KServer_def ListeningChannel_def KSERVER_BACKLOG_def sample_external_def Let_def)
  ultimately have 1: "sys_reachable sample_external (sys_init (set [TCP]) ?ks')" by (rule sys_reachable.init)
  have "accept_step boot_os TCP (connection_of \<lparr>rx = [], tx = [], sent = []\<rparr>) AcStart ?ks'
      = Ret (AcLoop, None, boot_server 0 [SockOpt 3 ''SO_REUSEADDR'' 1, BindPort 3 36000, ListenFd 3 10])"
    by (simp add: accept_step_def on_listener_def boot_server_def)
  then have "sys_step sample_external (sys_init (set [TCP]) ?ks')
      ((sys_init (set [TCP]) ?ks')\<lparr>server := boot_server 0 [SockOpt 3 ''SO_REUSEADDR'' 1, BindPort 3 36000, ListenFd 3 10],
        acceptors := (acceptors (sys_init (set [TCP]) ?ks'))(TCP := AcLoop), threads := spawn TCP None []\<rparr>)"
    using sys_step.accept [of TCP "connection_of \<lparr>rx = [], tx = [], sent = []\<rparr>" "sys_init (set [TCP]) ?ks'" boot_os AcLoop None _ sample_external]
    by (simp add: sys_init_def connection_of_ok)
  moreover have "(\<lambda>t. if t = TCP then AcStart else NotStarted)(TCP := AcLoop) = (\<lambda>t. if t = TCP then AcLoop else NotStarted)"
    by auto
  ultimately have "sys_reachable sample_external
      (boot_system (boot_server 0 [SockOpt 3 ''SO_REUSEADDR'' 1, BindPort 3 36000, ListenFd 3 10]) AcLoop [])"
    using sys_reachable.step [OF 1] by (simp add: sys_init_def boot_system_def spawn_def)
  then show ?thesis by (rule exI)
qed

abbreviation boot_conn :: connection where
  "boot_conn \<equiv> connection_of \<lparr>rx = [], tx = [], sent = []\<rparr>"

lemma boot_accept_step:
  assumes "sys_reachable sample_external (boot_system ks a thr)" and "length thr < 5"
    and "accept_step boot_os TCP boot_conn a ks = Ret (a', oc, ks')"
  shows "sys_reachable sample_external (boot_system ks' a' (spawn TCP oc thr))"
proof -
  have "sys_step sample_external (boot_system ks a thr) ((boot_system ks a thr)\<lparr>server := ks',
      acceptors := (acceptors (boot_system ks a thr))(TCP := a'), threads := spawn TCP oc (threads (boot_system ks a thr))\<rparr>)"
    by (rule sys_step.accept [of TCP boot_conn _ boot_os]) (use assms(2,3) in \<open>simp_all add: boot_system_def connection_of_ok\<close>)
  moreover have "(acceptors (boot_system ks a thr))(TCP := a') = (\<lambda>t. if t = TCP then a' else NotStarted)"
    by (auto simp: boot_system_def)
  ultimately show ?thesis
    using sys_reachable.step [OF assms(1)] by (simp add: boot_system_def)
qed

lemma boot_thread_step:
  assumes "sys_reachable sample_external (boot_system ks a thr)" and "i < length thr" and "thr ! i = (TCP, th)"
    and "thread_step sample_external TCP th ks = Some (Ret (th', ks'))"
  shows "sys_reachable sample_external (boot_system ks' a (thr[i := (TCP, th')]))"
proof -
  have "sys_step sample_external (boot_system ks a thr) ((boot_system ks a thr)\<lparr>server := ks',
      threads := (threads (boot_system ks a thr))[i := (TCP, th')]\<rparr>)"
    by (rule sys_step.thread) (use assms in \<open>simp_all add: boot_system_def\<close>)
  with sys_reachable.step [OF assms(1)] show ?thesis by (simp add: boot_system_def)
qed

lemma boot_spawns:
  assumes "sys_reachable sample_external (boot_system (boot_server 0 tr) AcLoop thr)" and "length thr < 5"
  shows "\<exists>tr'. sys_reachable sample_external (boot_system (boot_server 0 tr') AcLoop (thr @ [(TCP, Spawned boot_conn)]))"
proof -
  let ?tr = "tr @ [SockOpt 9 ''SO_SNDBUF'' 65536, SockOpt 9 ''SO_RCVBUF'' 16384]"
  have "accept_step boot_os TCP boot_conn AcLoop (boot_server 0 tr) = Ret (AcGot 9 boot_conn, None, boot_server 0 ?tr)"
    by (simp add: accept_step_def open_communication_def unix_open_communication_def open_tcp_communication_def set_comm_sock_opts_def Let_def put_def
        boot_server_def KServer_def boot_os_def boot_config_def KServerConfig_def connection_of_def KSERVER_SIG_LEN_def KSERVER_READ_STR_LEN_def)
  from boot_accept_step [OF assms this]
  have 1: "sys_reachable sample_external (boot_system (boot_server 0 ?tr) (AcGot 9 boot_conn) thr)" by (simp add: spawn_def)
  have "accept_step boot_os TCP boot_conn (AcGot 9 boot_conn) (boot_server 0 ?tr) = Ret (AcLoop, Some boot_conn, boot_server 0 ?tr)"
    by (simp add: accept_step_def is_max_threads_eq the_listener_def worker_connections_def boot_server_def KServer_def
        boot_config_def to_int_def)
  from boot_accept_step [OF 1 assms(2) this] show ?thesis by (auto simp: spawn_def)
qed

lemma boot_counts:
  assumes "sys_reachable sample_external (boot_system (boot_server n tr) a thr)" and "i < length thr"
    and "thr ! i = (TCP, Spawned c)" and "0 \<le> n" and "n < 5"
  shows "sys_reachable sample_external (boot_system (boot_server (n + 1) tr) a (thr[i := (TCP, Counted c)]))"
proof (rule boot_thread_step [OF assms(1-3)])
  show "thread_step sample_external TCP (Spawned c) (boot_server n tr) = Some (Ret (Counted c, boot_server (n + 1) tr))"
    using to_int_id [of "n + 1"] assms(4,5) by (simp add: thread_step_def on_listener_def boot_server_def)
qed

lemma sample_ext_ok: "ext_ok sample_external"
proof -
  have "reply_ok [CString (version sample_external @ [0])]"
    by (rule reply_ok_text) (simp add: sample_external_def FMT_BUFF_LEN_def)
  moreover have "reply_ok [StdString (devices_json sample_external)]"
    by (simp add: sample_external_def reply_ok_def command_image_def)
  ultimately show ?thesis by (simp add: ext_ok_def) (simp add: sample_external_def keeps_refl)
qed

lemma start_session_returns:
  assumes "mgr_inv ks" and "length (session_pool ks) < 2 ^ 31" and "t \<noteq> NONE" and "connection_ok c"
    and "subscribers ks ! SYSLOG_CHANNEL = []"
  shows "\<exists>sid ks'. start_session t c ks = Ret (Serving sid Starting, ks')"
proof -
  obtain sid k1 where cs: "create_session t c ks = (sid, k1)" by (cases "create_session t c ks")
  have "map_at (session_pool k1) sid = Some (Session t c sid)"
    using create_session_state(1,5) [OF assms(1,2) cs] by (simp add: at_insert keys_at)
  then have g: "get_session sid k1 = Ret (Session t c sid)" by (simp add: get_session_def)
  have "subscribers k1 ! SYSLOG_CHANNEL = []" using create_session_state(4) [OF assms(1,2) cs] assms(5) by simp
  from print_quiet [OF this, of INFO _ "trace k1"] have "\<exists>k. print INFO msg k1 = Ret k" for msg by auto
  with cs g show ?thesis by (auto simp: start_session_def bind_res_Ret_iff)
qed

lemma start_session_frame:
  assumes "start_session t c ks = Ret (th, ks')"
  shows "frame ks ks'"
proof -
  obtain sid k1 where cs: "create_session t c ks = (sid, k1)" by (cases "create_session t c ks")
  with assms obtain msg where "print INFO msg k1 = Ret ks'"
    by (auto simp: start_session_def bind_res_Ret_iff)
  with print_framed [of k1 INFO msg] have "frame k1 ks'" by (simp add: if_ret_def)
  with create_session_frame [OF cs] show ?thesis by (rule frame_trans)
qed

lemma boot_serves:
  assumes "sys_reachable sample_external (boot_system (boot_server n tr) a thr)" and "i < length thr"
    and "thr ! i = (TCP, Counted c)"
  shows "\<exists>ks sid. sys_reachable sample_external (boot_system ks a (thr[i := (TCP, Serving sid Starting)])) \<and> config ks = boot_config"
proof -
  let ?ks = "on_listener TCP (\<lambda>l. l\<lparr>opened_sessions_num := 1, total_sessions_num := 1\<rparr>) (boot_server n tr)"
  have "thread_step sample_external TCP (Counted c) (boot_server n tr) = Some (Ret (Opened c, ?ks))"
    by (simp add: thread_step_def open_stats_def int_inc_def boot_server_def the_listener_def ListeningChannel_def)
  from boot_thread_step [OF assms this] have 1: "sys_reachable sample_external (boot_system ?ks a (thr[i := (TCP, Opened c)]))" .
  have inv: "sys_inv (boot_system ?ks a (thr[i := (TCP, Opened c)]))" by (rule sys_reachable_inv [OF 1 sample_ext_ok])
  have "(TCP, Opened c) \<in> set (thr[i := (TCP, Opened c)])" using assms(2) by (rule set_update_memI)
  with inv have ok: "mgr_inv ?ks" "connection_ok c" unfolding sys_inv_def boot_system_def by auto
  obtain sid ks' where st: "start_session TCP c ?ks = Ret (Serving sid Starting, ks')"
    using start_session_returns [OF ok(1) _ _ ok(2), of TCP] by (auto simp: boot_server_def KServer_def Subscribers_def SYSLOG_CHANNEL_def channels_count_def)
  have "sys_reachable sample_external (boot_system ks' a ((thr[i := (TCP, Opened c)])[i := (TCP, Serving sid Starting)]))"
    by (rule boot_thread_step [OF 1, of i "Opened c"]) (use assms(2) st in \<open>simp_all add: thread_step_def\<close>)
  moreover have "config ks' = boot_config"
    using start_session_frame [OF st] by (simp add: frame_def boot_server_def KServer_def)
  ultimately show ?thesis by auto
qed

lemma owned_serves:
  assumes "owned thr ids" and "i < length thr" and "thr ! i = (t, Serving sid ph)"
  shows "sid \<in> set ids"
proof -
  have "serves_id (snd (thr ! i)) = Some sid" using assms(3) by simp
  with assms(1,2) show ?thesis unfolding owned_def by blast
qed

lemma owned_unique:
  assumes "owned thr ids" and "sid \<in> set ids"
  shows "\<exists>!i. i < length thr \<and> serves_id (snd (thr ! i)) = Some sid"
  using assms unfolding owned_def by blast

text \<open>After the signal nothing is broadcast, and nobody waits for a subscriber.\<close>

lemma bind_no_wait: "m \<noteq> Wait \<Longrightarrow> (\<And>x. m = Ret x \<Longrightarrow> f x \<noteq> Wait) \<Longrightarrow> bind_res m f \<noteq> Wait"
  by (cases m) simp_all

lemma print_interrupted:
  assumes "s_interrupted ks"
  obtains k where "print sev msg ks = Ret k" and "frame ks k" and "session_pool k = session_pool ks"
proof -
  let ?k = "call_syslog sev msg (print_msg sev msg ks)"
  have "s_interrupted ?k" "session_pool ?k = session_pool ks"
    using assms by (simp_all add: call_syslog_def print_msg_def put_def)
  then show thesis
    using that [of ?k] by (simp add: print_def emit_error_def emit_str_def)
qed

lemma print_no_wait: "s_interrupted ks \<Longrightarrow> print sev msg ks \<noteq> Wait"
  by (rule print_interrupted [of ks sev msg]) simp_all

lemma delete_session_no_wait:
  fixes ks :: "'a kserver"
  assumes "s_interrupted ks"
  shows "delete_session sid ks \<noteq> Wait"
proof -
  have "s_interrupted (put ev (ks\<lparr>subscribers := s\<rparr>))" for ev s using assms by (simp add: put_def)
  then have "shutdown_and_close sid fd (ks\<lparr>subscribers := s\<rparr>) \<noteq> Wait" for fd s
    unfolding shutdown_and_close_def Let_def by (intro bind_no_wait) (simp_all add: print_no_wait)
  then have sc: "bind_res (shutdown_and_close sid fd (ks\<lparr>subscribers := s\<rparr>)) (\<lambda>k. Ret (f k)) \<noteq> Wait" for fd s and f :: "'a kserver \<Rightarrow> 'a kserver"
    by (rule bind_no_wait) simp
  have "session_fd se \<noteq> Wait" for se by (simp add: session_fd_def split: SockType.split)
  then have fd: "bind_res (session_fd se) (\<lambda>fd. bind_res (shutdown_and_close sid fd (ks\<lparr>subscribers := s\<rparr>)) (\<lambda>k. Ret (f k))) \<noteq> Wait" for se s and f :: "'a kserver \<Rightarrow> 'a kserver"
    by (rule bind_no_wait) (rule sc)
  have "get_session sid k \<noteq> Wait" for k :: "'a kserver" by (simp add: get_session_def split: option.split)
  then have "bind_res (get_session sid k) (\<lambda>se. bind_res (session_fd se) (\<lambda>fd.
      bind_res (shutdown_and_close sid fd (ks\<lparr>subscribers := s\<rparr>)) (\<lambda>k. Ret (f k)))) \<noteq> Wait" for k :: "'a kserver" and s and f :: "'a kserver \<Rightarrow> 'a kserver"
    by (rule bind_no_wait) (rule fd)
  with print_no_wait [OF assms] show ?thesis
    unfolding delete_session_def Let_def by (cases "is_current_id sid ks") (simp_all only: not_True_eq_False not_False_eq_True if_True if_False simp_thms)
qed

lemma delete_sessions_no_wait: "s_interrupted ks \<Longrightarrow> delete_sessions ids ks \<noteq> Wait"
proof (induction ids arbitrary: ks)
  case (Cons sid ids)
  obtain k where k: "print INFO (lit ''Delete session '' @ fmt_u sid @ nl) ks = Ret k" "frame ks k"
    by (rule print_interrupted [OF Cons.prems])
  have "s_interrupted k" using Cons.prems k(2) by (simp add: frame_def)
  moreover have "s_interrupted k'" if "delete_session sid k = Ret k'" for k'
    using delete_session_framed [of k sid] that \<open>s_interrupted k\<close> by (simp add: if_ret_def frame_def)
  ultimately have "bind_res (delete_session sid k) (delete_sessions ids) \<noteq> Wait"
    by (intro bind_no_wait delete_session_no_wait Cons.IH)
  then show ?case using k(1) by simp
qed simp

lemma delete_all_returns:
  assumes "mgr_inv ks" and "s_interrupted ks"
  shows "\<exists>k. delete_all ks = Ret k"
proof -
  obtain k where k: "print INFO (lit ''Closing all active sessions ...'' @ nl) ks = Ret k" "frame ks k"
    by (rule print_interrupted [OF assms(2)])
  have "s_interrupted k" using assms(2) k(2) by (simp add: frame_def)
  then have "delete_all ks \<noteq> Wait" using k(1) delete_sessions_no_wait [of k] by (simp add: delete_all_def)
  then show ?thesis using delete_all_inv [OF assms(1)] by (cases "delete_all ks") simp_all
qed

lemma main_step_closes:
  assumes "mgr_inv ks" and "s_interrupted ks" and "\<not> notify_systemd (config ks)"
  shows "\<exists>k. main_step sys (Running b) ks = Ret (ClosingDown, k)"
proof -
  obtain k0 where k0: "print INFO (lit ''Koheron server ready'' @ nl) ks = Ret k0" "frame ks k0"
    by (rule print_interrupted [OF assms(2)])
  then have n: "notify_ready sys b ks = Ret (b \<or> kserver_is_ready ks, if \<not> b \<and> kserver_is_ready ks then k0 else ks)"
    using assms(3) by (simp add: notify_ready_def frame_def)
  let ?k1 = "if \<not> b \<and> kserver_is_ready ks then k0 else ks"
  have "keeps ks k0"
    using print_keeps [OF keeps_refl [OF assms(1)], of INFO "lit ''Koheron server ready'' @ nl"] k0(1) by (simp add: if_ret_def)
  then have k1: "keeps ks ?k1" using keeps_refl [OF assms(1)] by simp
  then have "s_interrupted ?k1" using assms(2) by (simp add: keeps_def frame_def)
  obtain k2 where k2: "print INFO (lit ''Interrupt received, killing Koheron server ...'' @ nl) ?k1 = Ret k2" "frame ?k1 k2"
    by (rule print_interrupted [OF \<open>s_interrupted ?k1\<close>])
  have "mgr_inv k2"
    using print_keeps [OF k1, of INFO "lit ''Interrupt received, killing Koheron server ...'' @ nl"] k2(1) by (simp add: if_ret_def keeps_def)
  moreover have "s_interrupted k2" using k2(2) \<open>s_interrupted ?k1\<close> by (simp add: frame_def)
  ultimately obtain k3 where "delete_all k2 = Ret k3" using delete_all_returns by blast
  then have "main_step sys (Running b) ks = Ret (ClosingDown, k3)"
    using n k2(1) \<open>s_interrupted ?k1\<close> by (simp add: main_step_def)
  then show ?thesis ..
qed

lemma boot_serving:
  "\<exists>ks sid. sys_reachable sample_external (boot_system ks AcLoop [(TCP, Serving sid Starting)]) \<and> config ks = boot_config"
proof -
  obtain tr where "sys_reachable sample_external (boot_system (boot_server 0 tr) AcLoop [])" using boot_reachable by blast
  from boot_spawns [OF this] obtain tr where
    "sys_reachable sample_external (boot_system (boot_server 0 tr) AcLoop [(TCP, Spawned boot_conn)])" by auto
  from boot_counts [OF this, of 0 boot_conn]
  have "sys_reachable sample_external (boot_system (boot_server 1 tr) AcLoop [(TCP, Counted boot_conn)])" by simp
  from boot_serves [OF this, of 0 boot_conn] show ?thesis by simp
qed

definition nosys :: notify_os where
  "nosys = \<lparr>notify_fd = -1, iov_allocated = False, sendmsg_ret = -1\<rparr>"

text \<open>The step that ends the main loop empties the pool, and a thread without its session is lost.\<close>

lemma main_step_closing:
  assumes "sys_inv s" and "main_step sys (main_thread s) (server s) = Ret (ClosingDown, ks)"
  shows "mgr_inv ks \<and> session_pool ks = []"
proof -
  obtain b where b: "main_thread s = Running b"
    using assms(2) by (cases "main_thread s") (auto simp: main_step_def bind_res_Ret_iff)
  have inv: "mgr_inv (server s)" using assms(1) by (simp add: sys_inv_def)
  obtain b1 k1 where n: "notify_ready sys b (server s) = Ret (b1, k1)"
    and rest: "(if s_interrupted k1 \<or> exit_all k1 then
         bind_res (print INFO (lit ''Interrupt received, killing Koheron server ...'' @ nl) k1) (\<lambda>ks.
         bind_res (delete_all ks) (\<lambda>ks. Ret (ClosingDown, ks)))
       else Ret (Running b1, k1)) = Ret (ClosingDown, ks)"
    using assms(2) b by (auto simp: main_step_def bind_res_Ret_iff)
  then obtain k2 where k2: "print INFO (lit ''Interrupt received, killing Koheron server ...'' @ nl) k1 = Ret k2" "delete_all k2 = Ret ks"
    by (auto simp: bind_res_Ret_iff split: if_splits)
  have "keeps (server s) k1" using notify_ready_keeps [OF inv, of sys b] n by simp
  from print_keeps [OF this, of INFO "lit ''Interrupt received, killing Koheron server ...'' @ nl"] k2(1)
  have "mgr_inv k2" by (simp add: if_ret_def keeps_def)
  from delete_all_effect(1,2) [OF this k2(2)] show ?thesis ..
qed

lemma print_empty_pool:
  assumes "mgr_inv ks" and "session_pool ks = []"
  obtains t where "print sev msg ks = Ret (ks\<lparr>trace := t\<rparr>)"
proof -
  have "set (subscribers ks ! SYSLOG_CHANNEL) = {}"
    using assms by (simp add: mgr_inv_def comm_inv_def subs_within_def members_def map_keys_def SYSLOG_CHANNEL_def channels_count_def)
  then have "subscribers ks ! SYSLOG_CHANNEL = []" by simp
  from print_quiet [OF this, of sev msg "trace ks"] that show thesis by auto
qed

lemma thread_step_dead:
  assumes "mgr_inv ks" and "session_pool ks = []"
  shows "thread_step ext t (Serving sid ph) ks = Some Undef"
proof -
  have dead: "this_session sid (ks\<lparr>trace := tr\<rparr>) = Undef" "this_session sid ks = Undef" for tr
    using assms(2) by (simp_all add: this_session_def map_at_def)
  obtain tr where tr: "print ERROR (lit ''An error occured during session'' @ nl) ks = Ret (ks\<lparr>trace := tr\<rparr>)"
    by (rule print_empty_pool [OF assms])
  show ?thesis
  proof (cases ph)
    case (Returned r)
    then show ?thesis using tr dead by (simp add: thread_step_def end_session_def)
  qed (simp_all add: thread_step_def run_step_def init_session_def on_session_def dead)
qed

section \<open>Properties\<close>

text \<open>C6: while the server runs, every session belongs to exactly one thread. In every state that any
  interleaving of accepting threads, session threads, the main thread and signals can reach,
  until the main thread closes the sessions, each thread that serves a session finds it in the
  pool, no two threads serve the same one, every session in the pool has its thread, and the
  thread counter of each channel is the number of its threads that have begun and not ended.\<close>

theorem threads_own_sessions:
  assumes "sys_reachable ext s" and "ext_ok ext" and "main_thread s = Running b"
  shows "(\<forall>i < length (threads s). \<forall>t sid ph. threads s ! i = (t, Serving sid ph) \<longrightarrow>
        (\<exists>se. this_session sid (server s) = Ret se \<and> session_id se = sid))
    \<and> (\<forall>sid \<in> set (get_current_ids (server s)). \<exists>!i. i < length (threads s) \<and> serves_id (snd (threads s ! i)) = Some sid)
    \<and> (\<forall>t. t \<noteq> NONE \<longrightarrow> num_threads (the_listener t (server s)) = int (count_th counted t (threads s)))"
proof -
  have inv: "sys_inv s" using sys_reachable_inv [OF assms(1,2)] .
  then have ow: "owned (threads s) (map_keys (session_pool (server s)))" and mgr: "mgr_inv (server s)"
    and counts: "counts_ok (threads s) (server s)"
    using assms(3) by (simp_all add: sys_inv_def)
  have 1: "\<forall>i < length (threads s). \<forall>t sid ph. threads s ! i = (t, Serving sid ph) \<longrightarrow>
      (\<exists>se. this_session sid (server s) = Ret se \<and> session_id se = sid)"
  proof (intro allI impI)
    fix i t sid ph assume i: "i < length (threads s)" "threads s ! i = (t, Serving sid ph)"
    have "sid \<in> set (map_keys (session_pool (server s)))" by (rule owned_serves [OF ow i])
    from this_session_keeps [OF keeps_refl [OF mgr] this] show "\<exists>se. this_session sid (server s) = Ret se \<and> session_id se = sid"
      by blast
  qed
  have 2: "\<forall>sid \<in> set (get_current_ids (server s)). \<exists>!i. i < length (threads s) \<and> serves_id (snd (threads s ! i)) = Some sid"
    using owned_unique [OF ow] by (simp add: get_current_ids_def)
  have 3: "\<forall>t. t \<noteq> NONE \<longrightarrow> num_threads (the_listener t (server s)) = int (count_th counted t (threads s))"
    using counts by (simp add: counts_ok_def)
  from 1 2 3 show ?thesis by (intro conjI)
qed

theorem threads_own_sessions_witness:
  "\<exists>s. sys_reachable sample_external s \<and> (\<exists>sid ph. threads s = [(TCP, Serving sid ph)])
    \<and> num_threads (tcp_listener (server s)) = 1
    \<and> (\<forall>i < length (threads s). \<forall>t sid ph. threads s ! i = (t, Serving sid ph) \<longrightarrow>
        (\<exists>se. this_session sid (server s) = Ret se \<and> session_id se = sid))"
proof -
  obtain ks sid where r: "sys_reachable sample_external (boot_system ks AcLoop [(TCP, Serving sid Starting)])"
    using boot_serving by blast
  let ?s = "boot_system ks AcLoop [(TCP, Serving sid Starting)]"
  have "main_thread ?s = Running False" by (simp add: boot_system_def)
  note own = threads_own_sessions [OF r sample_ext_ok this]
  have "num_threads (the_listener TCP (server ?s)) = int (count_th counted TCP (threads ?s))" using own by blast
  then have "num_threads (tcp_listener (server ?s)) = 1"
    by (simp add: the_listener_def boot_system_def count_th_def)
  moreover have "threads ?s = [(TCP, Serving sid Starting)]" by (simp add: boot_system_def)
  ultimately show ?thesis using r own by blast
qed

text \<open>C25: the limit on the connections of a channel is not enforced. The accepting thread compares
  the number of threads with \<open>worker_connections\<close>, but a thread counts itself only once it runs:
  with a limit of one, there is an execution at whose end two threads of the channel run.\<close>

theorem thread_limit_exceeded:
  "\<exists>ext. \<exists>s :: unit system. sys_reachable ext s \<and> ext_ok ext \<and> main_thread s = Running False
    \<and> tcp_worker_connections (config (server s)) = 1 \<and> num_threads (tcp_listener (server s)) = 2
    \<and> count_th counted TCP (threads s) = 2"
proof -
  obtain tr where "sys_reachable sample_external (boot_system (boot_server 0 tr) AcLoop [])" using boot_reachable by blast
  from boot_spawns [OF this] obtain tr where
    "sys_reachable sample_external (boot_system (boot_server 0 tr) AcLoop [(TCP, Spawned boot_conn)])" by auto
  from boot_spawns [OF this] obtain tr where
    "sys_reachable sample_external (boot_system (boot_server 0 tr) AcLoop [(TCP, Spawned boot_conn), (TCP, Spawned boot_conn)])" by auto
  from boot_counts [OF this, of 0 boot_conn]
  have "sys_reachable sample_external (boot_system (boot_server 1 tr) AcLoop [(TCP, Counted boot_conn), (TCP, Spawned boot_conn)])" by simp
  from boot_counts [OF this, of 1 boot_conn]
  have r: "sys_reachable sample_external (boot_system (boot_server 2 tr) AcLoop [(TCP, Counted boot_conn), (TCP, Counted boot_conn)])" by simp
  let ?s = "boot_system (boot_server 2 tr) AcLoop [(TCP, Counted boot_conn), (TCP, Counted boot_conn)]"
  have "main_thread ?s = Running False \<and> tcp_worker_connections (config (server ?s)) = 1
      \<and> num_threads (tcp_listener (server ?s)) = 2 \<and> count_th counted TCP (threads ?s) = 2"
    by (simp add: boot_system_def boot_server_def KServer_def boot_config_def count_th_def)
  with r sample_ext_ok show ?thesis by blast
qed

text \<open>C24: shutting down frees the sessions under the threads that use them. When the main thread has
  seen the signal and deleted all sessions, every thread that was serving a client has undefined
  behaviour in its next step, wherever it was: it reads its session, which the pool no longer
  holds.\<close>

theorem shutdown_use_after_free:
  assumes "sys_reachable ext s" and "ext_ok ext" and "main_step sys (main_thread s) (server s) = Ret (ClosingDown, ks)"
    and "(t, Serving sid ph) \<in> set (threads s)"
  shows "thread_step ext t (Serving sid ph) ks = Some Undef"
proof -
  have "mgr_inv ks \<and> session_pool ks = []"
    using main_step_closing [OF sys_reachable_inv [OF assms(1,2)] assms(3)] .
  then show ?thesis by (intro thread_step_dead) simp_all
qed

theorem shutdown_use_after_free_witness:
  "\<exists>s sid ks. sys_reachable sample_external s \<and> threads s = [(TCP, Serving sid Starting)]
    \<and> main_step nosys (main_thread s) (server s) = Ret (ClosingDown, ks)
    \<and> thread_step sample_external TCP (Serving sid Starting) ks = Some Undef"
proof -
  obtain k0 sid where r0: "sys_reachable sample_external (boot_system k0 AcLoop [(TCP, Serving sid Starting)])"
    and cfg: "config k0 = boot_config"
    using boot_serving by blast
  let ?s = "boot_system (k0\<lparr>s_interrupted := True\<rparr>) AcLoop [(TCP, Serving sid Starting)]"
  have r: "sys_reachable sample_external ?s"
    using sys_reachable.step [OF r0 sys_step.signal] by (simp add: boot_system_def)
  have "mgr_inv (server ?s)" using sys_reachable_inv [OF r sample_ext_ok] by (simp add: sys_inv_def)
  then obtain ks where ks: "main_step nosys (main_thread ?s) (server ?s) = Ret (ClosingDown, ks)"
    using main_step_closes [of "server ?s" nosys False] cfg
    by (auto simp: boot_system_def boot_config_def KServerConfig_def)
  have "threads ?s = [(TCP, Serving sid Starting)]" by (simp add: boot_system_def)
  with r ks shutdown_use_after_free [OF r sample_ext_ok ks, of TCP sid Starting] show ?thesis by auto
qed

end
