(* ===== verification/SignalHandler.thy ===== *)
theory SignalHandler
  imports SysLog
begin

text \<open>
  The signals of \<open>core/signal_handler.cpp\<close>: the handlers that are installed at construction, the
  flag they set, and the back trace that is logged after a crash. What \<open>sigaction\<close> returns, the
  symbols of the back trace and the demangler are parameters. The numbers of the signals are those
  of Linux.
\<close>

section \<open>Installation\<close>

datatype signal = SIGINT | SIGTERM | SIGPIPE | SIGTSTP | SIGSEGV | SIGBUS | SIGABRT

datatype disposition = SIG_DFL | SIG_IGN | Exit_handler | Crash_handler

type_synonym dispositions = "signal \<Rightarrow> disposition"

text \<open>One call of \<open>sigaction\<close> and the message of its failure.\<close>

definition install :: "(signal \<Rightarrow> int) \<Rightarrow> string \<Rightarrow> signal \<Rightarrow> disposition \<Rightarrow> dispositions \<Rightarrow> 'w kserver
    \<Rightarrow> (int \<times> dispositions \<times> 'w kserver) res" where
  "install sigaction msg s h d ks =
     (if sigaction s < 0 then bind_res (print CRITICAL (lit msg @ nl) ks) (\<lambda>ks. Ret (-1, d, ks))
      else Ret (0, d(s := h), ks))"

definition set_interrup_signals :: "(signal \<Rightarrow> int) \<Rightarrow> dispositions \<Rightarrow> 'w kserver \<Rightarrow> (int \<times> dispositions \<times> 'w kserver) res" where
  "set_interrup_signals sigaction d ks =
     bind_res (install sigaction ''Cannot set SIGINT handler'' SIGINT Exit_handler d ks) (\<lambda>(r, d, ks).
       if r < 0 then Ret (-1, d, ks)
       else install sigaction ''Cannot set SIGTERM handler'' SIGTERM Exit_handler d ks)"

definition set_ignore_signals :: "(signal \<Rightarrow> int) \<Rightarrow> dispositions \<Rightarrow> 'w kserver \<Rightarrow> (int \<times> dispositions \<times> 'w kserver) res" where
  "set_ignore_signals sigaction d ks =
     bind_res (install sigaction ''Cannot disable SIGPIPE'' SIGPIPE SIG_IGN d ks) (\<lambda>(r, d, ks).
       if r < 0 then Ret (-1, d, ks)
       else install sigaction ''Cannot disable SIGTSTP'' SIGTSTP SIG_IGN d ks)"

definition set_crash_signals :: "(signal \<Rightarrow> int) \<Rightarrow> dispositions \<Rightarrow> 'w kserver \<Rightarrow> (int \<times> dispositions \<times> 'w kserver) res" where
  "set_crash_signals sigaction d ks =
     bind_res (install sigaction ''Cannot set SIGSEGV handler'' SIGSEGV Crash_handler d ks) (\<lambda>(r, d, ks).
       if r < 0 then Ret (-1, d, ks)
       else bind_res (install sigaction ''Cannot set SIGBUS handler'' SIGBUS Crash_handler d ks) (\<lambda>(r, d, ks).
         if r < 0 then Ret (-1, d, ks)
         else install sigaction ''Cannot set SIGABRT handler'' SIGABRT Crash_handler d ks))"

definition signal_init :: "(signal \<Rightarrow> int) \<Rightarrow> dispositions \<Rightarrow> 'w kserver \<Rightarrow> (int \<times> dispositions \<times> 'w kserver) res" where
  "signal_init sigaction d ks =
     bind_res (set_interrup_signals sigaction d ks) (\<lambda>(r, d, ks).
     if r < 0 then Ret (-1, d, ks)
     else bind_res (set_ignore_signals sigaction d ks) (\<lambda>(r, d, ks).
       if r < 0 then Ret (-1, d, ks)
       else bind_res (set_crash_signals sigaction d ks) (\<lambda>(r, d, ks).
         Ret (if r < 0 then -1 else 0, d, ks))))"

section \<open>Delivery\<close>

definition exit_signal_handler :: "'w kserver \<Rightarrow> 'w kserver" where
  "exit_signal_handler ks = ks\<lparr>s_interrupted := True\<rparr>"

primrec signal_num :: "signal \<Rightarrow> int" where
  "signal_num SIGINT = 2"
| "signal_num SIGTERM = 15"
| "signal_num SIGPIPE = 13"
| "signal_num SIGTSTP = 20"
| "signal_num SIGSEGV = 11"
| "signal_num SIGBUS = 7"
| "signal_num SIGABRT = 6"

definition sig_name :: "signal \<Rightarrow> string" where
  "sig_name s = (case s of SIGBUS \<Rightarrow> ''(Bus Error)'' | SIGSEGV \<Rightarrow> ''(Segmentation Fault)'' | SIGABRT \<Rightarrow> ''(Abort)''
     | _ \<Rightarrow> ''(Unidentify signal)'')"

text \<open>The offsets of the last parenthesis and of the last plus sign before the closing parenthesis.\<close>

fun scan_frame :: "byte list \<Rightarrow> nat \<Rightarrow> nat option \<Rightarrow> nat option \<Rightarrow> nat option \<times> nat option \<times> nat option" where
  "scan_frame [] i mangled_name offset_begin = (mangled_name, offset_begin, None)"
| "scan_frame (c # cs) i mangled_name offset_begin =
     (if c = 40 then scan_frame cs (i + 1) (Some i) offset_begin
      else if c = 43 then scan_frame cs (i + 1) mangled_name (Some i)
      else if c = 41 then (mangled_name, offset_begin, Some i)
      else scan_frame cs (i + 1) mangled_name offset_begin)"

text \<open>The line of a frame: zero bytes are written over the three characters, which splits the symbol.\<close>

definition frame_line :: "(byte list \<Rightarrow> byte list option) \<Rightarrow> nat \<Rightarrow> byte list \<Rightarrow> byte list option" where
  "frame_line demangle i msg = (case scan_frame msg 0 None None of
     (Some mn, Some ob, Some oe) \<Rightarrow>
       if mn < ob then
         let arr = (msg @ [0])[mn := 0, ob := 0, oe := 0];
             str = (\<lambda>p. c_string (drop p arr));
             name = (case demangle (str (mn + 1)) of Some real_name \<Rightarrow> real_name | None \<Rightarrow> str (mn + 1))
         in Some (lit ''[bt]: ('' @ fmt_d (int i) @ lit '') '' @ str 0 @ lit '' : '' @ name @ lit ''+'' @ str (ob + 1) @ str (oe + 1) @ nl)
       else None
   | _ \<Rightarrow> None)"

fun backtrace_loop :: "(byte list \<Rightarrow> byte list option) \<Rightarrow> nat \<Rightarrow> byte list list \<Rightarrow> 'w kserver \<Rightarrow> 'w kserver res" where
  "backtrace_loop demangle i [] ks = Ret ks"
| "backtrace_loop demangle i (msg # msgs) ks =
     bind_res (case frame_line demangle i msg of None \<Rightarrow> Ret ks | Some t \<Rightarrow> print INFO t ks)
       (\<lambda>ks. backtrace_loop demangle (i + 1) msgs ks)"

definition crash_signal_handler :: "byte list list option \<Rightarrow> (byte list \<Rightarrow> byte list option) \<Rightarrow> signal \<Rightarrow> 'w kserver \<Rightarrow> 'w kserver res" where
  "crash_signal_handler messages demangle s ks =
     (if s_interrupted ks then Ret ks
      else bind_res (print PANIC (lit ''CRASH: signal '' @ fmt_d (signal_num s) @ lit '' '' @ lit (sig_name s) @ nl) ks) (\<lambda>ks.
        bind_res (case messages of
            None \<Rightarrow> print ERROR (lit ''No backtrace_symbols'') ks
          | Some msgs \<Rightarrow> backtrace_loop demangle 0 msgs ks) (\<lambda>ks. Ret (ks\<lparr>s_interrupted := True\<rparr>))))"

text \<open>What a signal does; \<^const>\<open>None\<close> is the default action, which ends or stops the process.\<close>

definition deliver_signal :: "byte list list option \<Rightarrow> (byte list \<Rightarrow> byte list option) \<Rightarrow> dispositions \<Rightarrow> signal \<Rightarrow> 'w kserver
    \<Rightarrow> 'w kserver option res" where
  "deliver_signal messages demangle d s ks = (case d s of
     SIG_DFL \<Rightarrow> Ret None
   | SIG_IGN \<Rightarrow> Ret (Some ks)
   | Exit_handler \<Rightarrow> Ret (Some (exit_signal_handler ks))
   | Crash_handler \<Rightarrow> bind_res (crash_signal_handler messages demangle s ks) (\<lambda>ks. Ret (Some ks)))"

section \<open>What the signals do to the server\<close>

text \<open>The dispositions after an installation that succeeded.\<close>

definition handlers :: dispositions where
  "handlers s = (if s \<in> {SIGINT, SIGTERM} then Exit_handler else if s \<in> {SIGPIPE, SIGTSTP} then SIG_IGN else Crash_handler)"

lemma install_ok: "install sigaction msg s h d ks = Ret (r, d', ks') \<Longrightarrow> r < 0 \<or> r = 0 \<and> 0 \<le> sigaction s \<and> d' = d(s := h) \<and> ks' = ks"
  by (auto simp: install_def bind_res_Ret_iff split: if_splits)

lemma signal_init_handlers:
  assumes "signal_init sigaction d ks = Ret (0, d', ks')"
  shows "d' = handlers \<and> ks' = ks"
proof -
  obtain r1 d1 k1 r2 d2 k2 where 1: "set_interrup_signals sigaction d ks = Ret (r1, d1, k1)" "\<not> r1 < 0"
    and 2: "set_ignore_signals sigaction d1 k1 = Ret (r2, d2, k2)" "\<not> r2 < 0"
    and 3: "\<exists>r. set_crash_signals sigaction d2 k2 = Ret (r, d', ks') \<and> \<not> r < 0"
    using assms by (auto simp: signal_init_def bind_res_Ret_iff split: if_splits)
  have "d1 = d(SIGINT := Exit_handler, SIGTERM := Exit_handler) \<and> k1 = ks"
    using 1 by (auto simp: set_interrup_signals_def bind_res_Ret_iff split: if_splits dest!: install_ok)
  moreover have "d2 = d1(SIGPIPE := SIG_IGN, SIGTSTP := SIG_IGN) \<and> k2 = k1"
    using 2 by (auto simp: set_ignore_signals_def bind_res_Ret_iff split: if_splits dest!: install_ok)
  moreover have "d' = d2(SIGSEGV := Crash_handler, SIGBUS := Crash_handler, SIGABRT := Crash_handler) \<and> ks' = k2"
    using 3 by (auto simp: set_crash_signals_def bind_res_Ret_iff split: if_splits dest!: install_ok)
  moreover have "d(SIGINT := Exit_handler, SIGTERM := Exit_handler, SIGPIPE := SIG_IGN, SIGTSTP := SIG_IGN, SIGSEGV := Crash_handler,
      SIGBUS := Crash_handler, SIGABRT := Crash_handler) = handlers"
  proof
    fix s show "(d(SIGINT := Exit_handler, SIGTERM := Exit_handler, SIGPIPE := SIG_IGN, SIGTSTP := SIG_IGN, SIGSEGV := Crash_handler,
      SIGBUS := Crash_handler, SIGABRT := Crash_handler)) s = handlers s" by (cases s) (simp_all add: handlers_def)
  qed
  ultimately show ?thesis by simp
qed

lemma backtrace_loop_safe: "comm_inv ks \<Longrightarrow> safe_res comm_inv (backtrace_loop demangle i msgs ks)"
proof (induction msgs arbitrary: i ks)
  case (Cons msg msgs)
  have "safe_res comm_inv (case frame_line demangle i msg of None \<Rightarrow> Ret ks | Some t \<Rightarrow> print INFO t ks)"
    using Cons.prems print_inv by (auto split: option.split)
  then show ?case unfolding backtrace_loop.simps by (rule safe_res_bind) (rule Cons.IH)
qed simp

lemma comm_inv_interrupt: "comm_inv ks \<Longrightarrow> comm_inv (ks\<lparr>s_interrupted := b\<rparr>)"
  by (simp add: comm_inv_def)

lemma crash_safe:
  assumes "comm_inv ks"
  shows "safe_res (\<lambda>ks'. comm_inv ks' \<and> s_interrupted ks') (crash_signal_handler messages demangle s ks)"
proof (cases "s_interrupted ks")
  case True
  with assms show ?thesis by (simp add: crash_signal_handler_def)
next
  case False
  have r: "safe_res comm_inv (case messages of None \<Rightarrow> print ERROR t k | Some msgs \<Rightarrow> backtrace_loop demangle 0 msgs k)"
    if "comm_inv k" for t k using that print_inv backtrace_loop_safe by (auto split: option.split)
  have "safe_res (\<lambda>ks'. comm_inv ks' \<and> s_interrupted ks') (bind_res (print PANIC t ks) (\<lambda>ks.
        bind_res (case messages of None \<Rightarrow> print ERROR (lit ''No backtrace_symbols'') ks | Some msgs \<Rightarrow> backtrace_loop demangle 0 msgs ks)
          (\<lambda>ks. Ret (ks\<lparr>s_interrupted := True\<rparr>))))" for t
    by (rule safe_res_bind [OF print_inv [OF assms]], rule safe_res_bind [OF r], assumption) (simp add: comm_inv_interrupt)
  with False show ?thesis by (simp add: crash_signal_handler_def)
qed



section \<open>The line of a frame\<close>

lemma scan_frame_skip:
  "40 \<notin> set xs \<Longrightarrow> 43 \<notin> set xs \<Longrightarrow> 41 \<notin> set xs \<Longrightarrow> scan_frame (xs @ ys) i mn ob = scan_frame ys (i + length xs) mn ob"
  by (induction xs arbitrary: i) simp_all

lemma scan_frame_prefix: "41 \<notin> set xs \<Longrightarrow> \<exists>mn' ob'. scan_frame (xs @ ys) i mn ob = scan_frame ys (i + length xs) mn' ob'"
proof (induction xs arbitrary: i mn ob)
  case (Cons c xs)
  from Cons.IH [of "i + 1"] Cons.prems show ?case by auto
qed auto

text \<open>The line of a symbol \<open>object(function+offset) [address]\<close> names object, function, offset and the rest.\<close>

lemma frame_line_symbol:
  assumes "41 \<notin> set obj" and "set name \<inter> {40, 41, 43} = {}" and "set off \<inter> {40, 41, 43} = {}" and "0 \<notin> set (obj @ name @ off @ rest)"
  shows "frame_line demangle i (obj @ 40 # name @ 43 # off @ 41 # rest)
    = Some (lit ''[bt]: ('' @ fmt_d (int i) @ lit '') '' @ obj @ lit '' : ''
        @ (case demangle name of Some real_name \<Rightarrow> real_name | None \<Rightarrow> name) @ lit ''+'' @ off @ rest @ nl)"
proof -
  let ?mn = "length obj" and ?ob = "length obj + 1 + length name" and ?oe = "length obj + 1 + length name + 1 + length off"
  let ?msg = "obj @ 40 # name @ 43 # off @ 41 # rest"
  obtain mn' ob' where "scan_frame ?msg 0 None None = scan_frame (40 # name @ 43 # off @ 41 # rest) ?mn mn' ob'"
    using scan_frame_prefix [OF assms(1), of "40 # name @ 43 # off @ 41 # rest" 0 None None] by auto
  moreover have "40 \<notin> set name" "41 \<notin> set name" "43 \<notin> set name" "40 \<notin> set off" "41 \<notin> set off" "43 \<notin> set off"
    using assms(2,3) by auto
  ultimately have scan: "scan_frame ?msg 0 None None = (Some ?mn, Some ?ob, Some ?oe)"
    by (simp add: scan_frame_skip)
  have arr: "(?msg @ [0])[?mn := 0, ?ob := 0, ?oe := 0] = obj @ 0 # name @ 0 # off @ 0 # rest @ [0]"
    by (simp add: list_update_append)
  have cs: "c_string (xs @ 0 # ys) = xs" if "0 \<notin> set xs" for xs ys
    using that by (induction xs) (auto simp: c_string_def)
  let ?arr = "obj @ 0 # name @ 0 # off @ 0 # rest @ [0]"
  have "drop (?ob + 1) ?arr = off @ 0 # rest @ [0]" "drop (?oe + 1) ?arr = rest @ 0 # []"
    by (simp_all add: eval_nat_numeral)
  then have str: "c_string (drop 0 ?arr) = obj" "c_string (drop (?mn + 1) ?arr) = name" "c_string (drop (?ob + 1) ?arr) = off"
    "c_string (drop (?oe + 1) ?arr) = rest"
    using assms(4) cs by simp_all
  have "?mn < ?ob" by simp
  then show ?thesis
    unfolding frame_line_def scan prod.case option.case Let_def arr str by (simp only: if_True)
qed

end
