(* ===== verification/Double.thy ===== *)
theory Double
  imports Prelude "HOL-Library.Log_Nat"
begin

text \<open>
  The arithmetic of \<open>double\<close> that \<open>core/gason.cpp\<close> uses: IEEE 754 binary64 with rounding to
  nearest, ties to even. A finite value is the rational it stands for; the sign of a zero, which
  nothing in the server observes, is left out.
\<close>

datatype double = Fin rat | Inf bool | NaN

section \<open>Rounding\<close>

text \<open>The exponent of the leading binary digit of a positive number.\<close>

definition log2_floor :: "rat \<Rightarrow> int" where
  "log2_floor x = (let (n, d) = quotient_of x; e = bitlen n - bitlen d
     in if 2 powi e \<le> x then e else e - 1)"

definition round_even :: "rat \<Rightarrow> int" where
  "round_even x = (let f = \<lfloor>x\<rfloor>; r = x - of_int f
     in if r < 1 / 2 then f else if r > 1 / 2 then f + 1 else if even f then f else f + 1)"

definition to_double :: "rat \<Rightarrow> double" where
  "to_double x = (if x = 0 then Fin 0
     else let q = max (log2_floor \<bar>x\<bar> - 52) (-1074);
              y = of_int (round_even (\<bar>x\<bar> / 2 powi q)) * 2 powi q
          in if y \<ge> 2 ^ 1024 then Inf (x < 0) else Fin (sgn x * y))"

fun d_neg :: "double \<Rightarrow> double" where
  "d_neg (Fin a) = Fin (- a)"
| "d_neg (Inf s) = Inf (\<not> s)"
| "d_neg NaN = NaN"

fun d_add :: "double \<Rightarrow> double \<Rightarrow> double" where
  "d_add (Fin a) (Fin b) = to_double (a + b)"
| "d_add NaN b = NaN"
| "d_add a NaN = NaN"
| "d_add (Inf s) (Inf t) = (if s = t then Inf s else NaN)"
| "d_add (Inf s) (Fin b) = Inf s"
| "d_add (Fin a) (Inf t) = Inf t"

fun d_mult :: "double \<Rightarrow> double \<Rightarrow> double" where
  "d_mult (Fin a) (Fin b) = to_double (a * b)"
| "d_mult NaN b = NaN"
| "d_mult a NaN = NaN"
| "d_mult (Inf s) (Inf t) = Inf (s \<noteq> t)"
| "d_mult (Inf s) (Fin b) = (if b = 0 then NaN else Inf (s \<noteq> (b < 0)))"
| "d_mult (Fin a) (Inf t) = (if a = 0 then NaN else Inf (t \<noteq> (a < 0)))"

text \<open>
  The conversion to \<open>unsigned int\<close> drops the fraction; a value out of range is undefined
  behaviour.
\<close>

definition d_to_u32 :: "double \<Rightarrow> u32 option" where
  "d_to_u32 x = (case x of
     Fin a \<Rightarrow> if -1 < a \<and> a < 2 ^ 32 then Some (word_of_int (if a < 0 then 0 else \<lfloor>a\<rfloor>)) else None
   | _ \<Rightarrow> None)"

section \<open>Integers are exact\<close>

lemma floorlog_2_bounds: "0 < n \<Longrightarrow> 2 ^ (floorlog 2 n - 1) \<le> n \<and> n < 2 ^ floorlog 2 n"
  using floorlog_bounds [of n 2] by simp

lemma log2_floor_le:
  assumes "0 < x"
  shows "2 powi log2_floor x \<le> x"
proof -
  obtain n d where q: "quotient_of x = (n, d)" by fastforce
  have d: "0 < d" using quotient_of_denom_pos [OF q] .
  have x: "x = of_int n / of_int d" using quotient_of_div [OF q] .
  with assms d have n: "0 < n" by (simp add: zero_less_divide_iff)
  let ?a = "floorlog 2 (nat n)" and ?b = "floorlog 2 (nat d)"
  have pos: "0 < ?a" using n floorlog_eq_zero_iff [of 2 "nat n"] by linarith
  have "2 ^ (?a - 1) \<le> nat n" and "nat d < 2 ^ ?b"
    using floorlog_2_bounds [of "nat n"] floorlog_2_bounds [of "nat d"] n d by linarith+
  then have "int (2 ^ (?a - 1)) \<le> int (nat n)" and "int (nat d) < int (2 ^ ?b)"
    unfolding of_nat_le_iff of_nat_less_iff by simp_all
  then have nd: "(2::int) ^ (?a - 1) \<le> n" "d < 2 ^ ?b" using n d by simp_all
  have "(2::rat) ^ (?a - 1) \<le> of_int n" "of_int d < (2::rat) ^ ?b"
    using nd(1) [THEN of_int_le_iff [where 'a = rat, THEN iffD2]] nd(2) [THEN of_int_less_iff [where 'a = rat, THEN iffD2]] by simp_all
  then have "(2::rat) ^ (?a - 1) * of_int d \<le> of_int n * 2 ^ ?b"
    by (intro mult_mono) (use d n in simp_all)
  moreover have "(2::rat) powi (int ?a - int ?b - 1) = 2 ^ (?a - 1) / 2 ^ ?b"
  proof -
    have e: "int ?a - int ?b - 1 = int (?a - 1) - int ?b" using pos by simp
    show ?thesis unfolding e by (simp add: power_int_diff)
  qed
  moreover have "(2::rat) ^ (?a - 1) / 2 ^ ?b \<le> of_int n / of_int d \<longleftrightarrow> (2::rat) ^ (?a - 1) * of_int d \<le> of_int n * 2 ^ ?b"
    using d by (simp add: divide_le_eq le_divide_eq mult.commute)
  ultimately have "2 powi (int ?a - int ?b - 1) \<le> x"
    unfolding x by simp
  then show ?thesis by (simp add: log2_floor_def bitlen_def q Let_def)
qed

text \<open>The exponent is the only one.\<close>

lemma log2_floor_less:
  assumes "0 < x"
  shows "x < 2 powi (log2_floor x + 1)"
proof -
  obtain n d where q: "quotient_of x = (n, d)" by fastforce
  have d: "0 < d" using quotient_of_denom_pos [OF q] .
  have x: "x = of_int n / of_int d" using quotient_of_div [OF q] .
  with assms d have n: "0 < n" by (simp add: zero_less_divide_iff)
  let ?a = "floorlog 2 (nat n)" and ?b = "floorlog 2 (nat d)"
  have pos: "0 < ?b" using d floorlog_eq_zero_iff [of 2 "nat d"] by linarith
  have "nat n < 2 ^ ?a" and "2 ^ (?b - 1) \<le> nat d"
    using floorlog_2_bounds [of "nat n"] floorlog_2_bounds [of "nat d"] n d by linarith+
  then have "int (nat n) < int (2 ^ ?a)" and "int (2 ^ (?b - 1)) \<le> int (nat d)"
    unfolding of_nat_le_iff of_nat_less_iff by simp_all
  then have nd: "n < (2::int) ^ ?a" "2 ^ (?b - 1) \<le> d" using n d by simp_all
  have "of_int n < (2::rat) ^ ?a" "(2::rat) ^ (?b - 1) \<le> of_int d"
    using nd(2) [THEN of_int_le_iff [where 'a = rat, THEN iffD2]] nd(1) [THEN of_int_less_iff [where 'a = rat, THEN iffD2]] by simp_all
  then have "of_int n * (2::rat) ^ (?b - 1) < 2 ^ ?a * of_int d"
    by (intro mult_less_le_imp_less) (use d n in simp_all)
  moreover have "(2::rat) powi (int ?a - int ?b + 1) = 2 ^ ?a / 2 ^ (?b - 1)"
  proof -
    have e: "int ?a - int ?b + 1 = int ?a - int (?b - 1)" using pos by simp
    show ?thesis unfolding e by (simp add: power_int_diff)
  qed
  ultimately have "x < 2 powi (int ?a - int ?b + 1)"
    using d unfolding x by (simp add: divide_less_eq less_divide_eq mult.commute)
  then show ?thesis by (simp add: log2_floor_def bitlen_def q Let_def)
qed

lemma log2_floor_eq: "2 powi e \<le> x \<Longrightarrow> x < 2 powi (e + 1) \<Longrightarrow> log2_floor x = e"
proof -
  assume e: "2 powi e \<le> x" "x < 2 powi (e + 1)"
  have "(0::rat) < 2 powi e" by simp
  then have "0 < x" using e(1) by linarith
  note l = log2_floor_le [OF this] log2_floor_less [OF this]
  have "(2::rat) powi log2_floor x < 2 powi (e + 1)" "(2::rat) powi e < 2 powi (log2_floor x + 1)"
    using l e by linarith+
  then have "log2_floor x < e + 1" "e < log2_floor x + 1"
    using power_int_increasing [of "e + 1" "log2_floor x" "2 :: rat"] power_int_increasing [of "log2_floor x + 1" e "2 :: rat"] by (auto simp: not_le [symmetric])
  then show ?thesis by simp
qed

lemma round_even_int [simp]: "round_even (of_int n) = n"
  by (simp add: round_even_def)

lemma to_double_int:
  assumes "\<bar>n\<bar> < 2 ^ 53"
  shows "to_double (of_int n) = Fin (of_int n)"
proof (cases "n = 0")
  case False
  let ?x = "of_int \<bar>n\<bar> :: rat"
  let ?q = "max (log2_floor ?x - 52) (-1074)"
  have "(2::rat) powi log2_floor ?x \<le> ?x" using log2_floor_le [of ?x] False by simp
  also have "?x < 2 ^ 53" using assms [THEN of_int_less_iff [where 'a = rat, THEN iffD2]] by simp
  also have "(2::rat) ^ 53 = 2 powi 53" by simp
  finally have "log2_floor ?x < 53" using power_int_le_imp_less_exp [of "2 :: rat" "log2_floor ?x" 53] by simp
  then have q: "?q \<le> 0" by simp
  define k where "k = nat (- ?q)"
  have k: "?q = - int k" using q by (simp add: k_def)
  have "?x / 2 powi ?q = of_int (\<bar>n\<bar> * 2 ^ k)" unfolding k by (simp add: power_int_minus field_simps)
  then have "of_int (round_even (?x / 2 powi ?q)) * (2::rat) powi ?q = of_int (\<bar>n\<bar> * 2 ^ k) * 2 powi ?q"
    by (simp only: round_even_int)
  also have "\<dots> = ?x" unfolding k by (simp add: power_int_minus)
  finally have y: "of_int (round_even (?x / 2 powi ?q)) * (2::rat) powi ?q = ?x" .
  have "?x < 2 ^ 1024"
  proof -
    have "?x < 2 ^ 53" by fact
    also have "(2::rat) ^ 53 \<le> 2 ^ 1024" by (rule power_increasing) simp_all
    finally show ?thesis .
  qed
  moreover have "sgn (of_int n) * ?x = (of_int n :: rat)" by (simp add: sgn_mult_abs)
  ultimately show ?thesis using False y by (simp add: to_double_def Let_def)
qed (simp add: to_double_def)

lemma d_add_int: "\<bar>a + b\<bar> < 2 ^ 53 \<Longrightarrow> d_add (Fin (of_int a)) (Fin (of_int b)) = Fin (of_int (a + b))"
  using to_double_int [of "a + b"] by simp

lemma d_mult_int: "\<bar>a * b\<bar> < 2 ^ 53 \<Longrightarrow> d_mult (Fin (of_int a)) (Fin (of_int b)) = Fin (of_int (a * b))"
  using to_double_int [of "a * b"] by simp

lemma d_to_u32_int: "0 \<le> a \<Longrightarrow> a < 2 ^ 32 \<Longrightarrow> d_to_u32 (Fin (of_int a)) = Some (word_of_int a)"
proof -
  assume "0 \<le> a" "a < 2 ^ 32"
  then have "(of_int a :: rat) < 2 ^ 32" using of_int_less_iff [of a "2 ^ 32", where 'a = rat] by simp
  then show ?thesis using \<open>0 \<le> a\<close> by (simp add: d_to_u32_def)
qed

end
