(* ===== verification/JsonToken.thy ===== *)
theory JsonToken
  imports Double Config "HOL-Library.Sublist"
begin

text \<open>
  The tokens of \<open>core/gason.cpp\<close>: numbers, strings that are decoded in place, white space,
  comments and identifiers. The source is a bounds-checked memory and \<^const>\<open>None\<close> is undefined
  behaviour; pointers into it are offsets. Every reader is shown equal to a function on the bytes
  that are left, which has no pointers and writes nothing.
\<close>

section \<open>Characters\<close>

definition isspace :: "byte \<Rightarrow> bool" where
  "isspace c \<longleftrightarrow> c = 32 \<or> (9 \<le> c \<and> c \<le> 13)"

definition isdelim :: "byte \<Rightarrow> bool" where
  "isdelim c \<longleftrightarrow> c = 44 \<or> c = 58 \<or> c = 93 \<or> c = 125 \<or> isspace c \<or> c = 0"

definition json_isdigit :: "byte \<Rightarrow> bool" where
  "json_isdigit c \<longleftrightarrow> 48 \<le> c \<and> c \<le> 57"

definition isxdigit :: "byte \<Rightarrow> bool" where
  "isxdigit c \<longleftrightarrow> (48 \<le> c \<and> c \<le> 57) \<or> (65 \<le> (c AND NOT 32) \<and> (c AND NOT 32) \<le> 70)"

definition char2int :: "byte \<Rightarrow> int" where
  "char2int c = (if c \<le> 57 then uint c - 48 else uint (c AND NOT 32) - 65 + 10)"

definition digit_value :: "byte \<Rightarrow> double" where
  "digit_value c = Fin (of_int (uint c - 48))"

section \<open>Numbers\<close>

function int_digits :: "byte list \<Rightarrow> nat \<Rightarrow> double \<Rightarrow> (double \<times> nat) option" where
  "int_digits m s result = do {
     c \<leftarrow> peek m s;
     if json_isdigit c then int_digits m (s + 1) (d_add (d_mult result (Fin 10)) (digit_value c))
     else Some (result, s)
   }"
  by pat_completeness auto
termination by (relation "measure (\<lambda>(m, s, result). length m - s)") (auto simp: peek_def split: if_splits)

function frac_digits :: "byte list \<Rightarrow> nat \<Rightarrow> double \<Rightarrow> double \<Rightarrow> (double \<times> nat) option" where
  "frac_digits m s fraction result = do {
     c \<leftarrow> peek m s;
     if json_isdigit c then
       let fraction = d_mult fraction (to_double (1 / 10))
       in frac_digits m (s + 1) fraction (d_add result (d_mult (digit_value c) fraction))
     else Some (result, s)
   }"
  by pat_completeness auto
termination by (relation "measure (\<lambda>(m, s, _). length m - s)") (auto simp: peek_def split: if_splits)

text \<open>The exponent is an \<open>unsigned int\<close>.\<close>

function exp_digits :: "byte list \<Rightarrow> nat \<Rightarrow> u32 \<Rightarrow> (u32 \<times> nat) option" where
  "exp_digits m s exponent = do {
     c \<leftarrow> peek m s;
     if json_isdigit c then exp_digits m (s + 1) (exponent * 10 + (ucast c - 48)) else Some (exponent, s)
   }"
  by pat_completeness auto
termination by (relation "measure (\<lambda>(m, s, _). length m - s)") (auto simp: peek_def split: if_splits)

declare int_digits.simps [simp del] frac_digits.simps [simp del] exp_digits.simps [simp del]

function power_loop :: "u32 \<Rightarrow> double \<Rightarrow> double \<Rightarrow> double" where
  "power_loop exponent base pw =
     (if exponent = 0 then pw
      else power_loop (drop_bit 1 exponent) (d_mult base base)
        (if exponent AND 1 \<noteq> 0 then d_mult pw base else pw))"
  by pat_completeness auto
termination
proof (relation "measure (\<lambda>(e, _). unat e)")
  fix e :: u32 and base pw :: double
  assume "e \<noteq> 0"
  then have "0 < unat e" by (simp add: unat_gt_0)
  then show "((drop_bit 1 e, d_mult base base, if e AND 1 \<noteq> 0 then d_mult pw base else pw), e, base, pw)
      \<in> measure (\<lambda>(e, _). unat e)"
    by (simp add: unat_drop_bit_eq drop_bit_nat_def)
qed simp

declare power_loop.simps [simp del]

definition fraction_part :: "byte list \<Rightarrow> nat \<Rightarrow> double \<Rightarrow> (double \<times> nat) option" where
  "fraction_part m s result = do {
     c \<leftarrow> peek m s;
     if c = 46 then frac_digits m (s + 1) (Fin 1) result else Some (result, s)
   }"

definition exponent_part :: "byte list \<Rightarrow> nat \<Rightarrow> double \<Rightarrow> (double \<times> nat) option" where
  "exponent_part m s result = do {
     c \<leftarrow> peek m s;
     if c = 101 \<or> c = 69 then do {
       c \<leftarrow> peek m (s + 1);
       let (base, s) = (if c = 43 then (Fin 10, s + 2) else if c = 45 then (to_double (1 / 10), s + 2) else (Fin 10, s + 1));
       (exponent, s) \<leftarrow> exp_digits m s 0;
       Some (d_mult result (power_loop exponent base (Fin 1)), s)
     }
     else Some (result, s)
   }"

definition string2double :: "byte list \<Rightarrow> nat \<Rightarrow> (double \<times> nat) option" where
  "string2double m s = do {
     ch \<leftarrow> peek m s;
     (result, s) \<leftarrow> int_digits m (if ch = 45 then s + 1 else s) (Fin 0);
     (result, s) \<leftarrow> fraction_part m s result;
     (result, s) \<leftarrow> exponent_part m s result;
     Some (if ch = 45 then d_neg result else result, s)
   }"

section \<open>Strings\<close>

text \<open>A string is bad at an offset, or decoded up to the offsets of writer and reader.\<close>

datatype 'a parsed = Bad nat | Good 'a

fun read_hex :: "nat \<Rightarrow> byte list \<Rightarrow> nat \<Rightarrow> int \<Rightarrow> int parsed option" where
  "read_hex 0 m s c = Some (Good c)"
| "read_hex (Suc n) m s c = do {
     d \<leftarrow> peek m s;
     if isxdigit d then read_hex n m (s + 1) (c * 16 + char2int d) else Some (Bad s)
   }"

text \<open>The UTF-8 bytes of a code point below \<open>0x10000\<close>.\<close>

definition utf8 :: "int \<Rightarrow> byte list" where
  "utf8 c = (if c < 0x80 then [word_of_int c]
     else if c < 0x800 then [word_of_int (0xC0 OR drop_bit 6 c), word_of_int (0x80 OR (c AND 0x3F))]
     else [word_of_int (0xE0 OR drop_bit 12 c), word_of_int (0x80 OR (drop_bit 6 c AND 0x3F)),
           word_of_int (0x80 OR (c AND 0x3F))])"

definition simple_escape :: "byte \<Rightarrow> byte option" where
  "simple_escape c = (if c = 92 \<or> c = 34 \<or> c = 47 then Some c
     else if c = 98 then Some 8 else if c = 102 then Some 12 else if c = 110 then Some 10
     else if c = 114 then Some 13 else if c = 116 then Some 9 else None)"

text \<open>An escape sequence whose backslash is at \<open>s\<close>, written at \<open>it\<close>.\<close>

definition unescape :: "byte list \<Rightarrow> nat \<Rightarrow> nat \<Rightarrow> (byte list \<times> (nat \<times> nat) parsed) option" where
  "unescape m it s = do {
     c \<leftarrow> peek m (s + 1);
     case simple_escape c of
       Some e \<Rightarrow> do {
         m \<leftarrow> poke m it e;
         Some (m, Good (it + 1, s + 2))
       }
     | None \<Rightarrow>
         if c = 117 then do {
           r \<leftarrow> read_hex 4 m (s + 2) 0;
           case r of
             Bad e \<Rightarrow> Some (m, Bad e)
           | Good u \<Rightarrow> do {
               m \<leftarrow> pokes m it (utf8 u);
               Some (m, Good (it + length (utf8 u), s + 6))
             }
         }
         else Some (m, Bad (s + 1))
   }"

lemma poke_length: "poke m i v = Some m' \<Longrightarrow> length m' = length m"
  by (auto simp: poke_def split: if_splits)

lemma unescape_effect:
  assumes "unescape m it s = Some (m', r)"
  shows "length m' = length m \<and> (\<forall>it' s'. r = Good (it', s') \<longrightarrow> s < s')"
proof -
  obtain c where c: "peek m (s + 1) = Some c" using assms by (auto simp: unescape_def bind_eq_Some_conv)
  consider e where "simple_escape c = Some e" | "simple_escape c = None" by (cases "simple_escape c") auto
  then show ?thesis
  proof cases
    case 1
    with assms c show ?thesis by (auto simp: unescape_def bind_eq_Some_conv dest: poke_length)
  next
    case 2
    show ?thesis
    proof (cases "read_hex 4 m (s + 2) 0")
      case None
      with 2 assms c show ?thesis by (auto simp: unescape_def split: if_splits)
    next
      case (Some h)
      with 2 assms c show ?thesis
        by (cases h) (auto simp: unescape_def bind_eq_Some_conv dest: pokes_SomeD split: if_splits)
    qed
  qed
qed

function decode_string :: "byte list \<Rightarrow> nat \<Rightarrow> nat \<Rightarrow> (byte list \<times> nat parsed) option" where
  "decode_string m it s = do {
     c \<leftarrow> peek m s;
     if c = 0 then Some (m, Good s)
     else do {
       m \<leftarrow> poke m it c;
       if c = 92 then do {
         (m, r) \<leftarrow> unescape m it s;
         case r of Bad e \<Rightarrow> Some (m, Bad e) | Good (it, s) \<Rightarrow> decode_string m it s
       }
       else if c < 32 \<or> c = 127 then Some (m, Bad s)
       else if c = 34 then do {
         m \<leftarrow> poke m it 0;
         Some (m, Good (s + 1))
       }
       else decode_string m (it + 1) (s + 1)
     }
   }"
  by pat_completeness auto
termination
  by (relation "measure (\<lambda>(m, it, s). length m - s)")
    (auto simp: peek_def bind_eq_Some_conv dest!: poke_length unescape_effect split: if_splits)

declare decode_string.simps [simp del]

section \<open>White space, comments, identifiers\<close>

function skip_space :: "byte list \<Rightarrow> nat \<Rightarrow> nat option" where
  "skip_space m s = do {
     c \<leftarrow> peek m s;
     if isspace c then do {
       c \<leftarrow> peek m (s + 1);
       if c = 0 then Some (s + 1) else skip_space m (s + 1)
     }
     else Some s
   }"
  by pat_completeness auto
termination by (relation "measure (\<lambda>(m, s). length m - s)") (auto simp: peek_def split: if_splits)

text \<open>A comment ends at the next end of line after its second character.\<close>

function skip_comment :: "byte list \<Rightarrow> nat \<Rightarrow> nat option" where
  "skip_comment m s = do {
     c \<leftarrow> peek m (s + 1);
     if c = 10 then Some (s + 1) else skip_comment m (s + 1)
   }"
  by pat_completeness auto
termination by (relation "measure (\<lambda>(m, s). length m - s)") (auto simp: peek_def split: if_splits)

declare skip_space.simps [simp del] skip_comment.simps [simp del]

text \<open>The characters of an identifier are compared up to the first that differs.\<close>

fun json_ident :: "byte list \<Rightarrow> nat \<Rightarrow> byte list \<Rightarrow> bool option" where
  "json_ident m s [] = do { c \<leftarrow> peek m s; Some (isdelim c) }"
| "json_ident m s (x # xs) = do { c \<leftarrow> peek m s; if c = x then json_ident m (s + 1) xs else Some False }"

section \<open>The same on the bytes that are left\<close>

fun s_int :: "byte list \<Rightarrow> double \<Rightarrow> (double \<times> byte list) option" where
  "s_int [] r = None"
| "s_int (c # xs) r = (if json_isdigit c then s_int xs (d_add (d_mult r (Fin 10)) (digit_value c)) else Some (r, c # xs))"

fun s_frac :: "byte list \<Rightarrow> double \<Rightarrow> double \<Rightarrow> (double \<times> byte list) option" where
  "s_frac [] f r = None"
| "s_frac (c # xs) f r =
     (if json_isdigit c then
        let f = d_mult f (to_double (1 / 10)) in s_frac xs f (d_add r (d_mult (digit_value c) f))
      else Some (r, c # xs))"

fun s_exp :: "byte list \<Rightarrow> u32 \<Rightarrow> (u32 \<times> byte list) option" where
  "s_exp [] e = None"
| "s_exp (c # xs) e = (if json_isdigit c then s_exp xs (e * 10 + (ucast c - 48)) else Some (e, c # xs))"

fun s_fraction :: "byte list \<Rightarrow> double \<Rightarrow> (double \<times> byte list) option" where
  "s_fraction [] r = None"
| "s_fraction (c # xs) r = (if c = 46 then s_frac xs (Fin 1) r else Some (r, c # xs))"

fun s_exponent :: "byte list \<Rightarrow> double \<Rightarrow> (double \<times> byte list) option" where
  "s_exponent [] r = None"
| "s_exponent (c # xs) r =
     (if c = 101 \<or> c = 69 then
        (case xs of
           [] \<Rightarrow> None
         | d # ys \<Rightarrow> do {
             let (base, zs) = (if d = 43 then (Fin 10, ys) else if d = 45 then (to_double (1 / 10), ys) else (Fin 10, xs));
             (e, zs) \<leftarrow> s_exp zs 0;
             Some (d_mult r (power_loop e base (Fin 1)), zs)
           })
      else Some (r, c # xs))"

fun s_number :: "byte list \<Rightarrow> (double \<times> byte list) option" where
  "s_number [] = None"
| "s_number (c # xs) = do {
     (r, ys) \<leftarrow> s_int (if c = 45 then xs else c # xs) (Fin 0);
     (r, ys) \<leftarrow> s_fraction ys r;
     (r, ys) \<leftarrow> s_exponent ys r;
     Some (if c = 45 then d_neg r else r, ys)
   }"

fun s_space :: "byte list \<Rightarrow> byte list option" where
  "s_space [] = None"
| "s_space (c # xs) = (if isspace c then (case xs of [] \<Rightarrow> None | d # ys \<Rightarrow> if d = 0 then Some xs else s_space xs)
     else Some (c # xs))"

fun s_line :: "byte list \<Rightarrow> byte list option" where
  "s_line [] = None"
| "s_line (c # xs) = (if c = 10 then Some (c # xs) else s_line xs)"

definition s_comment :: "byte list \<Rightarrow> byte list option" where
  "s_comment xs = (case xs of [] \<Rightarrow> None | c # ys \<Rightarrow> s_line ys)"

fun s_ident :: "byte list \<Rightarrow> byte list \<Rightarrow> bool option" where
  "s_ident [] ys = None"
| "s_ident (c # xs) [] = Some (isdelim c)"
| "s_ident (c # xs) (y # ys) = (if c = y then s_ident xs ys else Some False)"

text \<open>Results that point into the source, from results that carry what is left of it.\<close>

definition at_rest :: "byte list \<Rightarrow> ('a \<times> byte list) option \<Rightarrow> ('a \<times> nat) option" where
  "at_rest m = map_option (\<lambda>(x, xs). (x, length m - length xs))"

definition at_rest1 :: "byte list \<Rightarrow> byte list option \<Rightarrow> nat option" where
  "at_rest1 m = map_option (\<lambda>xs. length m - length xs)"

lemma at_rest_simps [simp]:
  "at_rest m None = None" "at_rest m (Some (x, xs)) = Some (x, length m - length xs)"
  "at_rest1 m None = None" "at_rest1 m (Some xs) = Some (length m - length xs)"
  by (simp_all add: at_rest_def at_rest1_def)

lemma peek_Nil: "drop s m = [] \<Longrightarrow> peek m s = None"
  by (simp add: peek_def)

lemma peek_Cons:
  assumes "drop s m = c # xs"
  shows "peek m s = Some c" "drop (Suc s) m = xs" "length m - length xs = Suc s" "s < length m"
proof -
  have s: "s < length m" using assms by (metis drop_eq_Nil leI list.discI)
  have d: "drop s m = m ! s # drop (Suc s) m" using Cons_nth_drop_Suc [OF s] by simp
  show "peek m s = Some c" "drop (Suc s) m = xs" "s < length m" using s d assms by (simp_all add: peek_def)
  then show "length m - length xs = Suc s" using s by (metis diff_diff_cancel Suc_leI length_drop)
qed

lemma rest_position:
  fixes m :: "byte list"
  assumes "drop s m = c # xs"
  shows "length m - length (c # xs) = s" "length m - Suc (length xs) = s"
  using peek_Cons(4) [OF assms] assms [symmetric] by (auto dest: arg_cong [of _ _ length])

lemmas peek_drop = peek_Nil peek_Cons(1,2) rest_position

lemma int_digits_at: "drop s m = xs \<Longrightarrow> int_digits m s r = at_rest m (s_int xs r)"
  by (induction xs arbitrary: s r) (subst int_digits.simps, simp add: peek_drop)+

lemma frac_digits_at: "drop s m = xs \<Longrightarrow> frac_digits m s f r = at_rest m (s_frac xs f r)"
  by (induction xs arbitrary: s f r) (subst frac_digits.simps, simp add: peek_drop Let_def)+

lemma exp_digits_at: "drop s m = xs \<Longrightarrow> exp_digits m s e = at_rest m (s_exp xs e)"
  by (induction xs arbitrary: s e) (subst exp_digits.simps, simp add: peek_drop)+

lemma skip_space_at: "drop s m = xs \<Longrightarrow> skip_space m s = at_rest1 m (s_space xs)"
proof (induction xs arbitrary: s)
  case (Cons c xs)
  note p = peek_Cons [OF Cons.prems] rest_position [OF Cons.prems]
  show ?case
  proof (cases xs)
    case Nil
    with p show ?thesis by (subst skip_space.simps) (simp add: peek_Nil)
  next
    case (Cons d ys)
    with p(2) have d: "drop (Suc s) m = d # ys" by simp
    with p Cons Cons.IH [of "Suc s"] rest_position [OF d] peek_Cons [OF d] show ?thesis by (subst skip_space.simps) simp
  qed
qed (subst skip_space.simps, simp add: peek_Nil)

lemma skip_line_at: "drop (Suc s) m = xs \<Longrightarrow> skip_comment m s = at_rest1 m (s_line xs)"
  by (induction xs arbitrary: s) (subst skip_comment.simps, simp add: peek_drop)+

lemma skip_comment_at: "drop s m = xs \<Longrightarrow> skip_comment m s = at_rest1 m (s_comment xs)"
proof (cases xs)
  case Nil
  assume "drop s m = xs"
  with Nil have "drop (Suc s) m = []" by simp
  from skip_line_at [OF this] Nil show ?thesis by (simp add: s_comment_def)
next
  case (Cons c ys)
  assume "drop s m = xs"
  with Cons skip_line_at peek_Cons(2) show ?thesis by (simp add: s_comment_def)
qed

lemma json_ident_at: "drop s m = xs \<Longrightarrow> json_ident m s ys = s_ident xs ys"
  by (induction xs ys arbitrary: s rule: s_ident.induct) (simp_all add: peek_drop, (case_tac ys; simp add: peek_Nil))

section \<open>What is left is the end of the source\<close>

lemma suffix_position: "suffix ys m \<Longrightarrow> drop (length m - length ys) m = ys"
  by (auto simp: suffix_def)

lemma suffix_of_drop: "drop s m = xs \<Longrightarrow> suffix ys xs \<Longrightarrow> suffix ys m"
  using suffix_drop suffix_order.trans by blast

named_theorems left_over \<open>a reader leaves the end of what it was given\<close>

lemma s_int_left [left_over]: "s_int xs r = Some (x, ys) \<Longrightarrow> suffix ys xs"
  by (induction xs arbitrary: r) (auto intro: suffix_ConsI split: if_splits)

lemma s_frac_left [left_over]: "s_frac xs f r = Some (x, ys) \<Longrightarrow> suffix ys xs"
  by (induction xs arbitrary: f r) (auto intro: suffix_ConsI simp: Let_def split: if_splits)

lemma s_exp_left [left_over]: "s_exp xs e = Some (x, ys) \<Longrightarrow> suffix ys xs"
  by (induction xs arbitrary: e) (auto intro: suffix_ConsI split: if_splits)

lemma s_fraction_left [left_over]: "s_fraction xs r = Some (x, ys) \<Longrightarrow> suffix ys xs"
  by (cases xs) (auto intro: suffix_ConsI dest: left_over split: if_splits)

lemma s_exponent_left [left_over]:
  assumes "s_exponent xs r = Some (x, ys)"
  shows "suffix ys xs"
proof (cases xs)
  case (Cons c zs)
  show ?thesis
  proof (cases "c = 101 \<or> c = 69")
    case True
    with Cons assms obtain d ws where d: "zs = d # ws" by (cases zs) auto
    let ?us = "if d = 43 \<or> d = 45 then ws else zs"
    have "\<exists>e. s_exp ?us 0 = Some (e, ys)"
      using assms Cons d True by (auto simp: bind_eq_Some_conv Let_def simp del: s_exp.simps split: if_split_asm)
    then obtain e where "s_exp ?us 0 = Some (e, ys)" ..
    from s_exp_left [OF this] d have "suffix ys zs" by (auto intro: suffix_ConsI split: if_splits)
    with Cons show ?thesis by (auto intro: suffix_ConsI)
  next
    case False
    with Cons assms show ?thesis by simp
  qed
qed (use assms in simp)

lemma s_space_left [left_over]: "s_space xs = Some ys \<Longrightarrow> suffix ys xs \<and> ys \<noteq> []"
proof (induction xs)
  case (Cons c xs)
  show ?case
  proof (cases "isspace c")
    case True
    with Cons.prems obtain d zs where xs: "xs = d # zs" by (cases xs) auto
    show ?thesis
    proof (cases "d = 0")
      case True
      with \<open>isspace c\<close> Cons.prems xs have "ys = xs" by simp
      with xs show ?thesis by (simp add: suffix_ConsI)
    next
      case False
      with \<open>isspace c\<close> Cons.prems xs have "s_space xs = Some ys" by simp
      from Cons.IH [OF this] show ?thesis by (simp add: suffix_ConsI)
    qed
  next
    case False
    with Cons.prems show ?thesis by auto
  qed
qed simp

lemma s_line_left [left_over]: "s_line xs = Some ys \<Longrightarrow> suffix ys xs"
  by (induction xs) (auto intro: suffix_ConsI split: if_splits)

lemma s_comment_left [left_over]: "s_comment xs = Some ys \<Longrightarrow> suffix ys xs \<and> length ys < length xs"
proof (cases xs)
  case (Cons c zs)
  assume "s_comment xs = Some ys"
  with Cons have "s_line zs = Some ys" by (simp add: s_comment_def)
  from s_line_left [OF this] have "suffix ys zs" .
  then show ?thesis using Cons suffix_length_le by (fastforce intro: suffix_ConsI)
qed (simp add: s_comment_def)

lemma s_number_left [left_over]:
  assumes "s_number xs = Some (x, ys)"
  shows "suffix ys xs"
proof (cases xs)
  case (Cons c zs)
  with assms obtain r1 y1 r2 y2 r3 where 1: "s_int (if c = 45 then zs else c # zs) (Fin 0) = Some (r1, y1)"
    and 2: "s_fraction y1 r1 = Some (r2, y2)" and 3: "s_exponent y2 r2 = Some (r3, ys)"
    by (auto simp: bind_eq_Some_conv)
  have "suffix ys y1" using s_fraction_left [OF 2] s_exponent_left [OF 3] by (rule suffix_order.trans [rotated])
  moreover have "suffix y1 xs" using s_int_left [OF 1] Cons by (auto intro: suffix_ConsI split: if_splits)
  ultimately show ?thesis by (rule suffix_order.trans)
qed (use assms in simp)

lemma s_number_shorter:
  assumes "s_number (c # xs) = Some (x, ys)" and "c = 45 \<or> json_isdigit c"
  shows "length ys \<le> length xs"
proof -
  obtain r1 y1 r2 y2 r3 where 1: "s_int (if c = 45 then xs else c # xs) (Fin 0) = Some (r1, y1)"
    and 2: "s_fraction y1 r1 = Some (r2, y2)" and 3: "s_exponent y2 r2 = Some (r3, ys)"
    using assms(1) by (auto simp: bind_eq_Some_conv)
  have "\<exists>r. s_int xs r = Some (r1, y1)" using 1 assms(2) by (auto split: if_splits)
  then obtain r where "s_int xs r = Some (r1, y1)" ..
  from s_int_left [OF this] s_fraction_left [OF 2] s_exponent_left [OF 3] show ?thesis
    by (metis suffix_length_le order.trans)
qed

lemma fraction_part_at: "drop s m = xs \<Longrightarrow> fraction_part m s r = at_rest m (s_fraction xs r)"
  by (cases xs) (simp_all add: fraction_part_def peek_drop frac_digits_at)

lemma exponent_part_at:
  assumes "drop s m = xs"
  shows "exponent_part m s r = at_rest m (s_exponent xs r)"
proof (cases xs)
  case Nil
  with assms show ?thesis by (simp add: exponent_part_def peek_Nil)
next
  case (Cons c ys)
  note p = peek_Cons(1,2) [OF assms [unfolded Cons]] rest_position [OF assms [unfolded Cons]]
  have bind_at: "(at_rest m ro \<bind> (\<lambda>(e, s). Some (g e, s))) = at_rest m (ro \<bind> (\<lambda>(e, zs). Some (g e, zs)))"
    for ro :: "(u32 \<times> byte list) option" and g :: "u32 \<Rightarrow> double"
    by (cases ro) auto
  show ?thesis
  proof (cases ys)
    case Nil
    with Cons p show ?thesis by (simp add: exponent_part_def peek_Nil)
  next
    case (Cons d zs)
    have "drop (Suc s) m = d # zs" using p(2) Cons by simp
    from peek_Cons(1,2) [OF this] show ?thesis
      using \<open>xs = c # ys\<close> Cons p by (simp add: exponent_part_def exp_digits_at bind_at)
  qed
qed

lemma string2double_at:
  assumes "drop s m = xs"
  shows "string2double m s = at_rest m (s_number xs)"
proof (cases xs)
  case Nil
  with assms show ?thesis by (simp add: string2double_def peek_Nil)
next
  case (Cons c ys)
  note p = peek_Cons(1,2) [OF assms [unfolded Cons]] rest_position [OF assms [unfolded Cons]]
  have pos: "drop (length m - length zs) m = zs" if "suffix zs (if c = 45 then ys else c # ys)" for zs
    by (rule suffix_position, rule suffix_of_drop [OF assms]) (use that Cons in \<open>auto intro: suffix_ConsI split: if_splits\<close>)
  have 1: "int_digits m (if c = 45 then s + 1 else s) (Fin 0) = at_rest m (s_int (if c = 45 then ys else c # ys) (Fin 0))"
    by (rule int_digits_at) (use p assms Cons in simp)
  show ?thesis
  proof (cases "s_int (if c = 45 then ys else c # ys) (Fin 0)")
    case None
    with 1 p Cons show ?thesis by (simp add: string2double_def)
  next
    case (Some v)
    obtain r1 y1 where v: "s_int (if c = 45 then ys else c # ys) (Fin 0) = Some (r1, y1)" using Some by (cases v) auto
    note y1 = s_int_left [OF v]
    have 2: "fraction_part m (length m - length y1) r1 = at_rest m (s_fraction y1 r1)" by (rule fraction_part_at [OF pos [OF y1]])
    show ?thesis
    proof (cases "s_fraction y1 r1")
      case None
      with 1 2 v p Cons show ?thesis by (simp add: string2double_def)
    next
      case (Some w)
      obtain r2 y2 where w: "s_fraction y1 r1 = Some (r2, y2)" using Some by (cases w) auto
      have y2: "suffix y2 (if c = 45 then ys else c # ys)" using s_fraction_left [OF w] y1 by (rule suffix_order.trans)
      have 3: "exponent_part m (length m - length y2) r2 = at_rest m (s_exponent y2 r2)" by (rule exponent_part_at [OF pos [OF y2]])
      show ?thesis using 1 2 3 v w p Cons by (cases "s_exponent y2 r2") (auto simp: string2double_def)
    qed
  qed
qed

section \<open>Strings in place\<close>

text \<open>
  \<open>out\<close> is what has been decoded, \<open>seen\<close> what has been read. The writer is never ahead of the
  reader. The outer option is undefined behaviour, the inner one a bad string. A string that ends
  with the source keeps what is left between writer and reader.
\<close>

fun s_hex :: "nat \<Rightarrow> byte list \<Rightarrow> int \<Rightarrow> int option option" where
  "s_hex 0 xs c = Some (Some c)"
| "s_hex (Suc n) [] c = None"
| "s_hex (Suc n) (d # xs) c = (if isxdigit d then s_hex n xs (c * 16 + char2int d) else Some None)"

fun s_string :: "byte list \<Rightarrow> byte list \<Rightarrow> byte list \<Rightarrow> (byte list \<times> byte list) option option" where
  "s_string out seen [] = None"
| "s_string out seen (c # xs) =
     (if c = 0 then Some (Some (c_string (out @ drop (length out) seen), c # xs))
      else if c = 92 then
        (case xs of
           [] \<Rightarrow> None
         | e # ys \<Rightarrow> (case simple_escape e of
               Some b \<Rightarrow> s_string (out @ [b]) (seen @ [c, e]) ys
             | None \<Rightarrow>
                 if e = 117 then
                   (case s_hex 4 ys 0 of
                      None \<Rightarrow> None
                    | Some None \<Rightarrow> Some None
                    | Some (Some u) \<Rightarrow> s_string (out @ utf8 u) (seen @ [c, e] @ take 4 ys) (drop 4 ys))
                 else Some None))
      else if c < 32 \<or> c = 127 then Some None
      else if c = 34 then Some (Some (c_string out, xs))
      else s_string (out @ [c]) (seen @ [c]) xs)"

text \<open>The source with the decoded bytes written over its beginning.\<close>

definition written :: "byte list \<Rightarrow> nat \<Rightarrow> byte list \<Rightarrow> byte list" where
  "written m i out = take i m @ out @ drop (i + length out) m"

lemma written_Nil: "written m i [] = m"
  by (simp add: written_def)

lemma written_length [simp]: "i + length out \<le> length m \<Longrightarrow> length (written m i out) = length m"
  by (simp add: written_def)

lemma written_drop: "i + length out \<le> s \<Longrightarrow> i + length out \<le> length m \<Longrightarrow> drop s (written m i out) = drop s m"
  by (simp add: written_def min_def)

lemma written_poke:
  assumes "i + length out < length m"
  shows "poke (written m i out) (i + length out) c = Some (written m i (out @ [c]))"
proof -
  have "drop (i + length out) m = m ! (i + length out) # drop (Suc (i + length out)) m"
    using Cons_nth_drop_Suc [OF assms] by simp
  with assms show ?thesis by (simp add: poke_def written_def list_update_append)
qed

lemma written_pokes:
  assumes "i + length out + length bs \<le> length m" and "bs \<noteq> []"
  shows "pokes (written m i (out @ [x])) (i + length out) bs = Some (written m i (out @ bs))"
proof -
  obtain b cs where "bs = b # cs" using assms(2) by (cases bs) auto
  with assms(1) show ?thesis by (auto simp: pokes_def written_def patch_def min_def ac_simps)
qed

lemma written_repoke:
  "i + length out < length m \<Longrightarrow> poke (written m i (out @ [x])) (i + length out) c = Some (written m i (out @ [c]))"
  using written_pokes [of i out "[c]" m x] by (simp add: poke_pokes)

lemma s_hex_at: "drop s m = xs \<Longrightarrow> s_hex n xs c = map_option (\<lambda>r. case r of Bad e \<Rightarrow> None | Good u \<Rightarrow> Some u) (read_hex n m s c)"
  by (induction n xs c arbitrary: s rule: s_hex.induct) (simp_all add: peek_drop)

lemma s_hex_length: "s_hex n xs c = Some (Some u) \<Longrightarrow> n \<le> length xs"
  by (induction n xs c rule: s_hex.induct) (auto split: if_splits)

lemma utf8_length: "utf8 u \<noteq> []" "length (utf8 u) \<le> 3"
  by (simp_all add: utf8_def)

text \<open>How a decoded string lies in the memory: its terminator is not after the reader.\<close>

definition string_ends :: "byte list \<Rightarrow> nat \<Rightarrow> byte list \<Rightarrow> byte list \<Rightarrow> byte list \<Rightarrow> bool" where
  "string_ends m i str rest m' \<longleftrightarrow> length m' = length m \<and> take i m' = take i m \<and> suffix rest m
     \<and> drop (length m - length rest) m' = rest \<and> c_string (drop i m') = str
     \<and> i + length str \<le> length m - length rest \<and> peek m' (i + length str) = Some 0"

definition string_result :: "byte list \<Rightarrow> nat \<Rightarrow> (byte list \<times> byte list) option option \<Rightarrow> (byte list \<times> nat parsed) option \<Rightarrow> bool" where
  "string_result m i r d \<longleftrightarrow> (case r of
     None \<Rightarrow> d = None
   | Some None \<Rightarrow> \<exists>m' e. d = Some (m', Bad e)
   | Some (Some (str, rest)) \<Rightarrow> \<exists>m'. d = Some (m', Good (length m - length rest)) \<and> string_ends m i str rest m')"

lemma c_string_append: "c_string (xs @ 0 # ys) = c_string xs"
  by (induction xs) (simp_all add: c_string_def)

lemma c_string_length: "length (c_string xs) \<le> length xs"
  by (simp add: c_string_def length_takeWhile_le)

lemma c_string_nul: "0 \<in> set xs \<Longrightarrow> length (c_string xs) < length xs \<and> xs ! length (c_string xs) = 0"
  by (induction xs) (auto simp: c_string_def)

lemma string_ends_written:
  assumes "drop i m' = zs @ 0 # ys" and "length m' = length m" and "take i m' = take i m" and "suffix rest m"
    and "drop (length m - length rest) m' = rest" and "i + length zs \<le> length m - length rest"
  shows "string_ends m i (c_string zs) rest m'"
proof -
  have c: "c_string (drop i m') = c_string zs" by (simp add: assms(1) c_string_append)
  have "length (c_string zs) < length (drop i m') \<and> drop i m' ! length (c_string zs) = 0"
    using c_string_nul [of "drop i m'"] assms(1) c by simp
  then have "i + length (c_string zs) < length m'" "m' ! (i + length (c_string zs)) = 0" by auto
  then have "peek m' (i + length (c_string zs)) = Some 0" by (simp add: peek_def)
  with assms c c_string_length [of zs] show ?thesis by (simp add: string_ends_def)
qed

text \<open>Reader and writer after \<open>seen\<close> has been read and \<open>out\<close> written.\<close>

definition decoding :: "byte list \<Rightarrow> nat \<Rightarrow> byte list \<Rightarrow> byte list \<Rightarrow> byte list \<Rightarrow> bool" where
  "decoding m i out seen xs \<longleftrightarrow> i \<le> length m \<and> drop i m = seen @ xs \<and> length out \<le> length seen"

lemma decoding_facts:
  assumes "decoding m i out seen xs"
  shows "i + length out \<le> length m" "drop (i + length seen) (written m i out) = xs" "i + length seen + length xs = length m"
    "suffix xs m" "length m - length xs = i + length seen" "drop i (written m i out) = out @ drop (length out) seen @ xs"
    "take i (written m i out) = take i m"
proof -
  have "length m - i = length (seen @ xs)" using assms unfolding decoding_def by (metis length_drop)
  then have l: "i + length seen + length xs = length m" using assms unfolding decoding_def length_append by linarith
  then show "i + length out \<le> length m" "i + length seen + length xs = length m" "length m - length xs = i + length seen"
    using assms by (simp_all add: decoding_def)
  have d: "drop (i + length seen) m = xs"
    using assms drop_drop [of "length seen" i m] by (simp add: decoding_def add.commute)
  then show "suffix xs m" using suffix_drop by metis
  show "drop (i + length seen) (written m i out) = xs"
    using written_drop [of i out "i + length seen" m] assms l d by (simp add: decoding_def)
  have "drop (i + length out) m = drop (length out) seen @ xs"
    using assms drop_drop [of "length out" i m] by (simp add: decoding_def add.commute)
  then show "drop i (written m i out) = out @ drop (length out) seen @ xs" "take i (written m i out) = take i m"
    using assms by (simp_all add: decoding_def written_def)
qed

lemma decoding_step:
  "decoding m i out seen (bs @ xs) \<Longrightarrow> length o1 \<le> length bs \<Longrightarrow> decoding m i (out @ o1) (seen @ bs) xs"
  by (simp add: decoding_def)

lemma unescape_at:
  assumes "decoding m i out seen (92 # e # ys)"
  shows "simple_escape e = Some b \<Longrightarrow>
      unescape (written m i (out @ [92])) (i + length out) (i + length seen) = Some (written m i (out @ [b]), Good (i + length out + 1, i + length seen + 2))"
    and "simple_escape e = None \<Longrightarrow> e = 117 \<Longrightarrow> s_hex 4 ys 0 = None \<Longrightarrow>
      unescape (written m i (out @ [92])) (i + length out) (i + length seen) = None"
    and "simple_escape e = None \<Longrightarrow> e \<noteq> 117 \<or> s_hex 4 ys 0 = Some None \<Longrightarrow>
      \<exists>m' k. unescape (written m i (out @ [92])) (i + length out) (i + length seen) = Some (m', Bad k)"
    and "simple_escape e = None \<Longrightarrow> e = 117 \<Longrightarrow> s_hex 4 ys 0 = Some (Some u) \<Longrightarrow>
      unescape (written m i (out @ [92])) (i + length out) (i + length seen)
      = Some (written m i (out @ utf8 u), Good (i + length out + length (utf8 u), i + length seen + 6))"
proof -
  let ?m = "written m i (out @ [92])" and ?s = "i + length seen"
  note f = decoding_facts [OF assms]
  have "decoding m i (out @ [92]) (seen @ [92]) (e # ys)" using assms by (simp add: decoding_def)
  from decoding_facts(2) [OF this] have d: "drop (Suc ?s) ?m = e # ys" by simp
  then have p: "peek ?m (?s + 1) = Some e" and d2: "drop (?s + 2) ?m = ys" using peek_Cons(1,2) [OF d] by simp_all
  have lt: "i + length out < length m" using f(3) assms by (simp add: decoding_def)
  note h = s_hex_at [OF d2, of 4 0]
  show "unescape ?m (i + length out) ?s = Some (written m i (out @ [b]), Good (i + length out + 1, ?s + 2))"
    if "simple_escape e = Some b"
    using that p written_repoke [OF lt] by (simp add: unescape_def)
  show "unescape ?m (i + length out) ?s = None" if "simple_escape e = None" "e = 117" "s_hex 4 ys 0 = None"
    using that p h by (simp add: unescape_def)
  show "\<exists>m' k. unescape ?m (i + length out) ?s = Some (m', Bad k)"
    if none: "simple_escape e = None" and bad: "e \<noteq> 117 \<or> s_hex 4 ys 0 = Some None"
  proof (cases "e = 117")
    case True
    obtain r where r: "read_hex 4 ?m (?s + 2) 0 = Some r" using bad True h by (cases "read_hex 4 ?m (?s + 2) 0") auto
    have "\<exists>k. read_hex 4 ?m (?s + 2) 0 = Some (Bad k)" using bad True h r by (cases r) auto
    with none p True show ?thesis by (auto simp: unescape_def)
  qed (use none p in \<open>simp add: unescape_def\<close>)
  show "unescape ?m (i + length out) ?s = Some (written m i (out @ utf8 u), Good (i + length out + length (utf8 u), ?s + 6))"
    if none: "simple_escape e = None" and e: "e = 117" and hex: "s_hex 4 ys 0 = Some (Some u)"
  proof -
    obtain r where "read_hex 4 ?m (?s + 2) 0 = Some r" using hex h by (cases "read_hex 4 ?m (?s + 2) 0") auto
    with h hex have r: "read_hex 4 ?m (?s + 2) 0 = Some (Good u)" by (cases r) auto
    have "i + length out + length (utf8 u) \<le> length m"
      using f(3) s_hex_length [OF hex] utf8_length(2) [of u] assms by (simp add: decoding_def)
    with none e p r written_pokes [OF _ utf8_length(1)] show ?thesis by (simp add: unescape_def)
  qed
qed

lemma decode_string_at:
  assumes "decoding m i out seen xs"
  shows "string_result m i (s_string out seen xs) (decode_string (written m i out) (i + length out) (i + length seen))"
  using assms
proof (induction out seen xs rule: s_string.induct)
  case (1 out seen)
  then show ?case using decoding_facts(2) [OF 1] by (subst decode_string.simps) (simp add: peek_Nil string_result_def)
next
  case (2 out seen c xs)
  let ?m = "written m i out" and ?s = "i + length seen"
  note f = decoding_facts [OF "2.prems"]
  have p: "peek ?m ?s = Some c" using peek_Cons(1) [OF f(2)] .
  have lt: "i + length out < length m" using f(3) "2.prems" by (simp add: decoding_def)
  note w = written_poke [OF lt, of c]
  have next1: "decoding m i (out @ [c]) (seen @ [c]) xs" using "2.prems" by (simp add: decoding_def)
  consider "c = 0" | "c = 92" | "c < 32 \<or> c = 127" "c \<noteq> 0" "c \<noteq> 92" | "c = 34"
    | "c \<noteq> 0" "c \<noteq> 92" "\<not> (c < 32 \<or> c = 127)" "c \<noteq> 34" by blast
  then show ?case
  proof cases
    case 1
    then have d: "decode_string ?m (i + length out) ?s = Some (?m, Good ?s)" using p by (subst decode_string.simps) simp
    have "string_ends m i (c_string (out @ drop (length out) seen)) (c # xs) ?m"
      by (rule string_ends_written [where ys = xs]) (use f 1 "2.prems" in \<open>simp_all add: decoding_def\<close>)
    with d f(5) 1 show ?thesis by (simp add: string_result_def)
  next
    case 2
    show ?thesis
    proof (cases xs)
      case Nil
      have "drop (Suc ?s) (written m i (out @ [c])) = []" using decoding_facts(2) [OF next1] Nil by simp
      then have "unescape (written m i (out @ [c])) (i + length out) ?s = None" by (simp add: unescape_def peek_Nil)
      with p w 2 Nil show ?thesis by (subst decode_string.simps) (simp add: string_result_def)
    next
      case (Cons e ys)
      note u = unescape_at [OF "2.prems" [unfolded 2 Cons]]
      have decode: "decode_string ?m (i + length out) ?s = do {
          (m, r) \<leftarrow> unescape (written m i (out @ [92])) (i + length out) ?s;
          case r of Bad e \<Rightarrow> Some (m, Bad e) | Good (it, s) \<Rightarrow> decode_string m it s }"
        using p w 2 by (subst decode_string.simps) simp
      consider b where "simple_escape e = Some b" | "simple_escape e = None" "e = 117" "s_hex 4 ys 0 = None"
        | "simple_escape e = None" "e \<noteq> 117 \<or> s_hex 4 ys 0 = Some None"
        | v where "simple_escape e = None" "e = 117" "s_hex 4 ys 0 = Some (Some v)"
        by (cases "simple_escape e"; cases "e = 117"; cases "s_hex 4 ys 0") auto
      then show ?thesis
      proof cases
        case (1 b)
        have "decoding m i (out @ [b]) (seen @ [92, e]) ys" using "2.prems" 2 Cons by (simp add: decoding_def)
        from "2.IH"(2) [OF _ \<open>c = 92\<close> Cons 1] this 2 show ?thesis
          using u(1) [OF 1] 1 2 Cons by (simp add: decode)
      next
        case 2
        with u(2) [OF 2] Cons \<open>c = 92\<close> show ?thesis by (simp add: decode string_result_def)
      next
        case 3
        with u(3) [OF 3] Cons \<open>c = 92\<close> show ?thesis by (auto simp: decode string_result_def)
      next
        case (4 v)
        have l: "4 \<le> length ys" by (rule s_hex_length [OF 4(3)])
        have "decoding m i (out @ utf8 v) (seen @ [92, e] @ take 4 ys) (drop 4 ys)"
          using "2.prems" 2 Cons l utf8_length(2) [of v] by (simp add: decoding_def)
        from "2.IH"(1) [OF _ \<open>c = 92\<close> Cons 4(1,2) 4(3) refl] this 2 show ?thesis
          using u(4) [OF 4] 4 2 Cons l by (simp add: decode add.assoc)
      qed
    qed
  next
    case 3
    with p w show ?thesis by (subst decode_string.simps) (simp add: string_result_def)
  next
    case 4
    have d: "decode_string ?m (i + length out) ?s = Some (written m i (out @ [0]), Good (?s + 1))"
      using p w 4 written_repoke [OF lt] by (subst decode_string.simps) simp
    have n: "decoding m i (out @ [0]) (seen @ [c]) xs" using next1 by (simp add: decoding_def)
    note g = decoding_facts [OF n]
    have "string_ends m i (c_string out) xs (written m i (out @ [0]))"
      by (rule string_ends_written [where ys = "drop (Suc (length out)) (seen @ [c]) @ xs"])
        (use g "2.prems" in \<open>simp_all add: decoding_def\<close>)
    with d g(5) 4 show ?thesis by (simp add: string_result_def)
  next
    case 5
    then have "decode_string ?m (i + length out) ?s = decode_string (written m i (out @ [c])) (i + length (out @ [c])) (i + length (seen @ [c]))"
      using p w by (subst decode_string.simps) simp
    with "2.IH"(3) [OF 5 next1] 5 show ?thesis by simp
  qed
qed

lemma decode_string_start:
  assumes "i \<le> length m"
  shows "string_result m i (s_string [] [] (drop i m)) (decode_string m i i)"
proof -
  have "decoding m i [] [] (drop i m)" using assms by (simp add: decoding_def)
  from decode_string_at [OF this] show ?thesis by (simp add: written_Nil)
qed

section \<open>Readers advance\<close>

lemma suffix_rest_ge:
  assumes "suffix ys (drop s m)" and "s \<le> length m"
  shows "s \<le> length m - length ys"
  using suffix_length_le [OF assms(1)] assms(2) by simp

lemma skip_space_ge:
  assumes "skip_space m s = Some s'"
  shows "s \<le> s'" "s' < length m" "s < length m"
proof -
  obtain ys where ys: "s_space (drop s m) = Some ys" "s' = length m - length ys"
    using assms skip_space_at [of s m "drop s m"] by (cases "s_space (drop s m)") auto
  note l = s_space_left [OF ys(1)]
  have "drop s m \<noteq> []" using ys(1) by auto
  then show "s < length m" by simp
  then show "s \<le> s'" using l ys suffix_rest_ge [of ys s m] by simp
  have "0 < length ys" using l by simp
  with \<open>s < length m\<close> ys(2) show "s' < length m" by linarith
qed

lemma skip_comment_gt:
  assumes "skip_comment m s = Some s'"
  shows "s < s'"
proof -
  obtain ys where ys: "s_comment (drop s m) = Some ys" "s' = length m - length ys"
    using assms skip_comment_at [of s m "drop s m"] by (cases "s_comment (drop s m)") auto
  from s_comment_left [OF ys(1)] have "length ys < length m - s" by simp
  with ys(2) show ?thesis by linarith
qed

lemma string2double_gt:
  assumes "string2double m s = Some (x, s')" and "peek m s = Some c" and "c = 45 \<or> json_isdigit c"
  shows "s < s'"
proof -
  obtain xs where xs: "drop s m = c # xs"
    using assms(2) by (cases "drop s m") (auto simp: peek_Nil peek_Cons(1))
  obtain ys where ys: "s_number (c # xs) = Some (x, ys)" "s' = length m - length ys"
    using assms(1) string2double_at [OF xs] by (cases "s_number (c # xs)") auto
  from s_number_shorter [OF ys(1) assms(3)] ys(2) peek_Cons(3,4) [OF xs] show ?thesis by linarith
qed

lemma decode_string_ge:
  assumes "decode_string m i i = Some (m', Good s')" and "i \<le> length m"
  shows "i \<le> s'" "length m' = length m"
  using decode_string_start [OF assms(2)] assms(1)
  by (auto simp: string_result_def string_ends_def split: option.splits)

end
