(* ===== verification/Json.thy ===== *)
theory Json
  imports JsonToken
begin

text \<open>
  The parser of \<open>core/gason.cpp\<close>: tagged values, the zone allocator, the list of children of an
  array or object, and the loop over the source with its stack of open arrays and objects. The
  frames of the stack are the entries \<open>0 \<dots> pos\<close> of the arrays \<open>tails\<close>, \<open>tags\<close> and \<open>keys\<close>, the
  top first.
\<close>

section \<open>Values\<close>

datatype JsonTag = JSON_NUMBER | JSON_STRING | JSON_ARRAY | JSON_OBJECT | JSON_TRUE | JSON_FALSE | JSON_NULL

datatype JsonErrno = JSON_OK | JSON_BAD_NUMBER | JSON_BAD_STRING | JSON_BAD_IDENTIFIER | JSON_STACK_OVERFLOW
  | JSON_STACK_UNDERFLOW | JSON_MISMATCH_BRACKET | JSON_UNEXPECTED_CHARACTER | JSON_UNQUOTED_KEY
  | JSON_BREAKING_BAD | JSON_ALLOCATION_FAILURE

primrec jsonStrError :: "JsonErrno \<Rightarrow> string" where
  "jsonStrError JSON_OK = ''ok''"
| "jsonStrError JSON_BAD_NUMBER = ''bad number''"
| "jsonStrError JSON_BAD_STRING = ''bad string''"
| "jsonStrError JSON_BAD_IDENTIFIER = ''bad identifier''"
| "jsonStrError JSON_STACK_OVERFLOW = ''stack overflow''"
| "jsonStrError JSON_STACK_UNDERFLOW = ''stack underflow''"
| "jsonStrError JSON_MISMATCH_BRACKET = ''mismatch bracket''"
| "jsonStrError JSON_UNEXPECTED_CHARACTER = ''unexpected character''"
| "jsonStrError JSON_UNQUOTED_KEY = ''unquoted key''"
| "jsonStrError JSON_BREAKING_BAD = ''breaking bad''"
| "jsonStrError JSON_ALLOCATION_FAILURE = ''allocation failure''"

text \<open>The 64 bits of a value: a double, or a tag and a pointer in the payload of a NaN.\<close>

definition JSON_VALUE_PAYLOAD_MASK :: u64 where "JSON_VALUE_PAYLOAD_MASK = 0x00007FFFFFFFFFFF"
definition JSON_VALUE_NAN_MASK :: u64 where "JSON_VALUE_NAN_MASK = 0x7FF8000000000000"
definition JSON_VALUE_TAG_MASK :: u64 where "JSON_VALUE_TAG_MASK = 0xF"
definition JSON_VALUE_TAG_SHIFT :: nat where "JSON_VALUE_TAG_SHIFT = 47"

primrec tag_num :: "JsonTag \<Rightarrow> u64" where
  "tag_num JSON_NUMBER = 0"
| "tag_num JSON_STRING = 1"
| "tag_num JSON_ARRAY = 2"
| "tag_num JSON_OBJECT = 3"
| "tag_num JSON_TRUE = 4"
| "tag_num JSON_FALSE = 5"
| "tag_num JSON_NULL = 0xF"

definition JsonValue :: "JsonTag \<Rightarrow> u64 \<Rightarrow> u64" where
  "JsonValue tag payload = JSON_VALUE_NAN_MASK OR push_bit JSON_VALUE_TAG_SHIFT (tag_num tag) OR payload"

definition isDouble :: "u64 \<Rightarrow> bool" where
  "isDouble ival \<longleftrightarrow> sint ival \<le> sint JSON_VALUE_NAN_MASK"

definition getTag :: "u64 \<Rightarrow> u64" where
  "getTag ival = (if isDouble ival then tag_num JSON_NUMBER
     else drop_bit JSON_VALUE_TAG_SHIFT ival AND JSON_VALUE_TAG_MASK)"

definition getPayload :: "u64 \<Rightarrow> u64" where
  "getPayload ival = ival AND JSON_VALUE_PAYLOAD_MASK"

text \<open>
  The values the parser makes, with what their payload points to: a string by its offset in the
  source, the children by the address of their first node.
\<close>

type_synonym addr = "nat \<times> nat"

datatype json_value = Number double | Str nat | Array "addr option" | Object "addr option" | TrueV | FalseV | NullV

primrec tag_of :: "json_value \<Rightarrow> JsonTag" where
  "tag_of (Number x) = JSON_NUMBER"
| "tag_of (Str p) = JSON_STRING"
| "tag_of (Array a) = JSON_ARRAY"
| "tag_of (Object a) = JSON_OBJECT"
| "tag_of TrueV = JSON_TRUE"
| "tag_of FalseV = JSON_FALSE"
| "tag_of NullV = JSON_NULL"

section \<open>The allocator\<close>

text \<open>
  A zone that \<open>malloc\<close> returned: the number of the call, how much of it is used, how large it is.
  The head of the list is the first. Pointers have 64 bits.
\<close>

definition JSON_ZONE_SIZE :: nat where "JSON_ZONE_SIZE = 4096"
definition JSON_STACK_SIZE :: nat where "JSON_STACK_SIZE = 32"

record zone =
  zone_id :: nat
  used :: nat
  zone_size :: nat

record allocator =
  zones :: "zone list"
  mallocs :: nat

definition sizeof_Zone :: nat where "sizeof_Zone = 16"
definition sizeof_JsonNode :: nat where "sizeof_JsonNode = 24"
definition sizeof_ptr :: nat where "sizeof_ptr = 8"

definition new_zone :: "(nat \<Rightarrow> bool) \<Rightarrow> nat \<Rightarrow> allocator \<Rightarrow> addr option \<times> allocator" where
  "new_zone malloc sz al =
     (let n = mallocs al; alloc_size = sizeof_Zone + sz; al = al\<lparr>mallocs := n + 1\<rparr> in
      if \<not> malloc n then (None, al)
      else
        let z = \<lparr>zone_id = n, used = alloc_size, zone_size = (if alloc_size \<le> JSON_ZONE_SIZE then JSON_ZONE_SIZE else alloc_size)\<rparr>
        in (Some (n, sizeof_Zone), al\<lparr>zones :=
             (if alloc_size \<le> JSON_ZONE_SIZE \<or> zones al = [] then z # zones al
              else hd (zones al) # z # tl (zones al))\<rparr>))"

definition allocate :: "(nat \<Rightarrow> bool) \<Rightarrow> nat \<Rightarrow> allocator \<Rightarrow> addr option \<times> allocator" where
  "allocate malloc sz al =
     (let sz = (sz + 7) div 8 * 8 in
      case zones al of
        z # zs \<Rightarrow> if used z + sz \<le> JSON_ZONE_SIZE
          then (Some (zone_id z, used z), al\<lparr>zones := z\<lparr>used := used z + sz\<rparr> # zs\<rparr>)
          else new_zone malloc sz al
      | [] \<Rightarrow> new_zone malloc sz al)"

text \<open>\<open>deallocate\<close> frees the zones from the head on: the numbers of the calls whose memory is freed.\<close>

fun free_zones :: "zone list \<Rightarrow> nat list" where
  "free_zones [] = []"
| "free_zones (z # zs) = zone_id z # free_zones zs"

definition deallocate :: "allocator \<Rightarrow> nat list \<times> allocator" where
  "deallocate al = (free_zones (zones al), al\<lparr>zones := []\<rparr>)"

section \<open>Nodes\<close>

record json_node =
  node_value :: json_value
  node_next :: "addr option"
  node_key :: "nat option"

type_synonym heap = "addr \<Rightarrow> json_node option"

definition insertAfter :: "addr option \<Rightarrow> addr \<Rightarrow> heap \<Rightarrow> heap option" where
  "insertAfter tail node h = do {
     n \<leftarrow> h node;
     case tail of
       None \<Rightarrow> Some (h(node \<mapsto> n\<lparr>node_next := Some node\<rparr>))
     | Some t \<Rightarrow> do {
         nt \<leftarrow> h t;
         Some (h(node \<mapsto> n\<lparr>node_next := node_next nt\<rparr>, t \<mapsto> nt\<lparr>node_next := Some node\<rparr>))
       }
   }"

definition listToValue :: "(addr option \<Rightarrow> json_value) \<Rightarrow> addr option \<Rightarrow> heap \<Rightarrow> (json_value \<times> heap) option" where
  "listToValue tag tail h = (case tail of
     None \<Rightarrow> Some (tag None, h)
   | Some t \<Rightarrow> do {
       nt \<leftarrow> h t;
       Some (tag (node_next nt), h(t \<mapsto> nt\<lparr>node_next := None\<rparr>))
     })"

section \<open>The parser\<close>

record json_frame =
  f_tail :: "addr option"
  f_tag :: JsonTag
  f_key :: "nat option"

record json_parser =
  json_mem :: "byte list"
  cur :: nat
  endptr :: nat
  json_heap :: heap
  json_alloc :: allocator
  stack :: "json_frame list"
  separator :: bool
  parsed_value :: json_value

datatype step_result = Next json_parser | Done JsonErrno json_parser

text \<open>What the node of a new child holds before its members are set.\<close>

definition blank_node :: json_node where
  "blank_node = \<lparr>node_value = NullV, node_next = None, node_key = None\<rparr>"

text \<open>A value of which the last character has been read: the end of the loop's body.\<close>

definition add_child :: "(nat \<Rightarrow> bool) \<Rightarrow> json_value \<Rightarrow> json_frame \<Rightarrow> json_frame list \<Rightarrow> json_parser \<Rightarrow> step_result option" where
  "add_child malloc v f fs p =
     (let is_object = (f_tag f = JSON_OBJECT);
          (a, al) = allocate malloc (if is_object then sizeof_JsonNode else sizeof_JsonNode - sizeof_ptr) (json_alloc p);
          p = p\<lparr>json_alloc := al\<rparr> in
      case a of
        None \<Rightarrow> Some (Done JSON_ALLOCATION_FAILURE p)
      | Some node \<Rightarrow> do {
          h \<leftarrow> insertAfter (f_tail f) node ((json_heap p)(node \<mapsto> blank_node));
          n \<leftarrow> h node;
          let n = (if is_object then n\<lparr>node_key := f_key f\<rparr> else n);
          let f = (if is_object then f\<lparr>f_tail := Some node, f_key := None\<rparr> else f\<lparr>f_tail := Some node\<rparr>);
          Some (Next (p\<lparr>json_heap := h(node \<mapsto> n\<lparr>node_value := v\<rparr>), stack := f # fs\<rparr>))
        })"

definition deliver :: "(nat \<Rightarrow> bool) \<Rightarrow> json_value \<Rightarrow> json_parser \<Rightarrow> step_result option" where
  "deliver malloc v p =
     (let p = p\<lparr>separator := False\<rparr> in
      case stack p of
        [] \<Rightarrow> Some (Done JSON_OK (p\<lparr>endptr := cur p, parsed_value := v\<rparr>))
      | f # fs \<Rightarrow>
          if f_tag f = JSON_OBJECT \<and> f_key f = None then
            (case v of
               Str q \<Rightarrow> Some (Next (p\<lparr>stack := f\<lparr>f_key := Some q\<rparr> # fs\<rparr>))
             | _ \<Rightarrow> Some (Done JSON_UNQUOTED_KEY p))
          else add_child malloc v f fs p)"

definition parse_number :: "(nat \<Rightarrow> bool) \<Rightarrow> byte \<Rightarrow> json_parser \<Rightarrow> step_result option" where
  "parse_number malloc c p = do {
     d \<leftarrow> peek (json_mem p) (cur p);
     if c = 45 \<and> \<not> json_isdigit d \<and> d \<noteq> 46 then Some (Done JSON_BAD_NUMBER (p\<lparr>endptr := cur p\<rparr>))
     else do {
       (x, s) \<leftarrow> string2double (json_mem p) (endptr p);
       d \<leftarrow> peek (json_mem p) s;
       if \<not> isdelim d then Some (Done JSON_BAD_NUMBER (p\<lparr>cur := s, endptr := s\<rparr>))
       else deliver malloc (Number x) (p\<lparr>cur := s\<rparr>)
     }
   }"

definition parse_string :: "(nat \<Rightarrow> bool) \<Rightarrow> json_parser \<Rightarrow> step_result option" where
  "parse_string malloc p = do {
     (m, r) \<leftarrow> decode_string (json_mem p) (cur p) (cur p);
     case r of
       Bad e \<Rightarrow> Some (Done JSON_BAD_STRING (p\<lparr>json_mem := m, cur := e, endptr := e\<rparr>))
     | Good s \<Rightarrow> do {
         d \<leftarrow> peek m s;
         if \<not> isdelim d then Some (Done JSON_BAD_STRING (p\<lparr>json_mem := m, cur := s, endptr := s\<rparr>))
         else deliver malloc (Str (cur p)) (p\<lparr>json_mem := m, cur := s\<rparr>)
       }
   }"

definition parse_identifier :: "(nat \<Rightarrow> bool) \<Rightarrow> byte list \<Rightarrow> json_value \<Rightarrow> json_parser \<Rightarrow> step_result option" where
  "parse_identifier malloc xs v p = do {
     b \<leftarrow> json_ident (json_mem p) (cur p) xs;
     if b then deliver malloc v (p\<lparr>cur := cur p + length xs\<rparr>) else Some (Done JSON_BAD_IDENTIFIER p)
   }"

definition close_bracket :: "(nat \<Rightarrow> bool) \<Rightarrow> JsonTag \<Rightarrow> (addr option \<Rightarrow> json_value) \<Rightarrow> json_parser \<Rightarrow> step_result option" where
  "close_bracket malloc tag con p = (case stack p of
     [] \<Rightarrow> Some (Done JSON_STACK_UNDERFLOW p)
   | f # fs \<Rightarrow>
       if f_tag f \<noteq> tag then Some (Done JSON_MISMATCH_BRACKET p)
       else if tag = JSON_OBJECT \<and> f_key f \<noteq> None then Some (Done JSON_UNEXPECTED_CHARACTER p)
       else do {
         (v, h) \<leftarrow> listToValue con (f_tail f) (json_heap p);
         deliver malloc v (p\<lparr>json_heap := h, stack := fs\<rparr>)
       })"

definition open_bracket :: "JsonTag \<Rightarrow> json_parser \<Rightarrow> step_result" where
  "open_bracket tag p =
     (if length (stack p) = JSON_STACK_SIZE then Done JSON_STACK_OVERFLOW p
      else Next (p\<lparr>stack := \<lparr>f_tail = None, f_tag = tag, f_key = None\<rparr> # stack p, separator := True\<rparr>))"

text \<open>
  A colon needs a key that waits for its value, a comma must not find one. With the separator
  down there is a frame: \<open>keys[pos]\<close> is only read then.
\<close>

definition parse_separator :: "bool \<Rightarrow> json_parser \<Rightarrow> step_result option" where
  "parse_separator colon p =
     (if separator p then Some (Done JSON_UNEXPECTED_CHARACTER p)
      else case stack p of
        [] \<Rightarrow> None
      | f # fs \<Rightarrow> if (f_key f = None) = colon then Some (Done JSON_UNEXPECTED_CHARACTER p)
          else Some (Next (p\<lparr>separator := True\<rparr>)))"

definition json_step :: "(nat \<Rightarrow> bool) \<Rightarrow> json_parser \<Rightarrow> step_result option" where
  "json_step malloc p = do {
     s \<leftarrow> skip_space (json_mem p) (cur p);
     c \<leftarrow> peek (json_mem p) s;
     let p = p\<lparr>endptr := s, cur := s + 1\<rparr>;
     if c = 35 then do {
       s \<leftarrow> skip_comment (json_mem p) (cur p);
       Some (Next (p\<lparr>cur := s\<rparr>))
     }
     else if c = 45 \<or> json_isdigit c then parse_number malloc c p
     else if c = 34 then parse_string malloc p
     else if c = 116 then parse_identifier malloc [114, 117, 101] TrueV p
     else if c = 102 then parse_identifier malloc [97, 108, 115, 101] FalseV p
     else if c = 110 then parse_identifier malloc [117, 108, 108] NullV p
     else if c = 93 then close_bracket malloc JSON_ARRAY Array p
     else if c = 125 then close_bracket malloc JSON_OBJECT Object p
     else if c = 91 then Some (open_bracket JSON_ARRAY p)
     else if c = 123 then Some (open_bracket JSON_OBJECT p)
     else if c = 58 then parse_separator True p
     else if c = 44 then parse_separator False p
     else if c = 0 then Some (Next p)
     else Some (Done JSON_UNEXPECTED_CHARACTER p)
   }"

section \<open>The loop\<close>

lemma deliver_Next:
  assumes "deliver malloc v p = Some (Next p')"
  shows "json_mem p' = json_mem p \<and> cur p' = cur p"
proof (cases "stack p")
  case Nil
  with assms show ?thesis by (simp add: deliver_def)
next
  case (Cons f fs)
  show ?thesis
  proof (cases "f_tag f = JSON_OBJECT \<and> f_key f = None")
    case True
    with Cons assms show ?thesis by (cases v) (auto simp: deliver_def)
  next
    case False
    obtain a al where al: "allocate malloc (if f_tag f = JSON_OBJECT then sizeof_JsonNode else sizeof_JsonNode - sizeof_ptr) (json_alloc p) = (a, al)"
      by fastforce
    with False Cons assms show ?thesis
      by (cases a) (auto simp: deliver_def add_child_def Let_def bind_eq_Some_conv)
  qed
qed

lemma json_step_advances:
  assumes "json_step malloc p = Some (Next p')"
  shows "cur p < cur p' \<and> length (json_mem p') = length (json_mem p)"
proof -
  let ?m = "json_mem p"
  obtain s c where s: "skip_space ?m (cur p) = Some s" and c: "peek ?m s = Some c"
    using assms by (auto simp: json_step_def bind_eq_Some_conv)
  note ge = skip_space_ge [OF s]
  let ?p = "p\<lparr>endptr := s, cur := s + 1\<rparr>"
  have num: ?thesis if pn: "parse_number malloc c ?p = Some (Next p')" and c2: "c = 45 \<or> json_isdigit c"
  proof -
    obtain x s' where x: "string2double ?m s = Some (x, s')" "deliver malloc (Number x) (?p\<lparr>cur := s'\<rparr>) = Some (Next p')"
      using pn by (auto simp: parse_number_def bind_eq_Some_conv split: if_split_asm)
    from deliver_Next [OF x(2)] string2double_gt [OF x(1) c c2] ge show ?thesis by simp
  qed
  have str: ?thesis if ps: "parse_string malloc ?p = Some (Next p')"
  proof -
    obtain m' r where d: "decode_string ?m (s + 1) (s + 1) = Some (m', r)"
      using ps by (auto simp: parse_string_def bind_eq_Some_conv)
    obtain s' where r: "r = Good s'" using ps d by (cases r) (auto simp: parse_string_def)
    have "deliver malloc (Str (s + 1)) (?p\<lparr>json_mem := m', cur := s'\<rparr>) = Some (Next p')"
      using ps d r by (auto simp: parse_string_def bind_eq_Some_conv split: if_split_asm)
    from deliver_Next [OF this] decode_string_ge [OF d [unfolded r]] ge show ?thesis by simp
  qed
  have ident: ?thesis if "parse_identifier malloc xs v ?p = Some (Next p')" for xs v
    using that ge by (auto simp: parse_identifier_def bind_eq_Some_conv dest!: deliver_Next split: if_split_asm)
  have close: ?thesis if "close_bracket malloc tag con ?p = Some (Next p')" for tag con
    using that ge by (auto simp: close_bracket_def bind_eq_Some_conv dest!: deliver_Next split: list.splits if_split_asm)
  have rest: ?thesis if "p' = ?p\<lparr>cur := s'\<rparr> \<and> skip_comment ?m (s + 1) = Some s'
      \<or> Some (open_bracket tag ?p) = Some (Next p') \<or> parse_separator b ?p = Some (Next p') \<or> p' = ?p" for s' tag b
    using that ge skip_comment_gt [of ?m "s + 1" s']
    by (auto simp: open_bracket_def parse_separator_def split: if_split_asm list.splits)
  show ?thesis
    using assms s c num str ident close rest
    by (simp add: json_step_def Let_def bind_eq_Some_conv split: if_split_asm) blast+
qed

function json_loop :: "(nat \<Rightarrow> bool) \<Rightarrow> json_parser \<Rightarrow> (JsonErrno \<times> json_parser) option" where
  "json_loop malloc p = do {
     c \<leftarrow> peek (json_mem p) (cur p);
     if c = 0 then Some (JSON_BREAKING_BAD, p)
     else do {
       r \<leftarrow> json_step malloc p;
       case r of Next p \<Rightarrow> json_loop malloc p | Done e p \<Rightarrow> Some (e, p)
     }
   }"
  by pat_completeness auto
termination
  by (relation "measure (\<lambda>(malloc, p). length (json_mem p) - cur p)")
    (auto simp: peek_def dest!: json_step_advances split: if_split_asm)

declare json_loop.simps [simp del]

definition jsonParse :: "(nat \<Rightarrow> bool) \<Rightarrow> byte list \<Rightarrow> (JsonErrno \<times> json_parser) option" where
  "jsonParse malloc source = json_loop malloc
     \<lparr>json_mem = source, cur = 0, endptr = 0, json_heap = Map.empty, json_alloc = \<lparr>zones = [], mallocs = 0\<rparr>,
      stack = [], separator = True, parsed_value = NullV\<rparr>"

end
