(* ===== verification/JsonSpec.thy ===== *)
theory JsonSpec
  imports Json
begin

text \<open>
  A parser without pointers: it works on the bytes that are left and makes trees. The parser of
  \<open>core/gason.cpp\<close>, with its allocator, its rings of nodes and its strings decoded in place,
  computes the same results and leaves in memory what represents the tree.
\<close>

section \<open>Trees and their parser\<close>

datatype json = JNum double | JStr "byte list" | JArr "json list" | JObj "(byte list \<times> json) list" | JTrue | JFalse | JNull

text \<open>An open array or object: its children so far, and the key that waits for its value.\<close>

datatype sframe = SArr "json list" | SObj "(byte list \<times> json) list" "byte list option"

datatype s_result = SNext "sframe list" bool "byte list" | SDone JsonErrno json

definition s_deliver :: "json \<Rightarrow> sframe list \<Rightarrow> byte list \<Rightarrow> s_result" where
  "s_deliver v fs xs = (case fs of
     [] \<Rightarrow> SDone JSON_OK v
   | SArr vs # fs \<Rightarrow> SNext (SArr (vs @ [v]) # fs) False xs
   | SObj kvs (Some k) # fs \<Rightarrow> SNext (SObj (kvs @ [(k, v)]) None # fs) False xs
   | SObj kvs None # fs \<Rightarrow> (case v of JStr k \<Rightarrow> SNext (SObj kvs (Some k) # fs) False xs | _ \<Rightarrow> SDone JSON_UNQUOTED_KEY JNull))"

definition s_parse_number :: "byte \<Rightarrow> byte list \<Rightarrow> sframe list \<Rightarrow> s_result option" where
  "s_parse_number c xs fs = (case xs of
     [] \<Rightarrow> None
   | d # _ \<Rightarrow>
       if c = 45 \<and> \<not> json_isdigit d \<and> d \<noteq> 46 then Some (SDone JSON_BAD_NUMBER JNull)
       else do {
         (x, ys) \<leftarrow> s_number (c # xs);
         case ys of [] \<Rightarrow> None
         | d # _ \<Rightarrow> Some (if isdelim d then s_deliver (JNum x) fs ys else SDone JSON_BAD_NUMBER JNull)
       })"

definition s_parse_string :: "byte list \<Rightarrow> sframe list \<Rightarrow> s_result option" where
  "s_parse_string xs fs = (case s_string [] [] xs of
     None \<Rightarrow> None
   | Some None \<Rightarrow> Some (SDone JSON_BAD_STRING JNull)
   | Some (Some (str, ys)) \<Rightarrow> (case ys of [] \<Rightarrow> None
       | d # _ \<Rightarrow> Some (if isdelim d then s_deliver (JStr str) fs ys else SDone JSON_BAD_STRING JNull)))"

definition s_parse_identifier :: "byte list \<Rightarrow> json \<Rightarrow> byte list \<Rightarrow> sframe list \<Rightarrow> s_result option" where
  "s_parse_identifier w v xs fs = do {
     b \<leftarrow> s_ident xs w;
     Some (if b then s_deliver v fs (drop (length w) xs) else SDone JSON_BAD_IDENTIFIER JNull)
   }"

definition s_close_array :: "sframe list \<Rightarrow> byte list \<Rightarrow> s_result" where
  "s_close_array fs xs = (case fs of
     [] \<Rightarrow> SDone JSON_STACK_UNDERFLOW JNull
   | SArr vs # fs \<Rightarrow> s_deliver (JArr vs) fs xs
   | _ \<Rightarrow> SDone JSON_MISMATCH_BRACKET JNull)"

definition s_close_object :: "sframe list \<Rightarrow> byte list \<Rightarrow> s_result" where
  "s_close_object fs xs = (case fs of
     [] \<Rightarrow> SDone JSON_STACK_UNDERFLOW JNull
   | SObj kvs None # fs \<Rightarrow> s_deliver (JObj kvs) fs xs
   | SObj kvs (Some k) # fs \<Rightarrow> SDone JSON_UNEXPECTED_CHARACTER JNull
   | _ \<Rightarrow> SDone JSON_MISMATCH_BRACKET JNull)"

definition s_open :: "sframe \<Rightarrow> sframe list \<Rightarrow> byte list \<Rightarrow> s_result" where
  "s_open f fs xs = (if length fs = JSON_STACK_SIZE then SDone JSON_STACK_OVERFLOW JNull else SNext (f # fs) True xs)"

primrec waits :: "sframe \<Rightarrow> bool" where
  "waits (SArr vs) = False"
| "waits (SObj kvs k) = (k \<noteq> None)"

definition s_separator :: "bool \<Rightarrow> sframe list \<Rightarrow> bool \<Rightarrow> byte list \<Rightarrow> s_result option" where
  "s_separator colon fs sep xs =
     (if sep then Some (SDone JSON_UNEXPECTED_CHARACTER JNull)
      else case fs of
        [] \<Rightarrow> None
      | f # _ \<Rightarrow> Some (if waits f = colon then SNext fs True xs else SDone JSON_UNEXPECTED_CHARACTER JNull))"

definition s_token :: "byte \<Rightarrow> byte list \<Rightarrow> sframe list \<Rightarrow> bool \<Rightarrow> s_result option" where
  "s_token c xs fs sep =
     (if c = 35 then map_option (SNext fs sep) (s_comment xs)
      else if c = 45 \<or> json_isdigit c then s_parse_number c xs fs
      else if c = 34 then s_parse_string xs fs
      else if c = 116 then s_parse_identifier [114, 117, 101] JTrue xs fs
      else if c = 102 then s_parse_identifier [97, 108, 115, 101] JFalse xs fs
      else if c = 110 then s_parse_identifier [117, 108, 108] JNull xs fs
      else if c = 93 then Some (s_close_array fs xs)
      else if c = 125 then Some (s_close_object fs xs)
      else if c = 91 then Some (s_open (SArr []) fs xs)
      else if c = 123 then Some (s_open (SObj [] None) fs xs)
      else if c = 58 then s_separator True fs sep xs
      else if c = 44 then s_separator False fs sep xs
      else if c = 0 then Some (SNext fs sep xs)
      else Some (SDone JSON_UNEXPECTED_CHARACTER JNull))"

definition s_step :: "sframe list \<Rightarrow> bool \<Rightarrow> byte list \<Rightarrow> s_result option" where
  "s_step fs sep xs = do {
     ys \<leftarrow> s_space xs;
     case ys of [] \<Rightarrow> None | c # zs \<Rightarrow> s_token c zs fs sep
   }"

lemma s_deliver_Next: "s_deliver v fs xs = SNext fs' sep' xs' \<Longrightarrow> xs' = xs"
  by (auto simp: s_deliver_def split: list.splits sframe.splits option.splits json.splits)

lemma s_string_left: "s_string out seen xs = Some (Some (str, ys)) \<Longrightarrow> suffix ys xs"
proof (induction out seen xs rule: s_string.induct)
  case (2 out seen c xs)
  show ?case
  proof (cases xs)
    case Nil
    with "2.prems" show ?thesis by (auto intro: suffix_ConsI split: if_split_asm)
  next
    case (Cons e zs)
    have "suffix ys zs" if "suffix ys (drop n zs)" for n using that suffix_drop suffix_order.trans by blast
    with "2.prems" "2.IH" Cons show ?thesis
      by (auto intro!: suffix_ConsI split: if_split_asm option.split_asm)
  qed
qed simp

lemma s_ident_length: "s_ident xs w = Some True \<Longrightarrow> length w < length xs"
  by (induction xs w rule: s_ident.induct) (auto split: if_splits)

lemma s_token_left:
  assumes "s_token c xs fs sep = Some (SNext fs' sep' ys)"
  shows "suffix ys xs"
proof -
  have num: ?thesis if n: "s_parse_number c xs fs = Some (SNext fs' sep' ys)" and c: "c = 45 \<or> json_isdigit c"
  proof -
    obtain d ds where xs: "xs = d # ds" using n by (cases xs) (auto simp: s_parse_number_def)
    obtain x zs where z: "s_number (c # xs) = Some (x, zs)"
      using n xs by (auto simp: s_parse_number_def bind_eq_Some_conv simp del: s_number.simps split: if_split_asm)
    have "s_deliver (JNum x) fs zs = SNext fs' sep' ys"
      using n xs z by (cases zs) (auto simp: s_parse_number_def simp del: s_number.simps split: if_split_asm)
    note z = z this
    from s_deliver_Next [OF z(2)] s_number_shorter [OF z(1) c] s_number_left [OF z(1)] show ?thesis by (auto simp: suffix_Cons)
  qed
  have str: ?thesis if n: "s_parse_string xs fs = Some (SNext fs' sep' ys)"
  proof -
    obtain x zs where z: "s_string [] [] xs = Some (Some (x, zs))" "s_deliver (JStr x) fs zs = SNext fs' sep' ys"
      using n by (auto simp: s_parse_string_def split: list.split_asm if_split_asm option.split_asm)
    from s_deliver_Next [OF z(2)] s_string_left [OF z(1)] show ?thesis by simp
  qed
  have ident: ?thesis if "s_parse_identifier w v xs fs = Some (SNext fs' sep' ys)" for w v
    using that by (auto simp: s_parse_identifier_def bind_eq_Some_conv suffix_drop dest!: s_deliver_Next split: if_split_asm)
  have close: ?thesis if "s_close_array fs xs = SNext fs' sep' ys \<or> s_close_object fs xs = SNext fs' sep' ys"
    using that by (auto simp: s_close_array_def s_close_object_def dest!: s_deliver_Next split: list.split_asm sframe.split_asm option.split_asm)
  have rest: ?thesis if "s_open f fs xs = SNext fs' sep' ys \<or> s_separator b fs sep xs = Some (SNext fs' sep' ys) \<or> ys = xs
      \<or> s_comment xs = Some ys" for f b
    using that by (auto simp: s_open_def s_separator_def dest!: s_comment_left split: list.split_asm if_split_asm)
  show ?thesis
    using assms num str ident close rest by (simp add: s_token_def split: if_split_asm) blast+
qed

lemma s_step_shorter:
  assumes "s_step fs sep xs = Some (SNext fs' sep' ys)"
  shows "length ys < length xs"
proof -
  obtain zs where z: "s_space xs = Some zs" using assms by (auto simp: s_step_def bind_eq_Some_conv)
  obtain c ws where zs: "zs = c # ws" using assms z by (cases zs) (auto simp: s_step_def)
  have "s_token c ws fs sep = Some (SNext fs' sep' ys)" using assms z zs by (simp add: s_step_def)
  from suffix_length_le [OF s_token_left [OF this]] s_space_left [OF z] zs suffix_length_le [of zs xs] show ?thesis by simp
qed

function s_loop :: "sframe list \<Rightarrow> bool \<Rightarrow> byte list \<Rightarrow> (JsonErrno \<times> json) option" where
  "s_loop fs sep xs = (case xs of
     [] \<Rightarrow> None
   | c # _ \<Rightarrow>
       if c = 0 then Some (JSON_BREAKING_BAD, JNull)
       else do {
         r \<leftarrow> s_step fs sep xs;
         case r of SNext fs sep xs \<Rightarrow> s_loop fs sep xs | SDone e v \<Rightarrow> Some (e, v)
       })"
  by pat_completeness auto
termination
  by (relation "measure (\<lambda>(fs, sep, xs). length xs)") (auto dest: s_step_shorter)

declare s_loop.simps [simp del]

text \<open>What a source means: \<^const>\<open>None\<close> if parsing it runs out of it.\<close>

definition parse_tree :: "byte list \<Rightarrow> (JsonErrno \<times> json) option" where
  "parse_tree source = s_loop [] True source"

end
