(* ===== verification/JsonAlloc.thy ===== *)
theory JsonAlloc
  imports JsonSpec
begin

text \<open>
  The allocator of \<open>core/gason.cpp\<close>: the blocks it gives out lie in the memory \<open>malloc\<close> returned,
  behind the header of their zone, and do not overlap.
\<close>

text \<open>A block: its address and the size that was asked for.\<close>

type_synonym block = "addr \<times> nat"

definition apart :: "block \<Rightarrow> block \<Rightarrow> bool" where
  "apart b c = (case (b, c) of (((i, off), n), ((j, off'), n')) \<Rightarrow> i \<noteq> j \<or> off + n \<le> off' \<or> off' + n' \<le> off)"

definition in_zone :: "zone \<Rightarrow> block \<Rightarrow> bool" where
  "in_zone z b = (case b of ((i, off), n) \<Rightarrow> zone_id z = i \<and> sizeof_Zone \<le> off \<and> off + n \<le> used z)"

definition alloc_inv :: "allocator \<Rightarrow> block list \<Rightarrow> bool" where
  "alloc_inv al bs \<longleftrightarrow> distinct (map zone_id (zones al))
     \<and> (\<forall>z \<in> set (zones al). zone_id z < mallocs al \<and> sizeof_Zone \<le> used z \<and> used z \<le> zone_size z \<and> JSON_ZONE_SIZE \<le> zone_size z)
     \<and> (\<forall>b \<in> set bs. \<exists>z \<in> set (zones al). in_zone z b) \<and> sorted_wrt apart bs"

lemma alloc_inv_snoc:
  assumes "alloc_inv al bs" and "distinct (map zone_id (zones al'))"
    and "\<forall>z \<in> set (zones al'). zone_id z < mallocs al' \<and> sizeof_Zone \<le> used z \<and> used z \<le> zone_size z \<and> JSON_ZONE_SIZE \<le> zone_size z"
    and "\<forall>z \<in> set (zones al). \<exists>z' \<in> set (zones al'). zone_id z' = zone_id z \<and> used z \<le> used z'"
    and "z \<in> set (zones al')" and "in_zone z b" and "\<forall>c \<in> set bs. apart c b"
  shows "alloc_inv al' (bs @ [b])"
proof -
  have zone: "\<forall>b \<in> set bs. \<exists>z \<in> set (zones al). in_zone z b" and sorted: "sorted_wrt apart bs"
    using assms(1) by (simp_all add: alloc_inv_def)
  have old: "\<exists>z' \<in> set (zones al'). in_zone z' c" if c: "c \<in> set bs" for c
  proof -
    obtain z where z: "z \<in> set (zones al)" "in_zone z c" using zone c by blast
    with assms(4) obtain z' where z': "z' \<in> set (zones al')" "zone_id z' = zone_id z" "used z \<le> used z'" by blast
    then have "in_zone z' c" using z(2) by (cases c) (auto simp: in_zone_def)
    with z'(1) show ?thesis ..
  qed
  have "\<forall>c \<in> set (bs @ [b]). \<exists>z' \<in> set (zones al'). in_zone z' c" using old assms(5,6) by auto
  moreover have "sorted_wrt apart (bs @ [b])" using sorted assms(7) by (simp add: sorted_wrt_append)
  ultimately show ?thesis using assms(2,3) by (simp add: alloc_inv_def)
qed

lemma new_zone_inv:
  assumes "alloc_inv al bs" and "new_zone malloc sz al = (Some a, al')" and "n \<le> sz"
  shows "alloc_inv al' (bs @ [(a, n)])"
proof (rule alloc_inv_snoc [OF assms(1)])
  let ?z = "\<lparr>zone_id = mallocs al, used = sizeof_Zone + sz,
    zone_size = (if sizeof_Zone + sz \<le> JSON_ZONE_SIZE then JSON_ZONE_SIZE else sizeof_Zone + sz)\<rparr>"
  have a: "a = (mallocs al, sizeof_Zone)" and al: "mallocs al' = Suc (mallocs al)"
    and zs: "zones al' = ?z # zones al \<or> zones al \<noteq> [] \<and> zones al' = hd (zones al) # ?z # tl (zones al)"
    using assms(2) by (auto simp: new_zone_def Let_def split: if_splits)
  have set: "set (zones al') = insert ?z (set (zones al))" using zs by (cases "zones al") auto
  have ids: "distinct (map zone_id (zones al))" "\<forall>z \<in> set (zones al). zone_id z < mallocs al"
    using assms(1) by (auto simp: alloc_inv_def)
  then have new: "mallocs al \<notin> zone_id ` set (zones al)" by auto
  then show "distinct (map zone_id (zones al'))" using zs ids(1) by (cases "zones al") auto
  show "\<forall>z \<in> set (zones al'). zone_id z < mallocs al' \<and> sizeof_Zone \<le> used z \<and> used z \<le> zone_size z \<and> JSON_ZONE_SIZE \<le> zone_size z"
    using assms(1) al set by (auto simp: alloc_inv_def)
  show "\<forall>z \<in> set (zones al). \<exists>z' \<in> set (zones al'). zone_id z' = zone_id z \<and> used z \<le> used z'"
    using set by auto
  show "?z \<in> set (zones al')" using set by simp
  show "in_zone ?z (a, n)" using a assms(3) by (simp add: in_zone_def)
  show "\<forall>c \<in> set bs. apart c (a, n)"
  proof
    fix c assume "c \<in> set bs"
    then obtain z where "z \<in> set (zones al)" "in_zone z c" using assms(1) by (auto simp: alloc_inv_def)
    with ids(2) a show "apart c (a, n)" by (auto simp: apart_def in_zone_def split: prod.splits)
  qed
qed

lemma allocate_inv:
  assumes "alloc_inv al bs" and "allocate malloc n al = (Some a, al')"
  shows "alloc_inv al' (bs @ [(a, n)])"
proof -
  let ?sz = "(n + 7) div 8 * 8"
  have n: "n \<le> ?sz" by linarith
  show ?thesis
  proof (cases "\<exists>z zs. zones al = z # zs \<and> used z + ?sz \<le> JSON_ZONE_SIZE")
    case False
    then have "new_zone malloc ?sz al = (Some a, al')"
      using assms(2) by (auto simp: allocate_def Let_def split: list.splits if_splits)
    from new_zone_inv [OF assms(1) this n] show ?thesis .
  next
    case True
    then obtain z zs where z: "zones al = z # zs" "used z + ?sz \<le> JSON_ZONE_SIZE" by blast
    then have a: "a = (zone_id z, used z)" and al: "al' = al\<lparr>zones := z\<lparr>used := used z + ?sz\<rparr> # zs\<rparr>"
      using assms(2) by (auto simp: allocate_def Let_def)
    have inv: "distinct (zone_id z # map zone_id zs)" "\<forall>z \<in> set (zones al). sizeof_Zone \<le> used z"
      "\<forall>b \<in> set bs. \<exists>z \<in> set (zones al). in_zone z b"
      using assms(1) z(1) by (auto simp: alloc_inv_def)
    show ?thesis
    proof (rule alloc_inv_snoc [OF assms(1)])
      show "\<forall>c \<in> set bs. apart c (a, n)"
      proof
        fix c assume "c \<in> set bs"
        then obtain y where "y \<in> set (z # zs)" "in_zone y c" using inv(3) z(1) by auto
        moreover have "zone_id y \<noteq> zone_id z" if "y \<in> set zs" using inv(1) that by (metis distinct.simps(2) image_eqI set_map)
        ultimately show "apart c (a, n)" using a by (auto simp: apart_def in_zone_def split: prod.splits)
      qed
      show "\<forall>z \<in> set (zones al'). zone_id z < mallocs al' \<and> sizeof_Zone \<le> used z \<and> used z \<le> zone_size z \<and> JSON_ZONE_SIZE \<le> zone_size z"
        using assms(1) z al by (auto simp: alloc_inv_def)
    qed (use inv z a al n in \<open>auto simp: in_zone_def\<close>)
  qed
qed

text \<open>A sequence of allocations; those that fail give no block.\<close>

fun allocate_all :: "(nat \<Rightarrow> bool) \<Rightarrow> nat list \<Rightarrow> allocator \<Rightarrow> block list \<times> allocator" where
  "allocate_all malloc [] al = ([], al)"
| "allocate_all malloc (n # ns) al =
     (let (a, al) = allocate malloc n al; (bs, al) = allocate_all malloc ns al
      in ((case a of None \<Rightarrow> bs | Some a \<Rightarrow> (a, n) # bs), al))"

lemma allocate_fails: "alloc_inv al bs \<Longrightarrow> allocate malloc n al = (None, al') \<Longrightarrow> alloc_inv al' bs"
  by (auto simp: allocate_def new_zone_def alloc_inv_def Let_def less_SucI split: list.splits if_splits)

lemma allocate_all_inv:
  "alloc_inv al bs \<Longrightarrow> allocate_all malloc ns al = (cs, al') \<Longrightarrow> alloc_inv al' (bs @ cs)"
proof (induction malloc ns al arbitrary: bs cs rule: allocate_all.induct)
  case (2 malloc n ns al)
  obtain a al1 where a: "allocate malloc n al = (a, al1)" by fastforce
  obtain ds al2 where ds: "allocate_all malloc ns al1 = (ds, al2)" by fastforce
  have al2: "al2 = al'" using "2.prems"(2) a ds by (cases a) auto
  note IH = "2.IH" [OF a [symmetric] refl, OF _ ds [unfolded al2]]
  show ?case
  proof (cases a)
    case None
    from IH [OF allocate_fails [OF "2.prems"(1) a [unfolded None]]] None a ds "2.prems"(2) show ?thesis by simp
  next
    case (Some x)
    from IH [OF allocate_inv [OF "2.prems"(1) a [unfolded Some]]] Some a ds "2.prems"(2) show ?thesis by auto
  qed
qed simp

lemma free_zones_ids: "free_zones zs = map zone_id zs"
  by (induction zs) simp_all

text \<open>C21: The blocks that the allocator of the JSON parser gives out, for any sequence of sizes and
  whichever calls of \<open>malloc\<close> fail, do not overlap each other, do not touch the header of their zone
  and end within the memory that \<open>malloc\<close> returned for it; \<open>deallocate\<close> frees the memory of every
  zone, each once, and leaves none.\<close>

theorem json_blocks_disjoint:
  assumes "allocate_all malloc sizes \<lparr>zones = [], mallocs = 0\<rparr> = (bs, al)"
  shows "sorted_wrt apart bs \<and> (\<forall>b \<in> set bs. \<exists>z \<in> set (zones al). in_zone z b \<and> used z \<le> zone_size z)
    \<and> (case deallocate al of (freed, al') \<Rightarrow> zones al' = [] \<and> distinct freed \<and> (\<forall>((i, off), n) \<in> set bs. i \<in> set freed))"
proof -
  have "alloc_inv \<lparr>zones = [], mallocs = 0\<rparr> []" by (simp add: alloc_inv_def)
  from allocate_all_inv [OF this assms] have inv: "alloc_inv al bs" by simp
  then have zone: "\<forall>b \<in> set bs. \<exists>z \<in> set (zones al). in_zone z b" by (simp add: alloc_inv_def)
  have "i \<in> zone_id ` set (zones al)" if "((i, off), n) \<in> set bs" for i off n
    using zone that unfolding in_zone_def by fastforce
  with inv show ?thesis by (auto simp: alloc_inv_def deallocate_def free_zones_ids)
qed

theorem json_blocks_disjoint_witness:
  "\<exists>bs al. allocate_all (\<lambda>_. True) [24, 16, 5000, 24] \<lparr>zones = [], mallocs = 0\<rparr> = (bs, al) \<and> length bs = 4
    \<and> sorted_wrt apart bs"
proof -
  obtain bs al where r: "allocate_all (\<lambda>_. True) [24, 16, 5000, 24] \<lparr>zones = [], mallocs = 0\<rparr> = (bs, al)" by fastforce
  moreover have "length (fst (allocate_all (\<lambda>_. True) [24, 16, 5000, 24] \<lparr>zones = [], mallocs = 0\<rparr>)) = 4"
    by (simp add: allocate_def new_zone_def JSON_ZONE_SIZE_def sizeof_Zone_def Let_def)
  ultimately show ?thesis using json_blocks_disjoint [OF r] by simp
qed

end
