(* ===== verification/JsonRep.thy ===== *)
theory JsonRep
  imports JsonAlloc
begin

text \<open>
  The parser of \<open>core/gason.cpp\<close> computes what the parser on trees computes. Completed nodes are
  never changed again: they form a closed part of the heap; the nodes of every open array or object
  form a ring of its own.
\<close>

section \<open>What the memory represents\<close>

definition string_at :: "byte list \<Rightarrow> nat \<Rightarrow> nat \<Rightarrow> byte list \<Rightarrow> bool" where
  "string_at m b q str \<longleftrightarrow> 0 \<notin> set str \<and> q + length str \<le> b \<and> slice m q (length str + 1) = str @ [0]"

fun path :: "heap \<Rightarrow> addr option \<Rightarrow> addr list \<Rightarrow> addr option \<Rightarrow> bool" where
  "path h x [] y \<longleftrightarrow> x = y"
| "path h x (a # as) y \<longleftrightarrow> x = Some a \<and> (\<exists>nd. h a = Some nd \<and> path h (node_next nd) as y)"

inductive rep :: "heap \<Rightarrow> byte list \<Rightarrow> nat \<Rightarrow> json_value \<Rightarrow> json \<Rightarrow> bool" for h m b where
  num: "rep h m b (Number x) (JNum x)"
| str: "string_at m b q s \<Longrightarrow> rep h m b (Str q) (JStr s)"
| arr: "path h a as None \<Longrightarrow> list_all2 (\<lambda>n v. \<exists>nd. h n = Some nd \<and> rep h m b (node_value nd) v) as vs
    \<Longrightarrow> rep h m b (Array a) (JArr vs)"
| obj: "path h a as None \<Longrightarrow> list_all2 (\<lambda>n kv. \<exists>nd q. h n = Some nd \<and> node_key nd = Some q
      \<and> string_at m b q (fst kv) \<and> rep h m b (node_value nd) (snd kv)) as kvs
    \<Longrightarrow> rep h m b (Object a) (JObj kvs)"
| true: "rep h m b TrueV JTrue"
| false: "rep h m b FalseV JFalse"
| null: "rep h m b NullV JNull"

inductive_simps rep_simps:
  "rep h m b (Number x) t" "rep h m b (Str q) t" "rep h m b (Array a) t" "rep h m b (Object a) t"
  "rep h m b TrueV t" "rep h m b FalseV t" "rep h m b NullV t"
inductive_cases rep_strE: "rep h m b v (JStr s)"

section \<open>Framing\<close>

text \<open>The nodes a value points to, and a part of the heap without pointers out of it.\<close>

primrec heads :: "json_value \<Rightarrow> addr set" where
  "heads (Number x) = {}"
| "heads (Str q) = {}"
| "heads (Array a) = set_option a"
| "heads (Object a) = set_option a"
| "heads TrueV = {}"
| "heads FalseV = {}"
| "heads NullV = {}"

definition closed :: "heap \<Rightarrow> addr set \<Rightarrow> bool" where
  "closed h C \<longleftrightarrow> (\<forall>n \<in> C. \<exists>nd. h n = Some nd \<and> set_option (node_next nd) \<subseteq> C \<and> heads (node_value nd) \<subseteq> C)"

lemma closed_node: "closed h C \<Longrightarrow> n \<in> C \<Longrightarrow> h n = Some nd \<Longrightarrow> set_option (node_next nd) \<subseteq> C \<and> heads (node_value nd) \<subseteq> C"
  unfolding closed_def by fastforce

lemma path_closed: "path h x as y \<Longrightarrow> closed h C \<Longrightarrow> set_option x \<subseteq> C \<Longrightarrow> set as \<subseteq> C"
proof (induction h x as y rule: path.induct)
  case (2 h x a as y)
  then obtain nd where nd: "x = Some a" "h a = Some nd" "path h (node_next nd) as y" by auto
  with "2.prems" have "set_option (node_next nd) \<subseteq> C" using closed_node by auto
  with "2.IH" nd "2.prems" show ?case by auto
qed simp

lemma path_agree: "path h x as y \<Longrightarrow> (\<And>n. n \<in> set as \<Longrightarrow> h' n = h n) \<Longrightarrow> path h' x as y"
  by (induction h x as y rule: path.induct) auto

lemma string_at_mono:
  assumes "string_at m b q str" and "take (Suc b) m' = take (Suc b) m" and "b \<le> b'"
  shows "string_at m' b' q str"
proof -
  have "slice m' q (length str + 1) = slice m q (length str + 1)"
  proof -
    have "q + (length str + 1) \<le> Suc b" using assms(1) by (simp add: string_at_def)
    then have "take (q + (length str + 1)) (take (Suc b) m') = take (q + (length str + 1)) m'"
      "take (q + (length str + 1)) (take (Suc b) m) = take (q + (length str + 1)) m" by (simp_all add: min_def)
    then have "take (q + (length str + 1)) m' = take (q + (length str + 1)) m" using assms(2) by metis
    then show ?thesis by (simp add: slice_def take_drop add.commute)
  qed
  with assms show ?thesis by (auto simp: string_at_def)
qed

lemma rep_mono:
  assumes "rep h m b v t" and "heads v \<subseteq> C" and "closed h C" and "\<And>n. n \<in> C \<Longrightarrow> h' n = h n"
    and "take (Suc b) m' = take (Suc b) m" and "b \<le> b'"
  shows "rep h' m' b' v t"
  using assms(1,2)
proof (induction rule: rep.induct)
  case (str q s)
  then show ?case using string_at_mono [OF _ assms(5,6)] by (auto intro: rep.str)
next
  case (arr a as vs)
  have C: "set as \<subseteq> C" using path_closed [OF arr(1) assms(3)] arr.prems by simp
  have "path h' a as None" using path_agree [OF arr(1)] C assms(4) by blast
  moreover have "list_all2 (\<lambda>n v. \<exists>nd. h' n = Some nd \<and> rep h' m' b' (node_value nd) v) as vs"
    using arr(2)
  proof (rule list.rel_mono_strong)
    fix n v assume n: "n \<in> set as"
      and "\<exists>nd. h n = Some nd \<and> rep h m b (node_value nd) v \<and> (heads (node_value nd) \<subseteq> C \<longrightarrow> rep h' m' b' (node_value nd) v)"
    then obtain nd where "h n = Some nd" "heads (node_value nd) \<subseteq> C \<longrightarrow> rep h' m' b' (node_value nd) v" by blast
    moreover have "n \<in> C" using n C by blast
    ultimately have "h' n = Some nd" "rep h' m' b' (node_value nd) v" using closed_node [OF assms(3)] assms(4) by simp_all
    then show "\<exists>nd. h' n = Some nd \<and> rep h' m' b' (node_value nd) v" by blast
  qed
  ultimately show ?case by (rule rep.arr)
next
  case (obj a as kvs)
  have C: "set as \<subseteq> C" using path_closed [OF obj(1) assms(3)] obj.prems by simp
  have "path h' a as None" using path_agree [OF obj(1)] C assms(4) by blast
  moreover have "list_all2 (\<lambda>n kv. \<exists>nd q. h' n = Some nd \<and> node_key nd = Some q \<and> string_at m' b' q (fst kv)
      \<and> rep h' m' b' (node_value nd) (snd kv)) as kvs"
    using obj(2)
  proof (rule list.rel_mono_strong)
    fix n kv assume n: "n \<in> set as"
      and "\<exists>nd q. h n = Some nd \<and> node_key nd = Some q \<and> string_at m b q (fst kv) \<and> rep h m b (node_value nd) (snd kv)
        \<and> (heads (node_value nd) \<subseteq> C \<longrightarrow> rep h' m' b' (node_value nd) (snd kv))"
    then obtain nd q where nd: "h n = Some nd" "node_key nd = Some q" "string_at m b q (fst kv)"
      "heads (node_value nd) \<subseteq> C \<longrightarrow> rep h' m' b' (node_value nd) (snd kv)" by blast
    moreover have "n \<in> C" using n C by blast
    ultimately have "h' n = Some nd" "rep h' m' b' (node_value nd) (snd kv)" using closed_node [OF assms(3)] assms(4) by simp_all
    with nd(2) string_at_mono [OF nd(3) assms(5,6)]
    show "\<exists>nd q. h' n = Some nd \<and> node_key nd = Some q \<and> string_at m' b' q (fst kv) \<and> rep h' m' b' (node_value nd) (snd kv)"
      by blast
  qed
  ultimately show ?case by (rule rep.obj)
qed (auto intro: rep.intros)

section \<open>Rings\<close>

text \<open>The list of an open array or object is circular; \<open>tail\<close> is its last node.\<close>

definition ring :: "heap \<Rightarrow> addr option \<Rightarrow> addr list \<Rightarrow> bool" where
  "ring h tail as \<longleftrightarrow> (if as = [] then tail = None
     else tail = Some (last as) \<and> path h (Some (hd as)) as (Some (hd as)))"

lemma path_append: "path h x (as @ bs) y \<longleftrightarrow> (\<exists>z. path h x as z \<and> path h z bs y)"
  by (induction h x as y rule: path.induct) auto

lemma path_allocated: "path h x as y \<Longrightarrow> n \<in> set as \<Longrightarrow> h n \<noteq> None"
  by (induction h x as y rule: path.induct) auto

lemma path_next_cong:
  "path h x as y \<Longrightarrow> (\<And>n. n \<in> set as \<Longrightarrow> map_option node_next (h' n) = map_option node_next (h n)) \<Longrightarrow> path h' x as y"
proof (induction h x as y rule: path.induct)
  case (2 h x a as y)
  then obtain nd where nd: "x = Some a" "h a = Some nd" "path h (node_next nd) as y" by auto
  moreover obtain nd' where "h' a = Some nd'" "node_next nd' = node_next nd" using "2.prems"(2) [of a] nd(2) by auto
  ultimately show ?case using "2.IH" "2.prems"(2) by auto
qed simp

lemma path_nexts:
  "path h x as y \<Longrightarrow> n \<in> set as \<Longrightarrow> \<exists>nd. h n = Some nd \<and> set_option (node_next nd) \<subseteq> set as \<union> set_option y"
proof (induction h x as y rule: path.induct)
  case (2 h x a as y)
  then obtain nd where nd: "h a = Some nd" "path h (node_next nd) as y" by auto
  have "set_option (node_next nd) \<subseteq> set as \<union> set_option y" using nd(2) by (cases as) auto
  with 2 nd show ?case by fastforce
qed simp

text \<open>Two heaps whose nodes differ at most in their successors.\<close>

definition same_nodes :: "heap \<Rightarrow> heap \<Rightarrow> bool" where
  "same_nodes h h' \<longleftrightarrow> (\<forall>n. map_option node_value (h' n) = map_option node_value (h n)
     \<and> map_option node_key (h' n) = map_option node_key (h n))"

lemma same_nodesD: "same_nodes h h' \<Longrightarrow> map_option node_value (h' n) = map_option node_value (h n)"
  "same_nodes h h' \<Longrightarrow> map_option node_key (h' n) = map_option node_key (h n)"
  unfolding same_nodes_def by blast+

lemma ring_insert:
  assumes "ring h tail as" and "distinct as" and "n \<notin> set as" and "h n = Some nd"
  obtains h' where "insertAfter tail n h = Some h'" and "ring h' (Some n) (as @ [n])" and "same_nodes h h'"
    and "\<And>x. x \<noteq> n \<Longrightarrow> x \<notin> set as \<Longrightarrow> h' x = h x"
proof (cases as rule: rev_cases)
  case Nil
  let ?h = "h(n \<mapsto> nd\<lparr>node_next := Some n\<rparr>)"
  have "insertAfter tail n h = Some ?h" "ring ?h (Some n) (as @ [n])" "same_nodes h ?h" "\<And>x. x \<noteq> n \<Longrightarrow> ?h x = h x"
    using assms Nil by (simp_all add: ring_def insertAfter_def same_nodes_def)
  with that show thesis by blast
next
  case (snoc bs t)
  let ?a = "hd as"
  have tail: "tail = Some t" and p: "path h (Some ?a) (bs @ [t]) (Some ?a)" using assms(1) snoc by (simp_all add: ring_def)
  then obtain nt where nt: "path h (Some ?a) bs (Some t)" "h t = Some nt" "node_next nt = Some ?a"
    by (auto simp: path_append)
  have ne: "n \<noteq> t" "t \<notin> set bs" "n \<notin> set bs" using assms(2,3) snoc by auto
  let ?h = "h(n \<mapsto> nd\<lparr>node_next := node_next nt\<rparr>, t \<mapsto> nt\<lparr>node_next := Some n\<rparr>)"
  have "path ?h (Some ?a) bs (Some t)" using path_agree [OF nt(1), of ?h] ne by (metis fun_upd_apply)
  then have "path ?h (Some ?a) (bs @ [t] @ [n]) (Some ?a)" using nt ne by (simp add: path_append)
  moreover have "hd (as @ [n]) = ?a" using snoc by (cases bs) simp_all
  ultimately have "ring ?h (Some n) (as @ [n])" using snoc by (simp add: ring_def)
  moreover have "insertAfter tail n h = Some ?h" using tail assms(4) nt(2) by (simp add: insertAfter_def)
  moreover have "same_nodes h ?h" using assms(4) nt(2) ne by (auto simp: same_nodes_def)
  moreover have "x \<noteq> n \<Longrightarrow> x \<notin> set as \<Longrightarrow> ?h x = h x" for x using snoc by auto
  ultimately show thesis using that by blast
qed

lemma ring_close:
  assumes "ring h tail as" and "distinct as"
  obtains a h' where "listToValue con tail h = Some (con a, h')" and "path h' a as None" and "same_nodes h h'"
    and "set_option a \<subseteq> set as" and "\<And>x. x \<notin> set as \<Longrightarrow> h' x = h x"
proof (cases as rule: rev_cases)
  case Nil
  with assms have "listToValue con tail h = Some (con None, h)" by (simp add: ring_def listToValue_def)
  with that [of None h] Nil show thesis by (simp add: same_nodes_def)
next
  case (snoc bs t)
  let ?a = "hd as"
  have tail: "tail = Some t" and p: "path h (Some ?a) (bs @ [t]) (Some ?a)" using assms(1) snoc by (simp_all add: ring_def)
  then obtain nt where nt: "path h (Some ?a) bs (Some t)" "h t = Some nt" "node_next nt = Some ?a"
    by (auto simp: path_append)
  have ne: "t \<notin> set bs" using assms(2) snoc by auto
  let ?h = "h(t \<mapsto> nt\<lparr>node_next := None\<rparr>)"
  have "path ?h (Some ?a) bs (Some t)" using path_agree [OF nt(1), of ?h] ne by (metis fun_upd_apply)
  then have "path ?h (Some ?a) as None" using snoc by (simp add: path_append)
  moreover have "listToValue con tail h = Some (con (Some ?a), ?h)" using tail nt by (simp add: listToValue_def)
  moreover have "same_nodes h ?h" using nt(2) by (auto simp: same_nodes_def)
  moreover have "set_option (Some ?a) \<subseteq> set as" using snoc by (cases bs) simp_all
  moreover have "x \<notin> set as \<Longrightarrow> ?h x = h x" for x using snoc by auto
  ultimately show thesis using that by blast
qed

section \<open>Open arrays and objects\<close>

definition child :: "heap \<Rightarrow> byte list \<Rightarrow> nat \<Rightarrow> addr set \<Rightarrow> addr \<Rightarrow> json \<Rightarrow> bool" where
  "child h m b C n v \<longleftrightarrow> (\<exists>nd. h n = Some nd \<and> rep h m b (node_value nd) v \<and> heads (node_value nd) \<subseteq> C)"

definition member :: "heap \<Rightarrow> byte list \<Rightarrow> nat \<Rightarrow> addr set \<Rightarrow> addr \<Rightarrow> byte list \<times> json \<Rightarrow> bool" where
  "member h m b C n kv \<longleftrightarrow> child h m b C n (snd kv)
     \<and> (\<exists>nd q. h n = Some nd \<and> node_key nd = Some q \<and> string_at m b q (fst kv))"

definition frame_ok :: "heap \<Rightarrow> byte list \<Rightarrow> nat \<Rightarrow> addr set \<Rightarrow> json_frame \<Rightarrow> sframe \<Rightarrow> addr list \<Rightarrow> bool" where
  "frame_ok h m b C f sf as \<longleftrightarrow> ring h (f_tail f) as \<and> (case sf of
     SArr vs \<Rightarrow> f_tag f = JSON_ARRAY \<and> f_key f = None \<and> list_all2 (child h m b C) as vs
   | SObj kvs k \<Rightarrow> f_tag f = JSON_OBJECT \<and> rel_option (string_at m b) (f_key f) k \<and> list_all2 (member h m b C) as kvs)"

fun frames_ok :: "heap \<Rightarrow> byte list \<Rightarrow> nat \<Rightarrow> addr set \<Rightarrow> json_frame list \<Rightarrow> sframe list \<Rightarrow> addr list list \<Rightarrow> bool" where
  "frames_ok h m b C [] [] [] = True"
| "frames_ok h m b C (f # fs) (sf # sfs) (as # ass) = (frame_ok h m b C f sf as \<and> frames_ok h m b C fs sfs ass)"
| "frames_ok h m b C _ _ _ = False"

text \<open>What a step keeps of the state it does not touch.\<close>

definition extends :: "heap \<Rightarrow> byte list \<Rightarrow> nat \<Rightarrow> addr set \<Rightarrow> heap \<Rightarrow> byte list \<Rightarrow> nat \<Rightarrow> addr set \<Rightarrow> bool" where
  "extends h m b C h' m' b' C' \<longleftrightarrow> closed h C \<and> (\<forall>n \<in> C. h' n = h n) \<and> take (Suc b) m' = take (Suc b) m \<and> b \<le> b' \<and> C \<subseteq> C'"

lemma extends_rep: "extends h m b C h' m' b' C' \<Longrightarrow> rep h m b v t \<Longrightarrow> heads v \<subseteq> C \<Longrightarrow> rep h' m' b' v t"
  by (auto simp: extends_def intro: rep_mono)

lemma extends_string: "extends h m b C h' m' b' C' \<Longrightarrow> string_at m b q s \<Longrightarrow> string_at m' b' q s"
  by (auto simp: extends_def intro: string_at_mono)

lemma child_mono:
  assumes "extends h m b C h' m' b' C'" and "child h m b C n v" and "map_option node_value (h' n) = map_option node_value (h n)"
  shows "child h' m' b' C' n v"
proof -
  obtain nd where nd: "h n = Some nd" "rep h m b (node_value nd) v" "heads (node_value nd) \<subseteq> C"
    using assms(2) by (auto simp: child_def)
  obtain nd' where nd': "h' n = Some nd'" "node_value nd' = node_value nd" using assms(3) nd(1) by auto
  have "heads (node_value nd) \<subseteq> C'" using nd(3) assms(1) by (auto simp: extends_def)
  with extends_rep [OF assms(1) nd(2,3)] nd' show ?thesis by (auto simp: child_def)
qed

lemma member_mono:
  assumes "extends h m b C h' m' b' C'" and "member h m b C n kv" and "map_option node_value (h' n) = map_option node_value (h n)"
    and "map_option node_key (h' n) = map_option node_key (h n)"
  shows "member h' m' b' C' n kv"
proof -
  obtain nd q where nd: "h n = Some nd" "node_key nd = Some q" "string_at m b q (fst kv)" and c: "child h m b C n (snd kv)"
    using assms(2) by (auto simp: member_def)
  moreover obtain nd' where "h' n = Some nd'" "node_key nd' = node_key nd" using assms(4) nd(1) by auto
  ultimately show ?thesis using child_mono [OF assms(1) c assms(3)] extends_string [OF assms(1) nd(3)] by (auto simp: member_def)
qed

lemma frame_mono:
  assumes "extends h m b C h' m' b' C'" and "frame_ok h m b C f sf as" and "\<And>n. n \<in> set as \<Longrightarrow> h' n = h n"
  shows "frame_ok h' m' b' C' f sf as"
proof -
  have "ring h' (f_tail f) as" using assms(2,3) path_agree by (auto simp: frame_ok_def ring_def)
  moreover have "list_all2 (child h' m' b' C') as vs" if "list_all2 (child h m b C) as vs" for vs
    by (rule list.rel_mono_strong [OF that]) (simp add: child_mono [OF assms(1)] assms(3))
  moreover have "list_all2 (member h' m' b' C') as kvs" if "list_all2 (member h m b C) as kvs" for kvs
    by (rule list.rel_mono_strong [OF that]) (simp add: member_mono [OF assms(1)] assms(3))
  moreover have "rel_option (string_at m' b') k k'" if "rel_option (string_at m b) k k'" for k k'
    using that extends_string [OF assms(1)] by (auto elim: option.rel_mono_strong)
  ultimately show ?thesis using assms(2) by (auto simp: frame_ok_def split: sframe.splits)
qed

lemma frames_mono:
  assumes "extends h m b C h' m' b' C'" and "frames_ok h m b C fs sfs ass" and "\<And>n. n \<in> set (concat ass) \<Longrightarrow> h' n = h n"
  shows "frames_ok h' m' b' C' fs sfs ass"
  using assms
proof (induction h m b C fs sfs ass rule: frames_ok.induct)
  case (2 h m b C f fs sf sfs as ass)
  then have "frame_ok h' m' b' C' f sf as" using frame_mono [OF "2.prems"(1), of f sf as] by simp
  moreover have "frames_ok h' m' b' C' fs sfs ass" using "2.IH" [OF "2.prems"(1)] "2.prems"(2,3) by simp
  ultimately show ?case by simp
qed simp_all

section \<open>States\<close>

definition heap_ok :: "json_parser \<Rightarrow> addr set \<Rightarrow> sframe list \<Rightarrow> addr list list \<Rightarrow> bool" where
  "heap_ok p C sfs ass \<longleftrightarrow> frames_ok (json_heap p) (json_mem p) (cur p) C (stack p) sfs ass
     \<and> distinct (concat ass) \<and> C \<inter> set (concat ass) = {} \<and> closed (json_heap p) C
     \<and> (\<exists>bs. alloc_inv (json_alloc p) bs \<and> (\<forall>n. json_heap p n \<noteq> None \<longrightarrow> (\<exists>k > 0. (n, k) \<in> set bs)))"

definition related :: "json_parser \<Rightarrow> sframe list \<Rightarrow> bool \<Rightarrow> byte list \<Rightarrow> bool" where
  "related p sfs sep xs \<longleftrightarrow> cur p \<le> length (json_mem p) \<and> drop (cur p) (json_mem p) = xs \<and> separator p = sep
     \<and> (\<exists>C ass. heap_ok p C sfs ass)"

lemma relatedI:
  "heap_ok p C sfs ass \<Longrightarrow> cur p \<le> length (json_mem p) \<Longrightarrow> drop (cur p) (json_mem p) = xs \<Longrightarrow> separator p = sep \<Longrightarrow> related p sfs sep xs"
  unfolding related_def by blast

lemma list_all2_left: "list_all2 P xs ys \<Longrightarrow> x \<in> set xs \<Longrightarrow> \<exists>y. P x y"
  by (induction rule: list_all2_induct) auto

definition represents :: "json_parser \<Rightarrow> json \<Rightarrow> bool" where
  "represents p t \<longleftrightarrow> rep (json_heap p) (json_mem p) (length (json_mem p)) (parsed_value p) t"

definition sim_step :: "step_result \<Rightarrow> s_result \<Rightarrow> bool" where
  "sim_step r sr \<longleftrightarrow> (case r of
     Next p \<Rightarrow> (\<exists>sfs sep xs. sr = SNext sfs sep xs \<and> related p sfs sep xs)
   | Done e p \<Rightarrow> e = JSON_ALLOCATION_FAILURE \<or> (\<exists>t. sr = SDone e t \<and> (e = JSON_OK \<longrightarrow> represents p t)))"

lemma sim_step_simps [simp]:
  "sim_step (Next p) (SNext sfs sep xs) = related p sfs sep xs" "\<not> sim_step (Next p) (SDone e' t)"
  "sim_step (Done e p) (SDone e' t) = (e = JSON_ALLOCATION_FAILURE \<or> e' = e \<and> (e = JSON_OK \<longrightarrow> represents p t))"
  by (auto simp: sim_step_def)

definition sim :: "step_result option \<Rightarrow> s_result option \<Rightarrow> bool" where
  "sim r sr \<longleftrightarrow> (case r of None \<Rightarrow> sr = None | Some r \<Rightarrow> (\<exists>p. r = Done JSON_ALLOCATION_FAILURE p) \<or> (\<exists>s. sr = Some s \<and> sim_step r s))"

lemma sim_simps [simp]:
  "sim None sr = (sr = None)"
  "sim (Some r) (Some s) = ((\<exists>p. r = Done JSON_ALLOCATION_FAILURE p) \<or> sim_step r s)"
  by (auto simp: sim_def)

lemma frames_length: "frames_ok h m b C fs sfs ass \<Longrightarrow> length fs = length sfs"
  by (induction h m b C fs sfs ass rule: frames_ok.induct) simp_all

lemma heap_ok_moves:
  assumes "heap_ok p C sfs ass" and "json_heap p' = json_heap p" and "json_alloc p' = json_alloc p" and "stack p' = stack p"
    and "take (Suc (cur p)) (json_mem p') = take (Suc (cur p)) (json_mem p)" and "cur p \<le> cur p'"
  shows "heap_ok p' C sfs ass"
proof -
  have "extends (json_heap p) (json_mem p) (cur p) C (json_heap p') (json_mem p') (cur p') C"
    using assms by (auto simp: extends_def heap_ok_def)
  from frames_mono [OF this] assms show ?thesis by (auto simp: heap_ok_def)
qed

text \<open>A completed value is added to the innermost open array or object.\<close>

lemma fresh_node:
  assumes "alloc_inv al bs" and "allocate malloc n al = (Some a, al')" and "0 < n" and "(x, k) \<in> set bs" and "0 < k"
  shows "x \<noteq> a"
proof -
  have "sorted_wrt apart (bs @ [(a, n)])" using allocate_inv [OF assms(1,2)] by (simp add: alloc_inv_def)
  then have "apart (x, k) (a, n)" using assms(4) by (auto simp: sorted_wrt_append)
  with assms(3,5) show ?thesis by (auto simp: apart_def split: prod.splits)
qed

lemma frames_Cons:
  assumes "frames_ok h m b C (f # fs) sfs ass"
  obtains sf sfs' as ass' where "sfs = sf # sfs'" and "ass = as # ass'" and "frame_ok h m b C f sf as" and "frames_ok h m b C fs sfs' ass'"
  using assms by (cases sfs; cases ass) auto

lemma frames_Nil: "frames_ok h m b C [] sfs ass \<longleftrightarrow> sfs = [] \<and> ass = []"
  by (cases sfs; cases ass) auto

lemma frame_allocated: "frame_ok h m b C f sf as \<Longrightarrow> x \<in> set as \<Longrightarrow> h x \<noteq> None"
  using path_allocated [of h _ as _ x] by (auto simp: frame_ok_def ring_def split: if_splits)

lemma frames_allocated: "frames_ok h m b C fs sfs ass \<Longrightarrow> x \<in> set (concat ass) \<Longrightarrow> h x \<noteq> None"
proof (induction h m b C fs sfs ass rule: frames_ok.induct)
  case (2 h m b C f fs sf sfs as ass)
  then show ?case using frame_allocated [of h m b C f sf as x] by auto
qed simp_all

text \<open>The new node is put at the end of the ring and filled.\<close>

lemma ring_agree: "ring h tail as \<Longrightarrow> \<forall>n \<in> set as. h' n = h n \<Longrightarrow> ring h' tail as"
  unfolding ring_def using path_agree by metis

lemma ring_extend:
  assumes "ring h tail as" and "distinct as" and "h n = None"
  obtains h' nd where "insertAfter tail n (h(n \<mapsto> blank_node)) = Some h'" and "h' n = Some nd"
    and "ring (h'(n \<mapsto> nd\<lparr>node_key := k nd, node_value := v\<rparr>)) (Some n) (as @ [n])"
    and "\<And>x. x \<noteq> n \<Longrightarrow> x \<notin> set as \<Longrightarrow> h' x = h x"
    and "\<And>x. x \<noteq> n \<Longrightarrow> map_option node_value (h' x) = map_option node_value (h x) \<and> map_option node_key (h' x) = map_option node_key (h x)"
proof -
  have n: "n \<notin> set as" using assms(1,3) path_allocated [of h _ as _ n] by (auto simp: ring_def split: if_splits)
  let ?h = "h(n \<mapsto> blank_node)"
  have "ring ?h tail as" using ring_agree [OF assms(1), of ?h] n by auto
  from ring_insert [OF this assms(2) n, of blank_node] obtain h' where h': "insertAfter tail n ?h = Some h'"
    "ring h' (Some n) (as @ [n])" "same_nodes ?h h'" "\<And>x. x \<noteq> n \<Longrightarrow> x \<notin> set as \<Longrightarrow> h' x = ?h x" by auto
  have "map_option node_value (h' n) = map_option node_value (?h n)" using h'(3) unfolding same_nodes_def by blast
  then obtain nd where nd: "h' n = Some nd" by auto
  let ?H = "h'(n \<mapsto> nd\<lparr>node_key := k nd, node_value := v\<rparr>)"
  have "path ?H (Some (hd (as @ [n]))) (as @ [n]) (Some (hd (as @ [n])))"
    by (rule path_next_cong [of h']) (use h'(2) nd in \<open>simp_all add: ring_def\<close>)
  then have "ring ?H (Some n) (as @ [n])" by (simp add: ring_def)
  moreover have "map_option node_value (h' x) = map_option node_value (h x) \<and> map_option node_key (h' x) = map_option node_key (h x)"
    if "x \<noteq> n" for x using h'(3) that unfolding same_nodes_def by (metis fun_upd_other)
  ultimately show thesis using that [OF h'(1) nd] h'(4) by simp
qed

lemma add_child_sim:
  assumes "heap_ok p C sfs ass" and "stack p = f # fs" and "rep (json_heap p) (json_mem p) (cur p) v t" and "heads v \<subseteq> C"
    and "cur p \<le> length (json_mem p)" and "\<not> (f_tag f = JSON_OBJECT \<and> f_key f = None)"
  shows "sim (add_child malloc v f fs (p\<lparr>separator := False\<rparr>)) (Some (s_deliver t sfs (drop (cur p) (json_mem p))))"
proof -
  let ?h = "json_heap p" and ?m = "json_mem p" and ?b = "cur p" and ?obj = "f_tag f = JSON_OBJECT"
  let ?sz = "if ?obj then sizeof_JsonNode else sizeof_JsonNode - sizeof_ptr"
  have fr: "frames_ok ?h ?m ?b C (f # fs) sfs ass" using assms(1,2) by (simp add: heap_ok_def)
  obtain sf sfs' as ass' where sfs: "sfs = sf # sfs'" "ass = as # ass'" and ok: "frame_ok ?h ?m ?b C f sf as" "frames_ok ?h ?m ?b C fs sfs' ass'"
    by (rule frames_Cons [OF fr])
  obtain bs where bs: "alloc_inv (json_alloc p) bs" "\<And>n. ?h n \<noteq> None \<Longrightarrow> \<exists>k > 0. (n, k) \<in> set bs"
    and dist: "distinct (concat ass)" "C \<inter> set (concat ass) = {}" and closed: "closed ?h C"
    using assms(1) unfolding heap_ok_def by blast
  obtain a al where al: "allocate malloc ?sz (json_alloc p) = (a, al)" by fastforce
  show ?thesis
  proof (cases a)
    case None
    with al show ?thesis by (simp add: add_child_def)
  next
    case (Some n)
    have sz: "0 < ?sz" by (simp add: sizeof_JsonNode_def sizeof_ptr_def)
    have new: "?h n = None"
    proof (rule ccontr)
      assume "?h n \<noteq> None"
      with bs(2) obtain k where "(n, k) \<in> set bs" "0 < k" by blast
      with fresh_node [OF bs(1) al [unfolded Some] sz this] show False by simp
    qed
    have nC: "n \<notin> C" using closed new by (auto simp: closed_def)
    have nas: "n \<notin> set (concat ass)" using frames_allocated [OF fr] new by blast
    let ?fill = "\<lambda>nd. nd\<lparr>node_key := (if ?obj then f_key f else node_key nd), node_value := v\<rparr>"
    have "ring ?h (f_tail f) as" "distinct as" using ok(1) dist(1) sfs(2) by (simp_all add: frame_ok_def)
    from ring_extend [OF this new, where k = "\<lambda>nd. if ?obj then f_key f else node_key nd" and v = v] obtain h' nd
      where ins: "insertAfter (f_tail f) n (?h(n \<mapsto> blank_node)) = Some h'" and nd: "h' n = Some nd"
        and ring: "ring (h'(n \<mapsto> ?fill nd)) (Some n) (as @ [n])" and same: "\<And>x. x \<noteq> n \<Longrightarrow> x \<notin> set as \<Longrightarrow> h' x = ?h x"
        and vals: "\<And>x. x \<noteq> n \<Longrightarrow> map_option node_value (h' x) = map_option node_value (?h x) \<and> map_option node_key (h' x) = map_option node_key (?h x)"
      by blast
    let ?H = "h'(n \<mapsto> ?fill nd)"
    let ?f = "f\<lparr>f_tail := Some n, f_key := (if ?obj then None else f_key f)\<rparr>"
    let ?p = "p\<lparr>separator := False, json_alloc := al, json_heap := ?H, stack := ?f # fs\<rparr>"
    have step: "add_child malloc v f fs (p\<lparr>separator := False\<rparr>) = Some (Next ?p)"
      using al Some ins nd by (simp add: add_child_def Let_def)
    have HC: "?H x = ?h x" if "x \<in> C" for x using that nC dist(2) sfs(2) same [of x] by auto
    then have ext: "extends ?h ?m ?b C ?H ?m ?b C" using closed by (simp add: extends_def)
    have rest: "frames_ok ?H ?m ?b C fs sfs' ass'"
    proof (rule frames_mono [OF ext ok(2)])
      fix x assume "x \<in> set (concat ass')"
      then show "?H x = ?h x" using same [of x] nas dist(1) sfs(2) by auto
    qed
    have kept: "map_option node_value (?H x) = map_option node_value (?h x)" "map_option node_key (?H x) = map_option node_key (?h x)" if "x \<in> set as" for x
      using vals [of x] that nas sfs(2) by auto
    have child: "child ?H ?m ?b C n t" using extends_rep [OF ext assms(3,4)] assms(4) by (simp add: child_def)
    have "\<exists>sf'. s_deliver t sfs (drop ?b ?m) = SNext (sf' # sfs') False (drop ?b ?m) \<and> frame_ok ?H ?m ?b C ?f sf' (as @ [n])"
    proof (cases sf)
      case (SArr vs)
      then have f: "f_tag f = JSON_ARRAY" "f_key f = None" "list_all2 (child ?h ?m ?b C) as vs" using ok(1) by (simp_all add: frame_ok_def)
      have "list_all2 (child ?H ?m ?b C) as vs" by (rule list.rel_mono_strong [OF f(3)]) (rule child_mono [OF ext _ kept(1)])
      with child ring f SArr sfs show ?thesis by (simp add: frame_ok_def s_deliver_def list_all2_appendI)
    next
      case (SObj kvs k)
      then have f: "f_tag f = JSON_OBJECT" "rel_option (string_at ?m ?b) (f_key f) k" "list_all2 (member ?h ?m ?b C) as kvs"
        using ok(1) by (simp_all add: frame_ok_def)
      then obtain q str where k: "f_key f = Some q" "k = Some str" "string_at ?m ?b q str"
        using assms(6) by (cases k) (auto simp: option.rel_sel)
      have "list_all2 (member ?H ?m ?b C) as kvs" by (rule list.rel_mono_strong [OF f(3)]) (rule member_mono [OF ext _ kept])
      moreover have "member ?H ?m ?b C n (str, t)" using child k f(1) by (simp add: member_def)
      ultimately show ?thesis using ring f k SObj sfs by (simp add: frame_ok_def s_deliver_def list_all2_appendI)
    qed
    then obtain sf' where sd: "s_deliver t sfs (drop ?b ?m) = SNext (sf' # sfs') False (drop ?b ?m)" and fo: "frame_ok ?H ?m ?b C ?f sf' (as @ [n])" by blast
    have "closed ?H C" using closed HC by (simp add: closed_def)
    moreover have "\<forall>x. ?H x \<noteq> None \<longrightarrow> (\<exists>k > 0. (x, k) \<in> set (bs @ [(n, ?sz)]))"
    proof (intro allI impI)
      fix x assume x: "?H x \<noteq> None"
      show "\<exists>k > 0. (x, k) \<in> set (bs @ [(n, ?sz)])"
      proof (cases "x = n")
        case True
        with sz show ?thesis by auto
      next
        case False
        with x vals [of x] have "?h x \<noteq> None" by (cases "?h x") auto
        from bs(2) [OF this] show ?thesis by auto
      qed
    qed
    moreover have "alloc_inv al (bs @ [(n, ?sz)])" using allocate_inv [OF bs(1) al [unfolded Some]] .
    ultimately have "heap_ok ?p C (sf' # sfs') ((as @ [n]) # ass')"
      unfolding heap_ok_def using fo rest dist sfs(2) nas nC by (intro conjI exI [of _ "bs @ [(n, ?sz)]"]) auto
    then have "related ?p (sf' # sfs') False (drop ?b ?m)" by (rule relatedI) (simp_all add: assms(5))
    with step sd show ?thesis by (simp only: sim_simps sim_step_simps simp_thms)
  qed
qed

lemma deliver_sim:
  assumes "heap_ok p C sfs ass" and "rep (json_heap p) (json_mem p) (cur p) v t" and "heads v \<subseteq> C" and "cur p \<le> length (json_mem p)"
  shows "sim (deliver malloc v p) (Some (s_deliver t sfs (drop (cur p) (json_mem p))))"
proof (cases "stack p")
  case Nil
  have "sfs = []" using assms(1) Nil by (simp add: heap_ok_def frames_Nil)
  moreover have "rep (json_heap p) (json_mem p) (length (json_mem p)) v t"
    by (rule rep_mono [OF assms(2,3)]) (use assms(1,4) in \<open>auto simp: heap_ok_def\<close>)
  ultimately show ?thesis using Nil by (simp add: deliver_def s_deliver_def represents_def)
next
  case (Cons f fs)
  show ?thesis
  proof (cases "f_tag f = JSON_OBJECT \<and> f_key f = None")
    case False
    with add_child_sim [OF assms(1) Cons assms(2-4), of malloc] Cons show ?thesis by (auto simp: deliver_def Let_def)
  next
    case True
    let ?h = "json_heap p" and ?m = "json_mem p" and ?b = "cur p"
    have fr: "frames_ok ?h ?m ?b C (f # fs) sfs ass" using assms(1) Cons by (simp add: heap_ok_def)
    obtain sf sfs' as ass' where sfs: "sfs = sf # sfs'" "ass = as # ass'" and ok: "frame_ok ?h ?m ?b C f sf as" "frames_ok ?h ?m ?b C fs sfs' ass'"
      by (rule frames_Cons [OF fr])
    obtain kvs where sf: "sf = SObj kvs None" using ok(1) True by (auto simp: frame_ok_def split: sframe.splits)
    show ?thesis
    proof (cases v)
      case (Str q)
      then obtain str where t: "t = JStr str" "string_at ?m ?b q str" using assms(2) by (auto simp: rep_simps)
      let ?f = "f\<lparr>f_key := Some q\<rparr>"
      have "frame_ok ?h ?m ?b C ?f (SObj kvs (Some str)) as" using ok(1) sf t(2) by (simp add: frame_ok_def)
      then have "heap_ok (p\<lparr>separator := False, stack := ?f # fs\<rparr>) C (SObj kvs (Some str) # sfs') ass"
        using assms(1) ok(2) sfs by (simp add: heap_ok_def)
      then have "related (p\<lparr>separator := False, stack := ?f # fs\<rparr>) (SObj kvs (Some str) # sfs') False (drop ?b ?m)"
        by (rule relatedI) (simp_all add: assms(4))
      with Str True Cons sf sfs t(1) show ?thesis by (simp add: deliver_def s_deliver_def)
    qed (use assms(2) True Cons sf sfs in \<open>auto simp: deliver_def s_deliver_def rep_simps\<close>)
  qed
qed

text \<open>The ring of a closed array or object becomes a list, and its nodes are complete.\<close>

lemma close_heap:
  assumes "heap_ok p C (sf # sfs) (as # ass)" and "stack p = f # fs"
  obtains a h' where "listToValue con (f_tail f) (json_heap p) = Some (con a, h')" and "set_option a \<subseteq> C \<union> set as"
    and "heap_ok (p\<lparr>json_heap := h', stack := fs\<rparr>) (C \<union> set as) sfs ass" and "path h' a as None"
    and "frame_ok (json_heap p) (json_mem p) (cur p) C f sf as"
    and "extends (json_heap p) (json_mem p) (cur p) C h' (json_mem p) (cur p) (C \<union> set as)" and "same_nodes (json_heap p) h'"
proof -
  let ?h = "json_heap p" and ?m = "json_mem p" and ?b = "cur p"
  have ok: "frame_ok ?h ?m ?b C f sf as" "frames_ok ?h ?m ?b C fs sfs ass" and closed: "closed ?h C"
    and dist: "distinct as" "distinct (concat ass)" "set as \<inter> set (concat ass) = {}" "C \<inter> set as = {}" "C \<inter> set (concat ass) = {}"
    using assms by (auto simp: heap_ok_def)
  have "ring ?h (f_tail f) as" using ok(1) by (simp add: frame_ok_def)
  from ring_close [OF this dist(1)] obtain a h' where r: "listToValue con (f_tail f) ?h = Some (con a, h')" "path h' a as None"
    "same_nodes ?h h'" "set_option a \<subseteq> set as" "\<And>x. x \<notin> set as \<Longrightarrow> h' x = ?h x" by blast
  have agree: "h' x = ?h x" if "x \<in> C" for x using r(5) that dist(4) by blast
  then have ext: "extends ?h ?m ?b C h' ?m ?b (C \<union> set as)" using closed by (simp add: extends_def)
  have vals: "heads (node_value nd) \<subseteq> C" if n: "n \<in> set as" and nd: "h' n = Some nd" for n nd
  proof -
    have "\<exists>nd. ?h n = Some nd \<and> heads (node_value nd) \<subseteq> C"
    proof (cases sf)
      case (SArr vs)
      then have "list_all2 (child ?h ?m ?b C) as vs" using ok(1) by (simp add: frame_ok_def)
      from list_all2_left [OF this n] show ?thesis by (auto simp: child_def)
    next
      case (SObj kvs k)
      then have "list_all2 (member ?h ?m ?b C) as kvs" using ok(1) by (simp add: frame_ok_def)
      from list_all2_left [OF this n] show ?thesis by (auto simp: member_def child_def)
    qed
    moreover have "map_option node_value (h' n) = map_option node_value (?h n)" using r(3) unfolding same_nodes_def by blast
    ultimately show ?thesis using nd by auto
  qed
  have "closed h' (C \<union> set as)"
    unfolding closed_def
  proof
    fix n assume "n \<in> C \<union> set as"
    then consider "n \<in> C" | "n \<in> set as" by blast
    then show "\<exists>nd. h' n = Some nd \<and> set_option (node_next nd) \<subseteq> C \<union> set as \<and> heads (node_value nd) \<subseteq> C \<union> set as"
    proof cases
      case 1
      with closed agree [OF 1] show ?thesis unfolding closed_def by fastforce
    next
      case 2
      from path_nexts [OF r(2) 2] obtain nd where "h' n = Some nd" "set_option (node_next nd) \<subseteq> set as" by auto
      with vals [OF 2] show ?thesis by blast
    qed
  qed
  moreover have "frames_ok h' ?m ?b (C \<union> set as) fs sfs ass"
  proof (rule frames_mono [OF ext ok(2)])
    fix x assume "x \<in> set (concat ass)"
    then show "h' x = ?h x" using r(5) dist(3) by blast
  qed
  moreover have "h' n \<noteq> None \<Longrightarrow> ?h n \<noteq> None" for n
    using r(3) unfolding same_nodes_def by (metis map_option_is_None)
  ultimately have "heap_ok (p\<lparr>json_heap := h', stack := fs\<rparr>) (C \<union> set as) sfs ass"
    using assms(1) dist unfolding heap_ok_def by auto
  with r ok(1) ext that show thesis by blast
qed

lemma close_sim:
  assumes "heap_ok p C sfs ass" and "cur p \<le> length (json_mem p)"
  shows "sim (close_bracket malloc JSON_ARRAY Array p) (Some (s_close_array sfs (drop (cur p) (json_mem p))))"
    and "sim (close_bracket malloc JSON_OBJECT Object p) (Some (s_close_object sfs (drop (cur p) (json_mem p))))"
proof -
  let ?h = "json_heap p" and ?m = "json_mem p" and ?b = "cur p"
  have "sim (close_bracket malloc JSON_ARRAY Array p) (Some (s_close_array sfs (drop ?b ?m)))
    \<and> sim (close_bracket malloc JSON_OBJECT Object p) (Some (s_close_object sfs (drop ?b ?m)))"
  proof (cases "stack p")
    case Nil
    with assms(1) show ?thesis
      by (simp add: heap_ok_def frames_Nil close_bracket_def s_close_array_def s_close_object_def)
  next
    case (Cons f fs)
    have fr: "frames_ok ?h ?m ?b C (f # fs) sfs ass" using assms(1) Cons by (simp add: heap_ok_def)
    obtain sf sfs' as ass' where sfs: "sfs = sf # sfs'" "ass = as # ass'" by (rule frames_Cons [OF fr])
    note heap = assms(1) [unfolded sfs]
    show ?thesis
    proof (cases sf)
      case (SArr vs)
      obtain a h' where c: "listToValue Array (f_tail f) ?h = Some (Array a, h')" "set_option a \<subseteq> C \<union> set as"
        "heap_ok (p\<lparr>json_heap := h', stack := fs\<rparr>) (C \<union> set as) sfs' ass'" "path h' a as None"
        and ok: "frame_ok ?h ?m ?b C f sf as" and ext: "extends ?h ?m ?b C h' ?m ?b (C \<union> set as)" and same: "same_nodes ?h h'"
        by (rule close_heap [OF heap Cons, of Array])
      have f: "f_tag f = JSON_ARRAY" "list_all2 (child ?h ?m ?b C) as vs" using ok SArr by (simp_all add: frame_ok_def)
      have "list_all2 (child h' ?m ?b (C \<union> set as)) as vs"
        by (rule list.rel_mono_strong [OF f(2)]) (rule child_mono [OF ext _ same_nodesD(1) [OF same]])
      then have "list_all2 (\<lambda>n v. \<exists>nd. h' n = Some nd \<and> rep h' ?m ?b (node_value nd) v) as vs"
        by (rule list_all2_mono) (auto simp: child_def)
      from rep.arr [OF c(4) this] have "rep h' ?m ?b (Array a) (JArr vs)" .
      with deliver_sim [OF c(3), of "Array a" "JArr vs" malloc] c(1,2) assms(2) f(1) Cons SArr sfs show ?thesis
        by (simp add: close_bracket_def s_close_array_def s_close_object_def)
    next
      case (SObj kvs k)
      obtain a h' where c: "listToValue Object (f_tail f) ?h = Some (Object a, h')" "set_option a \<subseteq> C \<union> set as"
        "heap_ok (p\<lparr>json_heap := h', stack := fs\<rparr>) (C \<union> set as) sfs' ass'" "path h' a as None"
        and ok: "frame_ok ?h ?m ?b C f sf as" and ext: "extends ?h ?m ?b C h' ?m ?b (C \<union> set as)" and same: "same_nodes ?h h'"
        by (rule close_heap [OF heap Cons, of Object])
      have f: "f_tag f = JSON_OBJECT" "rel_option (string_at ?m ?b) (f_key f) k" "list_all2 (member ?h ?m ?b C) as kvs"
        using ok SObj by (simp_all add: frame_ok_def)
      have "list_all2 (member h' ?m ?b (C \<union> set as)) as kvs"
        by (rule list.rel_mono_strong [OF f(3)]) (rule member_mono [OF ext _ same_nodesD [OF same]])
      then have "list_all2 (\<lambda>n kv. \<exists>nd q. h' n = Some nd \<and> node_key nd = Some q
          \<and> string_at ?m ?b q (fst kv) \<and> rep h' ?m ?b (node_value nd) (snd kv)) as kvs"
        by (rule list_all2_mono) (auto simp: member_def child_def)
      from rep.obj [OF c(4) this] have "rep h' ?m ?b (Object a) (JObj kvs)" .
      with deliver_sim [OF c(3), of "Object a" "JObj kvs" malloc] c(1,2) assms(2) f(1,2) Cons SObj sfs show ?thesis
        by (cases k; cases "f_key f") (simp_all add: close_bracket_def s_close_array_def s_close_object_def)
    qed
  qed
  then show "sim (close_bracket malloc JSON_ARRAY Array p) (Some (s_close_array sfs (drop ?b ?m)))"
    "sim (close_bracket malloc JSON_OBJECT Object p) (Some (s_close_object sfs (drop ?b ?m)))" by simp_all
qed

section \<open>The steps\<close>

lemma string_at_ends:
  assumes "string_ends m i str rest m'"
  shows "string_at m' (length m - length rest) i str"
proof -
  have c: "c_string (drop i m') = str" "peek m' (i + length str) = Some 0" "i + length str \<le> length m - length rest"
    using assms by (simp_all add: string_ends_def)
  have "take (length str) (drop i m') = str" using c(1) by (metis c_string_def takeWhile_eq_take length_takeWhile_le)
  moreover have "i + length str < length m'" "m' ! (i + length str) = 0" using c(2) by (simp_all add: peek_def split: if_splits)
  ultimately have "slice m' i (length str + 1) = str @ [0]" by (simp add: slice_def take_Suc_conv_app_nth)
  moreover have "0 \<notin> set str" using c(1) set_takeWhileD [of 0 "\<lambda>x. x \<noteq> 0" "drop i m'"] by (auto simp: c_string_def)
  ultimately show ?thesis using c(3) by (simp add: string_at_def)
qed

lemma number_sim:
  assumes "heap_ok p C sfs ass" and "drop (endptr p) (json_mem p) = c # xs" and "cur p = Suc (endptr p)" and "c = 45 \<or> json_isdigit c"
  shows "sim (parse_number malloc c p) (s_parse_number c xs sfs)"
proof -
  let ?m = "json_mem p"
  note pc = peek_Cons [OF assms(2)]
  have cur: "drop (cur p) ?m = xs" using pc(2) assms(3) by simp
  show ?thesis
  proof (cases xs)
    case Nil
    with cur show ?thesis by (simp add: parse_number_def s_parse_number_def peek_Nil)
  next
    case (Cons d ds)
    have d: "peek ?m (cur p) = Some d" using peek_Cons(1) cur Cons by blast
    note num = string2double_at [OF assms(2)]
    show ?thesis
    proof (cases "s_number (c # xs)")
      case None
      with num d Cons show ?thesis by (simp add: parse_number_def s_parse_number_def del: s_number.simps)
    next
      case (Some r)
      obtain x ys where x: "s_number (c # xs) = Some (x, ys)" using Some by (cases r) auto
      let ?s = "length ?m - length ys"
      have rest: "drop ?s ?m = ys" by (rule suffix_position, rule suffix_of_drop [OF assms(2)]) (rule s_number_left [OF x])
      show ?thesis
      proof (cases ys)
        case Nil
        with x num d Cons show ?thesis by (simp add: parse_number_def s_parse_number_def peek_Nil del: s_number.simps)
      next
        case (Cons e es)
        have e: "peek ?m ?s = Some e" using peek_Cons(1) rest Cons by blast
        have ge: "cur p \<le> ?s" using s_number_shorter [OF x assms(4)] pc(3,4) assms(3) by linarith
        have "heap_ok (p\<lparr>cur := ?s\<rparr>) C sfs ass" by (rule heap_ok_moves [OF assms(1)]) (use ge in simp_all)
        from deliver_sim [OF this, of "Number x" "JNum x" malloc]
        have "sim (deliver malloc (Number x) (p\<lparr>cur := ?s\<rparr>)) (Some (s_deliver (JNum x) sfs ys))"
          using rest by (simp add: rep.num)
        with x num d e Cons \<open>xs = d # ds\<close> show ?thesis
          by (simp add: parse_number_def s_parse_number_def del: s_number.simps)
      qed
    qed
  qed
qed

lemma string_sim:
  assumes "heap_ok p0 C sfs ass" and "cur p0 < cur p" and "json_mem p = json_mem p0" and "json_heap p = json_heap p0"
    and "json_alloc p = json_alloc p0" and "stack p = stack p0" and "drop (cur p) (json_mem p) = xs" and "cur p \<le> length (json_mem p)"
  shows "sim (parse_string malloc p) (s_parse_string xs sfs)"
proof -
  let ?m = "json_mem p" and ?i = "cur p"
  note r = decode_string_start [OF assms(8), unfolded assms(7)]
  consider "s_string [] [] xs = None" | "s_string [] [] xs = Some None" | str ys where "s_string [] [] xs = Some (Some (str, ys))"
    by (metis option.exhaust prod.exhaust)
  then show ?thesis
  proof cases
    case 1
    with r show ?thesis by (simp add: string_result_def parse_string_def s_parse_string_def)
  next
    case 2
    with r obtain m' e where "decode_string ?m ?i ?i = Some (m', Bad e)" by (auto simp: string_result_def)
    with 2 show ?thesis by (simp add: parse_string_def s_parse_string_def)
  next
    case (3 str ys)
    with r obtain m' where d: "decode_string ?m ?i ?i = Some (m', Good (length ?m - length ys))" and e: "string_ends ?m ?i str ys m'"
      by (auto simp: string_result_def)
    let ?s = "length ?m - length ys"
    let ?p = "p\<lparr>json_mem := m', cur := ?s\<rparr>"
    have m': "length m' = length ?m" "take ?i m' = take ?i ?m" "drop ?s m' = ys" "?i \<le> ?s" using e by (auto simp: string_ends_def)
    show ?thesis
    proof (cases ys)
      case Nil
      with d 3 m' show ?thesis by (simp add: parse_string_def s_parse_string_def peek_Nil)
    next
      case (Cons x zs)
      have x: "peek m' ?s = Some x" using peek_Cons(1) m'(3) Cons by blast
      have "take (Suc (cur p0)) m' = take (Suc (cur p0)) (take ?i m')" using assms(2) by (simp add: min_def)
      also have "\<dots> = take (Suc (cur p0)) (json_mem p0)" using assms(2,3) m'(2) by (simp add: min_def)
      finally have "heap_ok ?p C sfs ass" by (intro heap_ok_moves [OF assms(1)]) (use assms m'(4) in simp_all)
      from deliver_sim [OF this, of "Str ?i" "JStr str" malloc]
      have "sim (deliver malloc (Str ?i) ?p) (Some (s_deliver (JStr str) sfs ys))"
        using string_at_ends [OF e] m' by (simp add: rep.str)
      with d 3 x Cons show ?thesis by (simp add: parse_string_def s_parse_string_def)
    qed
  qed
qed

lemma identifier_sim:
  assumes "heap_ok p C sfs ass" and "drop (cur p) (json_mem p) = xs" and "cur p \<le> length (json_mem p)"
    and "\<And>h m b. rep h m b v t" and "heads v = {}"
  shows "sim (parse_identifier malloc w v p) (s_parse_identifier w t xs sfs)"
proof -
  note i = json_ident_at [OF assms(2), of w]
  show ?thesis
  proof (cases "s_ident xs w")
    case None
    with i show ?thesis by (simp add: parse_identifier_def s_parse_identifier_def)
  next
    case (Some b)
    show ?thesis
    proof (cases b)
      case False
      with i Some show ?thesis by (simp add: parse_identifier_def s_parse_identifier_def)
    next
      case True
      let ?p = "p\<lparr>cur := cur p + length w\<rparr>"
      have "heap_ok ?p C sfs ass" by (rule heap_ok_moves [OF assms(1)]) simp_all
      moreover have "length w < length xs" using s_ident_length [of xs w] Some True by simp
      then have "cur p + length w \<le> length (json_mem p)" using assms(2) by auto
      moreover have "drop (cur p + length w) (json_mem p) = drop (length w) xs" using assms(2) by (metis drop_drop add.commute)
      ultimately have "sim (deliver malloc v ?p) (Some (s_deliver t sfs (drop (length w) xs)))"
        using deliver_sim [of ?p C sfs ass v t malloc] assms(4,5) by simp
      with i Some True show ?thesis by (simp add: parse_identifier_def s_parse_identifier_def)
    qed
  qed
qed

end
