(* ===== verification/JsonRefine.thy ===== *)
theory JsonRefine
  imports JsonRep
begin

text \<open>
  The parser of \<open>core/gason.cpp\<close> against the parser on trees: every turn of the loop is simulated,
  so the errors are the same and a value that is returned represents the tree.
\<close>

section \<open>A turn of the loop\<close>

lemma open_sim:
  assumes "heap_ok p C sfs ass" and "cur p \<le> length (json_mem p)"
  shows "sim (Some (open_bracket JSON_ARRAY p)) (Some (s_open (SArr []) sfs (drop (cur p) (json_mem p))))"
    and "sim (Some (open_bracket JSON_OBJECT p)) (Some (s_open (SObj [] None) sfs (drop (cur p) (json_mem p))))"
proof -
  have len: "length (stack p) = length sfs" using assms(1) frames_length by (auto simp: heap_ok_def)
  have *: "related (p\<lparr>stack := \<lparr>f_tail = None, f_tag = tag, f_key = None\<rparr> # stack p, separator := True\<rparr>) (sf # sfs) True (drop (cur p) (json_mem p))"
    if "tag = JSON_ARRAY \<and> sf = SArr [] \<or> tag = JSON_OBJECT \<and> sf = SObj [] None" for tag sf
  proof (rule relatedI)
    show "heap_ok (p\<lparr>stack := \<lparr>f_tail = None, f_tag = tag, f_key = None\<rparr> # stack p, separator := True\<rparr>) C (sf # sfs) ([] # ass)"
      using assms(1) that by (auto simp: heap_ok_def frame_ok_def ring_def)
  qed (use assms in simp_all)
  show "sim (Some (open_bracket JSON_ARRAY p)) (Some (s_open (SArr []) sfs (drop (cur p) (json_mem p))))"
    "sim (Some (open_bracket JSON_OBJECT p)) (Some (s_open (SObj [] None) sfs (drop (cur p) (json_mem p))))"
    using len * by (simp_all add: open_bracket_def s_open_def)
qed

lemma separator_sim:
  assumes "heap_ok p C sfs ass" and "cur p \<le> length (json_mem p)"
  shows "sim (parse_separator colon p) (s_separator colon sfs (separator p) (drop (cur p) (json_mem p)))"
proof (cases "stack p")
  case Nil
  with assms show ?thesis by (auto simp: parse_separator_def s_separator_def heap_ok_def frames_Nil)
next
  case (Cons f fs)
  let ?h = "json_heap p" and ?m = "json_mem p" and ?b = "cur p"
  have fr: "frames_ok ?h ?m ?b C (f # fs) sfs ass" using assms(1) Cons by (simp add: heap_ok_def)
  obtain sf sfs' as ass' where sfs: "sfs = sf # sfs'" and ok: "frame_ok ?h ?m ?b C f sf as" by (rule frames_Cons [OF fr])
  have waits: "waits sf \<longleftrightarrow> f_key f \<noteq> None" using ok by (auto simp: frame_ok_def option.rel_sel split: sframe.splits)
  have "heap_ok (p\<lparr>separator := True\<rparr>) C sfs ass" by (rule heap_ok_moves [OF assms(1)]) simp_all
  then have "related (p\<lparr>separator := True\<rparr>) sfs True (drop ?b ?m)" by (rule relatedI) (simp_all add: assms(2))
  with Cons sfs waits show ?thesis by (auto simp: parse_separator_def s_separator_def)
qed

lemma comment_sim:
  assumes "heap_ok p C sfs ass" and "drop (cur p) (json_mem p) = xs"
  shows "sim (do { s \<leftarrow> skip_comment (json_mem p) (cur p); Some (Next (p\<lparr>cur := s\<rparr>)) }) (map_option (SNext sfs (separator p)) (s_comment xs))"
proof (cases "s_comment xs")
  case None
  with skip_comment_at [OF assms(2)] show ?thesis by simp
next
  case (Some ys)
  let ?m = "json_mem p"
  have s: "skip_comment ?m (cur p) = Some (length ?m - length ys)" using skip_comment_at [OF assms(2)] Some by simp
  have rest: "drop (length ?m - length ys) ?m = ys"
    by (rule suffix_position, rule suffix_of_drop [OF assms(2)]) (use s_comment_left [OF Some] in blast)
  let ?p = "p\<lparr>cur := length ?m - length ys\<rparr>"
  have "cur p < length ?m - length ys" using skip_comment_gt [OF s] .
  then have "heap_ok ?p C sfs ass" by (intro heap_ok_moves [OF assms(1)]) simp_all
  then have "related ?p sfs (separator p) ys" by (rule relatedI) (use rest in simp_all)
  with s Some show ?thesis by simp
qed

lemma step_sim:
  assumes "related p sfs sep xs"
  shows "sim (json_step malloc p) (s_step sfs sep xs)"
proof -
  let ?m = "json_mem p"
  obtain C ass where h0: "heap_ok p C sfs ass" and d0: "drop (cur p) ?m = xs" and sep: "separator p = sep"
    using assms unfolding related_def by blast
  show ?thesis
  proof (cases "s_space xs")
    case None
    with skip_space_at [OF d0] show ?thesis by (simp add: json_step_def s_step_def)
  next
    case (Some ys)
    then obtain c zs where ys: "ys = c # zs" and suf: "suffix ys xs" using s_space_left [OF Some] by (cases ys) auto
    let ?s = "length ?m - length ys"
    let ?p = "p\<lparr>endptr := ?s, cur := ?s + 1\<rparr>"
    have s: "skip_space ?m (cur p) = Some ?s" using skip_space_at [OF d0] Some by simp
    have d: "drop ?s ?m = c # zs" using suffix_position [OF suffix_of_drop [OF d0 suf]] ys by simp
    note c = peek_Cons [OF d]
    have ge: "cur p \<le> ?s" using skip_space_ge [OF s] by simp
    have h: "heap_ok ?p C sfs ass" by (rule heap_ok_moves [OF h0]) (use ge in simp_all)
    have cur: "drop (cur ?p) (json_mem ?p) = zs" "cur ?p \<le> length (json_mem ?p)" using c(2,4) by simp_all
    have skip: "related ?p sfs sep zs" by (rule relatedI [OF h]) (use cur sep in simp_all)
    have str: "sim (parse_string malloc ?p) (s_parse_string zs sfs)" by (rule string_sim [OF h0]) (use ge cur in simp_all)
    note close = close_sim [OF h cur(2), of malloc, unfolded cur(1)]
    note opn = open_sim [OF h cur(2), unfolded cur(1)]
    have separator: "sim (parse_separator colon ?p) (s_separator colon sfs sep zs)" for colon
      using separator_sim [OF h cur(2), of colon, unfolded cur(1)] sep by simp
    have number: "sim (parse_number malloc c ?p) (s_parse_number c zs sfs)" if "c = 45 \<or> json_isdigit c"
      by (rule number_sim [OF h]) (use d that in simp_all)
    note comment = comment_sim [OF h cur(1)]
    have ident: "sim (parse_identifier malloc w v ?p) (s_parse_identifier w t zs sfs)"
      if "(v, t) \<in> {(TrueV, JTrue), (FalseV, JFalse), (NullV, JNull)}" for w v t
      by (rule identifier_sim [OF h cur]) (use that in \<open>auto intro: rep.intros\<close>)
    show ?thesis
      using s c(1) Some ys skip str close opn separator number comment ident sep
      by (simp add: json_step_def s_step_def s_token_def Let_def)
  qed
qed

section \<open>The loop\<close>

lemma loop_sim:
  assumes "related p sfs sep xs"
  shows "case json_loop malloc p of
      None \<Rightarrow> s_loop sfs sep xs = None
    | Some (e, p') \<Rightarrow> e = JSON_ALLOCATION_FAILURE \<or> (\<exists>t. s_loop sfs sep xs = Some (e, t) \<and> (e = JSON_OK \<longrightarrow> represents p' t))"
  using assms
proof (induction malloc p arbitrary: sfs sep xs rule: json_loop.induct)
  case (1 malloc p)
  have d: "drop (cur p) (json_mem p) = xs" using "1.prems" by (simp add: related_def)
  show ?case
  proof (cases xs)
    case Nil
    with d show ?thesis by (subst json_loop.simps, subst s_loop.simps) (simp add: peek_Nil)
  next
    case (Cons c cs)
    have c: "peek (json_mem p) (cur p) = Some c" using peek_Cons(1) d Cons by blast
    show ?thesis
    proof (cases "c = 0")
      case True
      with c Cons show ?thesis by (subst json_loop.simps, subst s_loop.simps) simp
    next
      case False
      note sim = step_sim [OF "1.prems", of malloc]
      have l: "json_loop malloc p = do { r \<leftarrow> json_step malloc p; case r of Next p \<Rightarrow> json_loop malloc p | Done e p \<Rightarrow> Some (e, p) }"
        using c False by (subst json_loop.simps) simp
      have sl: "s_loop sfs sep xs = do { r \<leftarrow> s_step sfs sep xs; case r of SNext fs sep xs \<Rightarrow> s_loop fs sep xs | SDone e v \<Rightarrow> Some (e, v) }"
        using Cons False by (subst s_loop.simps) simp
      show ?thesis
      proof (cases "json_step malloc p")
        case None
        with sim l sl show ?thesis by simp
      next
        case (Some r)
        show ?thesis
        proof (cases r)
          case (Next p1)
          with sim Some obtain sfs1 sep1 xs1 where s1: "s_step sfs sep xs = Some (SNext sfs1 sep1 xs1)" "related p1 sfs1 sep1 xs1"
            by (auto simp: sim_def sim_step_def)
          have "json_loop malloc p = json_loop malloc p1" "s_loop sfs sep xs = s_loop sfs1 sep1 xs1" using l sl Some Next s1(1) by simp_all
          then show ?thesis using "1.IH" [OF c False Some Next s1(2)] by (simp only:)
        next
          case (Done e p1)
          with sim Some l sl show ?thesis by (auto simp: sim_def sim_step_def)
        qed
      qed
    qed
  qed
qed

lemma initially_related:
  "related \<lparr>json_mem = source, cur = 0, endptr = 0, json_heap = Map.empty, json_alloc = \<lparr>zones = [], mallocs = 0\<rparr>,
      stack = [], separator = True, parsed_value = NullV\<rparr> [] True source"
proof (rule relatedI)
  have "alloc_inv \<lparr>zones = [], mallocs = 0\<rparr> []" by (simp add: alloc_inv_def)
  then show "heap_ok \<lparr>json_mem = source, cur = 0, endptr = 0, json_heap = Map.empty, json_alloc = \<lparr>zones = [], mallocs = 0\<rparr>,
      stack = [], separator = True, parsed_value = NullV\<rparr> {} [] []"
    by (auto simp: heap_ok_def closed_def)
qed simp_all

text \<open>Without a failure of \<open>malloc\<close> there is no allocation failure.\<close>

lemma allocate_Some: "(\<And>n. malloc n) \<Longrightarrow> \<exists>a al'. allocate malloc sz al = (Some a, al')"
  by (auto simp: allocate_def new_zone_def Let_def split: list.splits)

lemma deliver_no_failure:
  assumes "\<And>n. malloc n"
  shows "deliver malloc v p \<noteq> Some (Done JSON_ALLOCATION_FAILURE p')"
proof (cases "stack p")
  case Nil
  then show ?thesis by (simp add: deliver_def)
next
  case (Cons f fs)
  show ?thesis
  proof (cases "f_tag f = JSON_OBJECT \<and> f_key f = None")
    case True
    with Cons show ?thesis by (cases v) (auto simp: deliver_def)
  next
    case False
    obtain a al' where "allocate malloc (if f_tag f = JSON_OBJECT then sizeof_JsonNode else sizeof_JsonNode - sizeof_ptr) (json_alloc p) = (Some a, al')"
      using allocate_Some [of malloc, OF assms] by blast
    with False Cons show ?thesis
      by (auto simp: deliver_def add_child_def Let_def bind_eq_Some_conv)
  qed
qed

lemma step_no_failure:
  assumes "\<And>n. malloc n"
  shows "json_step malloc p \<noteq> Some (Done JSON_ALLOCATION_FAILURE p')"
proof -
  note d = deliver_no_failure [of malloc, OF assms]
  have "parse_number malloc c q \<noteq> Some (Done JSON_ALLOCATION_FAILURE p')"
    "parse_identifier malloc w v q \<noteq> Some (Done JSON_ALLOCATION_FAILURE p')"
    "close_bracket malloc tag con q \<noteq> Some (Done JSON_ALLOCATION_FAILURE p')"
    "parse_separator b q \<noteq> Some (Done JSON_ALLOCATION_FAILURE p')"
    "open_bracket tag q \<noteq> Done JSON_ALLOCATION_FAILURE p'" for c q w v tag con b
    using d by (auto simp: parse_number_def parse_identifier_def close_bracket_def parse_separator_def open_bracket_def
        bind_eq_Some_conv split: list.splits)
  moreover have "parse_string malloc q \<noteq> Some (Done JSON_ALLOCATION_FAILURE p')" for q
    using d by (auto simp: parse_string_def bind_eq_Some_conv split: parsed.splits)
  ultimately show ?thesis by (auto simp: json_step_def Let_def bind_eq_Some_conv)
qed

lemma loop_no_failure: "json_loop malloc p = Some (e, p') \<Longrightarrow> \<forall>n. malloc n \<Longrightarrow> e \<noteq> JSON_ALLOCATION_FAILURE"
proof (induction malloc p rule: json_loop.induct)
  case (1 malloc p)
  show ?case
  proof
    assume e: "e = JSON_ALLOCATION_FAILURE"
    obtain c where c: "peek (json_mem p) (cur p) = Some c" "c \<noteq> 0"
      using "1.prems"(1) e by (subst (asm) json_loop.simps) (auto simp: bind_eq_Some_conv split: if_split_asm)
    obtain r where r: "json_step malloc p = Some r" "(case r of Next p \<Rightarrow> json_loop malloc p | Done e p \<Rightarrow> Some (e, p)) = Some (e, p')"
      using "1.prems"(1) c by (subst (asm) json_loop.simps) (auto simp: bind_eq_Some_conv)
    show False
    proof (cases r)
      case (Next q)
      with r(2) have "json_loop malloc q = Some (e, p')" by simp
      from "1.IH" [OF c r(1) Next this "1.prems"(2)] e show ?thesis ..
    next
      case (Done e' q)
      with r e step_no_failure [of malloc p q] "1.prems"(2) show ?thesis by simp
    qed
  qed
qed

lemma jsonParse_sim:
  "case jsonParse malloc source of
     None \<Rightarrow> parse_tree source = None
   | Some (e, p) \<Rightarrow>
       if e = JSON_ALLOCATION_FAILURE then \<not> (\<forall>n. malloc n)
       else if e = JSON_OK then \<exists>t. parse_tree source = Some (JSON_OK, t) \<and> represents p t
       else \<exists>t. parse_tree source = Some (e, t)"
  using loop_sim [OF initially_related, of source malloc] loop_no_failure [of malloc]
  by (simp add: jsonParse_def parse_tree_def split: option.splits prod.splits) blast

lemma jsonParse_ok:
  "\<forall>n. malloc n \<Longrightarrow> parse_tree source = Some (JSON_OK, t) \<Longrightarrow> \<exists>p. jsonParse malloc source = Some (JSON_OK, p) \<and> represents p t"
  using jsonParse_sim [of source malloc] by (auto split: option.split_asm prod.split_asm if_split_asm)

lemma jsonParse_undefined: "\<forall>n. malloc n \<Longrightarrow> jsonParse malloc source = None \<longleftrightarrow> parse_tree source = None"
  using jsonParse_sim [of source malloc] by (auto split: option.split_asm prod.split_asm if_split_asm)

text \<open>C7: \<open>jsonParse\<close> refines the parser on trees: it reads past the source exactly where that one
  runs out of it. Otherwise it returns the same error code, or an allocation failure when a call of
  \<open>malloc\<close> failed; on success the value it returns represents the tree: the linked list of every
  array has the elements in order, that of every object the members in order, and every string and
  key is decoded in the source, with a zero byte after it.\<close>

theorem jsonParse_refines:
  "case jsonParse malloc source of
     None \<Rightarrow> parse_tree source = None
   | Some (e, p) \<Rightarrow>
       if e = JSON_ALLOCATION_FAILURE then \<not> (\<forall>n. malloc n)
       else if e = JSON_OK then \<exists>t. parse_tree source = Some (JSON_OK, t) \<and> represents p t
       else \<exists>t. parse_tree source = Some (e, t)"
  by (rule jsonParse_sim)

end
