(* ===== verification/JsonText.thy ===== *)
theory JsonText
  imports JsonRefine ServerState
begin

text \<open>
  Which texts the parser of \<open>core/gason.cpp\<close> reads well: every tree that is printed the usual way
  is read back; texts without comments that do not end in white space are never read past their
  end, texts of white space only always are.
\<close>

section \<open>Printing\<close>

text \<open>An integer is printed as by \<open>%d\<close>.\<close>

definition hex_digit :: "nat \<Rightarrow> byte" where
  "hex_digit k = word_of_nat (if k < 10 then 48 + k else 87 + k)"

definition escape :: "byte \<Rightarrow> byte list" where
  "escape c = (if c = 34 \<or> c = 92 then [92, c]
     else if c < 32 \<or> c = 127 then [92, 117, 48, 48, hex_digit (unat c div 16), hex_digit (unat c mod 16)]
     else [c])"

definition print_string :: "byte list \<Rightarrow> byte list" where
  "print_string s = 34 # concat (map escape s) @ [34]"

fun commas :: "byte list list \<Rightarrow> byte list" where
  "commas [] = []"
| "commas [x] = x"
| "commas (x # y # zs) = x @ 44 # commas (y # zs)"

definition print_member :: "byte list \<times> byte list \<Rightarrow> byte list" where
  "print_member kv = print_string (fst kv) @ 58 # snd kv"

primrec print_json :: "json \<Rightarrow> byte list" where
  "print_json (JNum x) = (case x of Fin r \<Rightarrow> fmt_d \<lfloor>r\<rfloor> | _ \<Rightarrow> [])"
| "print_json (JStr s) = print_string s"
| "print_json (JArr vs) = 91 # commas (map print_json vs) @ [93]"
| "print_json (JObj kvs) = 123 # commas (map print_member (map (map_prod id print_json) kvs)) @ [125]"
| "print_json JTrue = [116, 114, 117, 101]"
| "print_json JFalse = [102, 97, 108, 115, 101]"
| "print_json JNull = [110, 117, 108, 108]"

text \<open>The trees that are read back: integers a \<open>double\<close> holds exactly, strings without zero bytes.\<close>

primrec printable :: "json \<Rightarrow> bool" where
  "printable (JNum x) = (case x of Fin r \<Rightarrow> r = of_int \<lfloor>r\<rfloor> \<and> \<bar>r\<bar> < 2 ^ 53 | _ \<Rightarrow> False)"
| "printable (JStr s) = (0 \<notin> set s)"
| "printable (JArr vs) = list_all id (map printable vs)"
| "printable (JObj kvs) = list_all (\<lambda>(k, b). 0 \<notin> set k \<and> b) (map (map_prod id printable) kvs)"
| "printable JTrue = True"
| "printable JFalse = True"
| "printable JNull = True"

primrec depth :: "json \<Rightarrow> nat" where
  "depth (JNum x) = 0"
| "depth (JStr s) = 0"
| "depth (JArr vs) = Suc (fold max (map depth vs) 0)"
| "depth (JObj kvs) = Suc (fold max (map snd (map (map_prod id depth) kvs)) 0)"
| "depth JTrue = 0"
| "depth JFalse = 0"
| "depth JNull = 0"

section \<open>Tokens are read back\<close>

lemma digit_byte:
  assumes "k < 10"
  shows "uint (48 + word_of_nat k :: byte) = 48 + int k" "json_isdigit ((48 + word_of_nat k))"
    "digit_value ((48 + word_of_nat k)) = Fin (of_int (int k))"
proof -
  show u: "uint (48 + word_of_nat k :: byte) = 48 + int k" using assms by (simp add: uint_word_arith_bintrs(1) unsigned_of_nat take_bit_nat_eq_self take_bit_int_eq_self)
  then show "json_isdigit ((48 + word_of_nat k))" using assms by (simp add: json_isdigit_def word_le_def)
  show "digit_value ((48 + word_of_nat k)) = Fin (of_int (int k))" using u by (simp add: digit_value_def)
qed

lemma s_int_digits: "n < 2 ^ 53 \<Longrightarrow> s_int (digits n @ ys) (Fin 0) = s_int ys (Fin (of_int (int n)))"
proof (induction n arbitrary: ys rule: digits.induct)
  case (1 n)
  have step: "s_int ((48 + word_of_nat k) # ys) (Fin (of_int (int m))) = s_int ys (Fin (of_int (int (m * 10 + k))))"
    if "k < 10" and "m * 10 + k < 2 ^ 53" for k m
  proof -
    have "d_mult (Fin (of_int (int m))) (Fin 10) = Fin (of_int (int m * 10))"
      using d_mult_int [of "int m" 10] that(2) by simp
    moreover have "d_add (Fin (of_int (int m * 10))) (Fin (of_int (int k))) = Fin (of_int (int m * 10 + int k))"
      by (rule d_add_int) (use that(2) in simp)
    ultimately show ?thesis using digit_byte [OF that(1)] by (simp del: d_add.simps d_mult.simps)
  qed
  show ?case
  proof (cases "n < 10")
    case True
    with step [of n 0] show ?thesis by (subst digits.simps) simp
  next
    case False
    with "1.IH" [of "(48 + word_of_nat (n mod 10)) # ys"] "1.prems" step [of "n mod 10" "n div 10"] show ?thesis
      by (subst digits.simps) simp
  qed
qed

lemma digits_hd: "\<exists>c xs. digits n = c # xs \<and> json_isdigit c"
proof (induction n rule: digits.induct)
  case (1 n)
  show ?case
  proof (cases "n < 10")
    case True
    with digit_byte(2) [of n] show ?thesis by (subst digits.simps) simp
  next
    case False
    from "1.IH" [OF this] obtain c xs where "digits (n div 10) = c # xs" "json_isdigit c" by blast
    with False show ?thesis by (subst digits.simps) simp
  qed
qed

lemma delim_facts: "isdelim d \<Longrightarrow> \<not> json_isdigit d \<and> d \<noteq> 46 \<and> d \<noteq> 101 \<and> d \<noteq> 69"
  by (auto simp: isdelim_def isspace_def json_isdigit_def word_le_nat_alt)

lemma digit_facts: "json_isdigit c \<Longrightarrow> c \<noteq> 45 \<and> c \<noteq> 0 \<and> \<not> isspace c \<and> c \<noteq> 35"
  by (auto simp: isspace_def json_isdigit_def word_le_nat_alt)

lemma s_number_int:
  assumes "\<bar>n\<bar> < 2 ^ 53" and "isdelim d"
  shows "s_number (fmt_d n @ d # ys) = Some (Fin (of_int n), d # ys)"
proof -
  obtain c xs where c: "digits (nat \<bar>n\<bar>) = c # xs" "json_isdigit c" using digits_hd by blast
  have "s_int (digits (nat \<bar>n\<bar>) @ d # ys) (Fin 0) = Some (Fin (of_int \<bar>n\<bar>), d # ys)"
    using s_int_digits [of "nat \<bar>n\<bar>" "d # ys"] assms delim_facts by simp
  with c assms delim_facts digit_facts show ?thesis
    by (cases "n < 0") (auto simp: fmt_d_def simp del: s_int.simps)
qed

lemma hex_digit_facts: "k < 16 \<Longrightarrow> isxdigit (hex_digit k) \<and> char2int (hex_digit k) = int k"
proof -
  have "\<forall>k \<in> set [0..<16]. isxdigit (hex_digit k) \<and> char2int (hex_digit k) = int k" by code_simp
  then show "k < 16 \<Longrightarrow> ?thesis" by simp
qed

lemma s_hex_escape: "s_hex 4 ([48, 48, hex_digit (unat c div 16), hex_digit (unat c mod 16)] @ ys) 0 = Some (Some (uint (c :: byte)))"
proof -
  have four: "(4 :: nat) = Suc (Suc (Suc (Suc 0)))" by simp
  have "unat c div 16 < 16" using unsigned_less [of c, where 'a = nat] by simp
  moreover have "isxdigit 48" "char2int 48 = 0" by (simp_all add: isxdigit_def char2int_def)
  moreover have "int (unat c div 16) * 16 + int (unat c mod 16) = uint c"
    by (metis div_mult_mod_eq of_nat_add of_nat_mult of_nat_numeral uint_nat)
  ultimately show ?thesis
    using hex_digit_facts [of "unat c div 16"] hex_digit_facts [of "unat c mod 16"] four by (simp only: four) simp
qed

lemma s_string_escape: "s_string out seen (concat (map escape s) @ 34 # ys) = Some (Some (c_string (out @ s), ys))"
proof (induction s arbitrary: out seen)
  case (Cons c s)
  let ?r = "concat (map escape s) @ 34 # ys"
  have "\<exists>seen'. s_string out seen (escape c @ ?r) = s_string (out @ [c]) seen' ?r"
  proof -
    consider "c = 34 \<or> c = 92" | "c < 32 \<or> c = 127" "c \<noteq> 34" "c \<noteq> 92" | "\<not> (c < 32 \<or> c = 127)" "c \<noteq> 34" "c \<noteq> 92" by blast
    then show ?thesis
    proof cases
      case 1
      then show ?thesis by (auto simp: escape_def simple_escape_def)
    next
      case 2
      have "utf8 (uint c) = [c]" using 2 by (auto simp: utf8_def word_less_def)
      moreover have "simple_escape 117 = None" by (simp add: simple_escape_def)
      moreover have "drop 4 ([48, 48, x, y] @ zs) = zs" for x y :: byte and zs by (simp add: numeral_eq_Suc)
      moreover have "escape c @ ?r = 92 # 117 # ([48, 48, hex_digit (unat c div 16), hex_digit (unat c mod 16)] @ ?r)"
        using 2 by (simp add: escape_def)
      ultimately have "s_string out seen (escape c @ ?r) = s_string (out @ [c]) (seen @ [92, 117] @ take 4 ([48, 48, hex_digit (unat c div 16), hex_digit (unat c mod 16)] @ ?r)) ?r"
        using s_hex_escape [of c ?r] by (simp only: s_string.simps list.case option.case if_True if_False) simp
      then show ?thesis ..
    next
      case 3
      then have "c \<noteq> 0" by auto
      with 3 show ?thesis by (auto simp: escape_def)
    qed
  qed
  with Cons.IH show ?case by fastforce
qed simp

section \<open>Trees are read back\<close>

definition s_continue :: "s_result \<Rightarrow> (JsonErrno \<times> json) option" where
  "s_continue r = (case r of SNext fs sep xs \<Rightarrow> s_loop fs sep xs | SDone e v \<Rightarrow> Some (e, v))"

lemma s_continue_simps [simp]:
  "s_continue (SNext fs sep xs) = s_loop fs sep xs" "s_continue (SDone e v) = Some (e, v)"
  by (simp_all add: s_continue_def)

lemma loop_token: "c \<noteq> 0 \<Longrightarrow> \<not> isspace c \<Longrightarrow> s_loop fs sep (c # xs) = s_token c xs fs sep \<bind> s_continue"
  by (subst s_loop.simps) (simp add: s_step_def s_continue_def [abs_def])

lemma token_facts: "c \<in> {34, 44, 58, 91, 93, 102, 110, 116, 123, 125} \<Longrightarrow> c \<noteq> 0 \<and> \<not> isspace c \<and> c \<noteq> 35 \<and> c \<noteq> 45 \<and> \<not> json_isdigit c"
  by (auto simp: isspace_def json_isdigit_def)

lemma read_number:
  assumes "\<bar>n\<bar> < 2 ^ 53" and "isdelim d"
  shows "s_loop fs sep (fmt_d n @ d # ys) = s_continue (s_deliver (JNum (Fin (of_int n))) fs (d # ys))"
proof -
  obtain c xs where c: "digits (nat \<bar>n\<bar>) = c # xs" "json_isdigit c" using digits_hd by blast
  obtain b bs where p: "fmt_d n @ d # ys = b # bs" "b = 45 \<or> json_isdigit b" "b = 45 \<longrightarrow> hd bs = c" "bs \<noteq> []"
    using c digit_facts by (cases "n < 0") (auto simp: fmt_d_def)
  have "\<not> isspace 45" by (simp add: isspace_def)
  then have b: "b \<noteq> 0" "\<not> isspace b" "b \<noteq> 35" using p(2) digit_facts by auto
  have "s_parse_number b bs fs = Some (s_deliver (JNum (Fin (of_int n))) fs (d # ys))"
    using s_number_int [OF assms, of ys] p c(2) assms(2) by (cases bs) (auto simp: s_parse_number_def simp del: s_number.simps)
  with loop_token [OF b(1,2)] b(3) p(1,2) show ?thesis by (simp add: s_token_def)
qed

lemma read_string:
  assumes "0 \<notin> set s" and "isdelim d"
  shows "s_loop fs sep (print_string s @ d # ys) = s_continue (s_deliver (JStr s) fs (d # ys))"
proof -
  have "c_string s = s" using assms(1) by (simp add: c_string_def takeWhile_eq_all_conv) metis
  then have "s_parse_string (concat (map escape s) @ 34 # d # ys) fs = Some (s_deliver (JStr s) fs (d # ys))"
    using s_string_escape [of "[]" "[]" s "d # ys"] assms(2) by (simp add: s_parse_string_def del: s_string.simps)
  with loop_token [of 34] token_facts [of 34] show ?thesis by (simp add: print_string_def s_token_def)
qed

lemma delim_tokens: "isdelim 44" "isdelim 58" "isdelim 93" "isdelim 125" "isdelim 0"
  by (simp_all add: isdelim_def)

text \<open>A comma or colon between the elements.\<close>

lemma read_separators:
  "s_loop (SArr vs # fs) False (44 # xs) = s_loop (SArr vs # fs) True xs"
  "s_loop (SObj kvs None # fs) False (44 # xs) = s_loop (SObj kvs None # fs) True xs"
  "s_loop (SObj kvs (Some k) # fs) False (58 # xs) = s_loop (SObj kvs (Some k) # fs) True xs"
  using loop_token [of 44] loop_token [of 58] token_facts [of 44] token_facts [of 58]
  by (simp_all add: s_token_def s_separator_def)

lemma read_close:
  "s_loop (SArr vs # fs) sep (93 # xs) = s_continue (s_deliver (JArr vs) fs xs)"
  "s_loop (SObj kvs None # fs) sep (125 # xs) = s_continue (s_deliver (JObj kvs) fs xs)"
  using loop_token [of 93] loop_token [of 125] token_facts [of 93] token_facts [of 125]
  by (simp_all add: s_token_def s_close_array_def s_close_object_def)

lemma read_open:
  assumes "length fs < 32"
  shows "s_loop fs sep (91 # xs) = s_loop (SArr [] # fs) True xs" "s_loop fs sep (123 # xs) = s_loop (SObj [] None # fs) True xs"
  using assms loop_token [of 91] loop_token [of 123] token_facts [of 91] token_facts [of 123]
  by (simp_all add: s_token_def s_open_def JSON_STACK_SIZE_def)

lemma read_elements:
  assumes "\<And>v fs sep d ys. v \<in> set vs \<Longrightarrow> isdelim d \<Longrightarrow> length fs = n
      \<Longrightarrow> s_loop fs sep (print_json v @ d # ys) = s_continue (s_deliver v fs (d # ys))"
    and "Suc (length fs) = n"
  shows "s_loop (SArr ws # fs) sep (commas (map print_json vs) @ 93 # ys) = s_continue (s_deliver (JArr (ws @ vs)) fs ys)"
  using assms
proof (induction vs arbitrary: ws sep)
  case Nil
  then show ?case by (simp add: read_close)
next
  case (Cons v vs)
  have v: "s_loop (SArr ws # fs) sep (print_json v @ d # zs) = s_loop (SArr (ws @ [v]) # fs) False (d # zs)"
    if "isdelim d" for d zs using Cons.prems that by (simp add: s_deliver_def)
  show ?case
  proof (cases vs)
    case Nil
    with v delim_tokens show ?thesis by (simp add: read_close)
  next
    case (Cons w us)
    with v delim_tokens Cons.IH [of "ws @ [v]" True] Cons.prems show ?thesis by (simp add: read_separators)
  qed
qed

lemma read_members:
  assumes "\<And>k v fs sep d ys. (k, v) \<in> set kvs \<Longrightarrow> isdelim d \<Longrightarrow> length fs = n
      \<Longrightarrow> s_loop fs sep (print_json v @ d # ys) = s_continue (s_deliver v fs (d # ys))"
    and "Suc (length fs) = n" and "\<And>k v. (k, v) \<in> set kvs \<Longrightarrow> 0 \<notin> set k"
  shows "s_loop (SObj ws None # fs) sep (commas (map print_member (map (map_prod id print_json) kvs)) @ 125 # ys)
    = s_continue (s_deliver (JObj (ws @ kvs)) fs ys)"
  using assms
proof (induction kvs arbitrary: ws sep)
  case Nil
  then show ?case by (simp add: read_close)
next
  case (Cons kv kvs)
  obtain k v where kv: "kv = (k, v)" by fastforce
  have v: "s_loop (SObj ws None # fs) sep (print_member (k, print_json v) @ d # zs) = s_loop (SObj (ws @ [(k, v)]) None # fs) False (d # zs)"
    if "isdelim d" for d zs
  proof -
    have "0 \<notin> set k" using Cons.prems(3) kv by auto
    then have "s_loop (SObj ws None # fs) sep (print_string k @ 58 # print_json v @ d # zs)
      = s_loop (SObj ws (Some k) # fs) True (print_json v @ d # zs)"
      using read_string [of k 58] delim_tokens(2) by (simp add: s_deliver_def read_separators)
    moreover have "s_loop (SObj ws (Some k) # fs) True (print_json v @ d # zs) = s_loop (SObj (ws @ [(k, v)]) None # fs) False (d # zs)"
      using Cons.prems(1) [of k v d "SObj ws (Some k) # fs"] Cons.prems(2) that kv by (simp add: s_deliver_def)
    ultimately show ?thesis by (simp add: print_member_def)
  qed
  show ?case
  proof (cases kvs)
    case Nil
    with v delim_tokens kv show ?thesis by (simp add: read_close)
  next
    case (Cons w us)
    have "s_loop (SObj (ws @ [(k, v)]) None # fs) True (commas (map print_member (map (map_prod id print_json) kvs)) @ 125 # ys)
      = s_continue (s_deliver (JObj ((ws @ [(k, v)]) @ kvs)) fs ys)"
    proof (rule Cons.IH)
      show "0 \<notin> set k'" if "(k', v') \<in> set kvs" for k' v' using Cons.prems(3) [of k' v'] that by simp
    qed (auto intro!: Cons.prems(1,2))
    with v delim_tokens Cons kv show ?thesis by (simp add: read_separators id_def)
  qed
qed

lemma fold_max_le: "fold max xs a \<le> (b :: nat) \<longleftrightarrow> a \<le> b \<and> (\<forall>x \<in> set xs. x \<le> b)"
  by (induction xs arbitrary: a) auto

lemma read_printed:
  "printable t \<Longrightarrow> length fs + depth t \<le> 32 \<Longrightarrow> isdelim d
    \<Longrightarrow> s_loop fs sep (print_json t @ d # ys) = s_continue (s_deliver t fs (d # ys))"
proof (induction t arbitrary: fs sep d ys)
  case (JNum x)
  then obtain r where x: "x = Fin r" "r = of_int \<lfloor>r\<rfloor>" "\<bar>r\<bar> < 2 ^ 53" by (cases x) auto
  have "\<bar>\<lfloor>r\<rfloor>\<bar> < 2 ^ 53"
    using x(2,3) by (metis of_int_abs of_int_less_iff of_int_numeral of_int_power)
  from read_number [OF this JNum.prems(3)] x(1,2) show ?case by simp
next
  case (JStr s)
  then show ?case using read_string by simp
next
  case (JArr vs)
  have "s_loop (SArr [] # fs) True (commas (map print_json vs) @ 93 # d # ys) = s_continue (s_deliver (JArr ([] @ vs)) fs (d # ys))"
  proof (rule read_elements)
    fix v sep d' zs and fs' :: "sframe list"
    assume v: "v \<in> set vs" and d': "isdelim d'" and len: "length fs' = Suc (length fs)"
    have "printable v" using JArr.prems(1) v by (auto simp: list_all_iff)
    moreover have "length fs' + depth v \<le> 32" using JArr.prems(2) v len fold_max_le [of "map depth vs" 0 "31 - length fs"] by auto
    ultimately show "s_loop fs' sep (print_json v @ d' # zs) = s_continue (s_deliver v fs' (d' # zs))"
      using JArr.IH [OF v] d' by blast
  qed simp
  with read_open JArr.prems(2) show ?case by simp
next
  case (JObj kvs)
  have "s_loop (SObj [] None # fs) True (commas (map print_member (map (map_prod id print_json) kvs)) @ 125 # d # ys)
    = s_continue (s_deliver (JObj ([] @ kvs)) fs (d # ys))"
  proof (rule read_members)
    fix k v sep d' zs and fs' :: "sframe list"
    assume v: "(k, v) \<in> set kvs" and d': "isdelim d'" and len: "length fs' = Suc (length fs)"
    have "printable v" using JObj.prems(1) v by (auto simp: list_all_iff)
    moreover have "length fs' + depth v \<le> 32"
      using JObj.prems(2) v len fold_max_le [of "map snd (map (map_prod id depth) kvs)" 0 "31 - length fs"] by force
    ultimately show "s_loop fs' sep (print_json v @ d' # zs) = s_continue (s_deliver v fs' (d' # zs))"
      using JObj.IH [OF v] d' by simp
  next
    fix k v assume "(k, v) \<in> set kvs"
    with JObj.prems(1) show "0 \<notin> set k" by (auto simp: list_all_iff)
  qed simp
  with read_open JObj.prems(2) show ?case by simp
next
  case JTrue
  then show ?case
    using loop_token [of 116] token_facts [of 116] by (simp add: s_token_def s_parse_identifier_def)
next
  case JFalse
  then show ?case
    using loop_token [of 102] token_facts [of 102] by (simp add: s_token_def s_parse_identifier_def)
next
  case JNull
  then show ?case
    using loop_token [of 110] token_facts [of 110] by (simp add: s_token_def s_parse_identifier_def)
qed

lemma parse_printed: "printable t \<Longrightarrow> depth t \<le> 32 \<Longrightarrow> parse_tree (print_json t @ [0]) = Some (JSON_OK, t)"
  using read_printed [of t "[]" 0 True "[]"] delim_tokens by (simp add: parse_tree_def s_deliver_def)



section \<open>Texts that are read past their end\<close>

lemma s_space_blank: "src \<noteq> [] \<Longrightarrow> list_all isspace src \<Longrightarrow> s_space (src @ [0]) = Some [0]"
proof (induction src)
  case (Cons c cs)
  then show ?case by (cases cs) (auto simp: isspace_def)
qed simp

lemma s_line_open: "10 \<notin> set xs \<Longrightarrow> s_line xs = None"
  by (induction xs) auto



section \<open>Texts that are not\<close>

text \<open>Every reader stops at a zero byte at the latest.\<close>

lemma s_int_stops: "0 \<in> set xs \<Longrightarrow> \<exists>x ys. s_int xs r = Some (x, ys) \<and> 0 \<in> set ys"
  by (induction xs arbitrary: r) (auto simp: json_isdigit_def)

lemma s_frac_stops: "0 \<in> set xs \<Longrightarrow> \<exists>x ys. s_frac xs f r = Some (x, ys) \<and> 0 \<in> set ys"
  by (induction xs arbitrary: f r) (auto simp: json_isdigit_def Let_def)

lemma s_exp_stops: "0 \<in> set xs \<Longrightarrow> \<exists>x ys. s_exp xs e = Some (x, ys) \<and> 0 \<in> set ys"
  by (induction xs arbitrary: e) (auto simp: json_isdigit_def)

lemma s_fraction_stops: "0 \<in> set xs \<Longrightarrow> \<exists>x ys. s_fraction xs r = Some (x, ys) \<and> 0 \<in> set ys"
  using s_frac_stops by (cases xs) auto

lemma s_exponent_stops:
  assumes "0 \<in> set xs"
  shows "\<exists>x ys. s_exponent xs r = Some (x, ys) \<and> 0 \<in> set ys"
proof (cases xs)
  case (Cons c zs)
  show ?thesis
  proof (cases "c = 101 \<or> c = 69")
    case True
    then obtain d ws where d: "zs = d # ws" using assms Cons by (cases zs) auto
    let ?us = "if d = 43 \<or> d = 45 then ws else zs"
    have "0 \<in> set ?us" using True assms Cons d by auto
    from s_exp_stops [OF this, of 0] obtain e ys where "s_exp ?us 0 = Some (e, ys)" "0 \<in> set ys" by blast
    with True Cons d show ?thesis by (auto simp: Let_def simp del: s_exp.simps)
  next
    case False
    with Cons assms show ?thesis by simp
  qed
qed (use assms in simp)

lemma s_number_stops:
  assumes "0 \<in> set xs"
  shows "\<exists>x ys. s_number xs = Some (x, ys) \<and> 0 \<in> set ys"
proof (cases xs)
  case (Cons c cs)
  have "0 \<in> set (if c = 45 then cs else c # cs)" using assms Cons by auto
  from s_int_stops [OF this, of "Fin 0"] obtain x1 y1 where 1: "s_int (if c = 45 then cs else c # cs) (Fin 0) = Some (x1, y1)" "0 \<in> set y1" by blast
  from s_fraction_stops [OF 1(2)] obtain x2 y2 where 2: "s_fraction y1 x1 = Some (x2, y2)" "0 \<in> set y2" by blast
  from s_exponent_stops [OF 2(2)] obtain x3 y3 where "s_exponent y2 x2 = Some (x3, y3)" "0 \<in> set y3" by blast
  with Cons 1 2 show ?thesis by simp
qed (use assms in simp)

lemma s_hex_stops: "0 \<in> set xs \<Longrightarrow> \<exists>u. s_hex n xs c = Some u \<and> (u \<noteq> None \<longrightarrow> 0 \<in> set (drop n xs))"
  by (induction n xs c rule: s_hex.induct) (auto simp: isxdigit_def)

lemma s_string_stops:
  "0 \<in> set xs \<Longrightarrow> \<exists>r. s_string out seen xs = Some r \<and> (\<forall>str ys. r = Some (str, ys) \<longrightarrow> 0 \<in> set ys)"
proof (induction out seen xs rule: s_string.induct)
  case (2 out seen c xs)
  consider "c = 0" | "c = 92" | "c \<noteq> 0" "c \<noteq> 92" by blast
  then show ?case
  proof cases
    case 1
    then show ?thesis by simp
  next
    case 2
    then obtain e ys where xs: "xs = e # ys" using "2.prems" by (cases xs) auto
    have e: "simple_escape 0 = None" by (simp add: simple_escape_def)
    have zero: "0 \<in> set ys" if "e \<noteq> 0" using "2.prems" 2 xs that by auto
    show ?thesis
    proof (cases "simple_escape e")
      case (Some b)
      with e zero have "0 \<in> set ys" by (cases "e = 0") auto
      with "2.IH"(2) [of e ys b] 2 xs Some show ?thesis by simp
    next
      case None
      show ?thesis
      proof (cases "e = 117")
        case True
        with zero have "0 \<in> set ys" by simp
        from s_hex_stops [OF this, of 4 0] obtain u where u: "s_hex 4 ys 0 = Some u" "u \<noteq> None \<longrightarrow> 0 \<in> set (drop 4 ys)" by blast
        with "2.IH"(1) [of e ys] 2 xs None True show ?thesis by (cases u) auto
      next
        case False
        with 2 xs None show ?thesis by simp
      qed
    qed
  next
    case 3
    with "2.prems" "2.IH"(3) show ?thesis by auto
  qed
qed simp

lemma s_ident_stops: "0 \<in> set xs \<Longrightarrow> 0 \<notin> set w \<Longrightarrow> \<exists>b. s_ident xs w = Some b \<and> (b \<longrightarrow> 0 \<in> set (drop (length w) xs))"
  by (induction xs w rule: s_ident.induct) auto

text \<open>What is left after a token: the separator is up when nothing is open.\<close>

definition goes_on :: "s_result option \<Rightarrow> bool" where
  "goes_on r \<longleftrightarrow> (case r of None \<Rightarrow> False | Some (SDone e v) \<Rightarrow> True | Some (SNext fs sep xs) \<Rightarrow> (fs = [] \<longrightarrow> sep) \<and> 0 \<in> set xs)"

lemma goes_on_simps [simp]:
  "\<not> goes_on None" "goes_on (Some (SDone e v))" "goes_on (Some (SNext fs sep xs)) \<longleftrightarrow> (fs = [] \<longrightarrow> sep) \<and> 0 \<in> set xs"
  by (simp_all add: goes_on_def)

lemma s_deliver_goes_on: "0 \<in> set xs \<Longrightarrow> goes_on (Some (s_deliver v fs xs))"
  by (auto simp: s_deliver_def split: list.splits sframe.splits option.splits json.splits)

lemma s_token_goes_on:
  assumes "0 \<in> set xs" and "c \<noteq> 0" and "c \<noteq> 35" and "fs = [] \<longrightarrow> sep"
  shows "goes_on (s_token c xs fs sep)"
proof -
  note d = s_deliver_goes_on
  have num: "goes_on (s_parse_number c xs fs)"
  proof (cases xs)
    case (Cons x zs)
    have "0 \<in> set (c # xs)" using assms(1) by simp
    from s_number_stops [OF this] obtain y ys where y: "s_number (c # xs) = Some (y, ys)" "0 \<in> set ys" by blast
    then obtain b bs where "ys = b # bs" by (cases ys) auto
    with y Cons d show ?thesis by (auto simp: s_parse_number_def simp del: s_number.simps)
  qed (use assms(1) in simp)
  from s_string_stops [OF assms(1), of "[]" "[]"] obtain r where r: "s_string [] [] xs = Some r" "\<forall>str ys. r = Some (str, ys) \<longrightarrow> 0 \<in> set ys" by blast
  have str: "goes_on (s_parse_string xs fs)"
  proof (cases r)
    case None
    with r show ?thesis by (simp add: s_parse_string_def)
  next
    case (Some sy)
    obtain t ys where "sy = (t, ys)" by fastforce
    with Some r have "s_string [] [] xs = Some (Some (t, ys))" "0 \<in> set ys" by auto
    moreover from this(2) obtain b bs where "ys = b # bs" by (cases ys) auto
    ultimately show ?thesis using d by (auto simp: s_parse_string_def)
  qed
  have ident: "goes_on (s_parse_identifier w v xs fs)" if w: "0 \<notin> set w" for w v
    using s_ident_stops [OF assms(1) w] d by (auto simp: s_parse_identifier_def)
  have close: "goes_on (Some (s_close_array fs xs))" "goes_on (Some (s_close_object fs xs))"
    using d assms(1) by (auto simp: s_close_array_def s_close_object_def split: list.splits sframe.splits option.splits)
  have opn: "goes_on (Some (s_open f fs xs))" "goes_on (s_separator b fs sep xs)" for f b
    using assms(1,4) by (auto simp: s_open_def s_separator_def split: list.splits)
  show ?thesis using assms(2,3) num str ident close opn by (simp add: s_token_def)
qed

lemma s_space_stops:
  assumes "xs \<noteq> []" and "\<not> isspace (last xs)" and "0 \<notin> set xs"
  shows "\<exists>ys. s_space (xs @ [0]) = Some (ys @ [0]) \<and> suffix ys xs \<and> ys \<noteq> []"
  using assms
proof (induction xs)
  case (Cons c xs)
  show ?case
  proof (cases "isspace c")
    case True
    then obtain d zs where xs: "xs = d # zs" using Cons.prems(2) by (cases xs) auto
    with Cons True show ?thesis by (auto intro: suffix_ConsI)
  next
    case False
    then show ?thesis by (intro exI [of _ "c # xs"]) simp
  qed
qed simp

lemma s_loop_defined:
  assumes "fs = [] \<longrightarrow> sep" and "0 \<notin> set xs" and "35 \<notin> set xs" and "xs \<noteq> [] \<longrightarrow> \<not> isspace (last xs)"
  shows "s_loop fs sep (xs @ [0]) \<noteq> None"
  using assms
proof (induction "length xs" arbitrary: fs sep xs rule: less_induct)
  case less
  show ?case
  proof (cases xs)
    case Nil
    then show ?thesis by (subst s_loop.simps) simp
  next
    case (Cons x xs')
    obtain ys where ys: "s_space (xs @ [0]) = Some (ys @ [0])" "suffix ys xs" "ys \<noteq> []"
      using s_space_stops [of xs] less.prems Cons by auto
    then obtain c zs where c: "ys = c # zs" by (cases ys) auto
    have in_xs: "set ys \<subseteq> set xs" using ys(2) by (rule set_mono_suffix)
    let ?r = "s_token c (zs @ [0]) fs sep"
    have go: "goes_on ?r" by (rule s_token_goes_on) (use less.prems in_xs c in auto)
    have l: "s_loop fs sep (xs @ [0]) = ?r \<bind> s_continue"
      using less.prems(2) Cons ys(1) c by (subst s_loop.simps) (auto simp: s_step_def s_continue_def [abs_def])
    show ?thesis
    proof (cases ?r)
      case (Some r)
      show ?thesis
      proof (cases r)
        case (SNext fs' sep' us)
        with Some go have us: "fs' = [] \<longrightarrow> sep'" "0 \<in> set us" by simp_all
        from s_token_left [OF Some [unfolded SNext]] have "suffix us (zs @ [0])" .
        with us(2) obtain vs where vs: "us = vs @ [0]" "suffix vs zs"
          by (cases us rule: rev_cases) auto
        have suf: "suffix vs xs" using vs(2) ys(2) c by (metis suffix_ConsI suffix_order.trans)
        have "length vs < length xs" using suffix_length_le [OF vs(2)] suffix_length_le [OF ys(2)] c by simp
        moreover have "vs \<noteq> [] \<longrightarrow> last vs = last xs" using suf by (auto simp: suffix_def)
        moreover have "set vs \<subseteq> set xs" "xs \<noteq> []" using set_mono_suffix [OF suf] Cons by auto
        ultimately have "s_loop fs' sep' (vs @ [0]) \<noteq> None"
          by (intro less.hyps us(1)) (use less.prems(2-4) in auto)
        with l Some SNext vs(1) show ?thesis by simp
      qed (use l Some in simp)
    qed (use go in simp)
  qed
qed

text \<open>C8: On a text without comments that does not end in white space, \<open>jsonParse\<close> has no undefined
  behaviour, whatever the text is and whichever allocations fail: no read or write outside the
  source, no dereference of a null or dangling node, no access past the stack of open arrays and
  objects; and it returns.\<close>

theorem jsonParse_safe:
  assumes "0 \<notin> set src" and "35 \<notin> set src" and "src \<noteq> []" and "\<not> isspace (last src)"
  shows "\<exists>e p. jsonParse malloc (src @ [0]) = Some (e, p)"
proof -
  have "parse_tree (src @ [0]) \<noteq> None" unfolding parse_tree_def by (rule s_loop_defined) (use assms in simp_all)
  with jsonParse_sim [of "src @ [0]" malloc] show ?thesis by (auto split: option.split_asm)
qed

theorem jsonParse_safe_witness: "\<exists>e p. jsonParse (\<lambda>n. False) (bytes_of_string ''{, ]'' @ [0]) = Some (e, p)"
  by (rule jsonParse_safe) (simp_all add: bytes_of_string_def isspace_def)

end
