(* ===== verification/ConfigFile.thy ===== *)
theory ConfigFile
  imports JsonText
begin

text \<open>
  The loader of \<open>core/config.cpp\<close>: the configuration file is parsed in place, the linked lists of
  members are walked and every member sets a field of the configuration. The file system is a
  parameter, and so is which calls of \<open>malloc\<close> succeed. The configuration is shown to be what a
  function on the tree of the file computes.
\<close>

section \<open>State\<close>

text \<open>The configuration and what has been printed.\<close>

record loader =
  l_config :: kserver_config
  l_out :: "trace_event list"

definition say :: "trace_event \<Rightarrow> loader \<Rightarrow> loader" where
  "say ev l = l\<lparr>l_out := l_out l @ [ev]\<rparr>"

text \<open>A message on \<open>stderr\<close> and the result -1.\<close>

definition refuse :: "byte list \<Rightarrow> loader \<Rightarrow> (int \<times> loader) res" where
  "refuse msg l = Ret (-1, say (ToStderr msg) l)"

definition set_config :: "(kserver_config \<Rightarrow> kserver_config) \<Rightarrow> loader \<Rightarrow> (int \<times> loader) res" where
  "set_config f l = Ret (0, l\<lparr>l_config := f (l_config l)\<rparr>)"

datatype server_t = TCP_SERVER | WEBSOCK_SERVER | UNIXSOCK_SERVER

section \<open>Reading the source and its values\<close>

text \<open>
  The content of the file, copied with \<open>strcpy\<close>: up to its first zero byte. Behind it the copy is
  not initialised.
\<close>

definition get_source :: "(byte list \<Rightarrow> byte list option) \<Rightarrow> byte list \<Rightarrow> loader \<Rightarrow> byte list option \<times> loader" where
  "get_source files filename l = (case files filename of
     None \<Rightarrow> (None, say (ToStderr (lit ''Cannot open file '' @ filename @ nl)) l)
   | Some config_str \<Rightarrow> (Some (c_string config_str @ [0]), l))"

text \<open>The characters of a pointer into the source, as the functions on C strings read them.\<close>

definition string_of :: "byte list \<Rightarrow> nat \<Rightarrow> byte list res" where
  "string_of m q = (if 0 \<in> set (drop q m) then Ret (c_string (drop q m)) else Undef)"

definition key_of :: "byte list \<Rightarrow> json_node \<Rightarrow> byte list res" where
  "key_of m nd = (case node_key nd of None \<Rightarrow> Undef | Some q \<Rightarrow> string_of m q)"

text \<open>\<open>for (auto i : value)\<close>, with the \<open>return -1\<close> of its body.\<close>

partial_function (option) for_nodes :: "(json_node \<Rightarrow> loader \<Rightarrow> (int \<times> loader) res option) \<Rightarrow> heap \<Rightarrow> addr option \<Rightarrow> loader
    \<Rightarrow> (int \<times> loader) res option" where
  "for_nodes body h i l = (case i of
     None \<Rightarrow> Some (Ret (0, l))
   | Some a \<Rightarrow> (case h a of
       None \<Rightarrow> Some Undef
     | Some nd \<Rightarrow> bind_ro (body nd l) (\<lambda>(r, l). if r < 0 then Some (Ret (-1, l)) else for_nodes body h (node_next nd) l)))"

definition is_on :: "byte list \<Rightarrow> json_value \<Rightarrow> int res" where
  "is_on m v = (case v of
     Str q \<Rightarrow> bind_res (string_of m q) (\<lambda>s. Ret (if s = lit ''ON'' then 1 else if s = lit ''OFF'' then 0 else -1))
   | _ \<Rightarrow> Ret (-1))"

definition READ_BOOL :: "string \<Rightarrow> (bool \<Rightarrow> kserver_config \<Rightarrow> kserver_config) \<Rightarrow> byte list \<Rightarrow> json_value \<Rightarrow> loader \<Rightarrow> (int \<times> loader) res" where
  "READ_BOOL name assign m v l = bind_res (is_on m v) (\<lambda>status.
     if status < 0 then refuse (lit ''Invalid field '' @ lit name @ nl) l else set_config (assign (status \<noteq> 0)) l)"

definition read_verbose :: "byte list \<Rightarrow> json_value \<Rightarrow> loader \<Rightarrow> (int \<times> loader) res" where
  "read_verbose = READ_BOOL ''verbose'' (\<lambda>b. verbose_update (\<lambda>_. b))"

definition read_tcp_nodelay :: "byte list \<Rightarrow> json_value \<Rightarrow> loader \<Rightarrow> (int \<times> loader) res" where
  "read_tcp_nodelay = READ_BOOL ''tcp_nodelay'' (\<lambda>b. tcp_nodelay_update (\<lambda>_. b))"

definition read_daemon :: "byte list \<Rightarrow> json_value \<Rightarrow> loader \<Rightarrow> (int \<times> loader) res" where
  "read_daemon = READ_BOOL ''daemon'' (\<lambda>b. daemon_update (\<lambda>_. b))"

definition read_notify_systemd :: "byte list \<Rightarrow> json_value \<Rightarrow> loader \<Rightarrow> (int \<times> loader) res" where
  "read_notify_systemd = READ_BOOL ''notify_systemd'' (\<lambda>b. notify_systemd_update (\<lambda>_. b))"

definition log_member :: "byte list \<Rightarrow> json_node \<Rightarrow> loader \<Rightarrow> (int \<times> loader) res" where
  "log_member m nd l = bind_res (key_of m nd) (\<lambda>key.
     if key = lit ''system_log'' then
       bind_res (is_on m (node_value nd)) (\<lambda>status.
         if status < 0 then refuse (lit ''Invalid field system_log'' @ nl) l
         else set_config (use_syslog_update (\<lambda>_. status \<noteq> 0)) l)
     else refuse (lit ''Invalid key in log'' @ nl) l)"

definition read_log_field :: "byte list \<Rightarrow> heap \<Rightarrow> json_value \<Rightarrow> loader \<Rightarrow> (int \<times> loader) res option" where
  "read_log_field m h v l = (case v of
     Object i \<Rightarrow> for_nodes (\<lambda>nd l. Some (log_member m nd l)) h i l
   | _ \<Rightarrow> Some (refuse (lit ''Invalid field log'' @ nl) l))"

text \<open>The character at an index of a C string, its terminator included.\<close>

definition char_at :: "byte list \<Rightarrow> nat \<Rightarrow> byte" where
  "char_at s i = (s @ [0]) ! i"

definition check_unixsocket_path :: "byte list \<Rightarrow> loader \<Rightarrow> int \<times> loader" where
  "check_unixsocket_path pth l =
     (if char_at pth 0 \<noteq> 64 \<and> char_at pth 0 \<noteq> 47 \<or> char_at pth 1 = 0 then
        (-1, say (ToStderr (lit ''Invalid path for unix socket '' @ pth @ nl)) l)
      else if length pth > UNIX_SOCKET_PATH_LEN then (-1, say (ToStderr (lit ''Unix socket path too long'' @ nl)) l)
      else (0, l))"

text \<open>A path that passes the check is copied to \<open>unixsock_path\<close>.\<close>

definition copy_path :: "byte list \<Rightarrow> loader \<Rightarrow> (int \<times> loader) res" where
  "copy_path pth l = (case check_unixsocket_path pth l of (r, l) \<Rightarrow>
     if r < 0 then Ret (-1, l)
     else bind_res (of_ub (strcpy (unixsock_path (l_config l)) pth)) (\<lambda>arr. set_config (unixsock_path_update (\<lambda>_. arr)) l))"

definition set_u32 :: "(u32 \<Rightarrow> kserver_config \<Rightarrow> kserver_config) \<Rightarrow> double \<Rightarrow> loader \<Rightarrow> (int \<times> loader) res" where
  "set_u32 assign x l = bind_res (of_ub (d_to_u32 x)) (\<lambda>n. set_config (assign n) l)"

definition server_listen :: "server_t \<Rightarrow> json_value \<Rightarrow> loader \<Rightarrow> (int \<times> loader) res" where
  "server_listen serv_type v l = (case v of
     Number x \<Rightarrow> (case serv_type of
         TCP_SERVER \<Rightarrow> set_u32 (\<lambda>n. tcp_port_update (\<lambda>_. n)) x l
       | WEBSOCK_SERVER \<Rightarrow> set_u32 (\<lambda>n. websock_port_update (\<lambda>_. n)) x l
       | UNIXSOCK_SERVER \<Rightarrow> refuse (lit ''Unix socket don't have a listen port'' @ nl) l)
   | _ \<Rightarrow> refuse (lit ''Invalid value in field listen'' @ nl) l)"

definition server_path :: "byte list \<Rightarrow> server_t \<Rightarrow> json_value \<Rightarrow> loader \<Rightarrow> (int \<times> loader) res" where
  "server_path m serv_type v l =
     (if serv_type \<noteq> UNIXSOCK_SERVER then refuse (lit ''Field path only valid for Unix socket'' @ nl) l
      else case v of
        Str q \<Rightarrow> bind_res (string_of m q) (\<lambda>pth. copy_path pth l)
      | _ \<Rightarrow> refuse (lit ''Invalid value in field path'' @ nl) l)"

definition server_workers :: "server_t \<Rightarrow> json_value \<Rightarrow> loader \<Rightarrow> (int \<times> loader) res" where
  "server_workers serv_type v l = (case v of
     Number x \<Rightarrow> (case serv_type of
         TCP_SERVER \<Rightarrow> set_u32 (\<lambda>n. tcp_worker_connections_update (\<lambda>_. n)) x l
       | WEBSOCK_SERVER \<Rightarrow> set_u32 (\<lambda>n. websock_worker_connections_update (\<lambda>_. n)) x l
       | UNIXSOCK_SERVER \<Rightarrow> set_u32 (\<lambda>n. unixsock_worker_connections_update (\<lambda>_. n)) x l)
   | _ \<Rightarrow> refuse (lit ''Invalid value in field worker_connections'' @ nl) l)"

definition server_member :: "byte list \<Rightarrow> server_t \<Rightarrow> json_node \<Rightarrow> loader \<Rightarrow> (int \<times> loader) res" where
  "server_member m serv_type nd l = bind_res (key_of m nd) (\<lambda>key.
     if key = lit ''listen'' then server_listen serv_type (node_value nd) l
     else if key = lit ''path'' then server_path m serv_type (node_value nd) l
     else if key = lit ''worker_connections'' then server_workers serv_type (node_value nd) l
     else refuse (lit ''Unknown server key '' @ key @ nl) l)"

definition read_server :: "byte list \<Rightarrow> heap \<Rightarrow> server_t \<Rightarrow> json_value \<Rightarrow> loader \<Rightarrow> (int \<times> loader) res option" where
  "read_server m h serv_type v l = (case v of
     Object i \<Rightarrow> for_nodes (\<lambda>nd l. Some (server_member m serv_type nd l)) h i l
   | _ \<Rightarrow> Some (refuse (lit ''Invalid TCP field'' @ nl) l))"

definition read_tcp :: "byte list \<Rightarrow> heap \<Rightarrow> json_value \<Rightarrow> loader \<Rightarrow> (int \<times> loader) res option" where
  "read_tcp m h v l = read_server m h TCP_SERVER v l"

definition read_websocket :: "byte list \<Rightarrow> heap \<Rightarrow> json_value \<Rightarrow> loader \<Rightarrow> (int \<times> loader) res option" where
  "read_websocket m h v l = read_server m h WEBSOCK_SERVER v l"

definition read_unixsocket :: "byte list \<Rightarrow> heap \<Rightarrow> json_value \<Rightarrow> loader \<Rightarrow> (int \<times> loader) res option" where
  "read_unixsocket m h v l = read_server m h UNIXSOCK_SERVER v l"

section \<open>The file\<close>

definition check_config :: "loader \<Rightarrow> loader" where
  "check_config l =
     (if daemon (l_config l) then
        let l = l\<lparr>l_config := (l_config l)\<lparr>verbose := False\<rparr>\<rparr> in
        if \<not> use_syslog (l_config l) then
          say (ToStdout (lit ''NOTICE: You should consider to activate the syslog when running KServer as a daemon'' @ nl)) l
        else l
      else l)"

definition on_off :: "bool \<Rightarrow> byte list" where
  "on_off b = (if b then lit ''ON'' else lit ''OFF'')"

definition show_config :: "loader \<Rightarrow> loader" where
  "show_config l = (let c = l_config l; line = (\<lambda>s t. ToStdout (lit s @ t)) in
     l\<lparr>l_out := l_out l @
       [line '''' (nl @ lit ''=================='' @ nl), line ''  KServer config  '' nl, line ''=================='' (nl @ nl),
        line ''Verbose: '' (on_off (verbose c) @ nl), line ''Notify systemd: '' (on_off (notify_systemd c) @ nl),
        line ''Systemd notification socket: '' (c_string (notify_socket c) @ nl),
        line ''System log: '' (on_off (use_syslog c) @ nl @ nl),
        line ''TCP listen: '' (fmt_u (uint (tcp_port c)) @ nl),
        line ''TCP workers: '' (fmt_u (uint (tcp_worker_connections c)) @ nl @ nl),
        line ''Websocket listen: '' (fmt_u (uint (websock_port c)) @ nl),
        line ''Websocket workers: '' (fmt_u (uint (websock_worker_connections c)) @ nl @ nl),
        line ''Unix socket path: '' (c_string (unixsock_path c) @ nl),
        line ''Unix socket workers: '' (fmt_u (uint (unixsock_worker_connections c)) @ nl @ nl)]\<rparr>)"

definition read_notify_socket :: "byte list \<Rightarrow> json_value \<Rightarrow> loader \<Rightarrow> (int \<times> loader) res" where
  "read_notify_socket m v l = (case v of
     Str q \<Rightarrow> bind_res (string_of m q) (\<lambda>pth. copy_path pth l)
   | _ \<Rightarrow> refuse (lit ''Invalid value in field notify-socket'' @ nl) l)"

definition file_member :: "byte list \<Rightarrow> heap \<Rightarrow> json_node \<Rightarrow> loader \<Rightarrow> (int \<times> loader) res option" where
  "file_member m h nd l = bind_ro (Some (key_of m nd)) (\<lambda>key.
     let v = node_value nd in
     if key = lit ''verbose'' then Some (read_verbose m v l)
     else if key = lit ''tcp_nodelay'' then Some (read_tcp_nodelay m v l)
     else if key = lit ''daemon'' then Some (read_daemon m v l)
     else if key = lit ''notify-systemd'' then Some (read_notify_systemd m v l)
     else if key = lit ''notify-socket'' then Some (read_notify_socket m v l)
     else if key = lit ''logs'' then read_log_field m h v l
     else if key = lit ''TCP'' then read_tcp m h v l
     else if key = lit ''websocket'' then read_websocket m h v l
     else if key = lit ''unix'' then read_unixsocket m h v l
     else Some (refuse (lit ''Unknown field '' @ key @ lit '' in configuration file'' @ nl) l))"

definition load_value :: "json_parser \<Rightarrow> loader \<Rightarrow> (int \<times> loader) res option" where
  "load_value p l = (case parsed_value p of
     Object i \<Rightarrow> bind_ro (for_nodes (file_member (json_mem p) (json_heap p)) (json_heap p) i l) (\<lambda>(r, l).
       if r < 0 then Some (Ret (-1, l))
       else Some (Ret (0, check_config (if verbose (l_config l) then show_config l else l))))
   | _ \<Rightarrow> Some (refuse (lit ''Invalid configuration file'' @ nl) l))"

definition load_file :: "(byte list \<Rightarrow> byte list option) \<Rightarrow> (nat \<Rightarrow> bool) \<Rightarrow> byte list \<Rightarrow> loader \<Rightarrow> (int \<times> loader) res option" where
  "load_file files malloc filename l = (case get_source files filename l of
     (None, l) \<Rightarrow> Some (Ret (-1, l))
   | (Some source, l) \<Rightarrow> (case jsonParse malloc source of
       None \<Rightarrow> Some Undef
     | Some (err, p) \<Rightarrow>
         if err \<noteq> JSON_OK then
           Some (refuse (lit ''JSON Error: '' @ lit (jsonStrError err) @ lit '' at '' @ fmt_d (int (endptr p)) @ nl) l)
         else load_value p l))"

section \<open>The configuration of a tree\<close>

fun for_members :: "('a \<Rightarrow> loader \<Rightarrow> (int \<times> loader) res) \<Rightarrow> 'a list \<Rightarrow> loader \<Rightarrow> (int \<times> loader) res" where
  "for_members f [] l = Ret (0, l)"
| "for_members f (x # xs) l = bind_res (f x l) (\<lambda>(r, l). if r < 0 then Ret (-1, l) else for_members f xs l)"

definition t_is_on :: "json \<Rightarrow> int" where
  "t_is_on t = (case t of JStr s \<Rightarrow> if s = lit ''ON'' then 1 else if s = lit ''OFF'' then 0 else -1 | _ \<Rightarrow> -1)"

definition t_bool :: "string \<Rightarrow> (bool \<Rightarrow> kserver_config \<Rightarrow> kserver_config) \<Rightarrow> json \<Rightarrow> loader \<Rightarrow> (int \<times> loader) res" where
  "t_bool msg assign t l =
     (if t_is_on t < 0 then refuse (lit msg @ nl) l else set_config (assign (t_is_on t \<noteq> 0)) l)"

definition t_object :: "string \<Rightarrow> (byte list \<times> json \<Rightarrow> loader \<Rightarrow> (int \<times> loader) res) \<Rightarrow> json \<Rightarrow> loader \<Rightarrow> (int \<times> loader) res" where
  "t_object msg f t l = (case t of JObj kvs \<Rightarrow> for_members f kvs l | _ \<Rightarrow> refuse (lit msg @ nl) l)"

definition t_path :: "string \<Rightarrow> json \<Rightarrow> loader \<Rightarrow> (int \<times> loader) res" where
  "t_path msg t l = (case t of JStr s \<Rightarrow> copy_path s l | _ \<Rightarrow> refuse (lit msg @ nl) l)"

fun t_log :: "byte list \<times> json \<Rightarrow> loader \<Rightarrow> (int \<times> loader) res" where
  "t_log (key, t) l =
     (if key = lit ''system_log'' then t_bool ''Invalid field system_log'' (\<lambda>b. use_syslog_update (\<lambda>_. b)) t l
      else refuse (lit ''Invalid key in log'' @ nl) l)"

text \<open>Numbers and other values, for the functions that look at no string.\<close>

definition t_value :: "json \<Rightarrow> json_value" where
  "t_value t = (case t of JNum x \<Rightarrow> Number x | _ \<Rightarrow> NullV)"

fun t_server :: "server_t \<Rightarrow> byte list \<times> json \<Rightarrow> loader \<Rightarrow> (int \<times> loader) res" where
  "t_server serv_type (key, t) l =
     (if key = lit ''listen'' then server_listen serv_type (t_value t) l
      else if key = lit ''path'' then
        if serv_type \<noteq> UNIXSOCK_SERVER then refuse (lit ''Field path only valid for Unix socket'' @ nl) l
        else t_path ''Invalid value in field path'' t l
      else if key = lit ''worker_connections'' then server_workers serv_type (t_value t) l
      else refuse (lit ''Unknown server key '' @ key @ nl) l)"

fun t_field :: "byte list \<times> json \<Rightarrow> loader \<Rightarrow> (int \<times> loader) res" where
  "t_field (key, t) l =
     (if key = lit ''verbose'' then t_bool ''Invalid field verbose'' (\<lambda>b. verbose_update (\<lambda>_. b)) t l
      else if key = lit ''tcp_nodelay'' then t_bool ''Invalid field tcp_nodelay'' (\<lambda>b. tcp_nodelay_update (\<lambda>_. b)) t l
      else if key = lit ''daemon'' then t_bool ''Invalid field daemon'' (\<lambda>b. daemon_update (\<lambda>_. b)) t l
      else if key = lit ''notify-systemd'' then t_bool ''Invalid field notify_systemd'' (\<lambda>b. notify_systemd_update (\<lambda>_. b)) t l
      else if key = lit ''notify-socket'' then t_path ''Invalid value in field notify-socket'' t l
      else if key = lit ''logs'' then t_object ''Invalid field log'' t_log t l
      else if key = lit ''TCP'' then t_object ''Invalid TCP field'' (t_server TCP_SERVER) t l
      else if key = lit ''websocket'' then t_object ''Invalid TCP field'' (t_server WEBSOCK_SERVER) t l
      else if key = lit ''unix'' then t_object ''Invalid TCP field'' (t_server UNIXSOCK_SERVER) t l
      else refuse (lit ''Unknown field '' @ key @ lit '' in configuration file'' @ nl) l)"

definition t_load :: "json \<Rightarrow> loader \<Rightarrow> (int \<times> loader) res" where
  "t_load t l = bind_res (t_object ''Invalid configuration file'' t_field t l) (\<lambda>(r, l).
     if r < 0 then Ret (-1, l) else Ret (0, check_config (if verbose (l_config l) then show_config l else l)))"

section \<open>The loader computes it\<close>

lemma string_of_at:
  assumes "string_at m b q s"
  shows "string_of m q = Ret s"
proof -
  have s: "0 \<notin> set s" "take (length s + 1) (drop q m) = s @ [0]" using assms by (simp_all add: string_at_def slice_def)
  then have "drop q m = (s @ [0]) @ drop (length s + 1) (drop q m)" by (metis append_take_drop_id)
  then obtain zs where zs: "drop q m = s @ 0 # zs" by simp
  have "takeWhile (\<lambda>c. c \<noteq> 0) (s @ 0 # zs) = s" using s(1) by (subst takeWhile_append2) auto
  with zs show ?thesis by (simp add: string_of_def c_string_def)
qed

lemma is_on_rep: "rep h m b v t \<Longrightarrow> is_on m v = Ret (t_is_on t)"
  by (erule rep.cases) (simp_all add: is_on_def t_is_on_def string_of_at)

lemma t_value_rep:
  assumes "rep h m b v t"
  shows "server_listen serv_type v l = server_listen serv_type (t_value t) l"
    "server_workers serv_type v l = server_workers serv_type (t_value t) l"
  using assms by (cases rule: rep.cases; simp add: server_listen_def server_workers_def t_value_def)+

lemma READ_BOOL_rep: "rep h m b v t \<Longrightarrow> READ_BOOL name assign m v l = t_bool (''Invalid field '' @ name) assign t l"
  by (simp add: READ_BOOL_def t_bool_def is_on_rep bytes_of_string_def)

text \<open>A node of the list of an object and the member it represents.\<close>

definition node_rep :: "heap \<Rightarrow> byte list \<Rightarrow> nat \<Rightarrow> json_node \<Rightarrow> byte list \<times> json \<Rightarrow> bool" where
  "node_rep h m b nd kv \<longleftrightarrow> (\<exists>q. node_key nd = Some q \<and> string_at m b q (fst kv)) \<and> rep h m b (node_value nd) (snd kv)"

lemma key_of_rep: "node_rep h m b nd (k, t) \<Longrightarrow> key_of m nd = Ret k"
  by (auto simp: node_rep_def key_of_def string_of_at)

lemma for_nodes_rep:
  assumes "path h i as None"
    and "list_all2 (\<lambda>n kv. \<exists>nd. h n = Some nd \<and> node_rep h m b nd kv) as kvs"
    and "\<And>nd kv l. node_rep h m b nd kv \<Longrightarrow> body nd l = Some (f kv l)"
  shows "for_nodes body h i l = Some (for_members f kvs l)"
  using assms(1,2)
proof (induction kvs arbitrary: i as l)
  case Nil
  then show ?case by (subst for_nodes.simps) simp
next
  case (Cons kv kvs)
  obtain a bs where as: "as = a # bs" using Cons.prems(2) by (cases as) auto
  obtain nd where nd: "h a = Some nd" "node_rep h m b nd kv" "i = Some a" "path h (node_next nd) bs None"
    "list_all2 (\<lambda>n kv. \<exists>nd. h n = Some nd \<and> node_rep h m b nd kv) bs kvs"
    using Cons.prems as by auto
  have IH: "for_nodes body h (node_next nd) l = Some (for_members f kvs l)" for l by (rule Cons.IH [OF nd(4,5)])
  show ?case
    using nd(1,3) assms(3) [OF nd(2)] IH by (subst for_nodes.simps) (cases "f kv l"; auto)
qed

lemma object_rep:
  assumes "rep h m b v t" and "\<And>nd kv l. node_rep h m b nd kv \<Longrightarrow> body nd l = Some (f kv l)"
  shows "(case v of Object i \<Rightarrow> for_nodes body h i l | _ \<Rightarrow> Some (refuse (lit msg @ nl) l)) = Some (t_object msg f t l)"
  using assms(1)
proof (cases rule: rep.cases)
  case (obj i as kvs)
  have "list_all2 (\<lambda>n kv. \<exists>nd. h n = Some nd \<and> node_rep h m b nd kv) as kvs"
    using obj(4) by (rule list_all2_mono) (auto simp: node_rep_def)
  from for_nodes_rep [OF obj(3) this assms(2)] obj(1,2) show ?thesis by (simp add: t_object_def)
qed (simp_all add: t_object_def)

lemma log_member_rep: "node_rep h m b nd kv \<Longrightarrow> log_member m nd l = t_log kv l"
  by (cases kv) (auto simp: log_member_def key_of_rep t_bool_def is_on_rep node_rep_def)

lemma path_rep:
  assumes "rep h m b v t"
  shows "(case v of Str q \<Rightarrow> bind_res (string_of m q) (\<lambda>s. copy_path s l) | _ \<Rightarrow> refuse (lit msg @ nl) l) = t_path msg t l"
  using assms by (cases rule: rep.cases) (simp_all add: t_path_def string_of_at)

lemma server_member_rep: "node_rep h m b nd kv \<Longrightarrow> server_member m serv_type nd l = t_server serv_type kv l"
proof -
  assume n: "node_rep h m b nd kv"
  obtain k t where kv: "kv = (k, t)" by fastforce
  with n have "key_of m nd = Ret k" "rep h m b (node_value nd) t" by (simp_all add: key_of_rep) (simp add: node_rep_def)
  with kv show ?thesis by (simp add: server_member_def server_path_def t_value_rep path_rep)
qed

lemma file_member_rep: "node_rep h m b nd kv \<Longrightarrow> file_member m h nd l = Some (t_field kv l)"
proof -
  assume n: "node_rep h m b nd kv"
  obtain k t where kv: "kv = (k, t)" by fastforce
  with n have k: "key_of m nd = Ret k" and t: "rep h m b (node_value nd) t" by (simp_all add: key_of_rep) (simp add: node_rep_def)
  have "read_log_field m h (node_value nd) l = Some (t_object ''Invalid field log'' t_log t l)"
    unfolding read_log_field_def by (rule object_rep [OF t]) (simp add: log_member_rep)
  moreover have "read_server m h serv_type (node_value nd) l = Some (t_object ''Invalid TCP field'' (t_server serv_type) t l)" for serv_type
    unfolding read_server_def by (rule object_rep [OF t]) (simp add: server_member_rep)
  moreover have "read_notify_socket m (node_value nd) l = t_path ''Invalid value in field notify-socket'' t l"
    unfolding read_notify_socket_def by (rule path_rep [OF t])
  ultimately show ?thesis
    using k kv READ_BOOL_rep [OF t]
    by (simp add: file_member_def Let_def read_verbose_def read_tcp_nodelay_def read_daemon_def read_notify_systemd_def
        read_tcp_def read_websocket_def read_unixsocket_def)
qed

lemma load_value_rep:
  assumes "represents p t"
  shows "load_value p l = Some (t_load t l)"
proof -
  let ?m = "json_mem p" and ?h = "json_heap p"
  have r: "rep ?h ?m (length ?m) (parsed_value p) t" using assms by (simp add: represents_def)
  have "(case parsed_value p of Object i \<Rightarrow> for_nodes (file_member ?m ?h) ?h i l | _ \<Rightarrow> Some (refuse (lit ''Invalid configuration file'' @ nl) l))
    = Some (t_object ''Invalid configuration file'' t_field t l)"
    by (rule object_rep [OF r]) (rule file_member_rep)
  then show ?thesis
    by (cases "parsed_value p"; cases "t_object ''Invalid configuration file'' t_field t l") (auto simp: load_value_def t_load_def refuse_def)
qed

lemma load_file_tree:
  assumes "\<forall>n. malloc n"
  shows "\<exists>pos. load_file files malloc filename l = (case files filename of
      None \<Rightarrow> Some (refuse (lit ''Cannot open file '' @ filename @ nl) l)
    | Some content \<Rightarrow> (case parse_tree (c_string content @ [0]) of
        None \<Rightarrow> Some Undef
      | Some (err, t) \<Rightarrow>
          if err = JSON_OK then Some (t_load t l)
          else Some (refuse (lit ''JSON Error: '' @ lit (jsonStrError err) @ lit '' at '' @ fmt_d pos @ nl) l)))"
proof (cases "files filename")
  case None
  then show ?thesis by (simp add: load_file_def get_source_def refuse_def)
next
  case (Some content)
  let ?src = "c_string content @ [0]"
  note sim = jsonParse_sim [of ?src malloc]
  show ?thesis
  proof (cases "jsonParse malloc ?src")
    case None
    with sim Some show ?thesis by (simp add: load_file_def get_source_def)
  next
    case (Some ep)
    obtain e p where ep: "ep = (e, p)" by fastforce
    have e: "e \<noteq> JSON_ALLOCATION_FAILURE" using sim Some ep assms by auto
    show ?thesis
    proof (cases "e = JSON_OK")
      case True
      with sim Some ep obtain t where "parse_tree ?src = Some (JSON_OK, t)" "represents p t" by auto
      with Some ep True \<open>files filename = Some content\<close> show ?thesis
        by (simp add: load_file_def get_source_def load_value_rep)
    next
      case False
      with sim Some ep e obtain t where "parse_tree ?src = Some (e, t)" by auto
      with Some ep False \<open>files filename = Some content\<close> show ?thesis
        by (auto simp: load_file_def get_source_def)
    qed
  qed
qed

text \<open>C17: Loading a configuration file computes the configuration of the tree of the file: the walk
  over the linked nodes in the heap visits the members in order and stops at the first that is
  refused; a file that cannot be read or parsed leaves the configuration alone.\<close>

theorem load_file_refines:
  assumes "\<forall>n. malloc n"
  shows "\<exists>pos. load_file files malloc filename l = (case files filename of
      None \<Rightarrow> Some (refuse (lit ''Cannot open file '' @ filename @ nl) l)
    | Some content \<Rightarrow> (case parse_tree (c_string content @ [0]) of
        None \<Rightarrow> Some Undef
      | Some (err, t) \<Rightarrow>
          if err = JSON_OK then Some (t_load t l)
          else Some (refuse (lit ''JSON Error: '' @ lit (jsonStrError err) @ lit '' at '' @ fmt_d pos @ nl) l)))"
  by (rule load_file_tree [OF assms])

theorem load_file_refines_witness:
  "load_file (\<lambda>f. Some (print_json (JObj [(lit ''verbose'', JStr (lit ''ON''))]))) (\<lambda>n. True) (lit ''a'') \<lparr>l_config = KServerConfig, l_out = []\<rparr>
     = Some (t_load (JObj [(lit ''verbose'', JStr (lit ''ON''))]) \<lparr>l_config = KServerConfig, l_out = []\<rparr>)"
proof -
  let ?t = "JObj [(lit ''verbose'', JStr (lit ''ON''))]"
  have "parse_tree (print_json ?t @ [0]) = Some (JSON_OK, ?t)" by (rule parse_printed) (simp_all add: bytes_of_string_def)
  moreover have "c_string (print_json ?t) = print_json ?t"
    by (simp add: print_member_def print_string_def escape_def c_string_def bytes_of_string_def)
  ultimately show ?thesis
    using load_file_refines [of "\<lambda>n. True" "\<lambda>f. Some (print_json ?t)" "lit ''a''" "\<lparr>l_config = KServerConfig, l_out = []\<rparr>"] by simp
qed

end
