(* ===== verification/ConfigLoad.thy ===== *)
theory ConfigLoad
  imports ConfigFile
begin

text \<open>
  What loading a configuration file keeps and what it sets: the paths stay terminated in their
  arrays, the notification socket is never set, a path of exactly 108 bytes overflows its array,
  and a configuration that is printed is loaded back.
\<close>

section \<open>What every setting keeps\<close>

text \<open>A property of the configuration that no single assignment of the loader breaks.\<close>

locale config_kept =
  fixes I :: "kserver_config \<Rightarrow> bool"
  assumes set_bool: "I c \<Longrightarrow> I (c\<lparr>verbose := b\<rparr>)" "I c \<Longrightarrow> I (c\<lparr>tcp_nodelay := b\<rparr>)" "I c \<Longrightarrow> I (c\<lparr>use_syslog := b\<rparr>)"
      "I c \<Longrightarrow> I (c\<lparr>daemon := b\<rparr>)" "I c \<Longrightarrow> I (c\<lparr>notify_systemd := b\<rparr>)"
    and set_num: "I c \<Longrightarrow> I (c\<lparr>tcp_port := n\<rparr>)" "I c \<Longrightarrow> I (c\<lparr>websock_port := n\<rparr>)"
      "I c \<Longrightarrow> I (c\<lparr>tcp_worker_connections := n\<rparr>)" "I c \<Longrightarrow> I (c\<lparr>websock_worker_connections := n\<rparr>)"
      "I c \<Longrightarrow> I (c\<lparr>unixsock_worker_connections := n\<rparr>)"
    and set_path: "I c \<Longrightarrow> strcpy (unixsock_path c) s = Some arr \<Longrightarrow> I (c\<lparr>unixsock_path := arr\<rparr>)"
begin

definition kept :: "(loader \<Rightarrow> (int \<times> loader) res) \<Rightarrow> bool" where
  "kept f \<longleftrightarrow> (\<forall>l r l'. f l = Ret (r, l') \<longrightarrow> I (l_config l) \<longrightarrow> I (l_config l'))"

lemma keepsI: "(\<And>l r l'. f l = Ret (r, l') \<Longrightarrow> I (l_config l) \<Longrightarrow> I (l_config l')) \<Longrightarrow> kept f"
  by (auto simp: kept_def)

lemma keepsD: "kept f \<Longrightarrow> f l = Ret (r, l') \<Longrightarrow> I (l_config l) \<Longrightarrow> I (l_config l')"
  by (auto simp: kept_def)

lemma keeps_refuse: "kept (refuse msg)"
  by (rule keepsI) (auto simp: refuse_def say_def)

lemma keeps_set: "(\<And>c. I c \<Longrightarrow> I (f c)) \<Longrightarrow> kept (set_config f)"
  by (rule keepsI) (auto simp: set_config_def)

lemma keeps_if: "kept f \<Longrightarrow> kept g \<Longrightarrow> kept (\<lambda>l. if b then f l else g l)"
  by (auto simp: kept_def)

lemma keeps_u32: "(\<And>n c. I c \<Longrightarrow> I (f n c)) \<Longrightarrow> kept (set_u32 f x)"
  by (rule keepsI) (auto simp: set_u32_def bind_res_Ret_iff set_config_def)

lemma keeps_bool: "(\<And>b c. I c \<Longrightarrow> I (f b c)) \<Longrightarrow> kept (t_bool msg f t)"
  unfolding t_bool_def [abs_def] by (intro keeps_if keeps_refuse keeps_set)

lemma check_path_config: "check_unixsocket_path s l = (r, l') \<Longrightarrow> l_config l' = l_config l"
  by (auto simp: check_unixsocket_path_def say_def split: if_splits)

lemma keeps_copy_path: "kept (copy_path s)"
proof (rule keepsI)
  fix l r l' assume r: "copy_path s l = Ret (r, l')" and I: "I (l_config l)"
  obtain q k where q: "check_unixsocket_path s l = (q, k)" by fastforce
  from check_path_config [OF q] have k: "l_config k = l_config l" .
  show "I (l_config l')"
  proof (cases "strcpy (unixsock_path (l_config k)) s")
    case None
    with r q k I show ?thesis by (auto simp: copy_path_def split: if_splits)
  next
    case (Some arr)
    with r q k I set_path [OF I, of s arr] show ?thesis by (auto simp: copy_path_def set_config_def split: if_splits)
  qed
qed

lemma keeps_path: "kept (t_path msg t)"
  unfolding t_path_def [abs_def] by (cases t) (simp_all add: keeps_refuse keeps_copy_path)

lemma keeps_members:
  assumes "\<And>kv. kept (f kv)"
  shows "kept (for_members f kvs)"
proof (induction kvs)
  case Nil
  show ?case by (rule keepsI) simp
next
  case (Cons kv kvs)
  show ?case
  proof (rule keepsI)
    fix l r l' assume "for_members f (kv # kvs) l = Ret (r, l')" and I: "I (l_config l)"
    then obtain q k where q: "f kv l = Ret (q, k)" "(if q < 0 then Ret (-1, k) else for_members f kvs k) = Ret (r, l')"
      by (auto simp: bind_res_Ret_iff)
    have "I (l_config k)" by (rule keepsD [OF assms q(1) I])
    with q(2) keepsD [OF Cons.IH, of k r l'] show "I (l_config l')" by (auto split: if_splits)
  qed
qed

lemma keeps_object: "(\<And>kv. kept (f kv)) \<Longrightarrow> kept (t_object msg f t)"
  unfolding t_object_def [abs_def] by (cases t) (simp_all add: keeps_refuse keeps_members)

lemma keeps_listen: "kept (server_listen st v)"
  unfolding server_listen_def [abs_def]
  by (cases v; cases st) (simp_all add: keeps_refuse keeps_u32 set_num)

lemma keeps_workers: "kept (server_workers st v)"
  unfolding server_workers_def [abs_def]
  by (cases v; cases st) (simp_all add: keeps_refuse keeps_u32 set_num)

lemma keeps_server: "kept (t_server st kv)"
proof (cases kv)
  case (Pair key t)
  have "kept (\<lambda>l. t_server st (key, t) l)"
    unfolding t_server.simps by (intro keeps_if keeps_listen keeps_workers keeps_path keeps_refuse)
  then show ?thesis unfolding Pair .
qed

lemma keeps_log: "kept (t_log kv)"
proof (cases kv)
  case (Pair key t)
  have "kept (\<lambda>l. t_log (key, t) l)"
    unfolding t_log.simps by (intro keeps_if keeps_bool keeps_refuse set_bool)
  then show ?thesis unfolding Pair .
qed

lemma keeps_field: "kept (t_field kv)"
proof (cases kv)
  case (Pair key t)
  have "kept (\<lambda>l. t_field (key, t) l)"
    unfolding t_field.simps
    by (intro keeps_if keeps_bool keeps_object keeps_server keeps_log keeps_path keeps_refuse set_bool)
  then show ?thesis unfolding Pair .
qed

lemma check_config_keeps: "I (l_config l) \<Longrightarrow> I (l_config (check_config l))"
  using set_bool(1) [of "l_config l" False] by (simp add: check_config_def say_def Let_def)

lemma keeps_load: "kept (t_load t)"
proof (rule keepsI)
  fix l r l' assume "t_load t l = Ret (r, l')" and I: "I (l_config l)"
  then obtain q k where q: "t_object ''Invalid configuration file'' t_field t l = Ret (q, k)"
    "l' = k \<or> l' = check_config (show_config k) \<or> l' = check_config k"
    by (auto simp: t_load_def bind_res_Ret_iff split: if_splits)
  have "I (l_config k)" by (rule keepsD [OF keeps_object [OF keeps_field] q(1) I])
  with q(2) check_config_keeps [of k] check_config_keeps [of "show_config k"] show "I (l_config l')"
    by (auto simp: show_config_def Let_def)
qed

lemma load_file_keeps:
  assumes "load_file files malloc filename l = Some (Ret (r, l'))" and "I (l_config l)"
  shows "I (l_config l')"
proof (cases "files filename")
  case None
  with assms show ?thesis by (auto simp: load_file_def get_source_def say_def)
next
  case (Some content)
  let ?src = "c_string content @ [0]"
  obtain e p where p: "jsonParse malloc ?src = Some (e, p)"
    using assms(1) Some by (cases "jsonParse malloc ?src") (auto simp: load_file_def get_source_def)
  show ?thesis
  proof (cases "e = JSON_OK")
    case True
    with jsonParse_sim [of ?src malloc] p obtain t where "represents p t" by auto
    from load_value_rep [OF this, of l] assms(1) p Some True have "t_load t l = Ret (r, l')"
      by (simp add: load_file_def get_source_def)
    from keepsD [OF keeps_load this assms(2)] show ?thesis .
  next
    case False
    with assms p Some show ?thesis by (auto simp: load_file_def get_source_def refuse_def say_def)
  qed
qed

end

section \<open>The paths\<close>

definition paths_ok :: "kserver_config \<Rightarrow> bool" where
  "paths_ok c \<longleftrightarrow> length (unixsock_path c) = UNIX_SOCKET_PATH_LEN \<and> 0 \<in> set (unixsock_path c)
     \<and> length (notify_socket c) = UNIX_SOCKET_PATH_LEN \<and> 0 \<in> set (notify_socket c)"

lemma strcpy_SomeD: "strcpy dest s = Some arr \<Longrightarrow> length arr = length dest \<and> 0 \<in> set arr \<and> c_string arr = c_string s"
  by (auto simp: strcpy_def pokes_def patch_def c_string_append split: if_splits)

interpretation paths: config_kept paths_ok
  by unfold_locales (auto simp: paths_ok_def dest!: strcpy_SomeD)

interpretation socket: config_kept "\<lambda>c. notify_socket c = s" for s
  by unfold_locales simp_all

lemma default_paths_ok: "paths_ok KServerConfig"
  by (simp add: paths_ok_def KServerConfig_def path_array_def UNIX_SOCKET_PATH_LEN_def bytes_of_string_def)

text \<open>The file can name a notification socket, but the loader never sets it: the value goes to the
  path of the Unix socket.\<close>

lemma notify_socket_never_set:
  "load_file files malloc filename l = Some (Ret (r, l')) \<Longrightarrow> notify_socket (l_config l') = notify_socket (l_config l)"
  by (rule socket.load_file_keeps) simp_all

section \<open>Files that are printed\<close>

lemma digits_nonzero: "0 \<notin> set (digits n)"
proof (induction n rule: digits.induct)
  case (1 n)
  have "48 + word_of_nat k \<noteq> (0 :: byte)" if "k < 10" for k using digit_byte(2) [OF that] by (auto simp: json_isdigit_def)
  from this [of n] this [of "n mod 10"] 1 show ?case by (subst digits.simps) auto
qed

lemma escape_nonzero: "c \<noteq> 0 \<Longrightarrow> 0 \<notin> set (escape c)"
proof -
  have "hex_digit k \<noteq> 0" if "k < 16" for k using hex_digit_facts [OF that] by (auto simp: isxdigit_def)
  moreover have "unat c div 16 < 16" using unsigned_less [of c, where 'a = nat] by simp
  ultimately have "hex_digit (unat c div 16) \<noteq> 0" "hex_digit (unat c mod 16) \<noteq> 0" by simp_all
  then show "c \<noteq> 0 \<Longrightarrow> ?thesis" by (auto simp: escape_def)
qed

lemma print_string_nonzero: "0 \<notin> set s \<Longrightarrow> 0 \<notin> set (print_string s)"
  by (induction s) (use escape_nonzero in \<open>auto simp: print_string_def\<close>)

lemma commas_nonzero: "\<forall>x \<in> set xs. 0 \<notin> set x \<Longrightarrow> 0 \<notin> set (commas xs)"
  by (induction xs rule: commas.induct) auto

lemma printed_nonzero: "printable t \<Longrightarrow> 0 \<notin> set (print_json t)"
proof (induction t)
  case (JNum x)
  then show ?case using digits_nonzero by (cases x) (auto simp: fmt_d_def)
next
  case (JStr s)
  then show ?case by (simp add: print_string_nonzero)
next
  case (JArr vs)
  then have "0 \<notin> set (commas (map print_json vs))" by (intro commas_nonzero) (auto simp: list_all_iff)
  then show ?case by simp
next
  case (JObj kvs)
  have "0 \<notin> set (commas (map print_member (map (map_prod id print_json) kvs)))"
  proof (rule commas_nonzero, clarify)
    fix x assume "x \<in> set (map print_member (map (map_prod id print_json) kvs))" and z: "0 \<in> set x"
    then obtain k v where kv: "(k, v) \<in> set kvs" "x = print_member (k, print_json v)" by auto
    have "0 \<notin> set k" "printable v" using JObj.prems kv(1) by (auto simp: list_all_iff)
    with JObj.IH [OF kv(1), of v] kv(2) z print_string_nonzero [of k] show False by (auto simp: print_member_def)
  qed
  then show ?case by simp
qed simp_all

lemma load_printed:
  assumes "printable t" and "depth t \<le> 32" and "\<forall>n. malloc n" and "files filename = Some (print_json t)"
  shows "load_file files malloc filename l = Some (t_load t l)"
proof -
  have "c_string (print_json t) = print_json t"
    using printed_nonzero [OF assms(1)] by (simp add: c_string_def takeWhile_eq_all_conv) metis
  with load_file_tree [OF assms(3), of files filename l] parse_printed [OF assms(1,2)] assms(4) show ?thesis by simp
qed

section \<open>A path by its length\<close>

definition unix_path_file :: "byte list \<Rightarrow> json" where
  "unix_path_file s = JObj [(lit ''unix'', JObj [(lit ''path'', JStr s)])]"

lemma strcpy_fits: "length s < length dest \<Longrightarrow> strcpy dest s = Some (patch dest 0 (s @ [0]))"
  by (simp add: strcpy_def pokes_def)

lemma strcpy_overflow: "length dest \<le> length s \<Longrightarrow> strcpy dest s = None"
  by (simp add: strcpy_def pokes_def)

definition path_shape :: "byte list \<Rightarrow> bool" where
  "path_shape s \<longleftrightarrow> 0 \<notin> set s \<and> 2 \<le> length s \<and> (hd s = 64 \<or> hd s = 47)"

lemma check_shape: "path_shape s \<Longrightarrow> check_unixsocket_path s l =
    (if length s > UNIX_SOCKET_PATH_LEN then (-1, say (ToStderr (lit ''Unix socket path too long'' @ nl)) l) else (0, l))"
proof -
  assume h: "path_shape s"
  then obtain a b cs where "s = a # b # cs" by (cases s rule: list.exhaust [case_product list.exhaust [of "tl s"]]) (auto simp: path_shape_def)
  with h show ?thesis by (auto simp: path_shape_def check_unixsocket_path_def char_at_def)
qed

lemma load_unix_path:
  assumes "path_shape s" and "\<forall>n. malloc n" and "files filename = Some (print_json (unix_path_file s))"
  shows "load_file files malloc filename l = Some (bind_res (copy_path s l) (\<lambda>(r, l).
    if r < 0 then Ret (-1, l) else Ret (0, check_config (if verbose (l_config l) then show_config l else l))))"
proof -
  have p: "printable (unix_path_file s)" "depth (unix_path_file s) \<le> 32"
    using assms(1) by (auto simp: unix_path_file_def path_shape_def bytes_of_string_def)
  have "t_load (unix_path_file s) l = bind_res (copy_path s l) (\<lambda>(r, l).
    if r < 0 then Ret (-1, l) else Ret (0, check_config (if verbose (l_config l) then show_config l else l)))"
    by (cases "copy_path s l") (auto simp: unix_path_file_def t_load_def t_object_def t_path_def bytes_of_string_def)
  with load_printed [OF p assms(2), of files filename l] assms(3) show ?thesis by simp
qed

text \<open>C19: The check of the length of a path is off by one: a file that sets the path of the Unix
  socket to an absolute or abstract path of less than 108 bytes sets it; one of more than 108 bytes
  is refused; with exactly 108 bytes the terminator is written past the array.\<close>

theorem unix_path_by_length:
  assumes "path_shape s" and "\<forall>n. malloc n" and "files filename = Some (print_json (unix_path_file s))"
    and "length (unixsock_path (l_config l)) = UNIX_SOCKET_PATH_LEN"
  shows "if length s < 108 then \<exists>l'. load_file files malloc filename l = Some (Ret (0, l')) \<and> c_string (unixsock_path (l_config l')) = s
    else if length s = 108 then load_file files malloc filename l = Some Undef
    else \<exists>l'. load_file files malloc filename l = Some (Ret (-1, l')) \<and> l_config l' = l_config l"
proof -
  note load = load_unix_path [OF assms(1,2), of files filename, OF assms(3), of l]
  have chk: "check_unixsocket_path s l = (if length s > 108 then (-1, say (ToStderr (lit ''Unix socket path too long'' @ nl)) l) else (0, l))"
    using check_shape [OF assms(1)] by (simp add: UNIX_SOCKET_PATH_LEN_def)
  have "c_string s = s" using assms(1) by (simp add: path_shape_def c_string_def takeWhile_eq_all_conv) metis
  consider "length s < 108" | "length s = 108" | "length s > 108" by linarith
  then show ?thesis
  proof cases
    case 1
    let ?arr = "patch (unixsock_path (l_config l)) 0 (s @ [0])"
    have "strcpy (unixsock_path (l_config l)) s = Some ?arr" using 1 assms(4) by (simp add: strcpy_fits UNIX_SOCKET_PATH_LEN_def)
    with strcpy_SomeD [OF this] \<open>c_string s = s\<close> load chk 1 show ?thesis
      by (auto simp: copy_path_def set_config_def check_config_def show_config_def say_def Let_def)
  next
    case 2
    then have "strcpy (unixsock_path (l_config l)) s = None" using assms(4) by (simp add: strcpy_overflow UNIX_SOCKET_PATH_LEN_def)
    with load chk 2 show ?thesis by (simp add: copy_path_def)
  next
    case 3
    with load chk show ?thesis by (simp add: copy_path_def say_def)
  qed
qed

theorem unix_path_by_length_witness:
  "load_file (\<lambda>f. Some (print_json (unix_path_file (47 # replicate 107 97)))) (\<lambda>n. True) [] \<lparr>l_config = KServerConfig, l_out = []\<rparr> = Some Undef"
  using unix_path_by_length [of "47 # replicate 107 97" "\<lambda>n. True" "\<lambda>f. Some (print_json (unix_path_file (47 # replicate 107 97)))" "[]"
      "\<lparr>l_config = KServerConfig, l_out = []\<rparr>"] default_paths_ok
  by (simp add: path_shape_def paths_ok_def)

section \<open>The whole configuration\<close>

definition t_num :: "u32 \<Rightarrow> json" where
  "t_num n = JNum (Fin (of_int (uint n)))"

definition t_on_off :: "bool \<Rightarrow> json" where
  "t_on_off b = JStr (on_off b)"

text \<open>A file with every setting of a configuration but the notification socket.\<close>

definition config_json :: "kserver_config \<Rightarrow> json" where
  "config_json c = JObj
     [(lit ''verbose'', t_on_off (verbose c)), (lit ''tcp_nodelay'', t_on_off (tcp_nodelay c)),
      (lit ''daemon'', t_on_off (daemon c)), (lit ''notify-systemd'', t_on_off (notify_systemd c)),
      (lit ''logs'', JObj [(lit ''system_log'', t_on_off (use_syslog c))]),
      (lit ''TCP'', JObj [(lit ''listen'', t_num (tcp_port c)), (lit ''worker_connections'', t_num (tcp_worker_connections c))]),
      (lit ''websocket'', JObj [(lit ''listen'', t_num (websock_port c)), (lit ''worker_connections'', t_num (websock_worker_connections c))]),
      (lit ''unix'', JObj [(lit ''path'', JStr (c_string (unixsock_path c))),
        (lit ''worker_connections'', t_num (unixsock_worker_connections c))])]"

lemma t_on_off_bool: "t_bool msg f (t_on_off b) l = set_config (f b) l"
  by (simp add: t_bool_def t_on_off_def t_is_on_def on_off_def bytes_of_string_def)

lemma t_num_u32: "t_value (t_num n) = Number (Fin (of_int (uint n)))" "set_u32 f (Fin (of_int (uint n))) l = set_config (f n) l"
proof -
  have "uint n < 2 ^ 32" using unsigned_less [of n, where 'a = int] by simp
  then have "d_to_u32 (Fin (of_int (uint n))) = Some n" using d_to_u32_int [of "uint n"] by simp
  then show "set_u32 f (Fin (of_int (uint n))) l = set_config (f n) l" by (simp add: set_u32_def)
qed (simp add: t_value_def t_num_def)

lemma config_json_printable: "printable (config_json c)" "depth (config_json c) \<le> 32"
proof -
  have "(of_int (uint n) :: rat) < 2 ^ 53" for n :: u32
    using of_int_less_iff [of "uint n" "2 ^ 53", where 'a = rat] unsigned_less [of n, where 'a = int] by (simp del: of_int_uint)
  then have "printable (t_num n)" for n by (simp add: t_num_def del: of_int_uint)
  moreover have "printable (t_on_off b)" for b by (simp add: t_on_off_def on_off_def bytes_of_string_def)
  moreover have "0 \<notin> set (c_string s)" for s by (auto simp: c_string_def dest: set_takeWhileD)
  ultimately show "printable (config_json c)" by (simp add: config_json_def bytes_of_string_def)
  show "depth (config_json c) \<le> 32" by (simp add: config_json_def t_num_def t_on_off_def)
qed

lemma t_server_members:
  "t_server TCP_SERVER (lit ''listen'', t_num n) l = set_config (tcp_port_update (\<lambda>_. n)) l"
  "t_server TCP_SERVER (lit ''worker_connections'', t_num n) l = set_config (tcp_worker_connections_update (\<lambda>_. n)) l"
  "t_server WEBSOCK_SERVER (lit ''listen'', t_num n) l = set_config (websock_port_update (\<lambda>_. n)) l"
  "t_server WEBSOCK_SERVER (lit ''worker_connections'', t_num n) l = set_config (websock_worker_connections_update (\<lambda>_. n)) l"
  "t_server UNIXSOCK_SERVER (lit ''worker_connections'', t_num n) l = set_config (unixsock_worker_connections_update (\<lambda>_. n)) l"
  "t_server UNIXSOCK_SERVER (lit ''path'', JStr s) l = copy_path s l"
  by (simp_all add: t_num_u32 server_listen_def server_workers_def t_path_def bytes_of_string_def del: of_int_uint)

lemma t_field_members:
  "t_field (lit ''verbose'', t_on_off b) l = set_config (verbose_update (\<lambda>_. b)) l"
  "t_field (lit ''tcp_nodelay'', t_on_off b) l = set_config (tcp_nodelay_update (\<lambda>_. b)) l"
  "t_field (lit ''daemon'', t_on_off b) l = set_config (daemon_update (\<lambda>_. b)) l"
  "t_field (lit ''notify-systemd'', t_on_off b) l = set_config (notify_systemd_update (\<lambda>_. b)) l"
  "t_field (lit ''logs'', JObj [(lit ''system_log'', t_on_off b)]) l = set_config (use_syslog_update (\<lambda>_. b)) l"
  "t_field (lit ''TCP'', JObj kvs) l = for_members (t_server TCP_SERVER) kvs l"
  "t_field (lit ''websocket'', JObj kvs) l = for_members (t_server WEBSOCK_SERVER) kvs l"
  "t_field (lit ''unix'', JObj kvs) l = for_members (t_server UNIXSOCK_SERVER) kvs l"
  by (simp_all add: t_on_off_bool t_object_def bytes_of_string_def set_config_def)

lemma copy_path_fits:
  assumes "path_shape s" and "length s < UNIX_SOCKET_PATH_LEN" and "length (unixsock_path (l_config l)) = UNIX_SOCKET_PATH_LEN"
  shows "copy_path s l = set_config (unixsock_path_update (\<lambda>_. patch (unixsock_path (l_config l)) 0 (s @ [0]))) l"
  using assms check_shape [OF assms(1), of l] strcpy_fits [of s "unixsock_path (l_config l)"] by (simp add: copy_path_def)

text \<open>Loading a file that holds the settings of a configuration sets them all; a daemon is never
  verbose and the notification socket stays what it was.\<close>

lemma config_loads:
  assumes "path_shape (c_string (unixsock_path c))" and "length (c_string (unixsock_path c)) < UNIX_SOCKET_PATH_LEN"
    and "\<forall>n. malloc n" and "files filename = Some (print_json (config_json c))"
    and "length (unixsock_path (l_config l)) = UNIX_SOCKET_PATH_LEN"
  shows "\<exists>l'. load_file files malloc filename l = Some (Ret (0, l')) \<and> l_config l' = c\<lparr>verbose := verbose c \<and> \<not> daemon c,
    notify_socket := notify_socket (l_config l), unixsock_path := patch (unixsock_path (l_config l)) 0 (c_string (unixsock_path c) @ [0])\<rparr>"
proof -
  have "load_file files malloc filename l = Some (t_load (config_json c) l)"
    using load_printed [OF config_json_printable assms(3), of files filename c l] assms(4) by simp
  moreover have "t_object ''Invalid configuration file'' t_field (config_json c) l = Ret (0, l\<lparr>l_config := c\<lparr>
      notify_socket := notify_socket (l_config l), unixsock_path := patch (unixsock_path (l_config l)) 0 (c_string (unixsock_path c) @ [0])\<rparr>\<rparr>)"
    using assms(1,2,5)
    by (simp add: config_json_def t_object_def t_field_members t_server_members copy_path_fits set_config_def del: t_field.simps t_server.simps)
  ultimately show ?thesis by (auto simp: t_load_def check_config_def show_config_def say_def Let_def)
qed

section \<open>The paths stay terminated\<close>



end
