(* ===== verification/Program.thy ===== *)
theory Program
  imports KServerInv SignalHandler ConfigLoad
begin

text \<open>
  The program of \<open>core/main.cpp\<close>: the command line, the daemon and the construction of the server
  with the configuration that results. What \<open>getopt_long\<close> finds on the command line, the file
  system and the results of the system calls are parameters.
\<close>

section \<open>Command line\<close>

text \<open>What the calls of \<open>getopt_long\<close> return before the end of the options.\<close>

datatype option_ch = Opt_verbose | Opt_config "byte list" | Opt_help | Opt_other

text \<open>The program ends with a status, or goes on.\<close>

datatype 'a outcome = Exit int loader | Go 'a

definition usage :: "loader \<Rightarrow> loader" where
  "usage l = l\<lparr>l_out := l_out l @
     [ToStdout (lit ''Usage: kserver [Option]'' @ nl @ nl),
      ToStdout (lit ''Option '' @ [9, 9] @ lit '' Long option '' @ [9, 9] @ lit '' Meaning'' @ nl),
      ToStdout (replicate 80 45 @ nl),
      ToStdout (lit ''-h '' @ [9, 9] @ lit '' --help '' @ [9, 9] @ lit '' Show this message'' @ nl),
      ToStdout (lit ''-c '' @ [9, 9] @ lit '' --config '' @ [9, 9] @ lit '' Load a configuration file'' @ nl),
      ToStdout (lit ''-v '' @ [9, 9] @ lit '' --verbose '' @ [9, 9] @ lit '' Display send and received data'' @ nl)]\<rparr>"

fun parse_options :: "(byte list \<Rightarrow> byte list option) \<Rightarrow> (nat \<Rightarrow> bool) \<Rightarrow> option_ch list \<Rightarrow> loader \<Rightarrow> loader outcome res option" where
  "parse_options files malloc [] l = Some (Ret (Go l))"
| "parse_options files malloc (ch # chs) l = (case ch of
     Opt_verbose \<Rightarrow> parse_options files malloc chs (l\<lparr>l_config := (l_config l)\<lparr>verbose := True\<rparr>\<rparr>)
   | Opt_config optarg \<Rightarrow> bind_ro (load_file files malloc optarg l) (\<lambda>(r, l).
       if r < 0 then Some (Ret (Exit 1 (say (ToStderr (lit ''Cannot load configuration file '' @ optarg @ nl)) l)))
       else parse_options files malloc chs l)
   | Opt_help \<Rightarrow> Some (Ret (Exit 0 (usage l)))
   | Opt_other \<Rightarrow> Some (Ret (Exit 1 (usage l))))"

section \<open>Daemon\<close>

record daemon_os =
  fork_ret :: int
  setsid_ret :: int
  chdir_ret :: int

definition daemonize :: "daemon_os \<Rightarrow> loader \<Rightarrow> loader outcome" where
  "daemonize sys l =
     (if fork_ret sys < 0 then Exit 1 (say (ToStderr (lit ''koheron-server: fork failed!'' @ nl)) l)
      else if fork_ret sys > 0 then Exit 0 l
      else if setsid_ret sys < 0 then Exit 1 l
      else if chdir_ret sys < 0 then Exit 1 (say (ToStderr (lit ''koheron-server: Cannot change current directory to root'' @ nl)) l)
      else Go (say (CloseFd 2) (say (CloseFd 1) (say (CloseFd 0) l))))"

section \<open>Start\<close>

text \<open>
  The parameters of a start: command line and files, the system calls of the daemon, of the signal
  handler and of the listening channels, the initialisation of the context, the devices.
\<close>

record 'w environment =
  env_files :: "byte list \<Rightarrow> byte list option"
  env_malloc :: "nat \<Rightarrow> bool"
  env_daemon :: daemon_os
  env_sigaction :: "signal \<Rightarrow> int"
  env_ctx_init :: int
  env_os :: "SockType \<Rightarrow> os"
  env_external :: "'w external"
  env_devices :: 'w
  env_shutdown :: "int \<Rightarrow> int"

definition start_server :: "'w environment \<Rightarrow> loader \<Rightarrow> (dispositions \<times> 'w kserver) outcome res" where
  "start_server env l =
     bind_res (signal_init (env_sigaction env) (\<lambda>_. SIG_DFL)
       (KServer (l_config l) (device_num (env_external env)) (env_devices env) (env_shutdown env))) (\<lambda>(r, d, ks).
     bind_res (KServer.construct r (env_ctx_init env) (env_os env) ks) (\<lambda>ks.
       Ret (case ks of None \<Rightarrow> Exit 1 l | Some ks \<Rightarrow> Go (d, ks))))"

text \<open>\<open>main\<close> up to the call of \<open>run\<close>.\<close>

definition main_start :: "'w environment \<Rightarrow> option_ch list \<Rightarrow> (dispositions \<times> 'w kserver) outcome res option" where
  "main_start env args =
     bind_ro (parse_options (env_files env) (env_malloc env) args \<lparr>l_config = KServerConfig, l_out = []\<rparr>) (\<lambda>x.
       case x of
         Exit n l \<Rightarrow> Some (Ret (Exit n l))
       | Go l \<Rightarrow> (case (if daemon (l_config l) then daemonize (env_daemon env) l else Go l) of
           Exit n l \<Rightarrow> Some (Ret (Exit n l))
         | Go l \<Rightarrow> Some (start_server env l)))"

section \<open>The server that starts\<close>

lemma signal_init_fails: "signal_init sigaction d ks = Ret (r, d', ks') \<Longrightarrow> r < 0 \<or> r = 0"
  by (auto simp: signal_init_def bind_res_Ret_iff split: if_splits)

lemma start_server_Go:
  assumes "start_server env l = Ret (Go (d, ks))"
  shows "d = handlers \<and> config ks = l_config l
    \<and> KServer.construct 0 (env_ctx_init env) (env_os env)
        (KServer (l_config l) (device_num (env_external env)) (env_devices env) (env_shutdown env)) = Ret (Some ks)"
proof -
  let ?k = "KServer (l_config l) (device_num (env_external env)) (env_devices env) (env_shutdown env)"
  obtain r k1 where s: "signal_init (env_sigaction env) (\<lambda>_. SIG_DFL) ?k = Ret (r, d, k1)"
    and c: "KServer.construct r (env_ctx_init env) (env_os env) k1 = Ret (Some ks)"
    using assms by (auto simp: start_server_def bind_res_Ret_iff split: option.splits)
  have "r = 0" using signal_init_fails [OF s] c by (auto simp: KServer.construct_def)
  with signal_init_handlers [of "env_sigaction env" "\<lambda>_. SIG_DFL" ?k d k1] s have "d = handlers" "k1 = ?k" by simp_all
  moreover from this(2) c \<open>r = 0\<close> have k: "KServer.construct 0 (env_ctx_init env) (env_os env) ?k = Ret (Some ks)" by simp
  from construct_initialised [OF k] have "config ks = l_config l" by (simp add: initialised_def)
  ultimately show ?thesis using k by simp
qed


text \<open>A start in the foreground with a file for one TCP client.\<close>

definition boot_file :: kserver_config where
  "boot_file = boot_config\<lparr>daemon := False\<rparr>"

definition boot_env :: "unit environment" where
  "boot_env = \<lparr>env_files = (\<lambda>f. Some (print_json (config_json boot_file))), env_malloc = (\<lambda>n. True),
     env_daemon = \<lparr>fork_ret = 0, setsid_ret = 0, chdir_ret = 0\<rparr>, env_sigaction = (\<lambda>s. 0), env_ctx_init = 0,
     env_os = (\<lambda>t. boot_os), env_external = sample_external, env_devices = (), env_shutdown = (\<lambda>fd. 0)\<rparr>"

lemma boot_path: "c_string (unixsock_path boot_file) = bytes_of_string ''/var/run/kserver.sock''"
  by (simp add: boot_file_def boot_config_def KServerConfig_def path_array_def c_string_def bytes_of_string_def UNIX_SOCKET_PATH_LEN_def)

lemma boot_file_same:
  "boot_file\<lparr>verbose := verbose boot_file \<and> \<not> daemon boot_file, notify_socket := notify_socket KServerConfig,
     unixsock_path := patch (unixsock_path KServerConfig) 0 (c_string (unixsock_path boot_file) @ [0])\<rparr> = boot_file"
proof -
  have "patch (unixsock_path KServerConfig) 0 (bytes_of_string ''/var/run/kserver.sock'' @ [0]) = unixsock_path KServerConfig"
    by (simp add: KServerConfig_def path_array_def bytes_of_string_def UNIX_SOCKET_PATH_LEN_def patch_def flip: replicate_Suc)
  then show ?thesis
    by (intro kserver_config.equality) (simp_all add: boot_path, simp_all add: boot_file_def boot_config_def KServerConfig_def)
qed

lemma boot_shape: "path_shape (c_string (unixsock_path boot_file))" "length (c_string (unixsock_path boot_file)) < UNIX_SOCKET_PATH_LEN"
  by (simp_all add: boot_path path_shape_def bytes_of_string_def UNIX_SOCKET_PATH_LEN_def)


end
