(* ===== verification/JsonBox.thy ===== *)
theory JsonBox
  imports Json
begin

text \<open>
  The encoding of a value of \<open>core/gason.hpp\<close> in 64 bits: a number is a \<open>double\<close>, anything else a
  NaN whose low bits hold the tag and a pointer.
\<close>

lemma payload_bits: "payload \<le> JSON_VALUE_PAYLOAD_MASK \<Longrightarrow> take_bit 47 payload = payload"
proof -
  assume "payload \<le> JSON_VALUE_PAYLOAD_MASK"
  then have "uint payload < 2 ^ 47" by (simp add: JSON_VALUE_PAYLOAD_MASK_def word_le_def)
  then have "uint (take_bit 47 payload) = uint payload" by (simp add: unsigned_take_bit_eq take_bit_int_eq_self)
  then show ?thesis by (rule word_uint_eqI)
qed

text \<open>The bits above the payload are those of a quiet NaN and of the tag.\<close>

lemma boxed:
  assumes "payload \<le> JSON_VALUE_PAYLOAD_MASK"
  shows "JsonValue tag payload = push_bit 47 (0xFFF0 OR tag_num tag) + payload" "drop_bit 47 (JsonValue tag payload) = 0xFFF0 OR tag_num tag"
    "take_bit 47 (JsonValue tag payload) = payload"
proof -
  note p = payload_bits [OF assms]
  have k: "JSON_VALUE_NAN_MASK OR push_bit 47 (tag_num tag) = push_bit 47 (0xFFF0 OR tag_num tag)"
    by (cases tag) (simp_all add: JSON_VALUE_NAN_MASK_def)
  have d: "drop_bit 47 payload = 0" using p by (metis drop_bit_take_bit diff_self_eq_0 take_bit_0)
  have e: "JsonValue tag payload = push_bit 47 (0xFFF0 OR tag_num tag) OR payload"
    unfolding JsonValue_def JSON_VALUE_TAG_SHIFT_def or.assoc [symmetric] k ..
  have t: "drop_bit 47 (push_bit 47 (0xFFF0 OR tag_num tag)) = 0xFFF0 OR tag_num tag"
    "take_bit 47 (push_bit 47 (0xFFF0 OR tag_num tag)) = 0"
    by (cases tag; simp)+
  show "drop_bit 47 (JsonValue tag payload) = 0xFFF0 OR tag_num tag" using e d t by (simp add: drop_bit_or)
  show "take_bit 47 (JsonValue tag payload) = payload" using e p t by simp
  have "push_bit 47 (0xFFF0 OR tag_num tag) AND payload = 0"
    (is "?k AND payload = 0")
  proof -
    have "?k AND payload = (?k AND mask 47) AND payload"
      using p by (simp only: take_bit_eq_mask and.assoc) (metis and.commute)
    also have "?k AND mask 47 = 0" using t(2) by (simp only: take_bit_eq_mask)
    finally show ?thesis by simp
  qed
  then show "JsonValue tag payload = push_bit 47 (0xFFF0 OR tag_num tag) + payload" using e by (simp add: disjunctive_add_eq_or)
qed

text \<open>Boxing loses nothing: the tag and the pointer of a value are read back from its 64 bits, for
  every tag but that of numbers and every pointer of 47 bits, and the value is not taken for a
  number.\<close>

theorem json_value_boxing:
  assumes "payload \<le> JSON_VALUE_PAYLOAD_MASK" and "tag \<noteq> JSON_NUMBER"
  shows "\<not> isDouble (JsonValue tag payload) \<and> getTag (JsonValue tag payload) = tag_num tag \<and> getPayload (JsonValue tag payload) = payload"
proof -
  let ?v = "JsonValue tag payload" and ?k = "push_bit 47 (0xFFF0 OR tag_num tag)"
  have p: "uint payload < 2 ^ 47" using assms(1) by (simp add: JSON_VALUE_PAYLOAD_MASK_def word_le_def)
  have k: "0x7FF8000000000000 < uint ?k" "uint ?k + 2 ^ 47 \<le> 2 ^ 63" using assms(2) by (cases tag; simp)+
  have "uint ?v = uint ?k + uint payload" using boxed(1) [OF assms(1), of tag] p k by (simp add: uint_word_arith_bintrs(1) take_bit_int_eq_self)
  then have v: "0x7FF8000000000000 < uint ?v" "uint ?v < 2 ^ 63" using p k uint_ge_0 [of payload] by linarith+
  then have "sint ?v = uint ?v" by (simp add: sint_uint signed_take_bit_int_eq_self)
  with v(1) have "\<not> isDouble ?v" by (simp add: isDouble_def JSON_VALUE_NAN_MASK_def)
  moreover have "(0xFFF0 OR tag_num tag) AND JSON_VALUE_TAG_MASK = tag_num tag" by (cases tag) (simp_all add: JSON_VALUE_TAG_MASK_def)
  moreover have "(0x00007FFFFFFFFFFF :: u64) = mask 47" by (simp add: mask_eq_exp_minus_1)
  ultimately show ?thesis using boxed(2,3) [OF assms(1), of tag]
    by (simp add: getTag_def getPayload_def JSON_VALUE_TAG_SHIFT_def JSON_VALUE_PAYLOAD_MASK_def take_bit_eq_mask)
qed

theorem json_value_boxing_witness:
  "\<not> isDouble (JsonValue JSON_OBJECT 0x7f0012345678) \<and> getTag (JsonValue JSON_OBJECT 0x7f0012345678) = tag_num JSON_OBJECT
    \<and> getPayload (JsonValue JSON_OBJECT 0x7f0012345678) = 0x7f0012345678"
  by (rule json_value_boxing) (simp_all add: JSON_VALUE_PAYLOAD_MASK_def)

end
