(* ===== verification/StringUtils.thy ===== *)
theory StringUtils
  imports SysLog
begin

text \<open>
  \<open>core/string_utils.hpp\<close>: the wrappers of the \<open>printf\<close> family, which choose at compile time
  between a format with arguments and a plain text, and the compile-time string. The conversions
  are those the server uses. The rest of the development gives a message as its text; here is how
  the text comes from a format, and that a text without arguments is never read as a format.
\<close>

section \<open>Formats\<close>

datatype fmt_arg = FmtInt int | FmtStr "byte list"

text \<open>One conversion, after the percent sign: what it consumes of the format and its text.
  \<^const>\<open>None\<close>: undefined behaviour, an unknown conversion or an argument of another kind.\<close>

fun conversion :: "byte list \<Rightarrow> fmt_arg \<Rightarrow> (byte list \<times> byte list) option" where
  "conversion (c # cs) (FmtStr s) = (if c = 115 then Some (s, cs) else None)"
| "conversion (c # cs) (FmtInt k) =
     (if c = 117 then Some (fmt_u k, cs)
      else if c = 100 \<or> c = 105 then Some (fmt_d k, cs)
      else if c = 108 \<or> c = 122 then (case cs of
          d # ds \<Rightarrow> if d = 117 then Some (fmt_lu k, ds) else if d = 105 \<or> d = 100 then Some (fmt_d k, ds) else None
        | [] \<Rightarrow> None)
      else None)"
| "conversion [] a = None"

lemma conversion_shorter: "conversion cs a = Some (t, ds) \<Longrightarrow> length ds < length cs"
  by (cases "(cs, a)" rule: conversion.cases) (auto split: if_splits list.splits)

function c_format :: "byte list \<Rightarrow> fmt_arg list \<Rightarrow> byte list option" where
  "c_format [] args = Some []"
| "c_format (c # cs) args =
     (if c \<noteq> 37 then map_option (\<lambda>t. c # t) (c_format cs args)
      else (case cs of
        [] \<Rightarrow> None
      | d # ds \<Rightarrow>
          if d = 37 then map_option (\<lambda>t. 37 # t) (c_format ds args)
          else (case args of
            [] \<Rightarrow> None
          | a # as \<Rightarrow> (case conversion cs a of
              None \<Rightarrow> None
            | Some (t, rest) \<Rightarrow> map_option (\<lambda>u. t @ u) (c_format rest as)))))"
  by pat_completeness auto
termination
  by (relation "measure (length \<circ> fst)") (auto dest: conversion_shorter)

section \<open>The wrappers\<close>

text \<open>The text that \<open>printf\<close>, \<open>fprintf\<close>, \<open>snprintf\<close> and \<open>syslog\<close> of the namespace make: with no
  argument the format is the argument of \<open>%s\<close>.\<close>

definition percent_s :: "byte list" where "percent_s = [37, 115]"

definition fmt_text :: "byte list \<Rightarrow> fmt_arg list \<Rightarrow> byte list option" where
  "fmt_text fmt args = (if args = [] then c_format percent_s [FmtStr fmt] else c_format fmt args)"

definition ks_printf :: "byte list \<Rightarrow> fmt_arg list \<Rightarrow> 'w kserver \<Rightarrow> 'w kserver res" where
  "ks_printf fmt args ks = bind_res (of_ub (fmt_text fmt args)) (\<lambda>t. Ret (put (ToStdout t) ks))"

definition ks_fprintf :: "byte list \<Rightarrow> fmt_arg list \<Rightarrow> 'w kserver \<Rightarrow> 'w kserver res" where
  "ks_fprintf fmt args ks = bind_res (of_ub (fmt_text fmt args)) (\<lambda>t. Ret (put (ToStderr t) ks))"

text \<open>The return value is the length of the whole text, of which at most \<open>n - 1\<close> bytes and the
  terminator are written.\<close>

definition ks_snprintf :: "nat \<Rightarrow> byte list \<Rightarrow> fmt_arg list \<Rightarrow> (int \<times> byte list) res" where
  "ks_snprintf n fmt args = bind_res (of_ub (fmt_text fmt args)) (\<lambda>t.
     Ret (int (length t), if n = 0 then [] else take (n - 1) t @ [0]))"

definition ks_syslog :: "nat \<Rightarrow> byte list \<Rightarrow> fmt_arg list \<Rightarrow> 'w kserver \<Rightarrow> 'w kserver res" where
  "ks_syslog priority fmt args ks = bind_res (of_ub (fmt_text fmt args)) (\<lambda>t. Ret (put (ToSyslog priority t) ks))"

text \<open>\<open>SysLog::print\<close> of a format.\<close>

definition print_fmt :: "severity \<Rightarrow> byte list \<Rightarrow> fmt_arg list \<Rightarrow> 'w kserver \<Rightarrow> 'w kserver res" where
  "print_fmt sev fmt args ks = bind_res (of_ub (fmt_text fmt args)) (\<lambda>t. print sev t ks)"

lemma fmt_text_plain [simp]: "fmt_text t [] = Some t"
  by (simp add: fmt_text_def percent_s_def)

lemma c_format_plain: "37 \<notin> set fmt \<Longrightarrow> c_format fmt args = Some fmt"
  by (induction fmt) simp_all

lemma print_fmt_plain [simp]: "print_fmt sev t [] ks = print sev t ks"
  by (simp add: print_fmt_def)

section \<open>Compile-time strings\<close>

text \<open>The literal with its terminator, and its length without.\<close>

record str_const =
  sc_p :: "byte list"
  sc_sz :: nat

definition Str_const :: "byte list \<Rightarrow> str_const" where
  "Str_const literal = \<lparr>sc_p = literal, sc_sz = length literal - 1\<rparr>"

definition sc_at :: "str_const \<Rightarrow> nat \<Rightarrow> byte res" where
  "sc_at s n = (if n < sc_sz s then of_ub (peek (sc_p s) n) else Throw)"

definition sc_size :: "str_const \<Rightarrow> nat" where
  "sc_size s = sc_sz s"

definition sc_to_string :: "str_const \<Rightarrow> byte list option" where
  "sc_to_string s = std_string_of_c (sc_p s)"

text \<open>A literal without a zero inside gives back its text, character by character and as a string.\<close>

lemma str_const_text:
  assumes "0 \<notin> set cs"
  shows "sc_to_string (Str_const (cs @ [0])) = Some cs" and "sc_size (Str_const (cs @ [0])) = length cs"
    and "sc_at (Str_const (cs @ [0])) n = (if n < length cs then Ret (cs ! n) else Throw)"
proof -
  have "takeWhile (\<lambda>c. c \<noteq> 0) (cs @ [0]) = cs" using assms by (subst takeWhile_append2) auto
  then show "sc_to_string (Str_const (cs @ [0])) = Some cs"
    by (simp add: sc_to_string_def Str_const_def std_string_of_c_def)
qed (simp_all add: sc_size_def sc_at_def Str_const_def peek_def nth_append)

end
