(* ===== verification/Context.thy ===== *)
theory Context
  imports DeviceManager StringUtils
begin

text \<open>
  What the server offers to the devices, \<open>ContextBase\<close> of \<open>core/context_base.hpp\<close>: another device,
  the log, and notifications to the clients that subscribed to the devices' channel.
\<close>

text \<open>\<open>SysLog::notify\<close> of \<open>core/syslog.tpp\<close>.\<close>

definition notify :: "nat \<Rightarrow> nat \<Rightarrow> cmd_arg list \<Rightarrow> 'w kserver \<Rightarrow> (int \<times> 'w kserver) res" where
  "notify channel event args ks = emit channel event args ks"

definition context_log :: "severity \<Rightarrow> byte list \<Rightarrow> 'w kserver \<Rightarrow> 'w kserver res" where
  "context_log sev msg ks = print sev msg ks"

definition context_notify :: "nat \<Rightarrow> cmd_arg list \<Rightarrow> 'w kserver \<Rightarrow> (int \<times> 'w kserver) res" where
  "context_notify dev args ks = notify DEVICES_CHANNEL dev args ks"

definition context_get :: "'w external \<Rightarrow> nat \<Rightarrow> 'w kserver \<Rightarrow> 'w kserver res option" where
  "context_get ext dev ks = dm_get ext dev ks"

text \<open>The context of a project on a board, \<open>context.hpp\<close>: a notification is a text made from a format.
  \<open>mm_open\<close> is what opening the device memory returns, in a build that has it. (The device manager expects
  the \<open>ContextBase\<close>: it sets its references by \<open>set_device_manager\<close>, which this class does not have.)\<close>

definition project_log :: "severity \<Rightarrow> byte list \<Rightarrow> fmt_arg list \<Rightarrow> 'w kserver \<Rightarrow> 'w kserver res" where
  "project_log sev msg args ks = print_fmt sev msg args ks"

definition project_notify :: "nat \<Rightarrow> byte list \<Rightarrow> fmt_arg list \<Rightarrow> 'w kserver \<Rightarrow> (int \<times> 'w kserver) res" where
  "project_notify dev msg args ks = bind_res (of_ub (fmt_text msg args)) (\<lambda>t. emit_str DEVICES_CHANNEL dev t ks)"

definition project_init :: "int option \<Rightarrow> int" where
  "project_init mm_open = (case mm_open of Some r \<Rightarrow> if r < 0 then -1 else 0 | None \<Rightarrow> 0)"

text \<open>A device cannot break the state of sessions and subscriptions by logging or notifying.\<close>

lemma context_log_safe: "comm_inv ks \<Longrightarrow> safe_res comm_inv (context_log sev msg ks)"
  unfolding context_log_def by (rule print_inv)

lemma context_notify_safe:
  assumes "comm_inv ks" and "reply_ok args"
  shows "safe_res (\<lambda>(r, ks'). sends ks ks' \<and> comm_inv ks') (context_notify dev args ks)"
  unfolding context_notify_def notify_def
  by (rule safe_res_mono [OF emit_safe [OF assms(1) _ assms(2)]]) (auto simp: channels intro: comm_inv_sends [OF assms(1)])

end
