(* ===== verification/MetaUtils.thy ===== *)
theory MetaUtils
  imports Prelude
begin

text \<open>
  What the compiler computes from \<open>core/meta_utils.hpp\<close> and \<open>scripts/templates/devices_table.hpp\<close>:
  ranges of indices, the place of a type in a tuple, and the device table that gives each class of
  the project its number. A tuple type is the list of its types; a template without a matching
  specialisation does not compile, \<^const>\<open>None\<close>.
\<close>

section \<open>Index sequences\<close>

definition add_offset :: "nat \<Rightarrow> nat list \<Rightarrow> nat list" where
  "add_offset offset is = map (\<lambda>i. offset + i) is"

definition make_index_sequence_with_offset :: "nat \<Rightarrow> nat \<Rightarrow> nat list" where
  "make_index_sequence_with_offset offset n = add_offset offset [0 ..< n]"

definition make_index_sequence_in_range :: "nat \<Rightarrow> nat \<Rightarrow> nat list option" where
  "make_index_sequence_in_range First Last =
     (if First \<le> Last then Some (make_index_sequence_with_offset First (Last - First)) else None)"

lemma index_sequence_range: "First \<le> Last \<Longrightarrow> make_index_sequence_in_range First Last = Some [First ..< Last]"
  by (auto simp: make_index_sequence_in_range_def make_index_sequence_with_offset_def add_offset_def intro: nth_equalityI)

section \<open>Index of a type\<close>

fun Index :: "'t \<Rightarrow> 't list \<Rightarrow> nat option" where
  "Index t [] = None"
| "Index t (u # ts) = (if t = u then Some 0 else map_option (\<lambda>i. 1 + i) (Index t ts))"

lemma Index_nth: "Index t ts = Some i \<Longrightarrow> i < length ts \<and> ts ! i = t"
  by (induction ts arbitrary: i) (auto split: if_splits)

lemma Index_None: "Index t ts = None \<longleftrightarrow> t \<notin> set ts"
  by (induction ts) auto

lemma Index_distinct: "distinct ts \<Longrightarrow> i < length ts \<Longrightarrow> Index (ts ! i) ts = Some i"
proof (induction ts arbitrary: i)
  case (Cons u ts)
  then show ?case by (cases i) (auto simp: nth_mem)
qed simp

section \<open>The device table\<close>

text \<open>\<open>NoDevice\<close> is 0, the server itself 1, the classes follow in the order of the configuration.\<close>

definition dev_id_of :: "'t list \<Rightarrow> 't \<Rightarrow> nat option" where
  "dev_id_of types dev = map_option (\<lambda>i. i + 2) (Index dev types)"

definition device_t :: "'t list \<Rightarrow> nat \<Rightarrow> 't option" where
  "device_t types dev = (if 2 \<le> dev \<and> dev - 2 < length types then Some (types ! (dev - 2)) else None)"

definition devices_names :: "string list \<Rightarrow> string list" where
  "devices_names types = ''NoDevice'' # ''KServer'' # types"

lemma dev_id_of_type: "dev_id_of types t = Some d \<Longrightarrow> device_t types d = Some t"
  by (auto simp: dev_id_of_def device_t_def dest: Index_nth)

lemma dev_id_of_unique: "distinct types \<Longrightarrow> device_t types d = Some t \<Longrightarrow> dev_id_of types t = Some d"
  by (auto simp: dev_id_of_def device_t_def Index_distinct split: if_splits)

end
