(* ===== verification/GeneratedDevice.thy ===== *)
theory GeneratedDevice
  imports SessionRun Context MetaUtils StringUtils
begin

text \<open>
  The device that \<open>scripts/devgen.py\<close> generates around a class, from the template
  \<open>scripts/templates/ks_device.cpp\<close>: for each operation the parser of its arguments, the call of
  the method and the reply, and the switch on the operation. What a generated device does with a
  command is proved once for every class: arguments that were sent are the arguments of the method,
  its result is what the client receives.
\<close>

section \<open>Operations and devices\<close>

text \<open>
  A method takes the arguments and gives what it returns, as the arguments of \<open>send\<close>: one for
  a value, the elements for a tuple. \<open>Pure\<close> is a method that only uses the state of the devices,
  \<open>InContext\<close> one that calls the context.
\<close>

datatype 'w method_body =
    Pure "cmd_arg list \<Rightarrow> 'w \<Rightarrow> cmd_arg list \<times> 'w"
  | InContext "cmd_arg list \<Rightarrow> 'w kserver \<Rightarrow> (cmd_arg list \<times> 'w kserver) res"

primrec call_method :: "'w method_body \<Rightarrow> cmd_arg list \<Rightarrow> 'w kserver \<Rightarrow> (cmd_arg list \<times> 'w kserver) res" where
  "call_method (Pure f) args ks = (let (ret, w) = f args (devices ks) in Ret (ret, ks\<lparr>devices := w\<rparr>))"
| "call_method (InContext f) args ks = f args ks"

record 'w dev_operation =
  op_name :: string
  op_arguments :: "arg_t list"
  op_void :: bool
  op_method :: "'w method_body"

text \<open>A class with its name, its public methods in order, the devices its constructor asks for
  and what it does to the state.\<close>

record 'w dev_class =
  class_name :: string
  class_requires :: "nat list"
  class_build :: "'w \<Rightarrow> 'w"
  class_operations :: "'w dev_operation list"

text \<open>\<open>re.findall('[A-Z][^A-Z]*', name)\<close>: a word starts at every capital; what precedes the first is dropped.\<close>

definition is_upper :: "char \<Rightarrow> bool" where
  "is_upper c \<longleftrightarrow> of_char c \<in> {65 .. 90 :: nat}"

fun add_to_word :: "char \<Rightarrow> string list \<Rightarrow> string list" where
  "add_to_word c [] = [[c]]"
| "add_to_word c (w # ws) = (c # w) # ws"

text \<open>The words of the rest, the first of them the one that is still open.\<close>

fun open_words :: "string \<Rightarrow> string list" where
  "open_words [] = [[]]"
| "open_words (c # cs) = (if is_upper c then [] # add_to_word c (open_words cs) else add_to_word c (open_words cs))"

definition camel_words :: "string \<Rightarrow> string list" where
  "camel_words name = tl (open_words name)"

fun join_with :: "char \<Rightarrow> string list \<Rightarrow> string" where
  "join_with s [] = []"
| "join_with s [w] = w"
| "join_with s (w # ws) = w @ s # join_with s ws"

definition to_upper :: "char \<Rightarrow> char" where
  "to_upper c = (if of_char c \<in> {97 .. 122 :: nat} then char_of (of_char c - 32 :: nat) else c)"

definition to_lower :: "char \<Rightarrow> char" where
  "to_lower c = (if is_upper c then char_of (of_char c + 32 :: nat) else c)"

definition class_tag :: "string \<Rightarrow> string" where
  "class_tag name = map to_upper (join_with CHR ''_'' (camel_words name))"

fun capitalize :: "string \<Rightarrow> string" where
  "capitalize [] = []"
| "capitalize (c # cs) = to_upper c # map to_lower cs"

definition ks_class_name :: "string \<Rightarrow> string" where
  "ks_class_name name = ''KS_'' @ capitalize (class_tag name)"

section \<open>The parser of the arguments\<close>

text \<open>
  The members of the structures \<open>Argument_\<close>, one for each operation, keep what the last command
  left in them: the containers of the \<open>k\<close>-th pack of the operation.
\<close>

record args_memory =
  old_vectors :: "nat \<Rightarrow> scalar_t \<Rightarrow> scalar list"
  old_strings :: "nat \<Rightarrow> byte list"

primrec pack_error :: "arg_pack \<Rightarrow> string" where
  "pack_error (ScalarPack ts) = ''Failed to deserialize buffer.''"
| "pack_error (VectorPack t) = ''Failed to receive vector.''"
| "pack_error StringPack = ''Failed to receive string.''"
| "pack_error (ArrayPack t n) = ''Failed to receive array.''"

fun parse_args :: "(nat \<Rightarrow> byte) \<Rightarrow> args_memory \<Rightarrow> string \<Rightarrow> nat \<Rightarrow> arg_pack list \<Rightarrow> session \<times> command \<Rightarrow> 'w kserver
    \<Rightarrow> (int \<times> cmd_arg list \<times> command \<times> 'w kserver) res" where
  "parse_args g mem label k [] st ks = Ret (0, [], snd st, put_session (session_id (fst st)) (fst st) ks)"
| "parse_args g mem label k (p # ps) st ks =
     bind_res (parse_pack (session_ops g) (case p of VectorPack t \<Rightarrow> old_vectors mem k t | _ \<Rightarrow> []) (old_strings mem k) p st)
       (\<lambda>(err, args, st).
         if err < 0 then
           bind_res (print ERROR (lit label @ lit (pack_error p) @ nl) (put_session (session_id (fst st)) (fst st) ks))
             (\<lambda>ks. Ret (-1, [], snd st, ks))
         else bind_res (parse_args g mem label (Suc k) ps st ks) (\<lambda>(err, args', cmd, ks). Ret (err, args @ args', cmd, ks)))"

text \<open>\<open>cmd.sess\<close> is a plain pointer to the session.\<close>

definition cmd_session :: "command \<Rightarrow> 'w kserver \<Rightarrow> session res" where
  "cmd_session cmd ks = of_ub (Option.bind (sess cmd) (map_at (session_pool ks)))"

text \<open>An operation without arguments has no parser.\<close>

definition parser_generator :: "(nat \<Rightarrow> byte) \<Rightarrow> args_memory \<Rightarrow> string \<Rightarrow> 'w dev_operation \<Rightarrow> command \<Rightarrow> 'w kserver
    \<Rightarrow> (int \<times> cmd_arg list \<times> command \<times> 'w kserver) res" where
  "parser_generator g mem dev op cmd ks =
     (if op_arguments op = [] then Ret (0, [], cmd, ks)
      else bind_res (cmd_session cmd ks) (\<lambda>se.
        parse_args g mem (''['' @ dev @ '' - '' @ op_name op @ ''] '') 0 (fst (build_args_packs (op_arguments op))) (se, cmd) ks))"

text \<open>\<open>print_req_buff_size\<close> and the static assertion on it, which is left out when there is a
  vector or a string.\<close>

primrec pack_size :: "arg_pack \<Rightarrow> nat" where
  "pack_size (ScalarPack ts) = required_buffer_size ts"
| "pack_size (ArrayPack t n) = size_of_array t n"
| "pack_size (VectorPack t) = 0"
| "pack_size StringPack = 0"

definition req_buff_size :: "arg_pack list \<Rightarrow> nat" where
  "req_buff_size packs = sum_list (map pack_size packs)"

definition buffer_size_asserted :: "arg_t list \<Rightarrow> bool" where
  "buffer_size_asserted arguments = (let (packs, has_vector) = build_args_packs arguments in
     has_vector \<or> req_buff_size packs \<le> CMD_PAYLOAD_BUFFER_LEN)"

section \<open>Call and reply\<close>

text \<open>\<open>cmd.sess->send<dev_id, op_id>(ret)\<close>; the array of the header is overwritten whole.\<close>

definition send_reply :: "nat \<Rightarrow> nat \<Rightarrow> cmd_arg list \<Rightarrow> command \<Rightarrow> 'w kserver \<Rightarrow> (int \<times> 'w kserver) res" where
  "send_reply dev_id op_id ret cmd ks =
     bind_res (cmd_session cmd ks) (\<lambda>se.
     bind_res (session_send (replicate 8 0) (word_of_nat dev_id) (word_of_nat op_id) ret se) (\<lambda>(n, se).
     Ret (n, put_session (session_id se) se ks)))"

definition generate_call :: "nat \<Rightarrow> nat \<Rightarrow> 'w dev_operation \<Rightarrow> cmd_arg list \<Rightarrow> command \<Rightarrow> 'w kserver \<Rightarrow> (int \<times> 'w kserver) res" where
  "generate_call dev_id op_id op args cmd ks =
     bind_res (call_method (op_method op) args ks) (\<lambda>(ret, ks).
       if op_void op then Ret (0, ks) else send_reply dev_id op_id ret cmd ks)"

definition execute_op :: "(nat \<Rightarrow> byte) \<Rightarrow> args_memory \<Rightarrow> nat \<Rightarrow> 'w dev_class \<Rightarrow> nat \<Rightarrow> command \<Rightarrow> 'w kserver
    \<Rightarrow> (int \<times> 'w kserver) res" where
  "execute_op g mem dev_id dev op_id cmd ks = (let op = class_operations dev ! op_id in
     bind_res (parser_generator g mem (class_name dev) op cmd ks) (\<lambda>(err, args, cmd, ks).
       if err < 0 then Ret (-1, ks) else generate_call dev_id op_id op args cmd ks))"

text \<open>\<open>mems\<close> is the memory of the argument structures, one for each operation.\<close>

definition ks_execute :: "(nat \<Rightarrow> byte) \<Rightarrow> (nat \<Rightarrow> args_memory) \<Rightarrow> nat \<Rightarrow> 'w dev_class \<Rightarrow> command \<Rightarrow> 'w kserver
    \<Rightarrow> (int \<times> 'w kserver) res" where
  "ks_execute g mems dev_id dev cmd ks =
     (if 0 \<le> operation cmd \<and> nat (operation cmd) < length (class_operations dev)
      then execute_op g (mems (nat (operation cmd))) dev_id dev (nat (operation cmd)) cmd ks
      else bind_res (print ERROR (lit (ks_class_name (class_name dev)) @ lit '': Unknown operation'' @ nl) ks)
        (\<lambda>ks. Ret (-1, ks)))"

section \<open>A command is answered\<close>

lemma parse_args_received:
  "parse_packs (session_ops g) (old_vectors mem) (old_strings mem) k ps st = Ret (0, args, st') \<Longrightarrow>
   parse_args g mem label k ps st ks = Ret (0, args, snd st', put_session (session_id (fst st')) (fst st') ks)"
proof (induction ps arbitrary: k st args)
  case (Cons p ps)
  obtain err args1 st1 where p: "parse_pack (session_ops g) (case p of VectorPack t \<Rightarrow> old_vectors mem k t | _ \<Rightarrow> [])
      (old_strings mem k) p st = Ret (err, args1, st1)"
    using Cons.prems by (cases "parse_pack (session_ops g) (case p of VectorPack t \<Rightarrow> old_vectors mem k t | _ \<Rightarrow> [])
      (old_strings mem k) p st") auto
  then have err: "\<not> err < 0" using Cons.prems by auto
  then obtain err2 args2 where "parse_packs (session_ops g) (old_vectors mem) (old_strings mem) (Suc k) ps st1 = Ret (err2, args2, st')"
    and "err2 = 0" "args = args1 @ args2"
    using Cons.prems p by (cases "parse_packs (session_ops g) (old_vectors mem) (old_strings mem) (Suc k) ps st1") auto
  with Cons.IH [of "Suc k" st1 args2] p err show ?case by simp
qed simp

text \<open>The session after the arguments of a command were taken.\<close>

definition read_args :: "session \<Rightarrow> session \<Rightarrow> bool" where
  "read_args se se' \<longleftrightarrow> (\<exists>c. se' = se\<lparr>conn := c\<rparr> \<and> received_from (conn se) c)"

lemma read_args_refl [simp]: "read_args se se"
  unfolding read_args_def by (intro exI [of _ "conn se"]) simp

lemma read_args_frame:
  assumes "read_args se se'"
  shows "kind se' = kind se" "session_id se' = session_id se" "status se' = status se"
    "requests_num se' = requests_num se" "errors_num se' = errors_num se" "dyn_serializer se' = dyn_serializer se"
    "tx (conn se') = tx (conn se)" "sent (conn se') = sent (conn se)" "rx_after (rx (conn se')) = rx_after (rx (conn se))"
    "takes_message se' msg = takes_message se msg"
  using assms by (auto simp: read_args_def received_from_def takes_message_def)

lemma cmd_session_pool: "cmd_of sid cmd \<Longrightarrow> cmd_session cmd ks = of_ub (map_at (session_pool ks) sid)"
  by (simp add: cmd_session_def cmd_of_def)

lemma parser_receives:
  assumes "cmd_of sid cmd" and "map_sorted (session_pool ks)" and "map_at (session_pool ks) sid = Some se" and "session_id se = sid"
    and "session_inv (se, cmd)" and "session_pending (se, cmd) = concat (map arg_image args) @ rest"
    and "op_arguments op = map arg_type args" and "list_all arg_rcv_ok args"
    and "length (concat (map arg_image args)) < 2 ^ 31" and "old_ok (old_vectors mem)"
  obtains cmd' se' where "parser_generator g mem dev op cmd ks = Ret (0, args, cmd', put_session sid se' ks)"
    and "read_args se se'" and "sess cmd' = Some sid" and "session_pending (se', cmd') = rest"
proof (cases "args = []")
  case True
  have "put_session sid se ks = ks" using assms(2,3) by (simp add: put_session_def assign_same)
  with True that [of cmd se] assms show thesis by (simp add: parser_generator_def cmd_of_def)
next
  case False
  obtain st' where "parse_arguments (session_ops g) (old_vectors mem) (old_strings mem) (map arg_type args) (se, cmd) = Ret (0, args, st')"
    "arguments_of (se, cmd) st'" "session_pending st' = rest"
    using session_arguments_received [OF assms(5,6,9,8,10)] by blast
  then obtain se' cmd' c b where
    p: "parse_arguments (session_ops g) (old_vectors mem) (old_strings mem) (map arg_type args) (se, cmd) = Ret (0, args, (se', cmd'))"
    and st: "se' = se\<lparr>conn := c\<rparr>" "received_from (conn se) c" "cmd' = cmd\<lparr>payload := b\<rparr>" "session_pending (se', cmd') = rest"
    unfolding arguments_of_def by (cases st') auto
  have "parser_generator g mem dev op cmd ks = Ret (0, args, cmd', put_session sid se' ks)"
    using False assms(1,3,4,7) st(1) parse_args_received [OF p [unfolded parse_arguments_def]]
    by (simp add: parser_generator_def cmd_session_pool)
  moreover have "read_args se se'" using st by (auto simp: read_args_def)
  moreover have "sess cmd' = Some sid" using assms(1) st(3) by (simp add: cmd_of_def)
  ultimately show thesis using st(4) by (rule that)
qed

text \<open>What a method can return: values of their types, the scalars of which fit the pack.\<close>

primrec arg_typed :: "cmd_arg \<Rightarrow> bool" where
  "arg_typed (Scalar v) = True"
| "arg_typed (Vector t vs) = list_all (\<lambda>v. type_of v = t) vs"
| "arg_typed (StdString cs) = True"
| "arg_typed (StdArray t vs) = list_all (\<lambda>v. type_of v = t) vs"
| "arg_typed (CString m) = (0 \<in> set m \<and> length m \<le> 2 ^ 32)"

definition reply_typed :: "cmd_arg list \<Rightarrow> bool" where
  "reply_typed ret \<longleftrightarrow> list_all arg_typed ret \<and> runs_fit SCALAR_PACK_LEN 0 ret"

lemma typed_ok:
  assumes "list_all arg_typed ret" and "length (command_image c f ret) < 2 ^ 31"
  shows "list_all arg_ok ret"
  unfolding list_all_iff
proof
  fix a assume a: "a \<in> set ret"
  then have "length (arg_image a) \<le> sum_list (map (\<lambda>a. length (arg_image a)) ret)"
    by (intro member_le_sum_list) simp_all
  then have "length (arg_image a) < 2 ^ 31"
    using assms(2) by (simp add: command_image_def length_concat comp_def)
  moreover have "arg_typed a" using a assms(1) by (auto simp: list_all_iff)
  ultimately show "arg_ok a" by (cases a) auto
qed

lemma put_session_again [simp]:
  "put_session sid se' (put_session sid se ks) = put_session sid se' ks"
  "put_session sid se (ks\<lparr>devices := w\<rparr>) = (put_session sid se ks)\<lparr>devices := w\<rparr>"
  "(put_session sid se ks)\<lparr>devices := w, trace := trace ks\<rparr> = (put_session sid se ks)\<lparr>devices := w\<rparr>"
  by (simp_all add: put_session_def)

text \<open>The method is called with the arguments that were sent.\<close>

lemma execute_calls:
  assumes "cmd_of sid cmd" and "operation cmd = int i" and "i < length (class_operations dev)"
    and "map_sorted (session_pool ks)" and "map_at (session_pool ks) sid = Some se" and "session_id se = sid"
    and "session_inv (se, cmd)" and "session_pending (se, cmd) = concat (map arg_image args) @ rest"
    and "op_arguments (class_operations dev ! i) = map arg_type args" and "list_all arg_rcv_ok args"
    and "length (concat (map arg_image args)) < 2 ^ 31" and "\<forall>k. old_ok (old_vectors (mems k))"
    and "op_method (class_operations dev ! i) = Pure f" and "f args (devices ks) = (ret, w)"
  obtains cmd' se' where "ks_execute g mems dev_id dev cmd ks =
      (let ks' = (put_session sid se' ks)\<lparr>devices := w\<rparr> in
       if op_void (class_operations dev ! i) then Ret (0, ks') else send_reply dev_id i ret cmd' ks')"
    and "read_args se se'" and "sess cmd' = Some sid" and "session_pending (se', cmd') = rest"
proof -
  obtain cmd' se' where p: "parser_generator g (mems i) (class_name dev) (class_operations dev ! i) cmd ks
      = Ret (0, args, cmd', put_session sid se' ks)"
    and se': "read_args se se'" "sess cmd' = Some sid" "session_pending (se', cmd') = rest"
    by (rule parser_receives [OF assms(1,4-11)]) (use assms(12) in auto)
  have "ks_execute g mems dev_id dev cmd ks = (let ks' = (put_session sid se' ks)\<lparr>devices := w\<rparr> in
       if op_void (class_operations dev ! i) then Ret (0, ks') else send_reply dev_id i ret cmd' ks')"
    using assms(2,3,13,14) p by (simp add: ks_execute_def execute_op_def generate_call_def Let_def)
  then show thesis using se' by (rule that)
qed

lemma bind_res_Ret: "bind_res m f = Ret y \<longleftrightarrow> (\<exists>x. m = Ret x \<and> f x = Ret y)"
  by (cases m) auto

lemma session_write_id: "session_write msg se = Ret (n, se') \<Longrightarrow> session_id se' = session_id se"
  by (cases "kind se") (auto simp: session_write_def bind_res_Ret)

lemma session_send_id:
  assumes "session_send arr c f args se = Ret (n, se')"
  shows "session_id se' = session_id se"
proof (cases "kind se = NONE")
  case True
  with assms show ?thesis by (simp add: session_send_def)
next
  case False
  with assms obtain ser buf s where b: "build_command arr c f (dyn_serializer se) (send_buffer se) args = Some (ser, buf)"
    by (cases "build_command arr c f (dyn_serializer se) (send_buffer se) args") (auto simp: session_send_def)
  let ?se = "se\<lparr>dyn_serializer := ser, send_buffer := buf\<rparr>"
  obtain s where w: "session_write buf ?se = Ret (n, s)" and "se' = (if n = 0 then s\<lparr>status := CLOSED\<rparr> else s)"
    using assms False b by (cases "session_write buf ?se") (auto simp: session_send_def Let_def)
  then show ?thesis using session_write_id [OF w] by simp
qed

lemma send_reply_takes:
  assumes "map_at (session_pool ks) sid = Some se" and "session_id se = sid" and "sess cmd = Some sid" and "kind se \<noteq> NONE"
    and "length (scal_data (dyn_serializer se)) = SCALAR_PACK_LEN" and "reply_typed ret"
    and "length (command_image (word_of_nat dev_id) (word_of_nat i) ret) < 2 ^ 31"
    and "takes_message se (command_image (word_of_nat dev_id) (word_of_nat i) ret)"
  obtains n se' where "send_reply dev_id i ret cmd ks = Ret (n, put_session sid se' ks)" and "0 < n"
    and "status se' = status se"
    and "sent (conn se') = sent (conn se) @ on_wire se (command_image (word_of_nat dev_id) (word_of_nat i) ret)"
proof -
  have "list_all arg_ok ret" "runs_fit (length (scal_data (dyn_serializer se))) 0 ret"
    using assms(5-7) typed_ok by (auto simp: reply_typed_def)
  from session_send_image [OF assms(4) _ this assms(7,8), of "replicate 8 0"] obtain n se' where
    "session_send (replicate 8 0) (word_of_nat dev_id) (word_of_nat i) ret se = Ret (n, se')" "0 < n" "status se' = status se"
    "sent (conn se') = sent (conn se) @ on_wire se (command_image (word_of_nat dev_id) (word_of_nat i) ret)"
    by (auto simp: on_wire_def)
  with assms(1-3) that session_send_id show thesis by (auto simp: send_reply_def cmd_session_def)
qed

text \<open>Over TCP: one write, and the number of bytes.\<close>

lemma send_reply_tcp:
  assumes "map_at (session_pool ks) sid = Some se" and "session_id se = sid" and "sess cmd = Some sid" and "kind se \<in> {TCP, UNIX}"
    and "length (scal_data (dyn_serializer se)) = SCALAR_PACK_LEN" and "reply_typed ret"
    and img: "img = command_image (word_of_nat dev_id) (word_of_nat i) ret" and "takes_out img (tx (conn se))"
  obtains ser where "length (scal_data ser) = SCALAR_PACK_LEN"
    and "send_reply dev_id i ret cmd ks = Ret (int (length img), put_session sid (se\<lparr>dyn_serializer := ser,
      send_buffer := img, conn := (conn se)\<lparr>tx := tl (tx (conn se)), sent := sent (conn se) @ img\<rparr>\<rparr>) ks)"
proof -
  have ne: "img \<noteq> []" by (simp add: img command_image_def)
  with assms(8) obtain k es where tx: "tx (conn se) = TxAccept k # es" "length img \<le> min k IO_MAX"
    by (auto simp: takes_out_def)
  then have len: "length img < 2 ^ 31" by (simp add: IO_MAX_def)
  have "list_all arg_ok ret" "runs_fit (length (scal_data (dyn_serializer se))) 0 ret"
    using assms(5,6) typed_ok len unfolding img by (auto simp: reply_typed_def)
  then obtain ser where b: "build_command (replicate 8 0) (word_of_nat dev_id) (word_of_nat i) (dyn_serializer se) (send_buffer se) ret
      = Some (ser, img)"
    using build_command_eq [of "replicate 8 0" ret "word_of_nat dev_id" "word_of_nat i" "dyn_serializer se" "send_buffer se"]
    unfolding img by auto
  let ?se = "se\<lparr>dyn_serializer := ser, send_buffer := img\<rparr>"
  have "tcp_write img (conn ?se) = Ret (int (length img), (conn se)\<lparr>tx := es, sent := sent (conn se) @ img\<rparr>)"
    using tcp_write_all [OF ne len, of "conn ?se" k es] tx by simp
  then have w: "session_write img ?se = Ret (int (length img),
      ?se\<lparr>conn := (conn se)\<lparr>tx := tl (tx (conn se)), sent := sent (conn se) @ img\<rparr>\<rparr>)"
    using assms(4) tx(1) by (auto simp: session_write_def)
  have "length (scal_data ser) = SCALAR_PACK_LEN" using build_command_pack [OF b] assms(5) by simp
  moreover have "send_reply dev_id i ret cmd ks = Ret (int (length img), put_session sid (se\<lparr>dyn_serializer := ser,
      send_buffer := img, conn := (conn se)\<lparr>tx := tl (tx (conn se)), sent := sent (conn se) @ img\<rparr>\<rparr>) ks)"
    using assms(1-4) b w ne by (auto simp: send_reply_def cmd_session_def session_send_def Let_def)
  ultimately show thesis by (rule that)
qed

section \<open>A generated device keeps the contract of a device\<close>

text \<open>What the generated device \<open>dev_id\<close> does with a message whose method is pure.\<close>

definition class_reaction :: "nat \<Rightarrow> 'w dev_class \<Rightarrow> 'w reaction" where
  "class_reaction dev_id dev m w = (case m of (_, op_id, args) \<Rightarrow>
     let op = class_operations dev ! unat op_id in
     (case op_method op of
        Pure f \<Rightarrow> let (ret, w) = f args w in
          if op_void op then (0, [], w)
          else let img = command_image (word_of_nat dev_id) op_id ret in (int (length img), img, w)
      | InContext _ \<Rightarrow> (0, [], w)))"

text \<open>A message that the generator's types allow, to a pure operation whose result can be sent.\<close>

definition message_ok :: "'w dev_class \<Rightarrow> message \<Rightarrow> bool" where
  "message_ok dev m \<longleftrightarrow> (case m of (_, op_id, args) \<Rightarrow>
     unat op_id < length (class_operations dev)
     \<and> op_arguments (class_operations dev ! unat op_id) = map arg_type args \<and> list_all arg_rcv_ok args
     \<and> length (concat (map arg_image args)) < 2 ^ 31
     \<and> (\<exists>f. op_method (class_operations dev ! unat op_id) = Pure f \<and> (\<forall>w. reply_typed (fst (f args w)))))"

lemma generated_contract:
  assumes "dev_execute ext (unat dev_id) = ks_execute g mems (unat dev_id) dev" and "message_ok dev (dev_id, op_id, args)"
    and "\<forall>k. old_ok (old_vectors (mems k))"
  shows "device_contract ext sid (class_reaction (unat dev_id) dev) (dev_id, op_id, args)"
proof -
  let ?op = "class_operations dev ! unat op_id"
  have *: "\<exists>se' t. ks_execute g mems (unat dev_id) dev cmd ks = Ret (r, (put_session sid se' ks)\<lparr>devices := w, trace := t\<rparr>)
      \<and> replied out rest se se'"
    if c: "cmd_of sid cmd" "device cmd = unat dev_id" "operation cmd = uint op_id" "map_sorted (session_pool ks)"
      "map_at (session_pool ks) sid = Some se" "kind se \<in> {TCP, UNIX}" "session_id se = sid"
      "length (scal_data (dyn_serializer se)) = SCALAR_PACK_LEN" "rx_bytes (rx (conn se)) = concat (map arg_image args) @ rest"
      "class_reaction (unat dev_id) dev (dev_id, op_id, args) (devices ks) = (r, out, w)" "takes_out out (tx (conn se))"
    for cmd ks se rest r out w
  proof -
    from assms(2) obtain f where m: "unat op_id < length (class_operations dev)" "op_arguments ?op = map arg_type args"
      "list_all arg_rcv_ok args" "length (concat (map arg_image args)) < 2 ^ 31" "op_method ?op = Pure f"
      and ret: "reply_typed (fst (f args (devices ks)))"
      by (auto simp: message_ok_def)
    obtain ret v where f: "f args (devices ks) = (ret, v)" by fastforce
    have op: "operation cmd = int (unat op_id)" using c(3) by simp
    have inv: "session_inv (se, cmd)" "session_pending (se, cmd) = concat (map arg_image args) @ rest"
      using c(6,9) by (auto simp: session_inv_def session_pending_def)
    obtain cmd' se1 where ex: "ks_execute g mems (unat dev_id) dev cmd ks =
        (let ks' = (put_session sid se1 ks)\<lparr>devices := v\<rparr> in
         if op_void ?op then Ret (0, ks') else send_reply (unat dev_id) (unat op_id) ret cmd' ks')"
      and s1: "read_args se se1" "sess cmd' = Some sid" "session_pending (se1, cmd') = rest"
      by (rule execute_calls [OF c(1) op m(1) c(4,5,7) inv m(2-4) assms(3) m(5) f])
    note fr = read_args_frame [OF s1(1)]
    have rest: "rx_bytes (rx (conn se1)) = rest" using s1(3) c(6) fr(1) by (auto simp: session_pending_def)
    show ?thesis
    proof (cases "op_void ?op")
      case True
      then have "r = 0" "out = []" "w = v" using c(10) m(5) f by (simp_all add: class_reaction_def Let_def)
      with True ex fr rest show ?thesis
        by (intro exI [of _ se1] exI [of _ "trace ks"]) (simp add: replied_def after_out_def Let_def)
    next
      case False
      then have out: "out = command_image (word_of_nat (unat dev_id)) (word_of_nat (unat op_id)) ret" "r = int (length out)" "w = v"
        using c(10) m(5) f by (auto simp: class_reaction_def Let_def)
      let ?k = "(put_session sid se1 ks)\<lparr>devices := v\<rparr>"
      have at: "map_at (session_pool ?k) sid = Some se1" using at_put_session [OF c(5), of se1] by simp
      obtain ser where "length (scal_data ser) = SCALAR_PACK_LEN"
        "send_reply (unat dev_id) (unat op_id) ret cmd' ?k = Ret (int (length out), put_session sid (se1\<lparr>dyn_serializer := ser,
          send_buffer := out, conn := (conn se1)\<lparr>tx := tl (tx (conn se1)), sent := sent (conn se1) @ out\<rparr>\<rparr>) ?k)"
        by (rule send_reply_tcp [OF at _ s1(2) _ _ _ out(1)]) (use c(6-8,11) fr ret f in auto)
      moreover have "out \<noteq> []" by (simp add: out(1) command_image_def)
      ultimately show ?thesis
        using False ex fr rest out(2,3) c(8)
        by (intro exI [of _ "se1\<lparr>dyn_serializer := ser, send_buffer := out,
              conn := (conn se1)\<lparr>tx := tl (tx (conn se1)), sent := sent (conn se1) @ out\<rparr>\<rparr>"] exI [of _ "trace ks"])
          (simp add: replied_def after_out_def Let_def)
    qed
  qed
  show ?thesis unfolding device_contract_def prod.case assms(1) by (intro allI impI *)
qed

section \<open>The devices of a project\<close>

text \<open>\<open>generate\<close> numbers the classes of the configuration from 2 on and renders the device table
  from them. \<open>mems\<close> gives the memory of the argument structures by device and operation.\<close>

definition generate :: "byte list \<Rightarrow> byte list \<Rightarrow> int \<Rightarrow> (nat \<Rightarrow> byte) \<Rightarrow> (nat \<Rightarrow> nat \<Rightarrow> args_memory) \<Rightarrow> 'w dev_class list
    \<Rightarrow> 'w external" where
  "generate ver json t g mems classes =
     \<lparr>version = ver, devices_json = json, now = t, uninit_mem = g, device_num = length classes + 2,
      dev_name = (\<lambda>d. lit (devices_names (map class_name classes) ! d)),
      deps = (\<lambda>d. class_requires (classes ! (d - 2))), build = (\<lambda>d. class_build (classes ! (d - 2))),
      dev_execute = (\<lambda>d. ks_execute g (mems d) d (classes ! (d - 2)))\<rparr>"

definition table_reaction :: "'w dev_class list \<Rightarrow> 'w reaction" where
  "table_reaction classes m = class_reaction (unat (fst m)) (classes ! (unat (fst m) - 2)) m"

text \<open>The class at place \<open>i\<close> has the number \<open>i + 2\<close>, the device manager dispatches over these numbers, and
  an operation has a constant of its own.\<close>

lemma generated_numbers:
  assumes "distinct (map class_name classes)" and "i < length classes"
  shows "dev_id_of (map class_name classes) (class_name (classes ! i)) = Some (i + 2)"
    and "make_index_sequence_in_range 2 (device_num (generate ver json t g mems classes)) = Some [2 ..< length classes + 2]"
  using Index_distinct [OF assms(1), of i] assms(2)
  by (simp_all add: dev_id_of_def generate_def index_sequence_range)

definition op_constant :: "nat \<Rightarrow> nat \<Rightarrow> u32" where
  "op_constant dev_id op_id = push_bit 16 (word_of_nat dev_id) + word_of_nat op_id"

lemma op_constant_unique:
  assumes "op_constant d i = op_constant d' i'" and "d < 2 ^ 16" "d' < 2 ^ 16" "i < 2 ^ 16" "i' < 2 ^ 16"
  shows "d = d' \<and> i = i'"
proof -
  have n: "op_constant d i = word_of_nat (d * 2 ^ 16 + i)" for d i
    by (simp add: op_constant_def push_bit_eq_mult)
  have "d * 2 ^ 16 + i = d' * 2 ^ 16 + i'"
    using assms(1) unfolding n word_of_nat_eq_iff
    by (subst (asm) (1 2) take_bit_nat_eq_self) (use assms(2-5) in simp_all)
  then have "(d * 2 ^ 16 + i) div 2 ^ 16 = (d' * 2 ^ 16 + i') div 2 ^ 16" "(d * 2 ^ 16 + i) mod 2 ^ 16 = (d' * 2 ^ 16 + i') mod 2 ^ 16"
    by simp_all
  then show ?thesis using assms(4,5) by (simp add: div_mult_self3)
qed

lemma generated_table_contract:
  assumes "message_ok (classes ! (unat (fst m) - 2)) m" and "\<forall>d k. old_ok (old_vectors (mems d k))"
  shows "device_contract (generate ver json t g mems classes) sid (table_reaction classes) m"
proof -
  obtain dev_id op_id args where m: "m = (dev_id, op_id, args)" by (cases m)
  have "device_contract (generate ver json t g mems classes) sid (class_reaction (unat dev_id) (classes ! (unat dev_id - 2))) m"
    unfolding m by (rule generated_contract) (use assms m in \<open>auto simp: generate_def\<close>)
  then show ?thesis by (simp add: device_contract_def table_reaction_def m)
qed

section \<open>Reading arguments from a WebSocket payload\<close>

lemma ws_pack_parsed:
  assumes "kind se = WEBSOCK" and "\<forall>t. p \<noteq> VectorPack t" and "p \<noteq> StringPack"
    and "position (payload cmd) + pack_size p \<le> length (buf_data (payload cmd))"
  obtains args where "parse_pack (session_ops g) vec str p (se, cmd) = Ret (0, args, (se, skip (pack_size p) cmd))"
proof (cases p)
  case (ScalarPack ts)
  show thesis
  proof (cases "ts = []")
    case True
    with ScalarPack assms(1) that [of "[]"] show thesis
      by (simp add: parse_pack_def session_ops_def switch_sock_type_def on_cmd_def ws_ops_def ws_deserialize_def skip_def)
  next
    case False
    have "deserialize 0 ts (buf_data (payload cmd)) (position (payload cmd)) \<noteq> None"
      using deserialize_dom [of 0 ts] ScalarPack assms(4) by simp
    then obtain vs where "deserialize 0 ts (buf_data (payload cmd)) (position (payload cmd)) = Some vs" by blast
    with False ScalarPack assms(1) that [of "map Scalar vs"] show thesis
      by (simp add: parse_pack_def session_ops_def switch_sock_type_def on_cmd_def ws_ops_def ws_deserialize_def skip_def
          with_payload_def buf_deserialize_def)
  qed
next
  case (ArrayPack t n)
  then obtain m where "peeks (buf_data (payload cmd)) (position (payload cmd)) (size_of_array t n) = Some m"
    using assms(4) by (simp add: peeks_def)
  with ArrayPack assms(1) that [of "[StdArray t (elems_of_mem t n m)]"] show thesis
    by (simp add: parse_pack_def session_ops_def switch_sock_type_def on_cmd_def ws_ops_def ws_recv_array_def skip_def
        with_payload_def buf_extract_array_def)
qed (use assms in simp_all)

lemma skip_skip [simp]: "skip n (skip m cmd) = skip (m + n) cmd"
  by (simp add: skip_def add.assoc)

lemma ws_packs_parsed:
  assumes "kind se = WEBSOCK" and "\<forall>p \<in> set ps. (\<forall>t. p \<noteq> VectorPack t) \<and> p \<noteq> StringPack"
    and "position (payload cmd) + req_buff_size ps \<le> length (buf_data (payload cmd))"
  shows "\<exists>args. parse_packs (session_ops g) ov os k ps (se, cmd) = Ret (0, args, (se, skip (req_buff_size ps) cmd))"
  using assms(2,3)
proof (induction ps arbitrary: cmd k)
  case Nil
  then show ?case by (simp add: req_buff_size_def skip_def)
next
  case (Cons p ps)
  obtain args where p: "parse_pack (session_ops g) (case p of VectorPack t \<Rightarrow> ov k t | _ \<Rightarrow> []) (os k) p (se, cmd)
      = Ret (0, args, (se, skip (pack_size p) cmd))"
    by (rule ws_pack_parsed [OF assms(1), of p cmd]) (use Cons.prems in \<open>auto simp: req_buff_size_def\<close>)
  from Cons.IH [of "skip (pack_size p) cmd" "Suc k"] Cons.prems obtain args' where
    "parse_packs (session_ops g) ov os (Suc k) ps (se, skip (pack_size p) cmd)
      = Ret (0, args', (se, skip (req_buff_size ps) (skip (pack_size p) cmd)))"
    by (auto simp: req_buff_size_def skip_def add.assoc)
  with p show ?case by (simp add: req_buff_size_def)
qed

lemma no_vector_packs:
  assumes "\<not> snd (build_args_packs arguments)" and "p \<in> set (fst (build_args_packs arguments))"
  shows "(\<forall>t. p \<noteq> VectorPack t) \<and> p \<noteq> StringPack"
proof -
  have "StringArg \<notin> set arguments \<and> (\<forall>t. VectorArg t \<notin> set arguments)"
    using assms(1) by (auto simp: build_args_packs_def has_vector_iff)
  moreover have "p \<in> set (split_packs al as) \<Longrightarrow> StringArg \<notin> set as \<Longrightarrow> \<forall>t. VectorArg t \<notin> set as \<Longrightarrow>
      (\<forall>t. p \<noteq> VectorPack t) \<and> p \<noteq> StringPack" for al as
    by (induction al as rule: split_packs.induct) (auto simp: flush_scalars_def split: if_splits)
  ultimately show ?thesis using assms(2) by (simp add: build_args_packs_def build_packs_split)
qed

end
