(* ===== verification/Floats.thy ===== *)
theory Floats
  imports Double Serializer
begin

unbundle bit_operations_syntax

text \<open>
  Floating-point numbers as the devices compute with them: the value that a bit pattern of
  \<open>float\<close> or \<open>double\<close> stands for, rounding to \<open>float\<close>, the pattern of a value, and the
  comparisons and functions of \<open><cmath>\<close> that the test devices use. Values are those of
  \<open>Double\<close>; the format is IEEE 754.
\<close>

section \<open>Values of bit patterns\<close>

text \<open>A pattern with \<open>p\<close> bits of fraction and an exponent of \<open>w\<close> bits: sign, exponent and fraction.\<close>

definition ieee_value :: "nat \<Rightarrow> nat \<Rightarrow> bool \<Rightarrow> int \<Rightarrow> int \<Rightarrow> double" where
  "ieee_value w p s e m =
     (if e = 2 ^ w - 1 then (if m = 0 then Inf s else NaN)
      else let emin = 2 - 2 ^ (w - 1) - int p in
        Fin ((if s then -1 else 1) * (if e = 0 then of_int m * 2 powi emin else of_int (2 ^ p + m) * 2 powi (emin + e - 1))))"

definition value32 :: "float32 \<Rightarrow> double" where
  "value32 f = (let b = bits32 f in
     ieee_value 8 23 (bit b 31) (uint (take_bit 8 (drop_bit 23 b))) (uint (take_bit 23 b)))"

definition value64 :: "float64 \<Rightarrow> double" where
  "value64 f = (let b = bits64 f in
     ieee_value 11 52 (bit b 63) (uint (take_bit 11 (drop_bit 52 b))) (uint (take_bit 52 b)))"

section \<open>Patterns of values\<close>

text \<open>Rounding to the nearest \<open>float\<close>, ties to even.\<close>

definition to_float :: "rat \<Rightarrow> double" where
  "to_float x = (if x = 0 then Fin 0
     else let q = max (log2_floor \<bar>x\<bar> - 23) (-149);
              y = of_int (round_even (\<bar>x\<bar> / 2 powi q)) * 2 powi q
          in if y \<ge> 2 ^ 128 then Inf (x < 0) else Fin (sgn x * y))"

text \<open>The conversion of a \<open>double\<close> to \<open>float\<close>.\<close>

definition narrow :: "double \<Rightarrow> double" where
  "narrow x = (case x of Fin a \<Rightarrow> to_float a | _ \<Rightarrow> x)"

text \<open>Exponent and fraction of a value that the format holds; a NaN is the quiet one.\<close>

definition ieee_pattern :: "nat \<Rightarrow> nat \<Rightarrow> double \<Rightarrow> int" where
  "ieee_pattern w p x = (let sign = (\<lambda>s. if s then 2 ^ (w + p) else 0) in
     case x of
       Inf s \<Rightarrow> sign s + (2 ^ w - 1) * 2 ^ p
     | NaN \<Rightarrow> (2 ^ w - 1) * 2 ^ p + 2 ^ (p - 1)
     | Fin a \<Rightarrow>
         if a = 0 then 0
         else let emin = 2 - 2 ^ (w - 1) - int p;
                  q = max (log2_floor \<bar>a\<bar> - int p) emin;
                  m = \<lfloor>\<bar>a\<bar> / 2 powi q\<rfloor>
              in sign (a < 0) + (if m < 2 ^ p then m else (q - emin) * 2 ^ p + m))"

definition float_of :: "double \<Rightarrow> float32" where
  "float_of x = Float32 (word_of_int (ieee_pattern 8 23 (narrow x)))"

definition double_of :: "double \<Rightarrow> float64" where
  "double_of x = Float64 (word_of_int (ieee_pattern 11 52 x))"

section \<open>Comparisons and functions\<close>

fun d_less :: "double \<Rightarrow> double \<Rightarrow> bool" where
  "d_less NaN b = False"
| "d_less a NaN = False"
| "d_less (Fin a) (Fin b) = (a < b)"
| "d_less (Inf s) (Fin b) = s"
| "d_less (Fin a) (Inf t) = (\<not> t)"
| "d_less (Inf s) (Inf t) = (s \<and> \<not> t)"

fun d_eq :: "double \<Rightarrow> double \<Rightarrow> bool" where
  "d_eq NaN b = False"
| "d_eq a NaN = False"
| "d_eq a b = (a = b)"

definition d_le :: "double \<Rightarrow> double \<Rightarrow> bool" where
  "d_le a b \<longleftrightarrow> d_less a b \<or> d_eq a b"

fun d_abs :: "double \<Rightarrow> double" where
  "d_abs (Fin a) = Fin \<bar>a\<bar>"
| "d_abs (Inf s) = Inf False"
| "d_abs NaN = NaN"

fun d_trunc :: "double \<Rightarrow> double" where
  "d_trunc (Fin a) = Fin (of_int (if a < 0 then \<lceil>a\<rceil> else \<lfloor>a\<rfloor>))"
| "d_trunc x = x"

definition d_sub :: "double \<Rightarrow> double \<Rightarrow> double" where
  "d_sub a b = d_add a (d_neg b)"

end
