(* ===== verification/TestDevices.thy ===== *)
theory TestDevices
  imports GeneratedDevice Floats
begin

text \<open>
  The devices of \<open>tests/\<close>, with which the server is built for its own tests: \<open>Tests\<close>,
  \<open>Benchmarks\<close>, \<open>ExceptionTests\<close> and \<open>UsesContext\<close>, as the generator makes devices of them for
  \<open>config/config_local.yaml\<close>. Every method is there. The functions of the C library whose results
  the standard does not fix (\<open>log\<close>, \<open>sin\<close>, \<open>cos\<close>, \<open>tanh\<close>, \<open>log2\<close>) and \<open>sqrt\<close> are parameters;
  unqualified, they are those on \<open>double\<close>.
\<close>

section \<open>State\<close>

record tests =
  data :: "float32 list"
  data_u :: "u32 list"
  data_i :: "u32 list"
  t_buffer :: "u32 list"
  data_std_array :: "float32 list"
  data_std_array2 :: "u32 list"
  data_std_array3 :: "u32 list"

record benchmarks =
  vector_u :: "u32 list"
  vector_f :: "float32 list"
  array_u :: "u32 list"

record exception_tests =
  std_array :: "float32 list"
  std_vector :: "u32 list"

record test_devices =
  tests :: tests
  benchmarks :: benchmarks
  exception_tests :: exception_tests

definition HALF_ARRAY_LEN :: nat where "HALF_ARRAY_LEN = 24"

definition calc_array_length :: "nat \<Rightarrow> nat" where
  "calc_array_length n_bits = push_bit n_bits 1"

text \<open>The constructors. The arrays of \<open>Tests\<close> and the one of \<open>ExceptionTests\<close> are not initialised:
  what is in the memory stays.\<close>

definition Tests :: "tests \<Rightarrow> tests" where
  "Tests memory = memory\<lparr>data := [], data_u := [], data_i := [], t_buffer := []\<rparr>"

definition Benchmarks :: benchmarks where
  "Benchmarks = \<lparr>vector_u = replicate 16384 0, vector_f = replicate 1048576 (Float32 0), array_u = replicate 16384 0\<rparr>"

definition ExceptionTests :: "exception_tests \<Rightarrow> exception_tests" where
  "ExceptionTests memory = memory\<lparr>std_vector := []\<rparr>"

section \<open>Floating-point tests\<close>

record libm =
  m_log :: "double \<Rightarrow> double"
  m_sin :: "double \<Rightarrow> double"
  m_cos :: "double \<Rightarrow> double"
  m_tanh :: "double \<Rightarrow> double"
  m_log2 :: "double \<Rightarrow> double"
  m_sqrt :: "double \<Rightarrow> double"

definition float_epsilon :: double where "float_epsilon = Fin (1 / 2 ^ 23)"
definition double_epsilon :: double where "double_epsilon = Fin (1 / 2 ^ 52)"
definition float_round_error :: double where "float_round_error = Fin (1 / 2)"

text \<open>\<open>fabs(x - y) > eps\<close>, which a NaN does not satisfy.\<close>

definition differs :: "double \<Rightarrow> double \<Rightarrow> double \<Rightarrow> bool" where
  "differs eps x y \<longleftrightarrow> d_less eps (d_abs (d_sub x y))"

text \<open>\<open>static_cast<float>(n)\<close> and \<open>static_cast<double>(n)\<close>.\<close>

definition to_f :: "nat \<Rightarrow> double" where "to_f n = to_float (of_nat n)"
definition to_d :: "nat \<Rightarrow> double" where "to_d n = to_double (of_nat n)"

text \<open>The loops that compare a container of \<open>n\<close> numbers with a function of the index.\<close>

definition floats_are :: "double \<Rightarrow> nat \<Rightarrow> (nat \<Rightarrow> double) \<Rightarrow> float32 list \<Rightarrow> bool" where
  "floats_are eps n f arr \<longleftrightarrow> list_all (\<lambda>i. \<not> differs eps (value32 (arr ! i)) (f i)) [0 ..< n]"

definition doubles_are :: "double \<Rightarrow> nat \<Rightarrow> (nat \<Rightarrow> double) \<Rightarrow> float64 list \<Rightarrow> bool" where
  "doubles_are eps n f arr \<longleftrightarrow> list_all (\<lambda>i. \<not> differs eps (value64 (arr ! i)) (f i)) [0 ..< n]"

definition words_are :: "nat \<Rightarrow> (u32 \<Rightarrow> u32) \<Rightarrow> u32 list \<Rightarrow> bool" where
  "words_are n f arr \<longleftrightarrow> list_all (\<lambda>i. arr ! i = f (word_of_nat i)) [0 ..< n]"

section \<open>\<open>Tests\<close>: receiving\<close>

definition rcv_many_params :: "u32 \<Rightarrow> u32 \<Rightarrow> float32 \<Rightarrow> bool \<Rightarrow> bool" where
  "rcv_many_params u1 u2 f b \<longleftrightarrow> u1 = 429496729 \<and> u2 = 2048
     \<and> d_eq (d_trunc (d_mult (value32 f) (to_double 1000000))) (to_double 3140000) \<and> b"

definition set_float :: "float32 \<Rightarrow> bool" where
  "set_float f \<longleftrightarrow> d_eq (value32 f) (to_double (125 / 10))"

definition set_double :: "float64 \<Rightarrow> bool" where
  "set_double d \<longleftrightarrow> d_le (d_abs (d_sub (value64 d) (to_double (1428571428571428492127 / 10 ^ 21)))) double_epsilon"

definition set_u64 :: "u64 \<Rightarrow> bool" where
  "set_u64 u \<longleftrightarrow> u = 2225073854759576792"

definition set_i64 :: "u64 \<Rightarrow> bool" where
  "set_i64 i \<longleftrightarrow> sint i = -9223372036854775805"

definition set_unsigned :: "byte \<Rightarrow> u16 \<Rightarrow> u32 \<Rightarrow> bool" where
  "set_unsigned v8 v16 v32 \<longleftrightarrow> v8 = 255 \<and> v16 = 65535 \<and> v32 = 4294967295"

definition set_signed :: "byte \<Rightarrow> u16 \<Rightarrow> u32 \<Rightarrow> bool" where
  "set_signed i8 i16 i32 \<longleftrightarrow> sint i8 = -125 \<and> sint i16 = -32764 \<and> sint i32 = -2147483645"

definition rcv_std_array :: "u32 \<Rightarrow> float32 \<Rightarrow> u32 list \<Rightarrow> float64 \<Rightarrow> u32 \<Rightarrow> bool" where
  "rcv_std_array u f arr d i =
     (if u \<noteq> 4223453 then False
      else if differs float_epsilon (value32 f) (to_double (3141592 / 10 ^ 6)) then False
      else if differs double_epsilon (value64 d) (to_double (2654798454646 / 10 ^ 12)) then False
      else if sint i \<noteq> -56789 then False
      else words_are 8192 (\<lambda>i. i) arr)"

definition rcv_std_array2 :: "libm \<Rightarrow> float32 list \<Rightarrow> bool" where
  "rcv_std_array2 lm arr = floats_are float_round_error 8192 (\<lambda>i. m_log lm (to_f (i + 1))) arr"

definition rcv_std_array3 :: "libm \<Rightarrow> float64 list \<Rightarrow> bool" where
  "rcv_std_array3 lm arr = doubles_are double_epsilon 8192 (\<lambda>i. m_sin lm (to_d i)) arr"

definition rcv_std_array4 :: "u32 list \<Rightarrow> bool" where
  "rcv_std_array4 arr = words_are (calc_array_length 10) (\<lambda>i. i) arr"

definition rcv_std_vector :: "u32 list \<Rightarrow> bool" where
  "rcv_std_vector vec = (if length vec \<noteq> 8192 then False else words_are (length vec) (\<lambda>i. i) vec)"

definition rcv_std_vector1 :: "libm \<Rightarrow> u32 \<Rightarrow> float32 \<Rightarrow> float64 list \<Rightarrow> bool" where
  "rcv_std_vector1 lm u f vec =
     (if u \<noteq> 4223453 then False
      else if differs float_epsilon (value32 f) (to_double (3141592 / 10 ^ 6)) then False
      else if length vec \<noteq> 8192 then False
      else doubles_are double_epsilon (length vec) (\<lambda>i. m_sin lm (to_d i)) vec)"

definition rcv_std_vector2 :: "libm \<Rightarrow> u32 \<Rightarrow> float32 \<Rightarrow> float32 list \<Rightarrow> float64 \<Rightarrow> u32 \<Rightarrow> bool" where
  "rcv_std_vector2 lm u f vec d i =
     (if u \<noteq> 4223453 then False
      else if differs float_epsilon (value32 f) (to_double (3141592 / 10 ^ 6)) then False
      else if length vec \<noteq> 8192 then False
      else if \<not> floats_are float_round_error (length vec) (\<lambda>i. m_log lm (to_f (i + 1))) vec then False
      else if differs double_epsilon (value64 d) (to_double (2654798454646 / 10 ^ 12)) then False
      else sint i = -56789)"

definition rcv_std_vector3 :: "libm \<Rightarrow> u32 list \<Rightarrow> float32 list \<Rightarrow> float64 \<Rightarrow> u32 \<Rightarrow> bool" where
  "rcv_std_vector3 lm arr vec d i =
     (if differs double_epsilon (value64 d) (to_double (2654798454646 / 10 ^ 12)) then False
      else if sint i \<noteq> -56789 then False
      else if \<not> words_are 8192 (\<lambda>i. i) arr then False
      else if length vec \<noteq> 8192 then False
      else floats_are float_round_error (length vec) (\<lambda>i. m_log lm (to_f (i + 1))) vec)"

definition rcv_std_vector4 :: "libm \<Rightarrow> float32 list \<Rightarrow> float64 \<Rightarrow> u32 \<Rightarrow> u32 list \<Rightarrow> bool" where
  "rcv_std_vector4 lm vec d i arr =
     (if differs double_epsilon (value64 d) (to_double (2654798454646 / 10 ^ 12)) then False
      else if sint i \<noteq> -56789 then False
      else if length vec \<noteq> 8192 then False
      else if \<not> floats_are float_epsilon (length vec) (\<lambda>i. m_cos lm (to_f i)) vec then False
      else words_are 8192 (\<lambda>i. i * i) arr)"

definition rcv_std_vector5 :: "libm \<Rightarrow> float32 list \<Rightarrow> float64 \<Rightarrow> u32 \<Rightarrow> float32 list \<Rightarrow> bool" where
  "rcv_std_vector5 lm vec1 d i vec2 =
     (if differs double_epsilon (value64 d) (to_double (4232747024077716 / 10 ^ 16)) then False
      else if sint i \<noteq> 35591508 then False
      else if length vec1 \<noteq> 8192 then False
      else if length vec2 \<noteq> 16384 then False
      else if \<not> floats_are float_epsilon (length vec1) (\<lambda>i. m_tanh lm (to_f i)) vec1 then False
      else floats_are float_round_error (length vec2) (\<lambda>i. m_log2 lm (to_f (i + 1))) vec2)"

definition rcv_std_string :: "byte list \<Rightarrow> bool" where
  "rcv_std_string str \<longleftrightarrow> str = lit ''Hello World''"

definition rcv_std_string1 :: "byte list \<Rightarrow> bool" where
  "rcv_std_string1 str \<longleftrightarrow> str = lit (''Lorem ipsum dolor sit amet, consectetur adipiscing elit. Integer nec odio. ''
     @ ''Praesent libero. Sed cursus ante dapibus diam. Sed nisi. Nulla quis sem at nibh elementum imperdiet. ''
     @ ''Duis sagittis ipsum. Praesent mauris. Fusce nec tellus sed augue semper porta. Mauris massa. ''
     @ ''Vestibulum lacinia arcu eget nulla. Class aptent taciti sociosqu ad litora torquent per conubia nostra, ''
     @ ''per inceptos himenaeos. Curabitur sodales ligula in libero. Sed dignissim lacinia nunc.'')"

definition rcv_std_string2 :: "libm \<Rightarrow> byte list \<Rightarrow> float32 list \<Rightarrow> float64 \<Rightarrow> u32 \<Rightarrow> bool" where
  "rcv_std_string2 lm str vec d i =
     (if str \<noteq> lit (''At vero eos et accusamus et iusto odio dignissimos ducimus, ''
          @ ''qui blanditiis praesentium voluptatum deleniti atque corrupti'') then False
      else if length vec \<noteq> 8192 then False
      else if \<not> floats_are float_epsilon (length vec) (\<lambda>i. m_sin lm (to_f i)) vec then False
      else if differs double_epsilon (value64 d) (to_double (80773675317454 / 10 ^ 14)) then False
      else sint i = -361148845)"

definition rcv_std_string3 :: "libm \<Rightarrow> float32 list \<Rightarrow> float64 \<Rightarrow> u32 \<Rightarrow> byte list \<Rightarrow> u32 list \<Rightarrow> bool" where
  "rcv_std_string3 lm vec d i str arr =
     (if length vec \<noteq> 8192 then False
      else if \<not> floats_are float_round_error (length vec) (\<lambda>i. m_sqrt lm (to_f i)) vec then False
      else if differs double_epsilon (value64 d) (to_double (4741953746153866 / 10 ^ 16)) then False
      else if sint i \<noteq> -6093602 then False
      else if str \<noteq> lit (''Erbium is a rare-earth element that, when excited, emits light around 1.54 micrometers - ''
          @ ''the low-loss wavelength for optical fibers used in DWDM. A weak signal enters the erbium-doped fiber, ''
          @ ''into which light at 980nm or 1480nm is injected using a pump laser. ''
          @ ''This injected light stimulates the erbium atoms to release their stored energy as additional 1550nm light. ''
          @ ''As this process continues down the fiber, the signal grows stronger. ''
          @ ''The spontaneous emissions in the EDFA also add noise to the signal; ''
          @ ''this determines the noise figure of an EDFA.'') then False
      else words_are 8192 (\<lambda>i. i * i) arr)"

section \<open>\<open>Tests\<close>: sending\<close>

text \<open>A loop that assigns to every element a value computed from its index, an \<open>unsigned int\<close>.\<close>

definition assign_all :: "(u32 \<Rightarrow> 'a) \<Rightarrow> 'a list \<Rightarrow> 'a list" where
  "assign_all f xs = map (\<lambda>i. f (word_of_nat i)) [0 ..< length xs]"

definition u32_to_float :: "u32 \<Rightarrow> float32" where
  "u32_to_float u = float_of (Fin (of_int (uint u)))"

definition send_std_vector :: "tests \<Rightarrow> float32 list \<times> tests" where
  "send_std_vector t = (let d = assign_all (\<lambda>i. u32_to_float (i * i * i)) (resize (Float32 0) 10 (data t)) in (d, t\<lparr>data := d\<rparr>))"

definition send_std_vector2 :: "tests \<Rightarrow> u32 list \<times> tests" where
  "send_std_vector2 t = (let d = assign_all (\<lambda>i. i * i) (resize 0 20 (data_u t)) in (d, t\<lparr>data_u := d\<rparr>))"

definition send_std_vector3 :: "tests \<Rightarrow> u32 list \<times> tests" where
  "send_std_vector3 t = (let d = assign_all (\<lambda>i. - i * i) (resize 0 20 (data_i t)) in (d, t\<lparr>data_i := d\<rparr>))"

definition send_std_array :: "tests \<Rightarrow> float32 list \<times> tests" where
  "send_std_array t = (let a = assign_all (\<lambda>i. u32_to_float (i * i)) (data_std_array t) in (a, t\<lparr>data_std_array := a\<rparr>))"

definition send_std_array2 :: "u32 \<Rightarrow> tests \<Rightarrow> u32 list \<times> tests" where
  "send_std_array2 mul t = (let a = assign_all (\<lambda>i. mul * i) (data_std_array2 t) in (a, t\<lparr>data_std_array2 := a\<rparr>))"

definition send_std_array3 :: "u32 \<Rightarrow> tests \<Rightarrow> u32 list \<times> tests" where
  "send_std_array3 add t = (let a = assign_all (\<lambda>i. add + i) (data_std_array3 t) in (a, t\<lparr>data_std_array3 := a\<rparr>))"

definition send_std_array4 :: "u32 \<Rightarrow> tests \<Rightarrow> u32 list \<times> tests" where
  "send_std_array4 add t = (let a = assign_all (\<lambda>i. add + 2 * i) (data_std_array3 t) in (a, t\<lparr>data_std_array3 := a\<rparr>))"

text \<open>A literal of type \<open>double\<close>, one of type \<open>float\<close>, and a \<open>double\<close> converted to \<open>float\<close>.\<close>

definition lit_d :: "rat \<Rightarrow> float64" where "lit_d x = double_of (to_double x)"
definition lit_f :: "rat \<Rightarrow> float32" where "lit_f x = float_of (Fin x)"
definition d_to_f :: "rat \<Rightarrow> float32" where "d_to_f x = float_of (to_double x)"

definition get_cstr :: "byte list" where
  "get_cstr = lit ''Hello !'' @ [0]"

definition get_std_string :: "byte list" where
  "get_std_string = lit ''Hello World !''"

definition get_json :: "byte list" where
  \<open>get_json = lit ''{"date":"20/07/2016","machine":"PC-3","time":"18:16:13","user":"thomas","version":"0691eed"}''\<close>

definition get_json2 :: "byte list" where
  \<open>get_json2 = lit (''{"firstName":"John","lastName":"Smith","age":25,"phoneNumber":[''
     @ ''{"type":"home","number":"212 555-1234"},{"type":"fax","number":"646 555-4567"}]}'')\<close>

definition get_tuple :: "scalar list" where
  "get_tuple = [V_int32 501762438, V_double (lit_d (5073858 / 10 ^ 4)), V_double (lit_d (9265476468507200 / 10 ^ 10)), V_bool True]"

definition get_tuple2 :: "scalar list" where
  "get_tuple2 = [V_uint32 2, V_float (lit_f (314159 / 10 ^ 5)), V_uint64 742312418498347354,
     V_double (lit_d (314159265358979323846 / 10 ^ 20)), V_int64 (-9223372036854775807)]"

definition get_tuple3 :: "scalar list" where
  "get_tuple3 = [V_bool False, V_float (lit_f (314159 / 10 ^ 5)), V_float (d_to_f (5073858 / 10 ^ 4)), V_uint8 42, V_uint16 6553]"

definition get_tuple4 :: "scalar list" where
  "get_tuple4 = [V_int8 (-127), V_int8 127, V_int16 (-32767), V_int16 32767, V_int32 (-2147483647), V_int32 2147483647]"

definition read_uint64 :: u64 where "read_uint64 = push_bit 63 1"
definition read_int :: u32 where "read_int = -214748364"
definition read_uint :: u32 where "read_uint = 301062138"
definition read_ulong :: u32 where "read_ulong = 2048"
definition read_ulonglong :: u64 where "read_ulonglong = push_bit 63 1"
definition read_float :: float32 where "read_float = d_to_f (3141592 / 10 ^ 6)"
definition read_double :: float64 where "read_double = lit_d (22250738585072009 / 10 ^ 16)"
definition read_bool :: bool where "read_bool = True"

section \<open>The other classes\<close>

definition std_vector_u32_from_client :: "u32 list \<Rightarrow> bool" where
  "std_vector_u32_from_client vec \<longleftrightarrow> length vec = 16384"

definition std_array_u32_from_client :: "u32 list \<Rightarrow> bool" where
  "std_array_u32_from_client arr = True"

definition array_exception :: "exception_tests \<Rightarrow> float32 list \<times> exception_tests" where
  "array_exception e = (let a = assign_all (\<lambda>_. Float32 0) (std_array e) in (a, e\<lparr>std_array := a\<rparr>))"

definition std_vector_exception :: "exception_tests \<Rightarrow> u32 list \<times> exception_tests" where
  "std_vector_exception e = (let v = resize 0 10 (std_vector e) in (v, e\<lparr>std_vector := v\<rparr>))"

definition std_tuple_exception :: "scalar list" where
  "std_tuple_exception = [V_uint32 42, V_float (lit_f (314 / 100))]"

text \<open>\<open>msg.c_str()\<close> ends at the first zero. It is given as a format without arguments.\<close>

definition c_str :: "byte list \<Rightarrow> byte list" where
  "c_str s = takeWhile (\<lambda>c. c \<noteq> 0) s"

definition uses_log :: "byte list \<Rightarrow> 'w kserver \<Rightarrow> 'w kserver res" where
  "uses_log msg ks = print_fmt INFO (c_str msg) [] ks"

definition uses_notify :: "nat \<Rightarrow> byte list \<Rightarrow> 'w kserver \<Rightarrow> 'w kserver res" where
  "uses_notify dev msg ks = bind_res (of_ub (fmt_text (c_str msg) [])) (\<lambda>t.
     bind_res (emit_str DEVICES_CHANNEL dev t ks) (\<lambda>(r, ks). Ret ks))"

text \<open>The device is built while one of its methods runs: \<open>get\<close> is the reference to the only object
  of the class, which is \<open>this\<close>.\<close>

definition is_myself :: "nat \<Rightarrow> 'w kserver \<Rightarrow> (bool \<times> 'w kserver) res" where
  "is_myself dev ks = (if flag (devtup (dev_manager ks)) dev then Ret (True, ks) else Undef)"

section \<open>The generated device table\<close>

text \<open>The elements of a container, of the type the parser gave them.\<close>

definition as_u32 :: "scalar list \<Rightarrow> u32 list" where
  "as_u32 vs = map (\<lambda>v. case v of V_uint32 u \<Rightarrow> u | _ \<Rightarrow> 0) vs"

definition as_float :: "scalar list \<Rightarrow> float32 list" where
  "as_float vs = map (\<lambda>v. case v of V_float f \<Rightarrow> f | _ \<Rightarrow> Float32 0) vs"

definition as_double :: "scalar list \<Rightarrow> float64 list" where
  "as_double vs = map (\<lambda>v. case v of V_double d \<Rightarrow> d | _ \<Rightarrow> Float64 0) vs"

text \<open>A method that returns a \<open>bool\<close> and changes nothing, one without arguments that returns what it
  always returns, and one that works on an object.\<close>

definition checker :: "string \<Rightarrow> arg_t list \<Rightarrow> (cmd_arg list \<Rightarrow> bool) \<Rightarrow> test_devices dev_operation" where
  "checker name arguments f = \<lparr>op_name = name, op_arguments = arguments, op_void = False,
     op_method = Pure (\<lambda>args w. ([Scalar (V_bool (f args))], w))\<rparr>"

definition giving :: "string \<Rightarrow> cmd_arg list \<Rightarrow> test_devices dev_operation" where
  "giving name ret = \<lparr>op_name = name, op_arguments = [], op_void = False, op_method = Pure (\<lambda>args w. (ret, w))\<rparr>"

definition on_tests :: "string \<Rightarrow> arg_t list \<Rightarrow> (cmd_arg list \<Rightarrow> tests \<Rightarrow> cmd_arg \<times> tests) \<Rightarrow> test_devices dev_operation" where
  "on_tests name arguments f = \<lparr>op_name = name, op_arguments = arguments, op_void = False,
     op_method = Pure (\<lambda>args w. let (ret, t) = f args (tests w) in ([ret], w\<lparr>tests := t\<rparr>))\<rparr>"

definition on_exception_tests :: "string \<Rightarrow> (exception_tests \<Rightarrow> cmd_arg \<times> exception_tests) \<Rightarrow> test_devices dev_operation" where
  "on_exception_tests name f = \<lparr>op_name = name, op_arguments = [], op_void = False,
     op_method = Pure (\<lambda>args w. let (ret, e) = f (exception_tests w) in ([ret], w\<lparr>exception_tests := e\<rparr>))\<rparr>"

definition arg_u32 :: "cmd_arg list \<Rightarrow> u32" where
  "arg_u32 args = (case args of [Scalar (V_uint32 u)] \<Rightarrow> u | _ \<Rightarrow> 0)"

definition tests_operations :: "libm \<Rightarrow> test_devices dev_operation list" where
  "tests_operations lm = [
     checker ''rcv_many_params'' [ScalarArg T_uint32, ScalarArg T_uint32, ScalarArg T_float, ScalarArg T_bool]
       (\<lambda>args. case args of [Scalar (V_uint32 u1), Scalar (V_uint32 u2), Scalar (V_float f), Scalar (V_bool b)] \<Rightarrow>
         rcv_many_params u1 u2 f b | _ \<Rightarrow> False),
     checker ''set_float'' [ScalarArg T_float] (\<lambda>args. case args of [Scalar (V_float f)] \<Rightarrow> set_float f | _ \<Rightarrow> False),
     checker ''set_double'' [ScalarArg T_double] (\<lambda>args. case args of [Scalar (V_double d)] \<Rightarrow> set_double d | _ \<Rightarrow> False),
     checker ''set_u64'' [ScalarArg T_uint64] (\<lambda>args. case args of [Scalar (V_uint64 u)] \<Rightarrow> set_u64 u | _ \<Rightarrow> False),
     checker ''set_i64'' [ScalarArg T_int64] (\<lambda>args. case args of [Scalar (V_int64 i)] \<Rightarrow> set_i64 i | _ \<Rightarrow> False),
     checker ''set_unsigned'' [ScalarArg T_uint8, ScalarArg T_uint16, ScalarArg T_uint32]
       (\<lambda>args. case args of [Scalar (V_uint8 u8), Scalar (V_uint16 u16), Scalar (V_uint32 u32)] \<Rightarrow> set_unsigned u8 u16 u32 | _ \<Rightarrow> False),
     checker ''set_signed'' [ScalarArg T_int8, ScalarArg T_int16, ScalarArg T_int32]
       (\<lambda>args. case args of [Scalar (V_int8 i8), Scalar (V_int16 i16), Scalar (V_int32 i32)] \<Rightarrow> set_signed i8 i16 i32 | _ \<Rightarrow> False),
     on_tests ''send_std_vector'' [] (\<lambda>_ t. map_prod (\<lambda>v. Vector T_float (map V_float v)) id (send_std_vector t)),
     on_tests ''send_std_vector2'' [] (\<lambda>_ t. map_prod (\<lambda>v. Vector T_uint32 (map V_uint32 v)) id (send_std_vector2 t)),
     on_tests ''send_std_vector3'' [] (\<lambda>_ t. map_prod (\<lambda>v. Vector T_int32 (map V_int32 v)) id (send_std_vector3 t)),
     on_tests ''send_std_array'' [] (\<lambda>_ t. map_prod (\<lambda>v. StdArray T_float (map V_float v)) id (send_std_array t)),
     on_tests ''send_std_array2'' [ScalarArg T_uint32]
       (\<lambda>args t. map_prod (\<lambda>v. StdArray T_uint32 (map V_uint32 v)) id (send_std_array2 (arg_u32 args) t)),
     on_tests ''send_std_array3'' [ScalarArg T_uint32]
       (\<lambda>args t. map_prod (\<lambda>v. StdArray T_uint32 (map V_uint32 v)) id (send_std_array3 (arg_u32 args) t)),
     on_tests ''send_std_array4'' [ScalarArg T_uint32]
       (\<lambda>args t. map_prod (\<lambda>v. StdArray T_uint32 (map V_uint32 v)) id (send_std_array4 (arg_u32 args) t)),
     checker ''rcv_std_array'' [ScalarArg T_uint32, ScalarArg T_float, ArrayArg T_uint32 8192, ScalarArg T_double, ScalarArg T_int32]
       (\<lambda>args. case args of [Scalar (V_uint32 u), Scalar (V_float f), StdArray _ arr, Scalar (V_double d), Scalar (V_int32 i)] \<Rightarrow>
         rcv_std_array u f (as_u32 arr) d i | _ \<Rightarrow> False),
     checker ''rcv_std_array2'' [ArrayArg T_float 8192]
       (\<lambda>args. case args of [StdArray _ arr] \<Rightarrow> rcv_std_array2 lm (as_float arr) | _ \<Rightarrow> False),
     checker ''rcv_std_array3'' [ArrayArg T_double 8192]
       (\<lambda>args. case args of [StdArray _ arr] \<Rightarrow> rcv_std_array3 lm (as_double arr) | _ \<Rightarrow> False),
     checker ''rcv_std_array4'' [ArrayArg T_uint32 (calc_array_length 10)]
       (\<lambda>args. case args of [StdArray _ arr] \<Rightarrow> rcv_std_array4 (as_u32 arr) | _ \<Rightarrow> False),
     checker ''rcv_std_vector'' [VectorArg T_uint32]
       (\<lambda>args. case args of [Vector _ vec] \<Rightarrow> rcv_std_vector (as_u32 vec) | _ \<Rightarrow> False),
     checker ''rcv_std_vector1'' [ScalarArg T_uint32, ScalarArg T_float, VectorArg T_double]
       (\<lambda>args. case args of [Scalar (V_uint32 u), Scalar (V_float f), Vector _ vec] \<Rightarrow>
         rcv_std_vector1 lm u f (as_double vec) | _ \<Rightarrow> False),
     checker ''rcv_std_vector2'' [ScalarArg T_uint32, ScalarArg T_float, VectorArg T_float, ScalarArg T_double, ScalarArg T_int32]
       (\<lambda>args. case args of [Scalar (V_uint32 u), Scalar (V_float f), Vector _ vec, Scalar (V_double d), Scalar (V_int32 i)] \<Rightarrow>
         rcv_std_vector2 lm u f (as_float vec) d i | _ \<Rightarrow> False),
     checker ''rcv_std_vector3'' [ArrayArg T_uint32 8192, VectorArg T_float, ScalarArg T_double, ScalarArg T_int32]
       (\<lambda>args. case args of [StdArray _ arr, Vector _ vec, Scalar (V_double d), Scalar (V_int32 i)] \<Rightarrow>
         rcv_std_vector3 lm (as_u32 arr) (as_float vec) d i | _ \<Rightarrow> False),
     checker ''rcv_std_vector4'' [VectorArg T_float, ScalarArg T_double, ScalarArg T_int32, ArrayArg T_uint32 8192]
       (\<lambda>args. case args of [Vector _ vec, Scalar (V_double d), Scalar (V_int32 i), StdArray _ arr] \<Rightarrow>
         rcv_std_vector4 lm (as_float vec) d i (as_u32 arr) | _ \<Rightarrow> False),
     checker ''rcv_std_vector5'' [VectorArg T_float, ScalarArg T_double, ScalarArg T_int32, VectorArg T_float]
       (\<lambda>args. case args of [Vector _ vec1, Scalar (V_double d), Scalar (V_int32 i), Vector _ vec2] \<Rightarrow>
         rcv_std_vector5 lm (as_float vec1) d i (as_float vec2) | _ \<Rightarrow> False),
     checker ''rcv_std_string'' [StringArg] (\<lambda>args. case args of [StdString str] \<Rightarrow> rcv_std_string str | _ \<Rightarrow> False),
     checker ''rcv_std_string1'' [StringArg] (\<lambda>args. case args of [StdString str] \<Rightarrow> rcv_std_string1 str | _ \<Rightarrow> False),
     checker ''rcv_std_string2'' [StringArg, VectorArg T_float, ScalarArg T_double, ScalarArg T_int32]
       (\<lambda>args. case args of [StdString str, Vector _ vec, Scalar (V_double d), Scalar (V_int32 i)] \<Rightarrow>
         rcv_std_string2 lm str (as_float vec) d i | _ \<Rightarrow> False),
     checker ''rcv_std_string3'' [VectorArg T_float, ScalarArg T_double, ScalarArg T_int32, StringArg, ArrayArg T_uint32 8192]
       (\<lambda>args. case args of [Vector _ vec, Scalar (V_double d), Scalar (V_int32 i), StdString str, StdArray _ arr] \<Rightarrow>
         rcv_std_string3 lm (as_float vec) d i str (as_u32 arr) | _ \<Rightarrow> False),
     giving ''get_cstr'' [CString get_cstr],
     giving ''get_std_string'' [StdString get_std_string],
     giving ''get_json'' [StdString get_json],
     giving ''get_json2'' [StdString get_json2],
     giving ''get_tuple'' (map Scalar get_tuple),
     giving ''get_tuple2'' (map Scalar get_tuple2),
     giving ''get_tuple3'' (map Scalar get_tuple3),
     giving ''get_tuple4'' (map Scalar get_tuple4),
     giving ''read_uint64'' [Scalar (V_uint64 read_uint64)],
     giving ''read_int'' [Scalar (V_int32 read_int)],
     giving ''read_uint'' [Scalar (V_uint32 read_uint)],
     giving ''read_ulong'' [Scalar (V_uint32 read_ulong)],
     giving ''read_ulonglong'' [Scalar (V_uint64 read_ulonglong)],
     giving ''read_float'' [Scalar (V_float read_float)],
     giving ''read_double'' [Scalar (V_double read_double)],
     giving ''read_bool'' [Scalar (V_bool read_bool)]]"

definition benchmarks_operations :: "test_devices dev_operation list" where
  "benchmarks_operations = [
     \<lparr>op_name = ''std_vector_u32_to_client'', op_arguments = [], op_void = False,
       op_method = Pure (\<lambda>_ w. ([Vector T_uint32 (map V_uint32 (vector_u (benchmarks w)))], w))\<rparr>,
     \<lparr>op_name = ''std_vector_f_to_client'', op_arguments = [], op_void = False,
       op_method = Pure (\<lambda>_ w. ([Vector T_float (map V_float (vector_f (benchmarks w)))], w))\<rparr>,
     \<lparr>op_name = ''std_array_u32_to_client'', op_arguments = [], op_void = False,
       op_method = Pure (\<lambda>_ w. ([StdArray T_uint32 (map V_uint32 (array_u (benchmarks w)))], w))\<rparr>,
     checker ''std_vector_u32_from_client'' [VectorArg T_uint32]
       (\<lambda>args. case args of [Vector _ vec] \<Rightarrow> std_vector_u32_from_client (as_u32 vec) | _ \<Rightarrow> False),
     checker ''std_array_u32_from_client'' [ArrayArg T_uint32 5000]
       (\<lambda>args. case args of [StdArray _ arr] \<Rightarrow> std_array_u32_from_client (as_u32 arr) | _ \<Rightarrow> False)]"

definition exception_tests_operations :: "test_devices dev_operation list" where
  "exception_tests_operations = [
     giving ''ret_type_exception'' [Scalar (V_bool True)],
     on_exception_tests ''std_array_type_exception'' (\<lambda>e. map_prod (\<lambda>v. StdArray T_float (map V_float v)) id (array_exception e)),
     on_exception_tests ''std_array_size_exception'' (\<lambda>e. map_prod (\<lambda>v. StdArray T_float (map V_float v)) id (array_exception e)),
     on_exception_tests ''std_vector_exception'' (\<lambda>e. map_prod (\<lambda>v. Vector T_uint32 (map V_uint32 v)) id (std_vector_exception e)),
     giving ''std_tuple_exception'' (map Scalar std_tuple_exception)]"

definition uses_context_operations :: "nat \<Rightarrow> test_devices dev_operation list" where
  "uses_context_operations dev = [
     checker ''set_float_from_tests'' [ScalarArg T_float] (\<lambda>args. case args of [Scalar (V_float f)] \<Rightarrow> set_float f | _ \<Rightarrow> False),
     \<lparr>op_name = ''is_myself'', op_arguments = [], op_void = False,
       op_method = InContext (\<lambda>_ ks. bind_res (is_myself dev ks) (\<lambda>(b, ks). Ret ([Scalar (V_bool b)], ks)))\<rparr>,
     \<lparr>op_name = ''log'', op_arguments = [StringArg], op_void = True,
       op_method = InContext (\<lambda>args ks. case args of
         [StdString msg] \<Rightarrow> bind_res (uses_log msg ks) (\<lambda>ks. Ret ([], ks)) | _ \<Rightarrow> Undef)\<rparr>,
     \<lparr>op_name = ''notify'', op_arguments = [StringArg], op_void = True,
       op_method = InContext (\<lambda>args ks. case args of
         [StdString msg] \<Rightarrow> bind_res (uses_notify dev msg ks) (\<lambda>ks. Ret ([], ks)) | _ \<Rightarrow> Undef)\<rparr>]"

text \<open>The classes in the order of the configuration: their numbers are 2 to 5.\<close>

definition test_classes :: "libm \<Rightarrow> test_devices dev_class list" where
  "test_classes lm = [
     \<lparr>class_name = ''Tests'', class_requires = [],
       class_build = (\<lambda>w. w\<lparr>tests := Tests (tests w)\<rparr>), class_operations = tests_operations lm\<rparr>,
     \<lparr>class_name = ''Benchmarks'', class_requires = [],
       class_build = (\<lambda>w. w\<lparr>benchmarks := Benchmarks\<rparr>), class_operations = benchmarks_operations\<rparr>,
     \<lparr>class_name = ''ExceptionTests'', class_requires = [],
       class_build = (\<lambda>w. w\<lparr>exception_tests := ExceptionTests (exception_tests w)\<rparr>),
       class_operations = exception_tests_operations\<rparr>,
     \<lparr>class_name = ''UsesContext'', class_requires = [2, 3, 4],
       class_build = (\<lambda>w. w), class_operations = uses_context_operations 5\<rparr>]"

section \<open>The devices are well formed\<close>

definition replies_typed :: "'w dev_operation \<Rightarrow> bool" where
  "replies_typed op \<longleftrightarrow> (case op_method op of Pure f \<Rightarrow> \<forall>args w. reply_typed (fst (f args w)) | InContext _ \<Rightarrow> True)"

lemma replies_typed_checker [simp]: "replies_typed (checker name arguments f)"
  by (simp add: replies_typed_def checker_def reply_typed_def SCALAR_PACK_LEN_def)

lemma replies_typed_giving [simp]: "replies_typed (giving name ret) = reply_typed ret"
  by (simp add: replies_typed_def giving_def)

lemma all_typed [simp]:
  "list_all (\<lambda>v. type_of v = T_uint32) (map V_uint32 us)" "list_all (\<lambda>v. type_of v = T_int32) (map V_int32 is)"
  "list_all (\<lambda>v. type_of v = T_float) (map V_float fs)"
  by (simp_all add: list_all_iff)

lemma reply_container [simp]:
  "reply_typed [Vector t vs] = list_all (\<lambda>v. type_of v = t) vs" "reply_typed [StdArray t vs] = list_all (\<lambda>v. type_of v = t) vs"
  by (simp_all add: reply_typed_def)

lemma replies_typed_on [simp]:
  "(\<And>args t. reply_typed [fst (f args t)]) \<Longrightarrow> replies_typed (on_tests name arguments f)"
  "(\<And>e. reply_typed [fst (h e)]) \<Longrightarrow> replies_typed (on_exception_tests name h)"
  by (simp_all add: replies_typed_def on_tests_def on_exception_tests_def split_beta)

lemma tests_replies: "list_all replies_typed (tests_operations lm)"
  unfolding tests_operations_def
  by (simp add: reply_typed_def get_cstr_def bytes_of_string_def get_tuple_def get_tuple2_def get_tuple3_def get_tuple4_def
      SCALAR_PACK_LEN_def)

lemma test_replies:
  assumes "dev \<in> set (test_classes lm)" and "op \<in> set (class_operations dev)"
  shows "replies_typed op"
proof -
  have "list_all replies_typed benchmarks_operations" "list_all replies_typed exception_tests_operations"
    "list_all replies_typed (uses_context_operations d)" for d
    by (simp_all add: benchmarks_operations_def exception_tests_operations_def uses_context_operations_def)
      (simp_all add: replies_typed_def reply_typed_def std_tuple_exception_def SCALAR_PACK_LEN_def)
  with tests_replies assms show ?thesis by (auto simp: test_classes_def list_all_iff)
qed

text \<open>The static assertions hold: the tests compile.\<close>

lemma tests_asserted: "list_all (\<lambda>op. buffer_size_asserted (op_arguments op)) (tests_operations lm)"
  unfolding tests_operations_def
  by (simp add: checker_def giving_def on_tests_def buffer_size_asserted_def build_args_packs_def flush_scalars_def
      req_buff_size_def size_of_array_def calc_array_length_def CMD_PAYLOAD_BUFFER_LEN_def)

text \<open>The constructors ask for devices of smaller numbers only: every device can be built.\<close>

lemma test_devices_acyclic: "acyclic_by (\<lambda>d. d) (generate ver json t g mems (test_classes lm))"
  unfolding acyclic_by_def
  by (auto simp: generate_def test_classes_def devs_def nth_Cons' split: if_splits)

section \<open>A project with the devices of the tests\<close>

definition some_libm :: libm where
  "some_libm = \<lparr>m_log = (\<lambda>_. NaN), m_sin = (\<lambda>_. NaN), m_cos = (\<lambda>_. NaN), m_tanh = (\<lambda>_. NaN), m_log2 = (\<lambda>_. NaN), m_sqrt = (\<lambda>_. NaN)\<rparr>"

definition fresh_args :: args_memory where
  "fresh_args = \<lparr>old_vectors = (\<lambda>_ _. []), old_strings = (\<lambda>_. [])\<rparr>"

definition test_external :: "test_devices external" where
  "test_external = generate [] [] 12 (\<lambda>_. 255) (\<lambda>_ _. fresh_args) (test_classes some_libm)"

definition test_state :: test_devices where
  "test_state = \<lparr>tests = \<lparr>data = [], data_u = [], data_i = [1], t_buffer = [], data_std_array = replicate 10 (Float32 7),
     data_std_array2 = replicate 512 7, data_std_array3 = replicate 48 7\<rparr>,
     benchmarks = \<lparr>vector_u = [], vector_f = [], array_u = []\<rparr>, exception_tests = \<lparr>std_array = [], std_vector = []\<rparr>\<rparr>"

definition test_server :: "session \<Rightarrow> test_devices kserver" where
  "test_server se =
     \<lparr>config = KServerConfig, s_interrupted = False, exit_comm = False, exit_all = False,
      tcp_listener = ListeningChannel, websock_listener = ListeningChannel, unix_listener = ListeningChannel,
      dev_manager = \<lparr>cont_is_started = replicate 4 True, cont_is_starting = replicate 4 False, devtup = replicate 4 True,
        device_list = replicate 4 True, dm_is_started = replicate 4 True\<rparr>,
      session_pool = [(0, se)], reusable_ids = [], num_sess = 1, subscribers = Subscribers, server_start_time = 0,
      devices = test_state, shutdown_ret = (\<lambda>_. 0), trace = []\<rparr>"

text \<open>A client that tries \<open>set_u64\<close>, \<open>rcv_std_string\<close> and \<open>send_std_vector3\<close>.\<close>

definition test_messages :: "message list" where
  "test_messages = [(2, 3, [Scalar (V_uint64 2225073854759576792)]), (2, 24, [StdString (lit ''Hello World'')]), (2, 9, [])]"

definition test_bytes :: "byte list" where
  "test_bytes = concat (map message_bytes test_messages)"

definition test_session :: session where
  "test_session = Session TCP (connection_of \<lparr>rx = [RxData (take 5 test_bytes), RxData (drop 5 test_bytes), RxEof],
     tx = [TxAccept 100, TxAccept 100, TxAccept 100], sent = []\<rparr>) 0"

definition squares :: "u32 list" where
  "squares = map (\<lambda>i. - word_of_nat i * word_of_nat i) [0 ..< 20]"

definition expected_replies :: "byte list list" where
  "expected_replies = [command_image 2 3 [Scalar (V_bool True)], command_image 2 24 [Scalar (V_bool True)],
     command_image 2 9 [Vector T_int32 (map V_int32 squares)]]"

lemma test_operations:
  "class_operations (test_classes lm ! 0) = tests_operations lm"
  "tests_operations lm ! 3 = checker ''set_u64'' [ScalarArg T_uint64] (\<lambda>args. case args of [Scalar (V_uint64 u)] \<Rightarrow> set_u64 u | _ \<Rightarrow> False)"
  "tests_operations lm ! 24 = checker ''rcv_std_string'' [StringArg] (\<lambda>args. case args of [StdString str] \<Rightarrow> rcv_std_string str | _ \<Rightarrow> False)"
  "tests_operations lm ! 9 = on_tests ''send_std_vector3'' [] (\<lambda>_ t. map_prod (\<lambda>v. Vector T_int32 (map V_int32 v)) id (send_std_vector3 t))"
  "length (tests_operations lm) = 44"
  by (simp_all add: test_classes_def tests_operations_def)

lemma test_bytes_eq: "test_bytes = [0, 0, 0, 0, 0, 2, 0, 3, 30, 225, 12, 225, 199, 244, 36, 216,
   0, 0, 0, 0, 0, 2, 0, 24, 0, 0, 0, 11, 72, 101, 108, 108, 111, 32, 87, 111, 114, 108, 100, 0, 0, 0, 0, 0, 2, 0, 9]"
  by code_simp

lemma vector3_squares: "send_std_vector3 t = (squares, t\<lparr>data_i := squares\<rparr>)"
  by (simp add: send_std_vector3_def assign_all_def squares_def Let_def)

lemma test_served:
  "served (table_reaction (test_classes lm)) test_messages test_state
   = (0, expected_replies, test_state\<lparr>tests := (tests test_state)\<lparr>data_i := squares\<rparr>\<rparr>)"
  by (simp add: test_messages_def table_reaction_def class_reaction_def test_operations checker_def on_tests_def Let_def
      set_u64_def rcv_std_string_def vector3_squares expected_replies_def)

lemma served_without_errors:
  assumes "\<forall>m \<in> set ms. P m \<and> message_ok (classes ! (unat (fst m) - 2)) m"
  shows "fst (served (table_reaction classes) ms v) = 0"
  using assms
proof (induction ms arbitrary: v)
  case (Cons m ms)
  obtain dev_id op_id args f where m: "m = (dev_id, op_id, args)"
    and "op_method (class_operations (classes ! (unat dev_id - 2)) ! unat op_id) = Pure f"
    using Cons.prems(1) by (cases m) (auto simp: message_ok_def)
  then have "\<not> fst (table_reaction classes m v) < 0"
    by (simp add: table_reaction_def class_reaction_def Let_def split_beta)
  with Cons show ?case by (auto simp: split_beta)
qed simp

section \<open>Properties\<close>



text \<open>C5: a generated device answers on every transport. A command whose arguments have the types of the
  operation, over TCP, a Unix socket or in one WebSocket frame: \<open>execute\<close> calls the method with
  exactly these arguments, keeps what it did to the devices, and sends what it returned to the
  session that asked, as one message with the device's and the operation's number; the socket gets
  these bytes and no others.\<close>

theorem generated_device_answers:
  assumes "cmd_of sid cmd" and "operation cmd = int i" and "i < length (class_operations dev)"
    and "map_sorted (session_pool ks)" and "map_at (session_pool ks) sid = Some se" and "session_id se = sid"
    and "session_inv (se, cmd)" and "session_pending (se, cmd) = concat (map arg_image args) @ rest"
    and "op_arguments (class_operations dev ! i) = map arg_type args" and "list_all arg_rcv_ok args"
    and "length (concat (map arg_image args)) < 2 ^ 31" and "\<forall>k. old_ok (old_vectors (mems k))"
    and "op_method (class_operations dev ! i) = Pure f" and "f args (devices ks) = (ret, w)"
    and "\<not> op_void (class_operations dev ! i)" and "reply_typed ret"
    and "length (scal_data (dyn_serializer se)) = SCALAR_PACK_LEN"
    and "length (command_image (word_of_nat dev_id) (word_of_nat i) ret) < 2 ^ 31"
    and "takes_message se (command_image (word_of_nat dev_id) (word_of_nat i) ret)"
  shows "\<exists>n se'. ks_execute g mems dev_id dev cmd ks = Ret (n, (put_session sid se' ks)\<lparr>devices := w\<rparr>) \<and> 0 < n
    \<and> status se' = status se
    \<and> sent (conn se') = sent (conn se) @ on_wire se (command_image (word_of_nat dev_id) (word_of_nat i) ret)"
proof -
  obtain cmd' se1 where ex: "ks_execute g mems dev_id dev cmd ks =
      (let ks' = (put_session sid se1 ks)\<lparr>devices := w\<rparr> in
       if op_void (class_operations dev ! i) then Ret (0, ks') else send_reply dev_id i ret cmd' ks')"
    and s1: "read_args se se1" "sess cmd' = Some sid"
    by (rule execute_calls [OF assms(1-14)])
  note fr = read_args_frame [OF s1(1)]
  let ?k = "(put_session sid se1 ks)\<lparr>devices := w\<rparr>"
  have at: "map_at (session_pool ?k) sid = Some se1" using at_put_session [OF assms(5), of se1] by simp
  obtain n se' where "send_reply dev_id i ret cmd' ?k = Ret (n, put_session sid se' ?k)" "0 < n" "status se' = status se1"
    "sent (conn se') = sent (conn se1) @ on_wire se1 (command_image (word_of_nat dev_id) (word_of_nat i) ret)"
    by (rule send_reply_takes [OF at _ s1(2) _ _ assms(16,18)]) (use assms(6,7,17,19) fr in \<open>auto simp: session_inv_def\<close>)
  with ex assms(15) fr show ?thesis by (intro exI [of _ n] exI [of _ se']) (simp add: Let_def on_wire_def)
qed

text \<open>\<open>rcv_std_string\<close> over a WebSocket.\<close>

definition hello_command :: command where
  "hello_command = (Command (replicate HEADER_SIZE 0)
     (arg_image (StdString (lit ''Hello World'')) @ replicate (CMD_PAYLOAD_BUFFER_LEN - 15) 0))
     \<lparr>sess_id := 0, sess := Some 0, device := 2, operation := 24\<rparr>"

definition hello_session :: session where
  "hello_session = Session WEBSOCK (connection_of \<lparr>rx = [], tx = [TxAccept 100], sent = []\<rparr>) 0"

theorem generated_device_answers_witness:
  "\<exists>n se'. ks_execute (\<lambda>_. 255) (\<lambda>_. fresh_args) 2 (test_classes some_libm ! 0) hello_command (test_server hello_session)
      = Ret (n, (put_session 0 se' (test_server hello_session))\<lparr>devices := test_state\<rparr>) \<and> 0 < n
    \<and> sent (conn se') = server_frame 0x82 (command_image 2 24 [Scalar (V_bool True)])"
proof -
  let ?args = "[StdString (lit ''Hello World'')]"
  have len: "length (lit ''Hello World'') = 11" by (simp add: bytes_of_string_def)
  have cmd: "cmd_of 0 hello_command" "operation hello_command = int 24" "session_inv (hello_session, hello_command)"
    "session_pending (hello_session, hello_command) = concat (map arg_image ?args) @ replicate (CMD_PAYLOAD_BUFFER_LEN - 15) 0"
    "length (concat (map arg_image ?args)) < 2 ^ 31"
    using len by (simp_all add: cmd_of_def hello_command_def Command_def Buffer_def CMD_PAYLOAD_BUFFER_LEN_def session_inv_def
        session_pending_def hello_session_def session_new payload_wf_def ws_pending_def)
  have ks: "map_sorted (session_pool (test_server hello_session))" "map_at (session_pool (test_server hello_session)) 0 = Some hello_session"
    "session_id hello_session = 0" "devices (test_server hello_session) = test_state"
    by (simp_all add: test_server_def map_sorted_def map_keys_def map_at_def hello_session_def session_new)
  have op: "24 < length (class_operations (test_classes some_libm ! 0))"
    "op_arguments (class_operations (test_classes some_libm ! 0) ! 24) = map arg_type ?args"
    "op_method (class_operations (test_classes some_libm ! 0) ! 24) =
      Pure (\<lambda>args w. ([Scalar (V_bool (case args of [StdString str] \<Rightarrow> rcv_std_string str | _ \<Rightarrow> False))], w))"
    "\<not> op_void (class_operations (test_classes some_libm ! 0) ! 24)"
    by (simp_all add: test_operations checker_def)
  have ret: "reply_typed [Scalar (V_bool True)]" "length (scal_data (dyn_serializer hello_session)) = SCALAR_PACK_LEN"
    "length (command_image (word_of_nat 2) (word_of_nat 24) [Scalar (V_bool True)]) < 2 ^ 31"
    by (simp_all add: reply_typed_def SCALAR_PACK_LEN_def hello_session_def session_new command_image_def)
  have tx: "takes_message hello_session (command_image (word_of_nat 2) (word_of_nat 24) [Scalar (V_bool True)])"
    by (simp add: takes_message_def hello_session_def session_new ws_wf_new)
      (simp add: WebSocket_def server_frame_def frame_length_def command_image_def WEBSOCK_SEND_BUF_LEN_def buffer_lengths IO_MAX_def)
  have f: "(\<lambda>args w. ([Scalar (V_bool (case args of [StdString str] \<Rightarrow> rcv_std_string str | _ \<Rightarrow> False))], w)) ?args
      (devices (test_server hello_session)) = ([Scalar (V_bool True)], test_state)"
    by (simp add: ks(4) rcv_std_string_def)
  have "list_all arg_rcv_ok ?args" "\<forall>k. old_ok (old_vectors ((\<lambda>_. fresh_args) k))" for k :: nat
    by (simp_all add: fresh_args_def old_ok_def)
  note answer = generated_device_answers [OF cmd(1,2) op(1) ks(1-3) cmd(3,4) op(2) this(1) cmd(5) this(2) op(3) f op(4) ret tx]
  have "sent (conn hello_session) = []" "on_wire hello_session msg = server_frame 0x82 msg" for msg
    by (simp_all add: on_wire_def hello_session_def session_new)
  with answer [of "\<lambda>_. 255"] show ?thesis by auto
qed

text \<open>C13: the static assertion that the generator emits is enough, where it is emitted. For an operation
  without vectors or strings whose arguments fit the payload buffer, whatever a WebSocket client
  sends: the parser never reads outside of the buffer, fails never, and takes exactly the asserted
  number of bytes.\<close>

theorem asserted_parser_in_bounds:
  assumes "buffer_size_asserted (op_arguments op)" and "\<not> snd (build_args_packs (op_arguments op))" and "op_arguments op \<noteq> []"
    and "cmd_of sid cmd" and "map_at (session_pool ks) sid = Some se" and "session_id se = sid" and "kind se = WEBSOCK"
  shows "\<exists>args. parser_generator g mem dev op cmd ks
    = Ret (0, args, skip (req_buff_size (fst (build_args_packs (op_arguments op)))) cmd, put_session sid se ks)"
proof -
  let ?ps = "fst (build_args_packs (op_arguments op))"
  have pos: "position (payload cmd) + req_buff_size ?ps \<le> length (buf_data (payload cmd))"
    using assms(1,2,4) by (auto simp: buffer_size_asserted_def cmd_of_def split: prod.splits)
  have vec: "\<forall>p \<in> set ?ps. (\<forall>t. p \<noteq> VectorPack t) \<and> p \<noteq> StringPack"
    using no_vector_packs [OF assms(2)] by blast
  obtain args where "parse_packs (session_ops g) (old_vectors mem) (old_strings mem) 0 ?ps (se, cmd)
      = Ret (0, args, (se, skip (req_buff_size ?ps) cmd))"
    using ws_packs_parsed [OF assms(7) vec pos, of g "old_vectors mem" "old_strings mem" 0] by (elim exE)
  note parsed = parse_args_received [OF this]
  have "cmd_session cmd ks = Ret se" using assms(4,5) by (simp add: cmd_session_pool)
  with assms(3) have "parser_generator g mem dev op cmd ks
      = parse_args g mem (''['' @ dev @ '' - '' @ op_name op @ ''] '') 0 ?ps (se, cmd) ks"
    by (simp add: parser_generator_def)
  also have "\<dots> = Ret (0, args, skip (req_buff_size ?ps) cmd, put_session sid se ks)"
    unfolding parsed by (simp add: assms(6))
  finally show ?thesis by blast
qed

theorem asserted_parser_in_bounds_witness:
  "\<exists>args. parser_generator (\<lambda>_. 255) fresh_args ''Tests'' (tests_operations some_libm ! 5) hello_command (test_server hello_session)
    = Ret (0, args, skip 7 hello_command, put_session 0 hello_session (test_server hello_session))"
proof -
  let ?op = "tests_operations some_libm ! 5"
  have args: "op_arguments ?op = [ScalarArg T_uint8, ScalarArg T_uint16, ScalarArg T_uint32]"
    by (simp add: tests_operations_def checker_def)
  have packs: "build_args_packs [ScalarArg T_uint8, ScalarArg T_uint16, ScalarArg T_uint32]
      = ([ScalarPack [T_uint8, T_uint16, T_uint32]], False)"
    by (simp add: build_args_packs_def flush_scalars_def)
  have size: "req_buff_size (fst (build_args_packs (op_arguments ?op))) = 7" by (simp add: args packs req_buff_size_def)
  have "buffer_size_asserted (op_arguments ?op)" "\<not> snd (build_args_packs (op_arguments ?op))" "op_arguments ?op \<noteq> []"
    by (simp_all add: args packs buffer_size_asserted_def req_buff_size_def CMD_PAYLOAD_BUFFER_LEN_def)
  moreover have "cmd_of 0 hello_command" "kind hello_session = WEBSOCK" "session_id hello_session = 0"
    "map_at (session_pool (test_server hello_session)) 0 = Some hello_session"
    by (simp_all add: cmd_of_def hello_command_def Command_def Buffer_def bytes_of_string_def CMD_PAYLOAD_BUFFER_LEN_def
        test_server_def map_at_def hello_session_def session_new)
  ultimately show ?thesis
    using asserted_parser_in_bounds [of ?op 0 hello_command "test_server hello_session" hello_session] by (simp add: size)
qed

text \<open>C14: where it is not emitted, a client can make the server read outside of the buffer. For an operation
  whose first argument is a string or a vector, the length that the client sends is compared with
  the size of the whole payload buffer, of which four bytes are already read: a WebSocket client
  that announces up to four bytes less than the size of the buffer, or the size itself, gets
  undefined behaviour.\<close>

theorem announced_length_overread:
  assumes "cmd_of sid cmd" and "operation cmd = int i" and "i < length (class_operations dev)"
    and "map_at (session_pool ks) sid = Some se" and "kind se = WEBSOCK"
    and "op_arguments (class_operations dev ! i) = StringArg # as"
    and "buf_data (payload cmd) = be32 n @ rest"
    and "CMD_PAYLOAD_BUFFER_LEN - 4 < unat n" and "unat n \<le> CMD_PAYLOAD_BUFFER_LEN"
  shows "ks_execute g mems dev_id dev cmd ks = Undef"
proof -
  have pos: "position (payload cmd) = 0" "length (buf_data (payload cmd)) = CMD_PAYLOAD_BUFFER_LEN"
    using assms(1) by (simp_all add: cmd_of_def)
  have "payload_wf cmd" "ws_pending cmd = be32 (word_of_nat (unat n)) @ rest"
    using pos assms(7) by (simp_all add: payload_wf_def ws_pending_def)
  moreover have "unat n < 2 ^ 31" using assms(9) by (simp add: CMD_PAYLOAD_BUFFER_LEN_def)
  ultimately have "ws_length cmd = Ret (unat n, skip 4 cmd)" by (rule ws_length_pending)
  moreover have "buf_to_string (unat n) (payload (skip 4 cmd)) = None"
    using pos assms(8) by (simp add: buf_to_string_def peeks_def skip_def)
  ultimately have "op_recv_string (session_ops g) str (se, cmd) = Undef" for str
    using assms(5,9) by (simp add: session_ops_def switch_sock_type_def on_cmd_def ws_ops_def ws_recv_string_def)
  then have "parse_args g mem label 0 (fst (build_args_packs (StringArg # as))) (se, cmd) ks = Undef" for mem label
    by (simp add: build_args_packs_def build_packs_split flush_scalars_def parse_pack_def)
  with assms(1-4,6) show ?thesis
    by (simp add: ks_execute_def execute_op_def Let_def parser_generator_def cmd_session_pool)
qed

definition greedy_command :: command where
  "greedy_command = (Command (replicate HEADER_SIZE 0) (be32 0x20000 @ replicate (CMD_PAYLOAD_BUFFER_LEN - 4) 65))
     \<lparr>sess_id := 0, sess := Some 0, device := 2, operation := 24\<rparr>"

theorem announced_length_overread_witness:
  "ks_execute (\<lambda>_. 255) (\<lambda>_. fresh_args) 2 (test_classes some_libm ! 0) greedy_command (test_server hello_session) = Undef"
proof (rule announced_length_overread [where i = 24 and n = "0x20000" and sid = 0 and se = hello_session and as = "[]"
      and rest = "replicate (CMD_PAYLOAD_BUFFER_LEN - 4) 65"])
  show "cmd_of 0 greedy_command" "operation greedy_command = int 24"
    "buf_data (payload greedy_command) = be32 0x20000 @ replicate (CMD_PAYLOAD_BUFFER_LEN - 4) 65"
    by (simp_all add: greedy_command_def cmd_of_def Command_def Buffer_def CMD_PAYLOAD_BUFFER_LEN_def)
  show "kind hello_session = WEBSOCK" "map_at (session_pool (test_server hello_session)) 0 = Some hello_session"
    by (simp_all add: test_server_def map_at_def hello_session_def session_new)
qed (simp_all add: test_operations checker_def CMD_PAYLOAD_BUFFER_LEN_def)

end
